(* ===== verification/Prelude.thy ===== *)
theory Prelude
  imports Main "HOL-Library.Word" "HOL-Library.Multiset" "HOL-Library.Signed_Division"
begin

text \<open>
  What every component shares: the fault values that stand for a panic, an exception or
  undefined behaviour of the C++ code, the result type with its bind and its loops, checked
  vector and hash-map access, and the C++ integer types with their conversions.
\<close>

section \<open>Collections of rewrite rules\<close>

named_theorems res_simps \<open>evaluation of results, binds and loops over results\<close>
named_theorems model_defs \<open>definitions of small operations that proofs may unfold\<close>

section \<open>Faults and results\<close>

text \<open>
  \<open>Panic\<close> is a call of \<open>panic(...)\<close>, \<open>Throw\<close> an exception, \<open>Undefined\<close> a use that C++
  leaves undefined (an out-of-range index, a division by zero, a signed overflow, a float
  to integer conversion out of range), \<open>Exit\<close> a call of \<open>exit\<close> and \<open>Blocked\<close> a wait
  that only another thread can end.
\<close>

datatype fault = Panic string | Throw string | Undefined string | Exit int | Blocked string

type_synonym 'a res = "fault + 'a"

definition bindR :: "'a res \<Rightarrow> ('a \<Rightarrow> 'b res) \<Rightarrow> 'b res" where
  "bindR m f = (case m of Inl e \<Rightarrow> Inl e | Inr x \<Rightarrow> f x)"

definition guardR :: "bool \<Rightarrow> fault \<Rightarrow> unit res" where
  "guardR b e = (if b then Inr () else Inl e)"

definition mapR :: "('a \<Rightarrow> 'b) \<Rightarrow> 'a res \<Rightarrow> 'b res" where
  "mapR f m = bindR m (\<lambda>x. Inr (f x))"

definition returns :: "'a res \<Rightarrow> bool" where
  "returns m = (case m of Inl _ \<Rightarrow> False | Inr _ \<Rightarrow> True)"

lemma bindR_simps [simp, res_simps]:
  "bindR (Inl e) f = Inl e"
  "bindR (Inr x) f = f x"
  by (simp_all add: bindR_def)

lemma bindR_Inr_iff [res_simps]: "bindR m f = Inr y \<longleftrightarrow> (\<exists>x. m = Inr x \<and> f x = Inr y)"
  by (cases m) simp_all

lemma bindR_Inl_iff: "bindR m f = Inl e \<longleftrightarrow> m = Inl e \<or> (\<exists>x. m = Inr x \<and> f x = Inl e)"
  by (cases m) simp_all

lemma bindR_assoc: "bindR (bindR m f) g = bindR m (\<lambda>x. bindR (f x) g)"
  by (cases m) simp_all

lemma guardR_simps [simp, res_simps]:
  "guardR True e = Inr ()"
  "guardR False e = Inl e"
  by (simp_all add: guardR_def)

lemma guardR_Inr_iff [simp, res_simps]: "guardR b e = Inr u \<longleftrightarrow> b"
  by (simp add: guardR_def)

lemma mapR_simps [simp, res_simps]:
  "mapR f (Inl e) = Inl e"
  "mapR f (Inr x) = Inr (f x)"
  by (simp_all add: mapR_def)

lemma mapR_Inr_iff [res_simps]: "mapR f m = Inr y \<longleftrightarrow> (\<exists>x. m = Inr x \<and> y = f x)"
  by (cases m) auto

lemma returns_simps [simp]: "returns (Inr x)" "\<not> returns (Inl e)"
  by (simp_all add: returns_def)

lemma returns_iff: "returns m \<longleftrightarrow> (\<exists>x. m = Inr x)"
  by (cases m) simp_all

section \<open>Loops whose body may fail\<close>

fun foldR :: "('a \<Rightarrow> 's \<Rightarrow> 's res) \<Rightarrow> 'a list \<Rightarrow> 's \<Rightarrow> 's res" where
  "foldR f [] s = Inr s"
| "foldR f (x # xs) s = bindR (f x s) (foldR f xs)"

fun mapMR :: "('a \<Rightarrow> 'b res) \<Rightarrow> 'a list \<Rightarrow> 'b list res" where
  "mapMR f [] = Inr []"
| "mapMR f (x # xs) = bindR (f x) (\<lambda>y. bindR (mapMR f xs) (\<lambda>ys. Inr (y # ys)))"

declare foldR.simps [res_simps] mapMR.simps [res_simps]

lemma foldR_append: "foldR f (xs @ ys) s = bindR (foldR f xs s) (foldR f ys)"
proof (induction xs arbitrary: s)
  case Nil
  then show ?case by simp
next
  case (Cons x xs)
  show ?case by (cases "f x s") (simp_all add: Cons)
qed

text \<open>An invariant of the body is an invariant of the loop.\<close>

lemma foldR_invariant:
  assumes "foldR f xs s = Inr t" and "P s"
    and "\<And>x s t. x \<in> set xs \<Longrightarrow> P s \<Longrightarrow> f x s = Inr t \<Longrightarrow> P t"
  shows "P t"
  using assms
proof (induction xs arbitrary: s)
  case Nil
  then show ?case by simp
next
  case (Cons x xs)
  from Cons.prems(1) obtain u where u: "f x s = Inr u" and rest: "foldR f xs u = Inr t"
    by (auto simp: bindR_Inr_iff)
  have "P u" using Cons.prems(2,3) u by auto
  with rest show ?case using Cons.IH Cons.prems(3) by auto
qed

text \<open>A loop whose body returns under an invariant returns, with the invariant.\<close>

lemma foldR_total:
  assumes "P s"
    and "\<And>x s. x \<in> set xs \<Longrightarrow> P s \<Longrightarrow> \<exists>t. f x s = Inr t \<and> P t"
  shows "\<exists>t. foldR f xs s = Inr t \<and> P t"
  using assms
proof (induction xs arbitrary: s)
  case Nil
  then show ?case by simp
next
  case (Cons x xs)
  from Cons.prems obtain u where "f x s = Inr u" "P u" by (meson list.set_intros(1))
  with Cons show ?case by simp
qed

lemma foldR_pure: "foldR (\<lambda>x s. Inr (g x s)) xs s = Inr (fold g xs s)"
  by (induction xs arbitrary: s) simp_all

lemma foldR_cong_pure:
  "(\<And>x s. x \<in> set xs \<Longrightarrow> f x s = Inr (g x s)) \<Longrightarrow> foldR f xs s = Inr (fold g xs s)"
  by (induction xs arbitrary: s) simp_all

lemma mapMR_Inr_iff:
  "mapMR f xs = Inr ys \<longleftrightarrow> length ys = length xs \<and> (\<forall>i < length xs. f (xs ! i) = Inr (ys ! i))"
proof (induction xs arbitrary: ys)
  case Nil
  then show ?case by auto
next
  case (Cons x xs)
  show ?case
    by (cases ys) (auto simp: bindR_Inr_iff Cons nth_Cons less_Suc_eq_0_disj split: nat.splits)
qed

lemma mapMR_pure: "(\<And>x. x \<in> set xs \<Longrightarrow> f x = Inr (g x)) \<Longrightarrow> mapMR f xs = Inr (map g xs)"
  by (induction xs) simp_all

section \<open>Vectors and hash maps\<close>

text \<open>
  \<open>v[i]\<close> on a \<open>std::vector\<close> is undefined out of range. \<open>operator[]\<close> of a hash map inserts
  a value-initialised entry for a missing key.
\<close>

definition vec_at :: "'a list \<Rightarrow> nat \<Rightarrow> 'a res" where
  "vec_at v i = (if i < length v then Inr (v ! i) else Inl (Undefined ''vector index''))"

definition vec_set :: "'a list \<Rightarrow> nat \<Rightarrow> 'a \<Rightarrow> 'a list res" where
  "vec_set v i x = (if i < length v then Inr (v[i := x]) else Inl (Undefined ''vector index''))"

lemma vec_at_in [simp, res_simps]: "i < length v \<Longrightarrow> vec_at v i = Inr (v ! i)"
  by (simp add: vec_at_def)

lemma vec_at_out [simp, res_simps]: "length v \<le> i \<Longrightarrow> vec_at v i = Inl (Undefined ''vector index'')"
  by (simp add: vec_at_def)

lemma vec_at_Inr_iff: "vec_at v i = Inr x \<longleftrightarrow> i < length v \<and> x = v ! i"
  by (auto simp: vec_at_def)

lemma vec_set_in [simp, res_simps]: "i < length v \<Longrightarrow> vec_set v i x = Inr (v[i := x])"
  by (simp add: vec_set_def)

lemma vec_set_Inr_iff: "vec_set v i x = Inr w \<longleftrightarrow> i < length v \<and> w = v[i := x]"
  by (auto simp: vec_set_def)

definition vec_at_int :: "'a list \<Rightarrow> int \<Rightarrow> 'a res" where
  "vec_at_int v i = (if i < 0 then Inl (Undefined ''vector index'') else vec_at v (nat i))"

definition vec_set_int :: "'a list \<Rightarrow> int \<Rightarrow> 'a \<Rightarrow> 'a list res" where
  "vec_set_int v i x = (if i < 0 then Inl (Undefined ''vector index'') else vec_set v (nat i) x)"

lemma vec_at_int_in: "0 \<le> i \<Longrightarrow> i < int (length v) \<Longrightarrow> vec_at_int v i = Inr (v ! nat i)"
  by (simp add: vec_at_int_def nat_less_iff)

lemma vec_at_int_of_nat [simp]: "vec_at_int v (int i) = vec_at v i"
  by (simp add: vec_at_int_def)

lemma vec_set_int_of_nat [simp]: "vec_set_int v (int i) x = vec_set v i x"
  by (simp add: vec_set_int_def)

lemma length_filter_all: "length (filter P xs) = length xs \<longleftrightarrow> (\<forall>x \<in> set xs. P x)"
proof (induction xs)
  case (Cons x xs)
  have "length (filter P xs) \<noteq> Suc (length xs)" using length_filter_le [of P xs] by linarith
  with Cons show ?case by simp
qed simp

definition map_at :: "('k \<rightharpoonup> 'v) \<Rightarrow> 'k \<Rightarrow> 'v \<Rightarrow> 'v" where
  "map_at m k d = (case m k of None \<Rightarrow> d | Some v \<Rightarrow> v)"

definition map_touch :: "('k \<rightharpoonup> 'v) \<Rightarrow> 'k \<Rightarrow> 'v \<Rightarrow> ('k \<rightharpoonup> 'v)" where
  "map_touch m k d = m(k \<mapsto> map_at m k d)"

lemma map_at_simps [simp]:
  "map_at (m(k \<mapsto> v)) k d = v"
  "k' \<noteq> k \<Longrightarrow> map_at (m(k \<mapsto> v)) k' d = map_at m k' d"
  "map_at Map.empty k d = d"
  by (simp_all add: map_at_def)

lemma map_touch_at [simp]: "map_at (map_touch m k d) k' d = map_at m k' d"
  by (simp add: map_touch_def map_at_def)

lemma dom_map_touch [simp]: "dom (map_touch m k d) = insert k (dom m)"
  by (simp add: map_touch_def)

section \<open>C++ integers\<close>

text \<open>
  \<open>uint64_t\<close> and \<open>size_t\<close> are 64-bit words that wrap. An \<open>int\<close> is a HOL integer; where
  the code can leave its 32-bit range the result goes through \<open>ck_int\<close>, because signed
  overflow is undefined.
\<close>

type_synonym u64 = "64 word"

definition int_min :: int where "int_min = - (2 ^ 31)"
definition int_max :: int where "int_max = 2 ^ 31 - 1"

definition in_int :: "int \<Rightarrow> bool" where
  "in_int i \<longleftrightarrow> int_min \<le> i \<and> i \<le> int_max"

definition ck_int :: "int \<Rightarrow> int res" where
  "ck_int i = (if in_int i then Inr i else Inl (Undefined ''int overflow''))"

text \<open>A 64-bit value converted to \<open>int\<close> keeps its low 32 bits, read as two's complement.\<close>

definition int_of_u64 :: "u64 \<Rightarrow> int" where
  "int_of_u64 w = sint (ucast w :: 32 word)"

text \<open>C++ \<open>/\<close> and \<open>%\<close> on \<open>int\<close> truncate towards zero; a zero divisor is undefined.\<close>

definition int_div :: "int \<Rightarrow> int \<Rightarrow> int res" where
  "int_div a b = (if b = 0 then Inl (Undefined ''division by zero'') else ck_int (a sdiv b))"

definition int_mod :: "int \<Rightarrow> int \<Rightarrow> int res" where
  "int_mod a b = (if b = 0 then Inl (Undefined ''division by zero'')
                  else bindR (ck_int (a sdiv b)) (\<lambda>_. Inr (a smod b)))"

definition u64_div :: "u64 \<Rightarrow> u64 \<Rightarrow> u64 res" where
  "u64_div a b = (if b = 0 then Inl (Undefined ''division by zero'') else Inr (a div b))"

definition u64_mod :: "u64 \<Rightarrow> u64 \<Rightarrow> u64 res" where
  "u64_mod a b = (if b = 0 then Inl (Undefined ''division by zero'') else Inr (a mod b))"

lemma sdiv_nonneg: "0 \<le> a \<Longrightarrow> 0 < b \<Longrightarrow> a sdiv b = a div (b :: int)"
  by (cases "a = 0") (simp_all add: signed_divide_int_def)

lemma smod_nonneg: "0 \<le> a \<Longrightarrow> 0 < b \<Longrightarrow> a smod b = a mod (b :: int)"
  by (cases "a = 0") (simp_all add: signed_modulo_int_def)

lemma ck_int_in [simp]: "in_int i \<Longrightarrow> ck_int i = Inr i"
  by (simp add: ck_int_def)

lemma ck_int_Inr_iff: "ck_int i = Inr j \<longleftrightarrow> in_int i \<and> j = i"
  by (auto simp: ck_int_def)

lemma in_int_between: "in_int b \<Longrightarrow> 0 \<le> a \<Longrightarrow> a \<le> b \<Longrightarrow> in_int a"
  by (simp add: in_int_def int_min_def int_max_def)

lemma div_le_self_int: "0 \<le> a \<Longrightarrow> 0 < b \<Longrightarrow> a div b \<le> (a :: int)"
  using zdiv_mono2 [of a 1 b] by simp

lemma int_mod_pos [simp]:
  assumes "0 \<le> a" "0 < b" "in_int a"
  shows "int_mod a b = Inr (a mod b)"
proof -
  have "in_int (a div b)"
    using assms div_le_self_int in_int_between pos_imp_zdiv_nonneg_iff by metis
  then show ?thesis using assms by (simp add: int_mod_def sdiv_nonneg smod_nonneg)
qed

lemma int_div_pos [simp]:
  assumes "0 \<le> a" "0 < b" "in_int a"
  shows "int_div a b = Inr (a div b)"
proof -
  have "in_int (a div b)"
    using assms div_le_self_int in_int_between pos_imp_zdiv_nonneg_iff by metis
  then show ?thesis using assms by (simp add: int_div_def sdiv_nonneg)
qed

lemma int_mod_zero [simp]: "int_mod a 0 = Inl (Undefined ''division by zero'')"
  by (simp add: int_mod_def)

lemma unat_of_nat_u64 [simp]: "n < 2 ^ 64 \<Longrightarrow> unat (of_nat n :: u64) = n"
  by (simp add: unat_of_nat take_bit_nat_eq_self)

lemma of_nat_unat_u64: "of_nat (unat (w :: u64)) = w"
  by simp

lemma unat_below_u64: "unat (w :: u64) < 2 ^ 64"
  using unsigned_less [of w] by simp

lemma int_of_u64_small: "unat w < 2 ^ 31 \<Longrightarrow> int_of_u64 w = int (unat w)"
proof -
  assume a: "unat w < 2 ^ 31"
  have u: "uint w = int (unat w)" by simp
  have "int (unat w) < int (2 ^ 31)" using a by (simp only: of_nat_less_iff)
  then have lt: "uint w < 2 ^ 31" unfolding u by simp
  then have "take_bit 32 (uint w) = uint w" by (simp add: take_bit_int_eq_self)
  moreover have "signed_take_bit 31 (uint w) = uint w"
    by (rule signed_take_bit_int_eq_self) (use lt uint_ge_0 [of w] in linarith)+
  ultimately show ?thesis
    by (simp add: int_of_u64_def sint_uint unsigned_ucast_eq)
qed

section \<open>Sums over lists\<close>

lemma sum_list_mset_eq: "mset xs = mset ys \<Longrightarrow> sum_list xs = sum_list ys" for xs :: "'a::comm_monoid_add list"
  by (metis sum_mset_sum_list)

end
