(* ===== verification/Cxx_Text.thy ===== *)
theory Cxx_Text
  imports Prelude
begin

text \<open>
  The part of the C++ text library that the sources use: \<open>std::to_string\<close>, \<open>std::stoi\<close>,
  \<open>std::stoull\<close>, formatted extraction \<open>>>\<close> of words, integers and characters, and
  \<open>std::getline\<close>, with the round trips between printing and reading that the file
  formats rest on.
\<close>

section \<open>Characters\<close>

definition is_space :: "char \<Rightarrow> bool" where
  "is_space c \<longleftrightarrow> (of_char c :: nat) = 32 \<or> (9 \<le> (of_char c :: nat) \<and> (of_char c :: nat) \<le> 13)"

definition is_digit :: "char \<Rightarrow> bool" where
  "is_digit c \<longleftrightarrow> 48 \<le> (of_char c :: nat) \<and> (of_char c :: nat) \<le> 57"

definition digit_val :: "char \<Rightarrow> nat" where
  "digit_val c = of_char c - 48"

definition digit_char :: "nat \<Rightarrow> char" where
  "digit_char d = char_of (48 + d)"

abbreviation newline :: char where "newline \<equiv> CHR 0x0A"

lemma digit_char_props:
  assumes "d < 10"
  shows "is_digit (digit_char d)" "digit_val (digit_char d) = d" "\<not> is_space (digit_char d)"
    "digit_char d \<noteq> CHR ''-''" "digit_char d \<noteq> CHR ''+''"
proof -
  have c: "(of_char (digit_char d) :: nat) = 48 + d"
    using assms by (simp add: digit_char_def)
  show "is_digit (digit_char d)" "digit_val (digit_char d) = d" "\<not> is_space (digit_char d)"
    using assms c by (simp_all add: is_digit_def digit_val_def is_space_def)
  have "(of_char (CHR ''-'') :: nat) = 45" "(of_char (CHR ''+'') :: nat) = 43" by simp_all
  with c show "digit_char d \<noteq> CHR ''-''" "digit_char d \<noteq> CHR ''+''" by auto
qed

lemma space_not_digit: "is_space c \<Longrightarrow> \<not> is_digit c"
  by (auto simp: is_space_def is_digit_def)

lemma is_space_literals [simp]:
  "is_space (CHR '' '')" "is_space newline" "\<not> is_space (CHR ''R'')" "\<not> is_space (CHR ''-'')"
  "\<not> is_space (CHR ''+'')"
  by (simp_all add: is_space_def)

lemma is_digit_literals [simp]:
  "\<not> is_digit (CHR '' '')" "\<not> is_digit newline" "\<not> is_digit (CHR ''-'')" "\<not> is_digit (CHR ''+'')"
  by (simp_all add: is_digit_def)

section \<open>Printing decimals\<close>

fun to_string_nat :: "nat \<Rightarrow> string" where
  "to_string_nat n = (if n < 10 then [digit_char n] else to_string_nat (n div 10) @ [digit_char (n mod 10)])"

declare to_string_nat.simps [simp del]

definition to_string_int :: "int \<Rightarrow> string" where
  "to_string_int i = (if i < 0 then CHR ''-'' # to_string_nat (nat (- i)) else to_string_nat (nat i))"

definition digits_value :: "string \<Rightarrow> nat" where
  "digits_value ds = foldl (\<lambda>a c. 10 * a + digit_val c) 0 ds"

lemma to_string_nat_digits: "\<forall>c \<in> set (to_string_nat n). is_digit c"
proof (induction n rule: to_string_nat.induct)
  case (1 n)
  then show ?case
    by (subst to_string_nat.simps) (auto simp: digit_char_props)
qed

lemma to_string_nat_nonempty [simp]: "to_string_nat n \<noteq> []"
  by (subst to_string_nat.simps) simp

lemma digits_value_to_string [simp]: "digits_value (to_string_nat n) = n"
proof (induction n rule: to_string_nat.induct)
  case (1 n)
  show ?case
  proof (cases "n < 10")
    case True
    then show ?thesis by (subst to_string_nat.simps) (simp add: digits_value_def digit_char_props)
  next
    case False
    then have "digits_value (to_string_nat (n div 10)) = n div 10" using 1 by simp
    with False show ?thesis
      by (subst to_string_nat.simps) (simp add: digits_value_def digit_char_props)
  qed
qed

lemma to_string_nat_no_space: "c \<in> set (to_string_nat n) \<Longrightarrow> \<not> is_space c"
  using to_string_nat_digits space_not_digit by blast

lemma to_string_nat_inj: "to_string_nat m = to_string_nat n \<longleftrightarrow> m = n"
  using digits_value_to_string by metis

section \<open>Parsing numbers\<close>

text \<open>
  \<open>split_sign\<close> is the optional sign that \<open>strtol\<close> and \<open>strtoull\<close> accept after leading white
  space; \<open>scan_digits\<close> the longest run of digits that follows, with the rest.
\<close>

fun split_sign :: "string \<Rightarrow> bool \<times> string" where
  "split_sign [] = (False, [])"
| "split_sign (c # cs) =
     (if c = CHR ''-'' then (True, cs) else if c = CHR ''+'' then (False, cs) else (False, c # cs))"

definition scan_digits :: "string \<Rightarrow> string \<times> string" where
  "scan_digits s = (takeWhile is_digit s, dropWhile is_digit s)"

definition stoi :: "string \<Rightarrow> int res" where
  "stoi s =
     (let (neg, t) = split_sign (dropWhile is_space s); ds = fst (scan_digits t)
      in if ds = [] then Inl (Throw ''invalid_argument'')
         else let v = (if neg then - int (digits_value ds) else int (digits_value ds))
              in if in_int v then Inr v else Inl (Throw ''out_of_range''))"

definition stoull :: "string \<Rightarrow> u64 res" where
  "stoull s =
     (let (neg, t) = split_sign (dropWhile is_space s); ds = fst (scan_digits t)
      in if ds = [] then Inl (Throw ''invalid_argument'')
         else if int (digits_value ds) < 2 ^ 64
              then Inr (if neg then - of_nat (digits_value ds) else of_nat (digits_value ds))
              else Inl (Throw ''out_of_range''))"

lemma dropWhile_space_id: "\<forall>c \<in> set s. \<not> is_space c \<Longrightarrow> dropWhile is_space s = s"
  by (cases s) simp_all

lemma digit_not_sign: "is_digit c \<Longrightarrow> c \<noteq> CHR ''-''" "is_digit c \<Longrightarrow> c \<noteq> CHR ''+''"
  by (auto simp: is_digit_def)

lemma split_sign_digits: "\<forall>c \<in> set s. is_digit c \<Longrightarrow> split_sign s = (False, s)"
  by (cases s) (simp_all add: digit_not_sign)

lemma scan_digits_append:
  assumes "\<forall>c \<in> set ds. is_digit c" and "r = [] \<or> \<not> is_digit (hd r)"
  shows "scan_digits (ds @ r) = (ds, r)"
proof -
  have "takeWhile is_digit r = []" "dropWhile is_digit r = r"
    using assms(2) by (cases r; simp)+
  with assms(1) show ?thesis
    by (simp add: scan_digits_def takeWhile_append2 dropWhile_append2)
qed

lemma number_scan [simp]:
  "dropWhile is_space (to_string_nat n) = to_string_nat n"
  "split_sign (to_string_nat n) = (False, to_string_nat n)"
  "scan_digits (to_string_nat n) = (to_string_nat n, [])"
proof -
  show "dropWhile is_space (to_string_nat n) = to_string_nat n"
    by (rule dropWhile_space_id) (simp add: to_string_nat_no_space)
  show "split_sign (to_string_nat n) = (False, to_string_nat n)"
    by (rule split_sign_digits) (rule to_string_nat_digits)
  show "scan_digits (to_string_nat n) = (to_string_nat n, [])"
    using scan_digits_append [OF to_string_nat_digits, of "[]" n] by simp
qed

lemma stoi_to_string: "n < 2 ^ 31 \<Longrightarrow> stoi (to_string_nat n) = Inr (int n)"
proof -
  assume "n < 2 ^ 31"
  then have "in_int (int n)" by (simp add: in_int_def int_min_def int_max_def)
  then show ?thesis by (simp add: stoi_def)
qed

lemma stoull_to_string: "n < 2 ^ 64 \<Longrightarrow> stoull (to_string_nat n) = Inr (of_nat n)"
  by (simp add: stoull_def)

lemma stoi_in_int: "stoi s = Inr v \<Longrightarrow> in_int v"
  by (auto simp: stoi_def Let_def split: prod.splits if_splits)

section \<open>Formatted extraction\<close>

text \<open>
  \<open>extract_word\<close>, \<open>extract_int\<close> and \<open>extract_char\<close> are \<open>>>\<close> into a string, an \<open>int\<close> and a
  \<open>char\<close>: each skips white space first; \<open>None\<close> is a stream that has failed.
\<close>

definition skip_space :: "string \<Rightarrow> string" where
  "skip_space s = dropWhile is_space s"

definition extract_word :: "string \<Rightarrow> (string \<times> string) option" where
  "extract_word s =
     (let t = skip_space s; w = takeWhile (\<lambda>c. \<not> is_space c) t
      in if w = [] then None else Some (w, dropWhile (\<lambda>c. \<not> is_space c) t))"

definition extract_int :: "string \<Rightarrow> (int \<times> string) option" where
  "extract_int s =
     (let (neg, t) = split_sign (skip_space s); (ds, r) = scan_digits t
      in if ds = [] then None
         else let v = (if neg then - int (digits_value ds) else int (digits_value ds))
              in if in_int v then Some (v, r) else None)"

fun extract_char :: "string \<Rightarrow> (char \<times> string) option" where
  "extract_char s = (case skip_space s of [] \<Rightarrow> None | c # r \<Rightarrow> Some (c, r))"

declare extract_char.simps [simp del]

definition is_word :: "string \<Rightarrow> bool" where
  "is_word w \<longleftrightarrow> w \<noteq> [] \<and> (\<forall>c \<in> set w. \<not> is_space c)"

lemma skip_space_length: "length (skip_space s) \<le> length s"
  by (simp add: skip_space_def length_dropWhile_le)

lemma skip_space_Cons [simp]: "is_space c \<Longrightarrow> skip_space (c # s) = skip_space s"
  "\<not> is_space c \<Longrightarrow> skip_space (c # s) = c # s"
  by (simp_all add: skip_space_def)

lemma skip_space_Nil [simp]: "skip_space [] = []"
  by (simp add: skip_space_def)

lemma skip_space_word: "is_word w \<Longrightarrow> skip_space (w @ r) = w @ r"
  by (cases w) (simp_all add: is_word_def)

lemma extract_word_append:
  assumes "is_word w" and "r = [] \<or> is_space (hd r)"
  shows "extract_word (w @ r) = Some (w, r)"
proof -
  have "takeWhile (\<lambda>c. \<not> is_space c) r = []" "dropWhile (\<lambda>c. \<not> is_space c) r = r"
    using assms(2) by (cases r; simp)+
  with assms(1) show ?thesis
    by (simp add: extract_word_def skip_space_word)
      (simp add: is_word_def takeWhile_append2 dropWhile_append2)
qed

lemma extract_word_space [simp]: "is_space c \<Longrightarrow> extract_word (c # s) = extract_word s"
  by (simp add: extract_word_def)

lemma extract_int_space [simp]: "is_space c \<Longrightarrow> extract_int (c # s) = extract_int s"
  by (simp add: extract_int_def)

lemma extract_char_space [simp]: "is_space c \<Longrightarrow> extract_char (c # s) = extract_char s"
  by (simp add: extract_char.simps)

lemma extract_char_Cons [simp]: "\<not> is_space c \<Longrightarrow> extract_char (c # s) = Some (c, s)"
  by (simp add: extract_char.simps)

lemma extract_word_Nil [simp]: "extract_word [] = None"
  by (simp add: extract_word_def)

lemma to_string_nat_is_word: "is_word (to_string_nat n)"
  by (simp add: is_word_def to_string_nat_no_space)

lemma split_sign_append:
  "\<forall>c \<in> set ds. is_digit c \<Longrightarrow> ds \<noteq> [] \<Longrightarrow> split_sign (ds @ r) = (False, ds @ r)"
  by (cases ds) (simp_all add: digit_not_sign)

lemma extract_int_append:
  assumes "in_int i" and "r = [] \<or> \<not> is_digit (hd r)"
  shows "extract_int (to_string_int i @ r) = Some (i, r)"
proof (cases "i < 0")
  case True
  have "scan_digits (to_string_nat (nat (- i)) @ r) = (to_string_nat (nat (- i)), r)"
    by (rule scan_digits_append [OF to_string_nat_digits assms(2)])
  with True assms(1) show ?thesis
    by (simp add: extract_int_def to_string_int_def)
next
  case False
  have "scan_digits (to_string_nat (nat i) @ r) = (to_string_nat (nat i), r)"
    by (rule scan_digits_append [OF to_string_nat_digits assms(2)])
  with False assms(1) show ?thesis
    by (simp add: extract_int_def to_string_int_def skip_space_word to_string_nat_is_word
        split_sign_append to_string_nat_digits)
qed

text \<open>Every extraction that succeeds consumes input, which bounds the reading loops.\<close>

lemma extract_word_shorter: "extract_word s = Some (w, r) \<Longrightarrow> length r < length s"
proof -
  assume a: "extract_word s = Some (w, r)"
  let ?t = "skip_space s"
  from a have "w = takeWhile (\<lambda>c. \<not> is_space c) ?t" "w \<noteq> []"
    "r = dropWhile (\<lambda>c. \<not> is_space c) ?t"
    by (auto simp: extract_word_def Let_def split: if_splits)
  then have "length ?t = length w + length r" "0 < length w"
    by (metis length_append takeWhile_dropWhile_id) (use \<open>w \<noteq> []\<close> in simp)
  with skip_space_length [of s] show ?thesis by linarith
qed

lemma split_sign_shorter: "length (snd (split_sign s)) \<le> length s"
  by (cases s) auto

lemma extract_int_shorter: "extract_int s = Some (i, r) \<Longrightarrow> length r \<le> length s"
proof -
  assume a: "extract_int s = Some (i, r)"
  obtain neg t where nt: "split_sign (skip_space s) = (neg, t)" by fastforce
  have "length t \<le> length (skip_space s)"
    using nt split_sign_shorter [of "skip_space s"] by simp
  moreover have "r = dropWhile is_digit t"
    using a nt by (auto simp: extract_int_def scan_digits_def Let_def split: if_splits)
  ultimately show ?thesis
    using length_dropWhile_le [of is_digit t] skip_space_length [of s] by simp
qed

lemma extract_char_shorter: "extract_char s = Some (c, r) \<Longrightarrow> length r \<le> length s"
  using skip_space_length [of s]
  by (auto simp: extract_char.simps split: list.splits)

section \<open>Lines\<close>

text \<open>
  The loop \<open>while (std::getline(file, line))\<close> yields the lines of the file; the last one
  may lack its newline, and an empty rest yields no line.
\<close>

function split_lines :: "string \<Rightarrow> string list" where
  "split_lines s =
     (if s = [] then []
      else takeWhile (\<lambda>c. c \<noteq> newline) s # split_lines (tl (dropWhile (\<lambda>c. c \<noteq> newline) s)))"
  by pat_completeness auto
termination
proof (relation "measure length")
  fix s :: string
  assume "s \<noteq> []"
  then obtain c cs where "s = c # cs" by (cases s) auto
  then show "(tl (dropWhile (\<lambda>c. c \<noteq> newline) s), s) \<in> measure length"
    using length_dropWhile_le [of "\<lambda>c. c \<noteq> newline" cs] by (auto simp: le_imp_less_Suc)
qed simp

declare split_lines.simps [simp del]

lemma split_lines_Nil [simp]: "split_lines [] = []"
  by (subst split_lines.simps) simp

lemma split_lines_line [simp]:
  "newline \<notin> set l \<Longrightarrow> split_lines (l @ newline # r) = l # split_lines r"
proof -
  assume l: "newline \<notin> set l"
  have "takeWhile (\<lambda>c. c \<noteq> newline) (l @ newline # r) = l @ takeWhile (\<lambda>c. c \<noteq> newline) (newline # r)"
    by (rule takeWhile_append2) (use l in auto)
  moreover have "dropWhile (\<lambda>c. c \<noteq> newline) (l @ newline # r) = dropWhile (\<lambda>c. c \<noteq> newline) (newline # r)"
    by (rule dropWhile_append2) (use l in auto)
  ultimately show ?thesis by (subst split_lines.simps) simp
qed

end
