(* ===== verification/Cxx_Float.thy ===== *)
theory Cxx_Float
  imports Complex_Main Prelude "HOL-Library.Log_Nat"
begin

text \<open>
  The floating-point arithmetic of the sources: a finite \<open>float\<close> or \<open>double\<close> is the rational
  number it stands for, and each operation rounds the exact result to the nearest value
  with 24 or 53 significant bits, ties to even. The exponent range is unbounded here: the
  magnitudes that the code computes (key counts, percentages, performance values below
  two to the 64) are far from overflow and from the subnormal numbers.
\<close>

section \<open>Rounding\<close>

definition round_half_even :: "rat \<Rightarrow> int" where
  "round_half_even x =
     (let f = \<lfloor>x\<rfloor>; d = x - of_int f
      in if d < 1/2 then f else if 1/2 < d then f + 1 else if even f then f else f + 1)"

definition ilog2 :: "rat \<Rightarrow> int" where
  "ilog2 x =
     (let (a, b) = quotient_of x; k = bitlen a - bitlen b
      in if 2 powi k \<le> x then k else k - 1)"

definition round_pos :: "nat \<Rightarrow> rat \<Rightarrow> rat" where
  "round_pos p x = (let e = ilog2 x - (int p - 1) in of_int (round_half_even (x / 2 powi e)) * 2 powi e)"

definition fl :: "nat \<Rightarrow> rat \<Rightarrow> rat" where
  "fl p x = (if x = 0 then 0 else if x < 0 then - round_pos p (- x) else round_pos p x)"

abbreviation f32 :: "rat \<Rightarrow> rat" where "f32 \<equiv> fl 24"
abbreviation f64 :: "rat \<Rightarrow> rat" where "f64 \<equiv> fl 53"

definition trunc :: "rat \<Rightarrow> int" where
  "trunc x = (if 0 \<le> x then \<lfloor>x\<rfloor> else \<lceil>x\<rceil>)"

text \<open>\<open>static_cast<int>\<close> of a floating value truncates; out of range it is undefined.\<close>

definition int_of_float :: "rat \<Rightarrow> int res" where
  "int_of_float x = ck_int (trunc x)"

section \<open>Rounding to an integer\<close>

lemma round_half_even_int [simp]: "round_half_even (of_int n) = n"
  by (simp add: round_half_even_def)

lemma round_half_even_bounds: "\<lfloor>x\<rfloor> \<le> round_half_even x" "round_half_even x \<le> \<lfloor>x\<rfloor> + 1"
  by (simp_all add: round_half_even_def Let_def)

lemma round_half_even_mono: "x \<le> y \<Longrightarrow> round_half_even x \<le> round_half_even y"
proof -
  assume xy: "x \<le> y"
  show ?thesis
  proof (cases "\<lfloor>x\<rfloor> = \<lfloor>y\<rfloor>")
    case True
    with xy show ?thesis by (auto simp: round_half_even_def Let_def)
  next
    case False
    with xy have "\<lfloor>x\<rfloor> + 1 \<le> \<lfloor>y\<rfloor>" using floor_mono [OF xy] by linarith
    then show ?thesis using round_half_even_bounds [of x] round_half_even_bounds [of y] by linarith
  qed
qed

section \<open>The exponent\<close>

lemma powi_2_pos [simp]: "(0 :: rat) < 2 powi k"
  by (rule zero_less_power_int) simp

lemma powi_2_nz [simp]: "(2 :: rat) powi k \<noteq> 0"
  by (metis powi_2_pos less_irrefl)

lemma powi_2_mono: "k \<le> l \<Longrightarrow> (2 :: rat) powi k \<le> 2 powi l"
  by (rule power_int_increasing) simp_all

lemma powi_2_strict: "k < l \<Longrightarrow> (2 :: rat) powi k < 2 powi l"
  by (rule power_int_strict_increasing) simp_all

lemma powi_2_less_iff: "(2 :: rat) powi k < 2 powi l \<longleftrightarrow> k < l"
  using powi_2_mono powi_2_strict by (meson linorder_not_le)

lemma powi_2_add: "(2 :: rat) powi (k + l) = 2 powi k * 2 powi l"
  by (rule power_int_add) simp

lemma powi_2_Suc: "(2 :: rat) powi (k + 1) = 2 * 2 powi k"
  by (simp add: powi_2_add)

lemma bitlen_powi:
  assumes "0 < (a :: int)"
  shows "(2 :: rat) powi (bitlen a - 1) \<le> of_int a" "(of_int a :: rat) < 2 powi (bitlen a)"
proof -
  have "1 \<le> bitlen a" using assms bitlen_def by (simp add: floorlog_def)
  then have e: "(2 :: rat) powi (bitlen a - 1) = of_int (2 ^ nat (bitlen a - 1))"
    "(2 :: rat) powi (bitlen a) = of_int (2 ^ nat (bitlen a))"
    by (simp_all add: power_int_def)
  have "2 ^ nat (bitlen a - 1) \<le> a" "a < 2 ^ nat (bitlen a)"
    using bitlen_bounds [OF assms] by simp_all
  then show "(2 :: rat) powi (bitlen a - 1) \<le> of_int a" "(of_int a :: rat) < 2 powi (bitlen a)"
    unfolding e by (simp_all only: of_int_le_iff of_int_less_iff)
qed

lemma ilog2_bounds:
  assumes "0 < x"
  shows "2 powi (ilog2 x) \<le> x" "x < 2 powi (ilog2 x + 1)"
proof -
  obtain a b where ab: "quotient_of x = (a, b)" by fastforce
  have x: "x = of_int a / of_int b" using ab by (rule quotient_of_div)
  have b: "0 < b" using ab by (rule quotient_of_denom_pos)
  with x assms have a: "0 < a" by (simp add: zero_less_divide_iff)
  let ?k = "bitlen a - bitlen b"
  have "2 powi (?k - 1) = (2 :: rat) powi (bitlen a - 1) / 2 powi bitlen b"
    by (simp add: power_int_diff)
  also have "\<dots> \<le> of_int a / 2 powi bitlen b"
    by (rule divide_right_mono) (use bitlen_powi(1) [OF a] powi_2_pos less_imp_le in auto)
  also have "\<dots> \<le> x" unfolding x
    by (rule divide_left_mono) (use bitlen_powi(2) [OF b] a b in \<open>auto intro: mult_pos_pos\<close>)
  finally have lo: "2 powi (?k - 1) \<le> x" .
  have "x < 2 powi bitlen a / of_int b" unfolding x
    by (rule divide_strict_right_mono) (use bitlen_powi(2) [OF a] b in auto)
  also have "\<dots> \<le> 2 powi bitlen a / 2 powi (bitlen b - 1)"
    by (rule divide_left_mono) (use bitlen_powi(1) [OF b] b in \<open>auto intro: mult_pos_pos less_imp_le\<close>)
  also have "\<dots> = (2 :: rat) powi (?k + 1)"
    by (simp add: power_int_diff [symmetric] algebra_simps)
  finally have hi: "x < 2 powi (?k + 1)" .
  show "2 powi (ilog2 x) \<le> x" "x < 2 powi (ilog2 x + 1)"
    using lo hi ab by (auto simp: ilog2_def Let_def)
qed

lemma ilog2_unique: "2 powi k \<le> x \<Longrightarrow> x < 2 powi (k + 1) \<Longrightarrow> ilog2 x = k"
proof -
  assume k: "2 powi k \<le> x" "x < 2 powi (k + 1)"
  then have x: "0 < x" using powi_2_pos [of k] by linarith
  note b = ilog2_bounds [OF x]
  have "(2 :: rat) powi k < 2 powi (ilog2 x + 1)" "(2 :: rat) powi (ilog2 x) < 2 powi (k + 1)"
    using k b by linarith+
  then show ?thesis by (simp add: powi_2_less_iff)
qed

lemma ilog2_mono: "0 < x \<Longrightarrow> x \<le> y \<Longrightarrow> ilog2 x \<le> ilog2 y"
proof -
  assume x: "0 < x" "x \<le> y"
  then have "(2 :: rat) powi (ilog2 x) < 2 powi (ilog2 y + 1)"
    using ilog2_bounds(1) [of x] ilog2_bounds(2) [of y] by linarith
  then show ?thesis by (simp add: powi_2_less_iff)
qed

section \<open>Values that need no rounding\<close>

lemma round_pos_exact:
  assumes n: "0 < n" "n \<le> 2 ^ p" and p: "0 < p"
  shows "round_pos p (of_int n * 2 powi j) = of_int n * 2 powi j"
proof -
  let ?x = "of_int n * 2 powi j :: rat"
  let ?e = "ilog2 ?x - (int p - 1)"
  have x: "0 < ?x" using n by simp
  have "\<exists>m. ?x / 2 powi ?e = of_int m"
  proof (cases "n = 2 ^ p")
    case True
    then have "?x = 2 powi (int p + j)" by (simp add: powi_2_add)
    moreover have "ilog2 (2 powi (int p + j)) = int p + j"
      by (rule ilog2_unique) (simp_all add: powi_2_strict)
    ultimately have "?x / 2 powi ?e = 2 powi (int p - 1)"
      by (simp add: power_int_diff [symmetric])
    also have "\<dots> = of_int (2 ^ (p - 1))" using p by (simp add: power_int_def nat_diff_distrib')
    finally show ?thesis by blast
  next
    case False
    with n have "(of_int n :: rat) < of_int (2 ^ p)" by (simp only: of_int_less_iff)
    then have "?x < of_int (2 ^ p) * 2 powi j" by (simp only: mult_less_cancel_right_pos powi_2_pos)
    also have "\<dots> = (2 :: rat) powi (int p + j)" by (simp add: powi_2_add)
    finally have "2 powi (ilog2 ?x) < (2 :: rat) powi (int p + j)"
      using ilog2_bounds(1) [OF x] by (rule le_less_trans [rotated])
    then have "?e \<le> j" by (simp add: powi_2_less_iff)
    then have "?x / 2 powi ?e = of_int n * 2 powi (j - ?e)"
      by (simp add: power_int_diff)
    also have "\<dots> = of_int (n * 2 ^ nat (j - ?e))" using \<open>?e \<le> j\<close> by (simp add: power_int_def)
    finally show ?thesis by blast
  qed
  then obtain m where m: "?x / 2 powi ?e = of_int m" by blast
  then have "round_pos p ?x = of_int m * 2 powi ?e" by (simp add: round_pos_def Let_def)
  also have "\<dots> = ?x" using m powi_2_nz [of ?e] by (metis nonzero_eq_divide_eq)
  finally show ?thesis .
qed

lemma fl_zero [simp]: "fl p 0 = 0"
  by (simp add: fl_def)

lemma fl_minus: "fl p (- x) = - fl p x"
  by (simp add: fl_def)

lemma fl_exact:
  assumes "\<bar>n\<bar> \<le> 2 ^ p" and "0 < p"
  shows "fl p (of_int n * 2 powi j) = of_int n * 2 powi j"
proof -
  consider "n = 0" | "0 < n" | "n < 0" by linarith
  then show ?thesis
  proof cases
    case 2
    then have "\<not> of_int n * 2 powi j < (0 :: rat)" by (simp add: not_less)
    with 2 assms show ?thesis using round_pos_exact [of n p j] by (simp add: fl_def del: mult_less_0_iff)
  next
    case 3
    then have "\<not> of_int (- n) * 2 powi j < (0 :: rat)" by (simp add: not_less mult_nonpos_nonneg less_imp_le)
    then have "fl p (of_int (- n) * 2 powi j) = of_int (- n) * 2 powi j"
      using round_pos_exact [of "- n" p j] 3 assms by (simp add: fl_def)
    then show ?thesis using fl_minus [of p "of_int n * 2 powi j"] by simp
  qed simp
qed

lemma fl_int: "\<bar>n\<bar> \<le> 2 ^ p \<Longrightarrow> 0 < p \<Longrightarrow> fl p (of_int n) = of_int n"
  using fl_exact [of n p 0] by simp

lemma fl_dyadic: "\<bar>n\<bar> \<le> 2 ^ p \<Longrightarrow> 0 < p \<Longrightarrow> fl p (of_int n / 2 ^ k) = of_int n / 2 ^ k"
  using fl_exact [of n p "- int k"] by (simp add: power_int_minus divide_inverse)

section \<open>Rounding is monotone\<close>

lemma round_pos_bounds:
  assumes x: "0 < x" and p: "0 < p"
  shows "2 powi (ilog2 x) \<le> round_pos p x" "round_pos p x \<le> 2 powi (ilog2 x + 1)"
proof -
  let ?e = "ilog2 x - (int p - 1)"
  have pw: "(2 :: rat) powi (int p - 1) = of_int (2 ^ (p - 1))" "(2 :: rat) powi (int p) = of_int (2 ^ p)"
    using p by (simp_all add: power_int_def nat_diff_distrib')
  have "2 powi (ilog2 x) / 2 powi ?e \<le> x / 2 powi ?e" "x / 2 powi ?e \<le> 2 powi (ilog2 x + 1) / 2 powi ?e"
    by (rule divide_right_mono; use ilog2_bounds [OF x] in \<open>simp add: less_imp_le\<close>)+
  then have "of_int (2 ^ (p - 1)) \<le> x / 2 powi ?e" "x / 2 powi ?e \<le> of_int (2 ^ p)"
    unfolding pw [symmetric] by (simp_all add: power_int_diff [symmetric])
  then have m: "2 ^ (p - 1) \<le> round_half_even (x / 2 powi ?e)" "round_half_even (x / 2 powi ?e) \<le> 2 ^ p"
    using round_half_even_mono round_half_even_int by metis+
  have "2 powi (ilog2 x) = (2 :: rat) powi (int p - 1) * 2 powi ?e" by (simp flip: powi_2_add)
  also have "\<dots> \<le> of_int (round_half_even (x / 2 powi ?e)) * 2 powi ?e"
    unfolding pw by (rule mult_right_mono) (use m(1) in \<open>simp_all only: of_int_le_iff powi_2_pos less_imp_le\<close>)
  finally show "2 powi (ilog2 x) \<le> round_pos p x" by (simp add: round_pos_def Let_def)
  have "of_int (round_half_even (x / 2 powi ?e)) * 2 powi ?e \<le> (2 :: rat) powi (int p) * 2 powi ?e"
    unfolding pw by (rule mult_right_mono) (use m(2) in \<open>simp_all only: of_int_le_iff powi_2_pos less_imp_le\<close>)
  also have "\<dots> = 2 powi (ilog2 x + 1)" by (simp only: powi_2_add [symmetric]) (simp add: algebra_simps)
  finally show "round_pos p x \<le> 2 powi (ilog2 x + 1)" by (simp add: round_pos_def Let_def)
qed

lemma round_pos_mono:
  assumes x: "0 < x" and xy: "x \<le> y" and p: "0 < p"
  shows "round_pos p x \<le> round_pos p y"
proof (cases "ilog2 x = ilog2 y")
  case True
  let ?e = "ilog2 y - (int p - 1)"
  have "round_half_even (x / 2 powi ?e) \<le> round_half_even (y / 2 powi ?e)"
    by (rule round_half_even_mono) (use xy powi_2_pos less_imp_le in \<open>blast intro: divide_right_mono\<close>)
  then show ?thesis using True
    by (simp add: round_pos_def Let_def mult_right_mono)
next
  case False
  have y: "0 < y" using x xy by linarith
  have "ilog2 x + 1 \<le> ilog2 y" using ilog2_mono [OF x xy] False by linarith
  then have "(2 :: rat) powi (ilog2 x + 1) \<le> 2 powi (ilog2 y)" by (rule powi_2_mono)
  with round_pos_bounds(2) [OF x p] round_pos_bounds(1) [OF y p] show ?thesis by linarith
qed

lemma round_pos_pos: "0 < x \<Longrightarrow> 0 < p \<Longrightarrow> 0 < round_pos p x"
  using round_pos_bounds(1) [of x p] powi_2_pos [of "ilog2 x"] by linarith

lemma fl_mono:
  assumes "x \<le> y" and p: "0 < p"
  shows "fl p x \<le> fl p y"
proof -
  consider "0 < x" | "x \<le> 0" "0 \<le> y" | "y < 0" by linarith
  then show ?thesis
  proof cases
    case 1
    with assms show ?thesis using round_pos_mono [of x y p] by (simp add: fl_def)
  next
    case 2
    then have "fl p x \<le> 0" "0 \<le> fl p y"
      using p round_pos_pos [of "- x" p] round_pos_pos [of y p] by (auto simp: fl_def less_imp_le)
    then show ?thesis by linarith
  next
    case 3
    with assms show ?thesis using round_pos_mono [of "- y" "- x" p] by (simp add: fl_def)
  qed
qed

lemma fl_nonneg: "0 \<le> x \<Longrightarrow> 0 < p \<Longrightarrow> 0 \<le> fl p x"
  using fl_mono [of 0 x p] by simp

lemma fl_le_int: "x \<le> of_int n \<Longrightarrow> \<bar>n\<bar> \<le> 2 ^ p \<Longrightarrow> 0 < p \<Longrightarrow> fl p x \<le> of_int n"
  using fl_mono [of x "of_int n" p] fl_int [of n p] by simp

lemma fl_ge_int: "of_int n \<le> x \<Longrightarrow> \<bar>n\<bar> \<le> 2 ^ p \<Longrightarrow> 0 < p \<Longrightarrow> of_int n \<le> fl p x"
  using fl_mono [of "of_int n" x p] fl_int [of n p] by simp

section \<open>Rounding twice\<close>

lemma round_pos_idem:
  assumes x: "0 < x" and p: "0 < p"
  shows "fl p (round_pos p x) = round_pos p x"
proof -
  let ?e = "ilog2 x - (int p - 1)" let ?m = "round_half_even (x / 2 powi ?e)"
  have "x / 2 powi ?e < 2 powi (ilog2 x + 1) / 2 powi ?e"
    using ilog2_bounds(2) [OF x] by (simp add: divide_strict_right_mono)
  also have "\<dots> = of_int (2 ^ p)" by (simp add: power_int_diff [symmetric])
  finally have m: "?m \<le> 2 ^ p" using round_half_even_mono [of "x / 2 powi ?e" "of_int (2 ^ p)"] by (simp only: round_half_even_int less_imp_le)
  have "0 < x / 2 powi ?e" using x by simp
  then have "0 \<le> ?m" using round_half_even_mono [of "of_int 0" "x / 2 powi ?e"] unfolding round_half_even_int by (simp only: of_int_0 less_imp_le)
  with m have "\<bar>?m\<bar> \<le> 2 ^ p" by simp
  from fl_exact [OF this p] show ?thesis by (simp add: round_pos_def Let_def)
qed

lemma fl_idem: "0 < p \<Longrightarrow> fl p (fl p x) = fl p x"
  using round_pos_idem [of x p] round_pos_idem [of "- x" p] fl_minus [of p "round_pos p (- x)"]
  by (cases "x = 0"; cases "x < 0") (simp_all add: fl_def [of p x])

section \<open>A double quotient of two ints, rounded down, is their integer quotient\<close>

lemma f64_div_below:
  assumes a: "0 \<le> a" "a < 2 ^ 31" and b: "0 < b" "b < 2 ^ 31"
  shows "f64 (of_int a / of_int b) < of_int (a div b + 1)"
proof -
  let ?q = "a div b"
  have q0: "0 \<le> ?q" and qb: "?q * b \<le> a" and ab: "a < (?q + 1) * b"
    using a b pos_mod_bound [of b a]
    by (simp_all add: pos_imp_zdiv_nonneg_iff algebra_simps minus_mod_eq_mult_div [symmetric])
  have q31: "?q < 2 ^ 31" using div_le_self_int [OF a(1) b(1)] a by linarith
  have "\<exists>k :: nat. b \<le> 2 ^ k \<and> (?q + 1) * 2 ^ k \<le> 2 ^ 53"
  proof (cases "?q + 1 \<le> 2 ^ 22")
    case True
    then have "(?q + 1) * 2 ^ 31 \<le> 2 ^ 22 * (2 :: int) ^ 31" by (intro mult_right_mono) simp_all
    with b show ?thesis by (intro exI [of _ 31]) simp
  next
    case False
    then have "2 ^ 22 \<le> ?q" by simp
    then have "2 ^ 22 * b \<le> ?q * b" using b by (intro mult_right_mono) simp_all
    with qb a have "b < 2 ^ 9" by simp
    moreover have "(?q + 1) * 2 ^ 9 \<le> 2 ^ 31 * (2 :: int) ^ 9" using q31 by (intro mult_right_mono) simp_all
    ultimately show ?thesis by (intro exI [of _ 9]) simp
  qed
  then obtain k :: nat where k: "b \<le> 2 ^ k" "(?q + 1) * 2 ^ k \<le> 2 ^ 53" by blast
  let ?n = "(?q + 1) * 2 ^ k - 1"
  have "a * 2 ^ k \<le> ((?q + 1) * b - 1) * 2 ^ k" using ab by (intro mult_right_mono) simp_all
  also have "\<dots> \<le> ?n * b" using k by (simp add: algebra_simps)
  finally have "(of_int (a * 2 ^ k) :: rat) \<le> of_int (?n * b)" by (simp only: of_int_le_iff)
  then have le: "(of_int a / of_int b :: rat) \<le> of_int ?n / 2 ^ k"
    using b by (simp add: field_simps)
  have "0 \<le> ?n" using q0 by (simp add: mult_ge1_I)
  then have "\<bar>?n\<bar> \<le> 2 ^ 53" using k(2) by linarith
  then have "f64 (of_int a / of_int b) \<le> of_int ?n / 2 ^ k"
    using fl_mono [OF le, of 53] fl_dyadic [of ?n 53 k] by simp
  also have "\<dots> < of_int (?q + 1)" by (simp add: field_simps)
  finally show ?thesis .
qed

lemma floor_f64_div:
  assumes a: "0 \<le> a" "a < 2 ^ 31" and b: "0 < b" "b < 2 ^ 31"
  shows "\<lfloor>f64 (of_int a / of_int b)\<rfloor> = a div b"
proof -
  have q: "0 \<le> a div b" "a div b \<le> a"
    using div_le_self_int [OF a(1) b(1)] a b by (simp_all add: pos_imp_zdiv_nonneg_iff)
  have "a div b * b \<le> a" using b pos_mod_sign [of b a] by (simp add: minus_mod_eq_div_mult [symmetric])
  then have "(of_int (a div b * b) :: rat) \<le> of_int a" by (simp only: of_int_le_iff)
  then have "(of_int (a div b) :: rat) \<le> of_int a / of_int b" using b by (simp add: field_simps)
  then have "of_int (a div b) \<le> f64 (of_int a / of_int b)"
    by (rule fl_ge_int) (use q a in simp_all)
  moreover have "f64 (of_int a / of_int b) < of_int (a div b + 1)" by (rule f64_div_below [OF a b])
  ultimately show ?thesis by (simp add: floor_eq_iff)
qed

section \<open>A share of a count, truncated to int\<close>

lemma int_of_float_share:
  assumes "0 \<le> r" "r \<le> 1" "0 \<le> n" "n < 2 ^ 31"
  shows "\<exists>m. int_of_float (f64 (r * of_int n)) = Inr m \<and> 0 \<le> m \<and> m \<le> n"
proof -
  let ?x = "f64 (r * of_int n)"
  have "0 \<le> r * of_int n" "r * of_int n \<le> of_int n"
    using assms mult_right_mono [of r 1 "of_int n"] by simp_all
  then have "0 \<le> ?x" "?x \<le> of_int n"
    using assms fl_nonneg [of "r * of_int n" 53] fl_le_int [of "r * of_int n" n 53] by simp_all
  then have f: "0 \<le> \<lfloor>?x\<rfloor>" "\<lfloor>?x\<rfloor> \<le> n" by (simp_all add: floor_le_iff)
  then have "in_int \<lfloor>?x\<rfloor>" using in_int_between [of n "\<lfloor>?x\<rfloor>"] assms
    by (simp add: in_int_def int_min_def int_max_def del: floor_le_iff le_floor_iff)
  then have "int_of_float ?x = Inr \<lfloor>?x\<rfloor>" using \<open>0 \<le> ?x\<close> by (simp add: int_of_float_def trunc_def)
  with f show ?thesis by blast
qed

end
