(* ===== verification/Config.thy ===== *)
theory Config
  imports Cxx_Text Cxx_Float
begin

text \<open>
  The run configuration (\<open>src/src/operations.h\<close>) and its reader \<open>parseConfigFile\<close>
  (\<open>src/src/dataset.cpp\<close>). The JSON document is third-party data: the model takes the typed
  lookups \<open>jsonData[...]\<close> that the reader performs as a record of functions, each of
  which may raise.
\<close>

datatype distribution_type =
    RANDOM_DISTRIBUTION
  | PARTITIONED_DISTRIBUTION
  | ZIPFIAN_DISTRIBUTION
  | ZIPFIAN_PARTITIONED_DISTRIBUTION
  | SINGLE_NODE_HOT_KEYS
  | SINGLE_NODE_HOT_KEYS_TO_SECOND_NODE_ONLY
  | SINGLE_NODE_HOT_KEYS_TO_SECOND_NODE_RDMA_ONLY
  | SINGLE_NODE_HOT_KEYS_TO_SECOND_NODE_SPLIT
  | YCSB

record configuration =
  NUM_KEY_VALUE_PAIRS :: int
  NUM_NODES :: int
  KEY_SIZE :: int
  VALUE_SIZE :: int
  TOTAL_OPERATIONS :: int
  OP_FILE :: string
  DATASET_FILE :: string
  DISTRIBUTION_TYPE :: distribution_type
  HOT_KEY_PERCENTAGE :: rat
  HOT_KEY_ACCESS_PERCENTAGE :: rat
  HOT_THREAD :: int
  RDMA_THREAD :: int
  TOTAL_RUNTIME_IN_SECONDS :: rat
  RDMA_ASYNC :: bool
  DISK_ASYNC :: bool
  infinity_bound_nic :: string
  infinity_bound_device_port :: int
  operations_pollute_cache :: bool
  use_cache_logs :: bool
  cache_log_sync_every_x_operations :: int
  dump_snapshot_period_ms :: int
  dump_snapshot_file :: string

record json_doc =
  json_int :: "string \<Rightarrow> int res"
  json_str :: "string \<Rightarrow> string res"
  json_num :: "string \<Rightarrow> rat res"
  json_bool :: "string \<Rightarrow> bool res"

definition parse_distribution :: "string \<Rightarrow> distribution_type res" where
  "parse_distribution s =
     (if s = ''RANDOM_DISTRIBUTION'' then Inr RANDOM_DISTRIBUTION
      else if s = ''PARTITIONED_DISTRIBUTION'' then Inr PARTITIONED_DISTRIBUTION
      else if s = ''ZIPFIAN_DISTRIBUTION'' then Inr ZIPFIAN_DISTRIBUTION
      else if s = ''ZIPFIAN_PARTITIONED_DISTRIBUTION'' then Inr ZIPFIAN_PARTITIONED_DISTRIBUTION
      else if s = ''SINGLE_NODE_HOT_KEYS'' then Inr SINGLE_NODE_HOT_KEYS
      else if s = ''SINGLE_NODE_HOT_KEYS_TO_SECOND_NODE_ONLY''
        then Inr SINGLE_NODE_HOT_KEYS_TO_SECOND_NODE_ONLY
      else if s = ''SINGLE_NODE_HOT_KEYS_TO_SECOND_NODE_RDMA_ONLY''
        then Inr SINGLE_NODE_HOT_KEYS_TO_SECOND_NODE_RDMA_ONLY
      else if s = ''SINGLE_NODE_HOT_KEYS_TO_SECOND_NODE_SPLIT''
        then Inr SINGLE_NODE_HOT_KEYS_TO_SECOND_NODE_SPLIT
      else if s = ''YCSB'' then Inr YCSB
      else Inl (Exit 0))"

text \<open>
  \<open>parseConfigFile\<close>: \<open>None\<close> is a file that does not open; \<open>parse_json\<close> is the third-party
  parser of its text. The fields are read in the order of the code, so the first lookup
  that raises decides the fault.
\<close>

definition parseConfigFile :: "(string \<Rightarrow> json_doc res) \<Rightarrow> string option \<Rightarrow> configuration res" where
  "parseConfigFile parse_json file =
     (case file of None \<Rightarrow> Inl (Exit 0) | Some text \<Rightarrow>
      bindR (parse_json text) (\<lambda>j.
      bindR (json_int j ''NUM_KEY_VALUE_PAIRS'') (\<lambda>nkv.
      bindR (json_int j ''NUM_NODES'') (\<lambda>nn.
      bindR (json_int j ''KEY_SIZE'') (\<lambda>ks.
      bindR (json_int j ''VALUE_SIZE'') (\<lambda>vs.
      bindR (json_int j ''TOTAL_OPERATIONS'') (\<lambda>tops.
      bindR (json_str j ''OP_FILE'') (\<lambda>opf.
      bindR (json_str j ''DATASET_FILE'') (\<lambda>dsf.
      bindR (json_int j ''HOT_THREAD'') (\<lambda>hot.
      bindR (json_int j ''RDMA_THREAD'') (\<lambda>rdma.
      bindR (json_str j ''DISTRIBUTION_TYPE'') (\<lambda>dname.
      bindR (parse_distribution dname) (\<lambda>dist.
      bindR (json_num j ''HOT_KEY_PERCENTAGE'') (\<lambda>hkp.
      bindR (json_num j ''HOT_KEY_ACCESS_PERCENTAGE'') (\<lambda>hkap.
      bindR (json_num j ''TOTAL_RUNTIME_IN_SECONDS'') (\<lambda>rt.
      bindR (json_bool j ''RDMA_ASYNC'') (\<lambda>ra.
      bindR (json_bool j ''DISK_ASYNC'') (\<lambda>da.
      bindR (json_str j ''infinity_bound_nic'') (\<lambda>nic.
      bindR (json_int j ''infinity_bound_device_port'') (\<lambda>port.
      bindR (json_bool j ''operations_pollute_cache'') (\<lambda>pol.
      bindR (json_bool j ''use_cache_logs'') (\<lambda>logs.
      bindR (json_int j ''cache_log_sync_every_x_operations'') (\<lambda>sync.
      bindR (json_int j ''dump_snapshot_period_ms'') (\<lambda>per.
      bindR (json_str j ''dump_snapshot_file'') (\<lambda>dump.
      Inr \<lparr>NUM_KEY_VALUE_PAIRS = nkv, NUM_NODES = nn, KEY_SIZE = ks, VALUE_SIZE = vs,
           TOTAL_OPERATIONS = tops, OP_FILE = opf, DATASET_FILE = dsf, DISTRIBUTION_TYPE = dist,
           HOT_KEY_PERCENTAGE = f64 hkp, HOT_KEY_ACCESS_PERCENTAGE = f64 hkap, HOT_THREAD = hot,
           RDMA_THREAD = rdma, TOTAL_RUNTIME_IN_SECONDS = f32 (f64 rt), RDMA_ASYNC = ra, DISK_ASYNC = da,
           infinity_bound_nic = nic, infinity_bound_device_port = port,
           operations_pollute_cache = pol, use_cache_logs = logs,
           cache_log_sync_every_x_operations = sync, dump_snapshot_period_ms = per,
           dump_snapshot_file = dump\<rparr>)))))))))))))))))))))))))"

text \<open>A small configuration that the concrete runs of the development share.\<close>

definition sample_config :: configuration where
  "sample_config = \<lparr>NUM_KEY_VALUE_PAIRS = 6, NUM_NODES = 3, KEY_SIZE = 8, VALUE_SIZE = 4,
     TOTAL_OPERATIONS = 4, OP_FILE = ''operations.txt'', DATASET_FILE = ''dataset.txt'',
     DISTRIBUTION_TYPE = RANDOM_DISTRIBUTION, HOT_KEY_PERCENTAGE = 1 / 2,
     HOT_KEY_ACCESS_PERCENTAGE = 1 / 2, HOT_THREAD = 1, RDMA_THREAD = 1,
     TOTAL_RUNTIME_IN_SECONDS = 10, RDMA_ASYNC = True, DISK_ASYNC = True,
     infinity_bound_nic = ''mlx5_0'', infinity_bound_device_port = 1,
     operations_pollute_cache = True, use_cache_logs = False,
     cache_log_sync_every_x_operations = 4, dump_snapshot_period_ms = 1000,
     dump_snapshot_file = ''snapshot''\<rparr>"

definition distribution_name :: "distribution_type \<Rightarrow> string" where
  "distribution_name d = (case d of
     RANDOM_DISTRIBUTION \<Rightarrow> ''RANDOM_DISTRIBUTION''
   | PARTITIONED_DISTRIBUTION \<Rightarrow> ''PARTITIONED_DISTRIBUTION''
   | ZIPFIAN_DISTRIBUTION \<Rightarrow> ''ZIPFIAN_DISTRIBUTION''
   | ZIPFIAN_PARTITIONED_DISTRIBUTION \<Rightarrow> ''ZIPFIAN_PARTITIONED_DISTRIBUTION''
   | SINGLE_NODE_HOT_KEYS \<Rightarrow> ''SINGLE_NODE_HOT_KEYS''
   | SINGLE_NODE_HOT_KEYS_TO_SECOND_NODE_ONLY \<Rightarrow> ''SINGLE_NODE_HOT_KEYS_TO_SECOND_NODE_ONLY''
   | SINGLE_NODE_HOT_KEYS_TO_SECOND_NODE_RDMA_ONLY \<Rightarrow> ''SINGLE_NODE_HOT_KEYS_TO_SECOND_NODE_RDMA_ONLY''
   | SINGLE_NODE_HOT_KEYS_TO_SECOND_NODE_SPLIT \<Rightarrow> ''SINGLE_NODE_HOT_KEYS_TO_SECOND_NODE_SPLIT''
   | YCSB \<Rightarrow> ''YCSB'')"

lemma parse_distribution_name: "parse_distribution (distribution_name d) = Inr d"
  by (cases d) (simp_all add: parse_distribution_def distribution_name_def)

lemma parse_distribution_Inr_iff: "parse_distribution s = Inr d \<longleftrightarrow> s = distribution_name d"
proof
  assume "parse_distribution s = Inr d"
  then show "s = distribution_name d"
    by (simp add: parse_distribution_def distribution_name_def split: if_splits)
qed (simp add: parse_distribution_name)

lemma parse_distribution_Inl: "parse_distribution s = Inl e \<Longrightarrow> e = Exit 0"
  by (simp add: parse_distribution_def split: if_splits)

end
