(* ===== verification/Workload.thy ===== *)
theory Workload
  imports Config
begin

text \<open>
  The operation sets that clients replay (\<open>src/src/operations.cpp\<close>): the seven generators,
  the file format that \<open>dumpOperationSetToFile\<close> writes and \<open>loadOperationSetFromFile\<close> reads,
  and the division of a set among threads.

  The environment supplies the values of successive calls of \<open>rand()\<close> (a 31-bit value
  each, \<open>RAND_MAX\<close> of the GNU library), the permutation that \<open>std::random_shuffle\<close> applies,
  and whether a file can be opened for writing. The file system is a map from paths to
  contents.
\<close>

section \<open>Operations and their environment\<close>

record operation =
  op_key :: string
  op_node :: int
  op_code :: char

definition INSERT_OP :: char where "INSERT_OP = CHR ''I''"
definition READ_OP :: char where "READ_OP = CHR ''R''"
definition UPDATE_OP :: char where "UPDATE_OP = CHR ''U''"

type_synonym files = "string \<rightharpoonup> string"

record env =
  env_rand :: "nat \<Rightarrow> 31 word"
  env_shuffle :: "nat list \<Rightarrow> nat list"
  env_can_open :: "string \<Rightarrow> bool"

definition rand :: "env \<Rightarrow> nat \<Rightarrow> int" where
  "rand e k = uint (env_rand e k)"

text \<open>An environment for concrete runs: \<open>rand\<close> counts up and the shuffle is the identity.\<close>

definition sample_env :: env where
  "sample_env = \<lparr>env_rand = of_nat, env_shuffle = id, env_can_open = (\<lambda>_. True)\<rparr>"

definition shuffles :: "env \<Rightarrow> bool" where
  "shuffles e \<longleftrightarrow> (\<forall>xs. mset (env_shuffle e xs) = mset xs)"

lemma rand_props [simp]: "0 \<le> rand e k" "in_int (rand e k)"
proof -
  have "uint (env_rand e k) < 2 ^ 31" using uint_lt2p [of "env_rand e k"] by simp
  moreover show "0 \<le> rand e k" by (simp add: rand_def)
  ultimately show "in_int (rand e k)"
    unfolding rand_def in_int_def int_min_def int_max_def by linarith
qed

section \<open>The text form of an operation set\<close>

definition op_line :: "operation \<Rightarrow> string" where
  "op_line p = op_key p @ CHR '' '' # to_string_int (op_node p) @ CHR '' '' # op_code p # [newline]"

definition dump_text :: "operation list \<Rightarrow> string" where
  "dump_text ops = concat (map op_line ops)"

definition dumpOperationSetToFile :: "env \<Rightarrow> operation list \<Rightarrow> files \<Rightarrow> files" where
  "dumpOperationSetToFile e ops fs =
     (if env_can_open e ''operations.txt'' then fs(''operations.txt'' \<mapsto> dump_text ops) else fs)"

function load_text :: "string \<Rightarrow> operation list" where
  "load_text s =
     (case extract_word s of None \<Rightarrow> []
      | Some (key, s1) \<Rightarrow>
        (case extract_int s1 of None \<Rightarrow> []
         | Some (node, s2) \<Rightarrow>
           (case extract_char s2 of None \<Rightarrow> []
            | Some (op, s3) \<Rightarrow> \<lparr>op_key = key, op_node = node, op_code = op\<rparr> # load_text s3)))"
  by pat_completeness auto
termination
proof (relation "measure length", goal_cases)
  case (2 s p key s1 q node s2 r op s3)
  then show ?case
    using extract_word_shorter [of s key s1] extract_int_shorter [of s1 node s2]
      extract_char_shorter [of s2 op s3] by simp
qed simp

declare load_text.simps [simp del]

definition loadOperationSetFromFile :: "files \<Rightarrow> string \<Rightarrow> operation list" where
  "loadOperationSetFromFile fs p = (case fs p of None \<Rightarrow> [] | Some t \<Rightarrow> load_text t)"

definition dumpable :: "operation \<Rightarrow> bool" where
  "dumpable p \<longleftrightarrow> is_word (op_key p) \<and> in_int (op_node p) \<and> \<not> is_space (op_code p)"

lemma load_text_line:
  assumes "dumpable p"
  shows "load_text (op_line p @ r) = p # load_text r"
proof -
  let ?r1 = "CHR '' '' # to_string_int (op_node p) @ CHR '' '' # op_code p # newline # r"
  have w: "extract_word (op_line p @ r) = Some (op_key p, ?r1)"
    using extract_word_append [of "op_key p" ?r1] assms by (simp add: op_line_def dumpable_def)
  have i: "extract_int ?r1 = Some (op_node p, CHR '' '' # op_code p # newline # r)"
    using extract_int_append [of "op_node p" "CHR '' '' # op_code p # newline # r"] assms
    by (simp add: dumpable_def)
  have c: "extract_char (CHR '' '' # op_code p # newline # r) = Some (op_code p, newline # r)"
    using assms by (simp add: dumpable_def)
  have "load_text (op_line p @ r) = p # load_text (newline # r)"
    by (subst load_text.simps) (simp add: w i c)
  moreover have "load_text (newline # r) = load_text r"
    by (subst (1 2) load_text.simps) simp
  ultimately show ?thesis by simp
qed

lemma load_dump_text: "\<forall>p \<in> set ops. dumpable p \<Longrightarrow> load_text (dump_text ops) = ops"
proof (induction ops)
  case Nil
  show ?case by (subst load_text.simps) (simp add: dump_text_def)
next
  case (Cons p ops)
  then show ?case by (simp add: dump_text_def load_text_line)
qed

section \<open>The loop of a generator\<close>

text \<open>
  Every generator runs a body for \<open>i = 0, 1, ...\<close> and appends the operation it makes. The
  second counter is the number of \<open>rand()\<close> calls made so far.
\<close>

type_synonym 'p op_body = "nat \<Rightarrow> nat \<Rightarrow> ('p \<times> nat) res"

fun op_loop :: "'p op_body \<Rightarrow> nat \<Rightarrow> nat \<Rightarrow> nat \<Rightarrow> ('p list \<times> nat) res" where
  "op_loop body 0 i k = Inr ([], k)"
| "op_loop body (Suc n) i k =
     bindR (body i k) (\<lambda>(p, k').
     bindR (op_loop body n (Suc i) k') (\<lambda>(ops, k'').
     Inr (p # ops, k'')))"

lemma op_loop_total:
  assumes "\<And>j k. i \<le> j \<Longrightarrow> j < i + n \<Longrightarrow> \<exists>p k'. body j k = Inr (p, k') \<and> P j p"
  shows "\<exists>ops k'. op_loop body n i k = Inr (ops, k') \<and> length ops = n
    \<and> (\<forall>j < n. P (i + j) (ops ! j))"
  using assms
proof (induction n arbitrary: i k)
  case 0
  then show ?case by simp
next
  case (Suc n)
  obtain p k1 where p: "body i k = Inr (p, k1)" "P i p" using Suc.prems [of i k] by auto
  have "\<And>j k. Suc i \<le> j \<Longrightarrow> j < Suc i + n \<Longrightarrow> \<exists>p k'. body j k = Inr (p, k') \<and> P j p"
    using Suc.prems by auto
  from Suc.IH [OF this] obtain ops k2 where
    ops: "op_loop body n (Suc i) k1 = Inr (ops, k2)" "length ops = n"
      "\<forall>j < n. P (Suc i + j) (ops ! j)" by blast
  have "\<forall>j < Suc n. P (i + j) ((p # ops) ! j)"
    using p ops(3) by (auto simp: nth_Cons split: nat.split)
  with p ops show ?case by auto
qed

text \<open>What the bodies have in common: a key at a random position, a random node.\<close>

definition mod_key :: "string list \<Rightarrow> int \<Rightarrow> string res" where
  "mod_key keys r = (if keys = [] then Inl (Undefined ''division by zero'')
                     else Inr (keys ! (nat r mod length keys)))"

definition random_node :: "env \<Rightarrow> int \<Rightarrow> nat \<Rightarrow> int res" where
  "random_node e numNodes k = mapR (\<lambda>m. m + 1) (int_mod (rand e k) numNodes)"

definition hot_count :: "rat \<Rightarrow> int \<Rightarrow> int res" where
  "hot_count pct n = int_of_float (f64 (pct * of_int n))"

text \<open>\<open>i < hotKeyOps ? rand() % numHotKeys : numHotKeys + rand() % numColdKeys\<close>\<close>

definition hot_index :: "env \<Rightarrow> int \<Rightarrow> int \<Rightarrow> int \<Rightarrow> nat \<Rightarrow> nat \<Rightarrow> int res" where
  "hot_index e hotKeyOps numHotKeys numColdKeys i k =
     (if int i < hotKeyOps then int_mod (rand e k) numHotKeys
      else bindR (int_mod (rand e k) numColdKeys) (\<lambda>r. ck_int (numHotKeys + r)))"

lemma mod_key_in: "keys \<noteq> [] \<Longrightarrow> \<exists>x \<in> set keys. mod_key keys r = Inr x"
  by (simp add: mod_key_def)

lemma random_node_range:
  "0 < numNodes \<Longrightarrow> \<exists>n. random_node e numNodes k = Inr n \<and> 1 \<le> n \<and> n \<le> numNodes"
  using pos_mod_bound [of numNodes "rand e k"]
  by (simp add: random_node_def del: pos_mod_bound)

lemma hot_index_range:
  assumes "0 \<le> hot" "0 \<le> cold" "in_int (hot + cold)"
    and "int i < ops \<Longrightarrow> 0 < hot" and "\<not> int i < ops \<Longrightarrow> 0 < cold"
  shows "\<exists>r. hot_index e ops hot cold i k = Inr r \<and>
    (if int i < ops then 0 \<le> r \<and> r < hot else hot \<le> r \<and> r < hot + cold)"
proof (cases "int i < ops")
  case True
  with assms(4) show ?thesis using pos_mod_bound [of hot "rand e k"] by (simp add: hot_index_def)
next
  case False
  then have c: "0 < cold" using assms(5) by simp
  have r: "0 \<le> rand e k mod cold" "rand e k mod cold < cold" using c by simp_all
  then have "in_int (hot + rand e k mod cold)"
    using in_int_between [OF assms(3), of "hot + rand e k mod cold"] assms(1) by simp
  with False c r show ?thesis by (simp add: hot_index_def)
qed

section \<open>The generators\<close>

text \<open>\<open>numKeys\<close> and \<open>keysPerNode\<close> as the code computes them, from \<open>size_t\<close> to \<open>int\<close>.\<close>

definition num_keys :: "string list \<Rightarrow> int" where
  "num_keys keys = int_of_u64 (of_nat (length keys))"

definition keys_per_node :: "string list \<Rightarrow> int \<Rightarrow> int res" where
  "keys_per_node keys numNodes =
     mapR int_of_u64 (u64_div (of_nat (length keys)) (of_int numNodes))"

definition finish_ops :: "env \<Rightarrow> files \<Rightarrow> (operation list \<times> nat) res \<Rightarrow> (operation list \<times> files) res" where
  "finish_ops e fs m = mapR (\<lambda>(ops, _). (ops, dumpOperationSetToFile e ops fs)) m"

definition generateRandomOperationSet ::
    "env \<Rightarrow> string list \<Rightarrow> configuration \<Rightarrow> files \<Rightarrow> (operation list \<times> files) res" where
  "generateRandomOperationSet e keys config fs =
     finish_ops e fs (op_loop (\<lambda>i k.
       bindR (mod_key keys (rand e k)) (\<lambda>key.
       bindR (random_node e (NUM_NODES config) (k + 1)) (\<lambda>node.
       Inr (\<lparr>op_key = key, op_node = node, op_code = READ_OP\<rparr>, k + 2))))
       (nat (TOTAL_OPERATIONS config)) 0 0)"

text \<open>
  The node of a key in a partitioned set. Dividing by \<open>keysPerNode = 0\<close> gives an infinity
  or a NaN, whose conversion to \<open>int\<close> is undefined.
\<close>

definition partition_node :: "string \<Rightarrow> int \<Rightarrow> int \<Rightarrow> int res" where
  "partition_node key keysPerNode numNodes =
     bindR (stoi key) (\<lambda>v.
     if keysPerNode = 0 then Inl (Undefined ''float to int'')
     else bindR (ck_int \<lfloor>f64 (of_int v / of_int keysPerNode)\<rfloor>) (\<lambda>q.
          mapR (\<lambda>m. m + 1) (int_mod q numNodes)))"

definition generatePartitionedOperationSet ::
    "env \<Rightarrow> string list \<Rightarrow> configuration \<Rightarrow> files \<Rightarrow> (operation list \<times> files) res" where
  "generatePartitionedOperationSet e keys config fs =
     bindR (keys_per_node keys (NUM_NODES config)) (\<lambda>keysPerNode.
     finish_ops e fs (op_loop (\<lambda>i k.
       bindR (mod_key keys (int i)) (\<lambda>key.
       bindR (partition_node key keysPerNode (NUM_NODES config)) (\<lambda>node.
       Inr (\<lparr>op_key = key, op_node = node, op_code = READ_OP\<rparr>, k))))
       (nat (TOTAL_OPERATIONS config)) 0 0))"

definition generateZipfianOperationSet ::
    "env \<Rightarrow> string list \<Rightarrow> configuration \<Rightarrow> files \<Rightarrow> (operation list \<times> files) res" where
  "generateZipfianOperationSet e keys config fs =
     bindR (hot_count (HOT_KEY_PERCENTAGE config) (num_keys keys)) (\<lambda>numHotKeys.
     bindR (ck_int (num_keys keys - numHotKeys)) (\<lambda>numColdKeys.
     bindR (hot_count (HOT_KEY_ACCESS_PERCENTAGE config) (TOTAL_OPERATIONS config)) (\<lambda>hotKeyOps.
     let keyOrder = env_shuffle e [0..<nat (num_keys keys)] in
     finish_ops e fs (op_loop (\<lambda>i k.
       bindR (hot_index e hotKeyOps numHotKeys numColdKeys i k) (\<lambda>j.
       bindR (vec_at_int keyOrder j) (\<lambda>randomIndex.
       bindR (vec_at keys randomIndex) (\<lambda>key.
       bindR (random_node e (NUM_NODES config) (k + 1)) (\<lambda>node.
       Inr (\<lparr>op_key = key, op_node = node, op_code = READ_OP\<rparr>, k + 2))))))
       (nat (TOTAL_OPERATIONS config)) 0 0))))"

definition generateZipfianPartitionedOperationSet ::
    "env \<Rightarrow> string list \<Rightarrow> configuration \<Rightarrow> files \<Rightarrow> (operation list \<times> files) res" where
  "generateZipfianPartitionedOperationSet e keys config fs =
     bindR (hot_count (HOT_KEY_PERCENTAGE config) (num_keys keys)) (\<lambda>numHotKeys.
     bindR (ck_int (num_keys keys - numHotKeys)) (\<lambda>numColdKeys.
     bindR (keys_per_node keys (NUM_NODES config)) (\<lambda>keysPerNode.
     bindR (hot_count (HOT_KEY_ACCESS_PERCENTAGE config) (TOTAL_OPERATIONS config)) (\<lambda>hotKeyOps.
     let keyOrder = env_shuffle e [0..<nat (num_keys keys)] in
     finish_ops e fs (op_loop (\<lambda>i k.
       bindR (hot_index e hotKeyOps numHotKeys numColdKeys i k) (\<lambda>j.
       bindR (vec_at_int keyOrder j) (\<lambda>randomIndex.
       bindR (vec_at keys randomIndex) (\<lambda>key.
       bindR (partition_node key keysPerNode (NUM_NODES config)) (\<lambda>node.
       Inr (\<lparr>op_key = key, op_node = node, op_code = READ_OP\<rparr>, k + 1))))))
       (nat (TOTAL_OPERATIONS config)) 0 0)))))"

text \<open>
  The three generators with a hot set share all but the node they choose: the hot keys are
  the first ones of the middle third, and the key order is the middle third followed by
  the other keys.
\<close>

definition mid_start :: "string list \<Rightarrow> int res" where
  "mid_start keys = int_div (num_keys keys) 3"

definition mid_end :: "string list \<Rightarrow> int res" where
  "mid_end keys = bindR (ck_int (2 * num_keys keys)) (\<lambda>d. int_div d 3)"

definition hot_set_order :: "string list \<Rightarrow> nat \<Rightarrow> nat \<Rightarrow> string list" where
  "hot_set_order keys a b = take (b - a) (drop a keys)
     @ [keys ! i. i \<leftarrow> [0..<nat (num_keys keys)], i < a \<or> b \<le> i]"

definition hot_set_ops ::
    "(nat \<Rightarrow> (int \<times> nat) res) \<Rightarrow> env \<Rightarrow> string list \<Rightarrow> configuration \<Rightarrow> files
     \<Rightarrow> (operation list \<times> files) res" where
  "hot_set_ops choose_node e keys config fs =
     bindR (mid_start keys) (\<lambda>startIdx.
     bindR (mid_end keys) (\<lambda>endIdx.
     bindR (hot_count (HOT_KEY_PERCENTAGE config) (endIdx - startIdx)) (\<lambda>numHotKeys.
     bindR (ck_int (num_keys keys - numHotKeys)) (\<lambda>numColdKeys.
     bindR (hot_count (HOT_KEY_ACCESS_PERCENTAGE config) (TOTAL_OPERATIONS config)) (\<lambda>hotKeyOps.
     let keyOrder = hot_set_order keys (nat startIdx) (nat endIdx) in
     finish_ops e fs (op_loop (\<lambda>i k.
       bindR (hot_index e hotKeyOps numHotKeys numColdKeys i k) (\<lambda>randomIndex.
       bindR (vec_at_int keyOrder randomIndex) (\<lambda>key.
       bindR (choose_node (k + 1)) (\<lambda>(node, k').
       Inr (\<lparr>op_key = key, op_node = node, op_code = READ_OP\<rparr>, k')))))
       (nat (TOTAL_OPERATIONS config)) 0 0))))))"

definition singleNodeHotSetData ::
    "env \<Rightarrow> string list \<Rightarrow> configuration \<Rightarrow> files \<Rightarrow> (operation list \<times> files) res" where
  "singleNodeHotSetData e keys config =
     hot_set_ops (\<lambda>k. mapR (\<lambda>n. (n, k + 1)) (random_node e (NUM_NODES config) k)) e keys config"

definition singleNodeHotSetDataToSecondNodeOnly ::
    "env \<Rightarrow> string list \<Rightarrow> configuration \<Rightarrow> files \<Rightarrow> (operation list \<times> files) res" where
  "singleNodeHotSetDataToSecondNodeOnly e keys config = hot_set_ops (\<lambda>k. Inr (2, k)) e keys config"

definition singleNodeHotSetDataToSecondNodeOnlyRDMA ::
    "env \<Rightarrow> string list \<Rightarrow> configuration \<Rightarrow> files \<Rightarrow> (operation list \<times> files) res" where
  "singleNodeHotSetDataToSecondNodeOnlyRDMA e keys config = hot_set_ops (\<lambda>k. Inr (1, k)) e keys config"

text \<open>
  The split set. \<open>emplace_back(key, randomNode)\<close> leaves the third member of the operation
  value-initialised, so \<open>op\<close> is the zero character, not \<open>READ_OP\<close>.
\<close>

definition split_node :: "env \<Rightarrow> int \<Rightarrow> nat \<Rightarrow> nat \<Rightarrow> int \<times> nat" where
  "split_node e hotThreads threadID k =
     (if int threadID < hotThreads then (2, k)
      else (if rand e k mod 2 = 0 then 1 else 3, k + 1))"

definition split_thread ::
    "env \<Rightarrow> configuration \<Rightarrow> string list \<Rightarrow> int \<Rightarrow> int \<Rightarrow> nat
     \<Rightarrow> operation list \<times> nat \<Rightarrow> (operation list \<times> nat) res" where
  "split_thread e config newKeySet numHotKeys opsPerThread threadID st =
     (case st of (ops, k) \<Rightarrow>
      let (node, k') = split_node e (HOT_THREAD config) threadID k in
      mapR (\<lambda>(ops', k''). (ops @ ops', k'')) (op_loop (\<lambda>i k.
        bindR (int_mod (rand e k) numHotKeys) (\<lambda>randomIndex.
        bindR (vec_at_int newKeySet randomIndex) (\<lambda>key.
        Inr (\<lparr>op_key = key, op_node = node, op_code = CHR 0x00\<rparr>, k + 1))))
        (nat opsPerThread) 0 k'))"

definition singleNodeHotSetDataTo80SecondNode20Other ::
    "env \<Rightarrow> string list \<Rightarrow> configuration \<Rightarrow> files \<Rightarrow> (operation list \<times> files) res" where
  "singleNodeHotSetDataTo80SecondNode20Other e keys config fs =
     bindR (ck_int (HOT_THREAD config + RDMA_THREAD config)) (\<lambda>totalThreads.
     bindR (int_div (TOTAL_OPERATIONS config) totalThreads) (\<lambda>opsPerThread.
     bindR (ck_int (opsPerThread * totalThreads)) (\<lambda>adjustedTotalOps.
     if adjustedTotalOps < 0 \<or> totalThreads < 0 then Inl (Throw ''length_error'') else
     let startIdx = int_of_u64 (of_nat (length keys) div 3);
         endIdx = int_of_u64 (2 * of_nat (length keys) div 3);
         newKeySet = take (nat endIdx - nat startIdx) (drop (nat startIdx) keys) in
     bindR (hot_count (HOT_KEY_PERCENTAGE config) (int (length newKeySet))) (\<lambda>numHotKeys.
     finish_ops e fs (foldR (split_thread e config newKeySet numHotKeys opsPerThread)
       (env_shuffle e [0..<nat totalThreads]) ([], 0))))))"

section \<open>What the generators produce\<close>

definition valid_op :: "string list \<Rightarrow> int set \<Rightarrow> operation \<Rightarrow> bool" where
  "valid_op keys nodes p \<longleftrightarrow> op_key p \<in> set keys \<and> op_node p \<in> nodes \<and> op_code p = READ_OP"

lemma valid_op_make [simp]:
  "valid_op keys N \<lparr>op_key = k, op_node = m, op_code = c\<rparr> \<longleftrightarrow> k \<in> set keys \<and> m \<in> N \<and> c = READ_OP"
  by (simp add: valid_op_def)

lemma num_keys_small: "length keys < 2 ^ 31 \<Longrightarrow> num_keys keys = int (length keys)"
  by (simp add: num_keys_def int_of_u64_small)

lemma keys_per_node_small:
  assumes "length keys < 2 ^ 31" "0 < n" "n < 2 ^ 31"
  shows "keys_per_node keys n = Inr (int (length keys) div n)"
proof -
  obtain m where n: "n = int m" "0 < m" "m < 2 ^ 31"
    using assms by (metis of_nat_0_less_iff of_nat_less_iff of_nat_numeral of_nat_power zero_less_imp_eq_int)
  have m: "unat (of_nat m :: u64) = m" and l: "unat (of_nat (length keys) :: u64) = length keys"
    using n assms by simp_all
  have "(of_nat m :: u64) \<noteq> 0" using m n by force
  moreover have "unat (of_nat (length keys) div of_nat m :: u64) = length keys div m"
    using m l by (simp add: unat_div)
  moreover have "length keys div m < 2 ^ 31"
    using assms(1) div_le_dividend [of "length keys" m] by linarith
  ultimately show ?thesis
    by (simp add: keys_per_node_def n(1) u64_div_def int_of_u64_small zdiv_int)
qed

lemma finish_ops_Inr: "finish_ops e fs (Inr (ops, k)) = Inr (ops, dumpOperationSetToFile e ops fs)"
  by (simp add: finish_ops_def)

lemma op_loop_valid:
  assumes "\<And>i k. i < n \<Longrightarrow> \<exists>p k'. body i k = Inr (p, k') \<and> P i p"
  shows "\<exists>ops. finish_ops e fs (op_loop body n 0 0) = Inr (ops, dumpOperationSetToFile e ops fs)
    \<and> length ops = n \<and> (\<forall>i < n. P i (ops ! i))"
  using op_loop_total [of 0 n body P 0] assms by (auto simp: finish_ops_Inr)

lemma partition_node_range:
  assumes "stoi key = Inr v" "0 \<le> v" "0 < kpn" "kpn < 2 ^ 31" "0 < n"
  shows "partition_node key kpn n = Inr ((v div kpn) mod n + 1)"
proof -
  have v: "in_int v" using stoi_in_int [OF assms(1)] .
  then have lt: "v < 2 ^ 31" by (simp add: in_int_def int_max_def)
  have q: "0 \<le> v div kpn" "v div kpn \<le> v"
    using assms div_le_self_int by (simp_all add: pos_imp_zdiv_nonneg_iff)
  then have "in_int (v div kpn)" using in_int_between [OF v] by simp
  with assms q lt show ?thesis by (simp add: partition_node_def floor_f64_div)
qed

lemma random_body_valid:
  assumes "keys \<noteq> []" "0 < n"
  shows "\<exists>p k'. bindR (mod_key keys (rand e k)) (\<lambda>key. bindR (random_node e n (k + 1)) (\<lambda>node.
      Inr (\<lparr>op_key = key, op_node = node, op_code = READ_OP\<rparr>, k + 2))) = Inr (p, k') \<and> valid_op keys {1..n} p"
proof -
  obtain x where "x \<in> set keys" "mod_key keys (rand e k) = Inr x" using mod_key_in [OF assms(1)] by blast
  moreover obtain m where "random_node e n (k + 1) = Inr m" "1 \<le> m" "m \<le> n"
    using random_node_range [OF assms(2)] by blast
  ultimately show ?thesis by simp
qed

lemma generateRandomOperationSet_valid:
  assumes "keys \<noteq> []" "0 < NUM_NODES config"
  shows "\<exists>ops. generateRandomOperationSet e keys config fs = Inr (ops, dumpOperationSetToFile e ops fs)
    \<and> length ops = nat (TOTAL_OPERATIONS config)
    \<and> (\<forall>i < nat (TOTAL_OPERATIONS config). valid_op keys {1..NUM_NODES config} (ops ! i))"
  unfolding generateRandomOperationSet_def
  by (rule op_loop_valid) (rule random_body_valid [OF assms])

section \<open>Hot and cold keys\<close>

text \<open>
  The operations before \<open>hotKeyOps\<close> draw from the first \<open>numHotKeys\<close> entries of the key
  order, the others from the rest.
\<close>

definition hot_cold :: "string list \<Rightarrow> nat \<Rightarrow> int \<Rightarrow> nat \<Rightarrow> operation \<Rightarrow> bool" where
  "hot_cold order hot hotKeyOps i p \<longleftrightarrow>
     (if int i < hotKeyOps then op_key p \<in> set (take hot order) else op_key p \<in> set (drop hot order))"

text \<open>A share of hot keys and of hot operations that leaves the drawing of keys defined.\<close>

definition hot_ok :: "configuration \<Rightarrow> int \<Rightarrow> int \<Rightarrow> int \<Rightarrow> int \<Rightarrow> bool" where
  "hot_ok config sz cnt hot hops \<longleftrightarrow>
     hot_count (HOT_KEY_PERCENTAGE config) sz = Inr hot
   \<and> hot_count (HOT_KEY_ACCESS_PERCENTAGE config) (TOTAL_OPERATIONS config) = Inr hops
   \<and> 0 \<le> hot \<and> hot \<le> cnt \<and> (0 < hops \<longrightarrow> 0 < hot) \<and> (hops < TOTAL_OPERATIONS config \<longrightarrow> hot < cnt)"

lemma hot_draw:
  assumes "hot_ok config sz (int (length order)) hot hops" "length order < 2 ^ 31"
    and "i < nat (TOTAL_OPERATIONS config)"
  shows "\<exists>r. hot_index e hops hot (int (length order) - hot) i k = Inr r \<and> 0 \<le> r \<and> r < int (length order)
    \<and> order ! nat r \<in> set order
    \<and> (if int i < hops then order ! nat r \<in> set (take (nat hot) order) else order ! nat r \<in> set (drop (nat hot) order))"
proof -
  from assms have len: "in_int (hot + (int (length order) - hot))"
    by (simp add: in_int_def int_min_def int_max_def)
  have eq: "hot + (int (length order) - hot) = int (length order)" by simp
  have "\<exists>r. hot_index e hops hot (int (length order) - hot) i k = Inr r \<and>
    (if int i < hops then 0 \<le> r \<and> r < hot else hot \<le> r \<and> r < hot + (int (length order) - hot))"
    by (rule hot_index_range) (use assms len in \<open>auto simp: hot_ok_def\<close>)
  then obtain r where r: "hot_index e hops hot (int (length order) - hot) i k = Inr r"
    and c: "if int i < hops then 0 \<le> r \<and> r < hot else hot \<le> r \<and> r < int (length order)"
    unfolding eq by blast
  have h: "0 \<le> hot" "hot \<le> int (length order)" using assms(1) by (simp_all add: hot_ok_def)
  with c have r0: "0 \<le> r" "nat r < length order" by (auto split: if_splits)
  have "if int i < hops then order ! nat r \<in> set (take (nat hot) order) else order ! nat r \<in> set (drop (nat hot) order)"
  proof (cases "int i < hops")
    case True
    with c h r0 have "nat r < length (take (nat hot) order)" by auto
    then show ?thesis using True nth_mem [of "nat r" "take (nat hot) order"] by simp
  next
    case False
    with c h r0 have "nat hot \<le> nat r" "nat r - nat hot < length (drop (nat hot) order)" by auto
    then show ?thesis using False nth_mem [of "nat r - nat hot" "drop (nat hot) order"] h by simp
  qed
  with r r0 show ?thesis by auto
qed

lemma op_loop_hot:
  assumes "hot_ok config sz (int (length order)) hot hops" "length order < 2 ^ 31"
    and "\<And>i k r. i < nat (TOTAL_OPERATIONS config) \<Longrightarrow> hot_index e hops hot (int (length order) - hot) i k = Inr r
      \<Longrightarrow> 0 \<le> r \<Longrightarrow> r < int (length order)
      \<Longrightarrow> \<exists>m k'. body i k = Inr (\<lparr>op_key = order ! nat r, op_node = m, op_code = READ_OP\<rparr>, k') \<and> m \<in> N"
  shows "\<exists>ops. finish_ops e fs (op_loop body (nat (TOTAL_OPERATIONS config)) 0 0)
      = Inr (ops, dumpOperationSetToFile e ops fs) \<and> length ops = nat (TOTAL_OPERATIONS config)
    \<and> (\<forall>i < nat (TOTAL_OPERATIONS config). valid_op order N (ops ! i) \<and> hot_cold order (nat hot) hops i (ops ! i))"
proof (rule op_loop_valid)
  fix i k
  assume i: "i < nat (TOTAL_OPERATIONS config)"
  from hot_draw [OF assms(1,2) i, of e k] obtain r where
    r: "hot_index e hops hot (int (length order) - hot) i k = Inr r" "0 \<le> r" "r < int (length order)"
      "order ! nat r \<in> set order"
    and c: "if int i < hops then order ! nat r \<in> set (take (nat hot) order) else order ! nat r \<in> set (drop (nat hot) order)"
    by blast
  from assms(3) [OF i r(1-3)] obtain m k' where
    "body i k = Inr (\<lparr>op_key = order ! nat r, op_node = m, op_code = READ_OP\<rparr>, k')" "m \<in> N" by blast
  with r c show "\<exists>p k'. body i k = Inr (p, k') \<and> valid_op order N p \<and> hot_cold order (nat hot) hops i p"
    by (auto simp: hot_cold_def)
qed

section \<open>The Zipfian and the hot-set generators\<close>

lemma shuffles_upt:
  assumes "shuffles e"
  shows "length (env_shuffle e [0..<n]) = n" "set (env_shuffle e [0..<n]) = {0..<n}"
proof -
  have m: "mset (env_shuffle e [0..<n]) = mset [0..<n]" using assms by (simp add: shuffles_def)
  from mset_eq_length [OF m] show "length (env_shuffle e [0..<n]) = n" by simp
  from mset_eq_setD [OF m] show "set (env_shuffle e [0..<n]) = {0..<n}" by simp
qed

text \<open>The keys in the order of the shuffled indices.\<close>

definition shuffled_keys :: "env \<Rightarrow> string list \<Rightarrow> string list" where
  "shuffled_keys e keys = map ((!) keys) (env_shuffle e [0..<length keys])"

lemma mset_shuffled_keys: "shuffles e \<Longrightarrow> mset (shuffled_keys e keys) = mset keys"
proof -
  assume "shuffles e"
  then have "mset (shuffled_keys e keys) = image_mset ((!) keys) (mset [0..<length keys])"
    by (simp add: shuffled_keys_def shuffles_def)
  also have "\<dots> = mset (map ((!) keys) [0..<length keys])" by (simp only: mset_map)
  finally show ?thesis by (simp add: map_nth)
qed

lemma shuffled_draw:
  assumes "shuffles e" "0 \<le> r" "r < int (length keys)" "length keys < 2 ^ 31"
  shows "bindR (vec_at_int (env_shuffle e [0..<nat (num_keys keys)]) r) (\<lambda>j. bindR (vec_at keys j) f)
    = f (shuffled_keys e keys ! nat r)"
proof -
  note o = shuffles_upt [OF assms(1), of "length keys"]
  have r: "nat r < length keys" using assms by simp
  have "env_shuffle e [0..<length keys] ! nat r \<in> set (env_shuffle e [0..<length keys])"
    by (rule nth_mem) (simp add: o r)
  then have "env_shuffle e [0..<length keys] ! nat r < length keys" by (simp add: o)
  with assms r show ?thesis by (simp add: vec_at_int_in o num_keys_small shuffled_keys_def)
qed

text \<open>
  The Zipfian generator returns \<open>TOTAL_OPERATIONS\<close> reads of keys of the
  dataset at nodes \<open>1..NUM_NODES\<close>; the operations before \<open>hotKeyOps\<close> draw from the hot prefix of
  the shuffled key order and the later ones only from its cold rest, and the set is dumped.
\<close>

theorem generateZipfianOperationSet_hot_cold:
  assumes "shuffles e" "length keys < 2 ^ 31" "0 < NUM_NODES config"
    and "hot_ok config (int (length keys)) (int (length keys)) hot hops"
  shows "\<exists>ops. generateZipfianOperationSet e keys config fs = Inr (ops, dumpOperationSetToFile e ops fs)
    \<and> length ops = nat (TOTAL_OPERATIONS config)
    \<and> (\<forall>i < nat (TOTAL_OPERATIONS config). valid_op (shuffled_keys e keys) {1..NUM_NODES config} (ops ! i)
        \<and> hot_cold (shuffled_keys e keys) (nat hot) hops i (ops ! i))"
proof -
  let ?order = "shuffled_keys e keys"
  have len: "length ?order = length keys" by (simp add: shuffled_keys_def shuffles_upt assms(1))
  have h: "hot_count (HOT_KEY_PERCENTAGE config) (int (length keys)) = Inr hot"
    "hot_count (HOT_KEY_ACCESS_PERCENTAGE config) (TOTAL_OPERATIONS config) = Inr hops"
    and cold: "ck_int (int (length keys) - hot) = Inr (int (length keys) - hot)"
    using assms(2,4) by (simp_all add: hot_ok_def ck_int_def in_int_def int_min_def int_max_def)
  note draw = shuffled_draw [OF assms(1) _ _ assms(2), unfolded num_keys_small [OF assms(2)], simplified]
  show ?thesis
    unfolding generateZipfianOperationSet_def num_keys_small [OF assms(2)] h cold bindR_simps Let_def
  proof (rule op_loop_hot [where order = ?order, unfolded len, OF assms(4,2)], goal_cases)
    case (1 i k r)
    moreover obtain m where "random_node e (NUM_NODES config) (k + 1) = Inr m" "1 \<le> m" "m \<le> NUM_NODES config"
      using random_node_range [OF assms(3)] by blast
    ultimately show ?case by (simp add: draw)
  qed
qed

theorem generateZipfianOperationSet_hot_cold_witness:
  "\<exists>ops. generateZipfianOperationSet sample_env (map to_string_nat [1..<7]) sample_config Map.empty
      = Inr (ops, dumpOperationSetToFile sample_env ops Map.empty)
    \<and> op_key (ops ! 0) \<in> set (take 3 (shuffled_keys sample_env (map to_string_nat [1..<7])))
    \<and> op_key (ops ! 3) \<in> set (drop 3 (shuffled_keys sample_env (map to_string_nat [1..<7])))"
proof -
  let ?keys = "map to_string_nat [1..<7]"
  have h: "hot_ok sample_config 6 6 3 2" by code_simp
  have t: "TOTAL_OPERATIONS sample_config = 4" "NUM_NODES sample_config = 3" by (simp_all add: sample_config_def)
  have "shuffles sample_env" by (simp add: shuffles_def sample_env_def)
  from generateZipfianOperationSet_hot_cold [OF this, of ?keys sample_config 3 2 Map.empty] h t show ?thesis
    by (fastforce simp: hot_cold_def dest: spec [of _ 0] spec [of _ 3])
qed

lemma keys_decimal_partition:
  assumes "\<exists>v. stoi key = Inr v \<and> 0 \<le> v" "0 < kpn" "kpn < 2 ^ 31" "0 < n"
  shows "\<exists>m. partition_node key kpn n = Inr m \<and> m \<in> {1..n}"
proof -
  obtain v where v: "stoi key = Inr v" "0 \<le> v" using assms(1) by blast
  have "v div kpn mod n < n" "0 \<le> v div kpn mod n" using assms(4) by simp_all
  then show ?thesis using partition_node_range [OF v assms(2-4)] by simp
qed

lemma per_node_bounds:
  assumes "0 < n" "n \<le> int (length keys)" "length keys < 2 ^ 31"
  shows "keys_per_node keys n = Inr (int (length keys) div n)"
    "0 < int (length keys) div n" "int (length keys) div n < 2 ^ 31"
proof -
  have l: "int (length keys) < 2 ^ 31" using assms(3) by (metis of_nat_less_iff of_nat_numeral of_nat_power)
  show "keys_per_node keys n = Inr (int (length keys) div n)"
    by (rule keys_per_node_small) (use assms l in linarith)+
  show "0 < int (length keys) div n" using assms by (simp add: pos_imp_zdiv_pos_iff)
  show "int (length keys) div n < 2 ^ 31"
    using div_le_self_int [of "int (length keys)" n] assms l by linarith
qed

text \<open>
  The partitioned generator replays the keys in order and sends key \<open>v\<close> to
  node \<open>v div keysPerNode mod NUM_NODES + 1\<close>, the floating-point division of the code
  notwithstanding.
\<close>

theorem generatePartitionedOperationSet_nodes:
  assumes "0 < NUM_NODES config" "NUM_NODES config \<le> int (length keys)" "length keys < 2 ^ 31"
    and "\<forall>key \<in> set keys. \<exists>v. stoi key = Inr v \<and> 0 \<le> v"
  shows "\<exists>ops. generatePartitionedOperationSet e keys config fs = Inr (ops, dumpOperationSetToFile e ops fs)
    \<and> length ops = nat (TOTAL_OPERATIONS config)
    \<and> (\<forall>i < nat (TOTAL_OPERATIONS config). op_key (ops ! i) = keys ! (i mod length keys)
        \<and> op_code (ops ! i) = READ_OP
        \<and> (\<exists>v. stoi (op_key (ops ! i)) = Inr v
             \<and> op_node (ops ! i) = v div (int (length keys) div NUM_NODES config) mod NUM_NODES config + 1))"
proof -
  note k = per_node_bounds [OF assms(1-3)]
  have ne: "keys \<noteq> []" using assms(1,2) by auto
  show ?thesis
    unfolding generatePartitionedOperationSet_def k(1) bindR_simps
  proof (rule op_loop_valid, goal_cases)
    case (1 i j)
    have "keys ! (i mod length keys) \<in> set keys" using ne by simp
    with assms(4) obtain v where "stoi (keys ! (i mod length keys)) = Inr v" "0 \<le> v" by blast
    with ne k assms(1) show ?case by (simp add: mod_key_def partition_node_range)
  qed
qed

theorem generatePartitionedOperationSet_nodes_witness:
  "\<exists>ops. generatePartitionedOperationSet sample_env (map to_string_nat [1..<7]) sample_config Map.empty
      = Inr (ops, dumpOperationSetToFile sample_env ops Map.empty) \<and> op_node (ops ! 3) = 3"
proof -
  let ?keys = "map to_string_nat [1..<7]"
  have t: "TOTAL_OPERATIONS sample_config = 4" "NUM_NODES sample_config = 3" by (simp_all add: sample_config_def)
  have "\<forall>key \<in> set ?keys. \<exists>v. stoi key = Inr v \<and> 0 \<le> v" by (auto simp: stoi_to_string)
  moreover have "stoi (?keys ! 3) = Inr 4" by code_simp
  ultimately show ?thesis using generatePartitionedOperationSet_nodes [of sample_config ?keys sample_env Map.empty] t
    by (fastforce dest: spec [of _ 3])
qed

text \<open>
  The Zipfian generator over partitions keeps the hot and cold shares and
  names only keys of the dataset and existing nodes.
\<close>

theorem generateZipfianPartitionedOperationSet_hot_cold:
  assumes "shuffles e" "length keys < 2 ^ 31" "0 < NUM_NODES config" "NUM_NODES config \<le> int (length keys)"
    and "hot_ok config (int (length keys)) (int (length keys)) hot hops"
    and "\<forall>key \<in> set keys. \<exists>v. stoi key = Inr v \<and> 0 \<le> v"
  shows "\<exists>ops. generateZipfianPartitionedOperationSet e keys config fs = Inr (ops, dumpOperationSetToFile e ops fs)
    \<and> length ops = nat (TOTAL_OPERATIONS config)
    \<and> (\<forall>i < nat (TOTAL_OPERATIONS config). valid_op (shuffled_keys e keys) {1..NUM_NODES config} (ops ! i)
        \<and> hot_cold (shuffled_keys e keys) (nat hot) hops i (ops ! i))"
proof -
  let ?order = "shuffled_keys e keys"
  note k = per_node_bounds [OF assms(3,4,2)]
  have len: "length ?order = length keys" by (simp add: shuffled_keys_def shuffles_upt assms(1))
  have mem: "set ?order = set keys" using mset_shuffled_keys [OF assms(1)] by (rule mset_eq_setD)
  have h: "hot_count (HOT_KEY_PERCENTAGE config) (int (length keys)) = Inr hot"
    "hot_count (HOT_KEY_ACCESS_PERCENTAGE config) (TOTAL_OPERATIONS config) = Inr hops"
    and cold: "ck_int (int (length keys) - hot) = Inr (int (length keys) - hot)"
    using assms(2,5) by (simp_all add: hot_ok_def ck_int_def in_int_def int_min_def int_max_def)
  note draw = shuffled_draw [OF assms(1) _ _ assms(2), unfolded num_keys_small [OF assms(2)], simplified]
  show ?thesis
    unfolding generateZipfianPartitionedOperationSet_def num_keys_small [OF assms(2)] h cold k(1) bindR_simps Let_def
  proof (rule op_loop_hot [where order = ?order, unfolded len, OF assms(5,2)], goal_cases)
    case (1 i j r)
    then have "?order ! nat r \<in> set keys" using nth_mem [of "nat r" ?order] len mem by simp
    with assms(6) obtain m where "partition_node (?order ! nat r) (int (length keys) div NUM_NODES config) (NUM_NODES config) = Inr m"
      "m \<in> {1..NUM_NODES config}" using keys_decimal_partition [OF _ k(2,3) assms(3)] by blast
    with 1 show ?case by (simp add: draw)
  qed
qed

theorem generateZipfianPartitionedOperationSet_hot_cold_witness:
  "\<exists>ops. generateZipfianPartitionedOperationSet sample_env (map to_string_nat [1..<7]) sample_config Map.empty
      = Inr (ops, dumpOperationSetToFile sample_env ops Map.empty)
    \<and> op_key (ops ! 0) \<in> set (take 3 (shuffled_keys sample_env (map to_string_nat [1..<7])))"
proof -
  let ?keys = "map to_string_nat [1..<7]"
  have h: "hot_ok sample_config 6 6 3 2" by code_simp
  have t: "TOTAL_OPERATIONS sample_config = 4" "NUM_NODES sample_config = 3" by (simp_all add: sample_config_def)
  have "shuffles sample_env" by (simp add: shuffles_def sample_env_def)
  moreover have "\<forall>key \<in> set ?keys. \<exists>v. stoi key = Inr v \<and> 0 \<le> v" 
     by (auto simp: stoi_to_string)
  ultimately show ?thesis using generateZipfianPartitionedOperationSet_hot_cold [of sample_env ?keys sample_config 3 2 Map.empty] h t 
    by (fastforce simp: hot_cold_def dest: spec [of _ 0] spec [of _ 3])
qed

section \<open>The hot-set generators\<close>

lemma hot_set_order_eq:
  assumes "a \<le> b" "b \<le> length keys" "length keys < 2 ^ 31"
  shows "hot_set_order keys a b = take (b - a) (drop a keys) @ take a keys @ drop b keys"
proof -
  have "[0..<length keys] = [0..<a] @ [a..<b] @ [b..<length keys]"
    using assms by (metis le_add_diff_inverse le_trans upt_add_eq_append zero_le)
  then have "filter (\<lambda>i. i < a \<or> b \<le> i) [0..<length keys] = [0..<a] @ [b..<length keys]"
    using assms(1) by (auto simp: filter_empty_conv filter_id_conv)
  moreover have "map ((!) keys) [0..<a] = take a keys" using assms by (simp add: map_nth take_map flip: take_upt)
    (metis map_nth take_map take_upt add_0 le_trans)
  moreover have "map ((!) keys) [b..<length keys] = drop b keys" by (metis drop_map drop_upt map_nth plus_nat.add_0)
  moreover have "concat (map (\<lambda>i. if P i then [f i] else []) xs) = map f (filter P xs)"
    for P :: "nat \<Rightarrow> bool" and f :: "nat \<Rightarrow> string" and xs by (induction xs) simp_all
  ultimately show ?thesis by (simp add: hot_set_order_def num_keys_small [OF assms(3)])
qed

lemma hot_set_order_perm:
  assumes "a \<le> b" "b \<le> length keys" "length keys < 2 ^ 31"
  shows "mset (hot_set_order keys a b) = mset keys"
proof -
  have "keys = take a keys @ take (b - a) (drop a keys) @ drop b keys"
    using assms(1) by (metis append_take_drop_id drop_drop le_add_diff_inverse2)
  then have "mset keys = mset (take a keys) + (mset (take (b - a) (drop a keys)) + mset (drop b keys))"
    by (metis mset_append)
  then show ?thesis by (simp add: hot_set_order_eq [OF assms] add.left_commute)
qed

lemma mid_bounds:
  assumes "length keys < 2 ^ 30"
  shows "mid_start keys = Inr (int (length keys div 3))" "mid_end keys = Inr (int (2 * length keys div 3))"
proof -
  have n: "num_keys keys = int (length keys)" using assms by (simp add: num_keys_small)
  have l: "int (length keys) < 2 ^ 30" using assms by (metis of_nat_less_iff of_nat_numeral of_nat_power)
  then have i: "in_int (int (length keys))" "in_int (2 * int (length keys))"
    by (simp_all add: in_int_def int_min_def int_max_def)
  then show "mid_start keys = Inr (int (length keys div 3))"
    "mid_end keys = Inr (int (2 * length keys div 3))"
    by (simp_all add: mid_start_def mid_end_def n zdiv_int)
qed

text \<open>
  The common theorem of the three: every operation takes a key of the set, the node that
  the generator chooses, and the hot operations draw from the head of the middle third.
\<close>

lemma hot_set_ops_hot_cold:
  fixes keys
  defines "a \<equiv> length keys div 3" and "b \<equiv> 2 * length keys div 3"
  assumes "length keys < 2 ^ 30"
    and "hot_ok config (int b - int a) (int (length keys)) hot hops"
    and "\<And>k. \<exists>m k'. choose_node k = Inr (m, k') \<and> m \<in> N"
  shows "\<exists>ops. hot_set_ops choose_node e keys config fs = Inr (ops, dumpOperationSetToFile e ops fs)
    \<and> length ops = nat (TOTAL_OPERATIONS config)
    \<and> (\<forall>i < nat (TOTAL_OPERATIONS config). valid_op keys N (ops ! i)
        \<and> hot_cold (hot_set_order keys a b) (nat hot) hops i (ops ! i))"
proof -
  let ?order = "hot_set_order keys a b"
  have l: "length keys < 2 ^ 31" using assms(3) by simp
  have ab: "a \<le> b" "b \<le> length keys" by (simp_all add: a_def b_def)
  have perm: "mset ?order = mset keys" by (rule hot_set_order_perm [OF ab l])
  have len: "length ?order = length keys" using mset_eq_length [OF perm] .
  have mem: "set ?order = set keys" using mset_eq_setD [OF perm] .
  have h: "hot_count (HOT_KEY_PERCENTAGE config) (int b - int a) = Inr hot"
    "hot_count (HOT_KEY_ACCESS_PERCENTAGE config) (TOTAL_OPERATIONS config) = Inr hops"
    and cold: "ck_int (int (length keys) - hot) = Inr (int (length keys) - hot)"
    using assms(4) l by (simp_all add: hot_ok_def ck_int_def in_int_def int_min_def int_max_def)
  have "\<exists>ops. hot_set_ops choose_node e keys config fs = Inr (ops, dumpOperationSetToFile e ops fs)
    \<and> length ops = nat (TOTAL_OPERATIONS config)
    \<and> (\<forall>i < nat (TOTAL_OPERATIONS config). valid_op ?order N (ops ! i) \<and> hot_cold ?order (nat hot) hops i (ops ! i))"
    unfolding hot_set_ops_def mid_bounds [OF assms(3)] num_keys_small [OF l] a_def [symmetric] b_def [symmetric]
      h cold bindR_simps Let_def nat_int
  proof (rule op_loop_hot [where order = ?order, unfolded len, OF assms(4) l], goal_cases)
    case (1 i j r)
    moreover obtain m k' where "choose_node (j + 1) = Inr (m, k')" "m \<in> N" using assms(5) by blast
    ultimately show ?case by (simp add: vec_at_int_in len)
  qed
  then show ?thesis by (simp add: valid_op_def mem)
qed

text \<open>
  The single-node hot set takes its hot keys from the middle third of the
  dataset, which it moves to the front of the key order.
\<close>

theorem singleNodeHotSetData_hot_cold:
  fixes keys
  defines "a \<equiv> length keys div 3" and "b \<equiv> 2 * length keys div 3"
  assumes "length keys < 2 ^ 30" "0 < NUM_NODES config"
    and "hot_ok config (int b - int a) (int (length keys)) hot hops"
  shows "\<exists>ops. singleNodeHotSetData e keys config fs = Inr (ops, dumpOperationSetToFile e ops fs)
    \<and> length ops = nat (TOTAL_OPERATIONS config)
    \<and> (\<forall>i < nat (TOTAL_OPERATIONS config). valid_op keys {1..NUM_NODES config} (ops ! i)
        \<and> hot_cold (hot_set_order keys a b) (nat hot) hops i (ops ! i))"
  unfolding singleNodeHotSetData_def a_def b_def
proof (rule hot_set_ops_hot_cold [OF assms(3) assms(5) [unfolded a_def b_def]])
  fix k
  obtain m where "random_node e (NUM_NODES config) k = Inr m" "1 \<le> m" "m \<le> NUM_NODES config"
    using random_node_range [OF assms(4)] by blast
  then show "\<exists>m k'. mapR (\<lambda>n. (n, k + 1)) (random_node e (NUM_NODES config) k) = Inr (m, k')
    \<and> m \<in> {1..NUM_NODES config}" by simp
qed

theorem singleNodeHotSetData_hot_cold_witness:
  "\<exists>ops. singleNodeHotSetData sample_env (map to_string_nat [1..<7]) sample_config Map.empty
      = Inr (ops, dumpOperationSetToFile sample_env ops Map.empty)
    \<and> op_key (ops ! 0) = ''3''"
proof -
  let ?keys = "map to_string_nat [1..<7]"
  have h: "hot_ok sample_config 2 6 1 2" by code_simp
  have o: "take 1 (hot_set_order ?keys 2 4) = [''3'']" by code_simp
  have t: "TOTAL_OPERATIONS sample_config = 4" "NUM_NODES sample_config = 3" by (simp_all add: sample_config_def)
  show ?thesis using singleNodeHotSetData_hot_cold [of ?keys sample_config 1 2 sample_env Map.empty] h t o
    by (fastforce simp: hot_cold_def dest: spec [of _ 0])
qed

theorem second_node_sets_hot_cold:
  fixes keys
  defines "a \<equiv> length keys div 3" and "b \<equiv> 2 * length keys div 3"
  assumes "length keys < 2 ^ 30"
    and "hot_ok config (int b - int a) (int (length keys)) hot hops"
  shows "\<exists>ops. singleNodeHotSetDataToSecondNodeOnly e keys config fs = Inr (ops, dumpOperationSetToFile e ops fs)
      \<and> length ops = nat (TOTAL_OPERATIONS config)
      \<and> (\<forall>i < nat (TOTAL_OPERATIONS config). valid_op keys {2} (ops ! i)
          \<and> hot_cold (hot_set_order keys a b) (nat hot) hops i (ops ! i))"
    and "\<exists>ops. singleNodeHotSetDataToSecondNodeOnlyRDMA e keys config fs = Inr (ops, dumpOperationSetToFile e ops fs)
      \<and> length ops = nat (TOTAL_OPERATIONS config)
      \<and> (\<forall>i < nat (TOTAL_OPERATIONS config). valid_op keys {1} (ops ! i)
          \<and> hot_cold (hot_set_order keys a b) (nat hot) hops i (ops ! i))"
  unfolding singleNodeHotSetDataToSecondNodeOnly_def singleNodeHotSetDataToSecondNodeOnlyRDMA_def a_def b_def
  by (rule hot_set_ops_hot_cold [OF assms(3) assms(4) [unfolded a_def b_def]]; simp)+

section \<open>The split set\<close>

text \<open>Every operation of the split set has the zero character in place of \<open>READ_OP\<close>.\<close>

definition split_op :: "string list \<Rightarrow> operation \<Rightarrow> bool" where
  "split_op keys p \<longleftrightarrow> op_key p \<in> set keys \<and> op_node p \<in> {1, 2, 3} \<and> op_code p = CHR 0x00"

lemma op_loop_all:
  assumes "op_loop body n i k = Inr (ops, k')"
    and "\<And>i k p k'. body i k = Inr (p, k') \<Longrightarrow> P p"
  shows "length ops = n \<and> (\<forall>p \<in> set ops. P p)"
  using assms by (induction n arbitrary: i k ops) (fastforce simp: bindR_Inr_iff)+

lemma split_thread_ops:
  assumes "split_thread e config newKeySet hot per tid (ops, k) = Inr (ops', k')" "\<forall>p \<in> set ops. split_op newKeySet p"
  shows "length ops' = length ops + nat per \<and> (\<forall>p \<in> set ops'. split_op newKeySet p)"
proof -
  obtain node k1 where n: "split_node e (HOT_THREAD config) tid k = (node, k1)" by fastforce
  then have node: "node \<in> {1, 2, 3}" by (auto simp: split_node_def split: if_splits)
  from assms(1) n obtain new where new: "op_loop (\<lambda>i k.
        bindR (int_mod (rand e k) hot) (\<lambda>randomIndex.
        bindR (vec_at_int newKeySet randomIndex) (\<lambda>key.
        Inr (\<lparr>op_key = key, op_node = node, op_code = CHR 0x00\<rparr>, k + 1)))) (nat per) 0 k1 = Inr (new, k')"
    and ops': "ops' = ops @ new" by (auto simp: split_thread_def mapR_Inr_iff)
  have "length new = nat per \<and> (\<forall>p \<in> set new. split_op newKeySet p)"
    by (rule op_loop_all [OF new])
      (use node in \<open>auto simp: bindR_Inr_iff split_op_def vec_at_int_def vec_at_def split: if_splits\<close>)
  with assms(2) ops' show ?thesis by auto
qed

text \<open>
  Every operation of the split set names a key of the dataset and node 1, 2 or
  3, and none of them is a read: \<open>emplace_back\<close> leaves the operation code zero.
\<close>

theorem split_set_ops:
  assumes "singleNodeHotSetDataTo80SecondNode20Other e keys config fs = Inr (ops, fs')"
  shows "\<forall>p \<in> set ops. split_op keys p \<and> op_code p \<noteq> READ_OP"
proof -
  from assms obtain tids new hot per k where
    new: "foldR (split_thread e config new hot per) tids ([], 0) = Inr (ops, k)"
    and sub: "set new \<subseteq> set keys"
    by (auto simp: singleNodeHotSetDataTo80SecondNode20Other_def finish_ops_def bindR_Inr_iff mapR_Inr_iff
        Let_def split: if_splits) (meson in_set_dropD in_set_takeD subsetI)
  have "\<forall>p \<in> set (fst (ops, k)). split_op new p"
    by (rule foldR_invariant [OF new]) (auto dest!: split_thread_ops)
  with sub show ?thesis by (auto simp: split_op_def READ_OP_def)
qed

theorem split_set_ops_witness:
  "\<exists>ops fs'. singleNodeHotSetDataTo80SecondNode20Other sample_env (map to_string_nat [1..<7]) sample_config
     Map.empty = Inr (ops, fs') \<and> length ops = 4 \<and> (\<forall>p \<in> set ops. op_code p \<noteq> READ_OP)"
proof -
  let ?r = "singleNodeHotSetDataTo80SecondNode20Other sample_env (map to_string_nat [1..<7]) sample_config Map.empty"
  have "(case ?r of Inl _ \<Rightarrow> 0 | Inr (ops, _) \<Rightarrow> length ops) = 4" by code_simp
  then obtain ops fs' where r: "?r = Inr (ops, fs')" "length ops = 4" by (cases ?r) auto
  with split_set_ops [OF r(1)] show ?thesis by auto
qed

end
