(* ===== verification/Division.thy ===== *)
theory Division
  imports Workload
begin

text \<open>
  How a list of operations is shared among clients and threads: \<open>get_chunk\<close>
  (\<open>src/src/ldc.cpp\<close>), which the client workers use, and \<open>divideOperationSetPerThread\<close>
  (\<open>src/src/operations.cpp\<close>), which computes all the parts in one pass.
\<close>

section \<open>The two routines\<close>

definition chunk_start :: "nat \<Rightarrow> nat \<Rightarrow> nat \<Rightarrow> nat" where
  "chunk_start len n i = i * (len div n) + min i (len mod n)"

text \<open>
  A failed \<open>assert(i < n)\<close> stops a debug build; in a release build the division by \<open>n = 0\<close> or
  the iterators past the end are undefined. Both are a fault.
\<close>

definition get_chunk :: "'a list \<Rightarrow> nat \<Rightarrow> nat \<Rightarrow> 'a list res" where
  "get_chunk vec n i =
     (if i < n then
        let q = length vec div n; r = length vec mod n;
            b = i * q + min i r; e = (i + 1) * q + min (i + 1) r
        in Inr (take (e - b) (drop b vec))
      else Inl (Panic ''assertion i < n''))"

fun divide_loop :: "'a list \<Rightarrow> nat \<Rightarrow> nat \<Rightarrow> nat \<Rightarrow> nat \<Rightarrow> nat \<Rightarrow> 'a list list \<Rightarrow> 'a list list" where
  "divide_loop ops per extra 0 i start sets = sets"
| "divide_loop ops per extra (Suc n) i start sets =
     (let e = start + per + (if i < extra then 1 else 0);
          sets' = (if start < length ops then sets[i := take (e - start) (drop start ops)] else sets)
      in divide_loop ops per extra n (Suc i) e sets')"

text \<open>
  The vector of \<open>total_threads\<close> empty sets is built before the check, so a negative count
  raises \<open>length_error\<close> from the constructor and only zero reaches the check.
\<close>

definition divideOperationSetPerThread :: "'a list \<Rightarrow> int \<Rightarrow> 'a list list res" where
  "divideOperationSetPerThread ops total_threads =
     (if total_threads < 0 then Inl (Throw ''length_error'')
      else if total_threads \<le> 0 then Inl (Throw ''invalid_argument'')
      else let n = nat total_threads
           in Inr (divide_loop ops (length ops div n) (length ops mod n) n 0 0 (replicate n [])))"

section \<open>Both compute the same parts\<close>

definition chunk :: "'a list \<Rightarrow> nat \<Rightarrow> nat \<Rightarrow> 'a list" where
  "chunk vec n i = take (chunk_start (length vec) n (Suc i) - chunk_start (length vec) n i)
     (drop (chunk_start (length vec) n i) vec)"

lemma get_chunk_eq: "i < n \<Longrightarrow> get_chunk vec n i = Inr (chunk vec n i)"
  by (simp add: get_chunk_def chunk_def chunk_start_def Let_def)

lemma chunk_start_0 [simp]: "chunk_start len n 0 = 0"
  by (simp add: chunk_start_def)

lemma chunk_start_Suc:
  "chunk_start len n (Suc i) = chunk_start len n i + len div n + (if i < len mod n then 1 else 0)"
  by (simp add: chunk_start_def)

lemma chunk_start_end: "0 < n \<Longrightarrow> chunk_start len n n = len"
  using pos_mod_bound [of "int n" "int len"]
  by (simp add: chunk_start_def min_def) (metis div_mult_mod_eq less_imp_le_nat mod_less_divisor mult.commute not_le)

lemma chunk_start_mono: "i \<le> j \<Longrightarrow> chunk_start len n i \<le> chunk_start len n j"
  unfolding chunk_start_def by (intro add_mono mult_right_mono min.mono) simp_all

lemma divide_loop_nth:
  assumes "length sets = i + n" and "m = i + n" and "start = chunk_start (length ops) m i"
    and "\<forall>j. i \<le> j \<longrightarrow> j < m \<longrightarrow> sets ! j = []"
  shows "length (divide_loop ops (length ops div m) (length ops mod m) n i start sets) = m
    \<and> (\<forall>j < i. divide_loop ops (length ops div m) (length ops mod m) n i start sets ! j = sets ! j)
    \<and> (\<forall>j. i \<le> j \<longrightarrow> j < m \<longrightarrow>
         divide_loop ops (length ops div m) (length ops mod m) n i start sets ! j = chunk ops m j)"
  using assms
proof (induction n arbitrary: i start sets)
  case 0
  then show ?case by simp
next
  case (Suc n)
  let ?e = "start + length ops div m + (if i < length ops mod m then 1 else 0)"
  let ?sets = "if start < length ops then sets[i := take (?e - start) (drop start ops)] else sets"
  have e: "?e = chunk_start (length ops) m (Suc i)" by (simp add: Suc.prems(3) chunk_start_Suc)
  have len: "length ?sets = Suc i + n" "m = Suc i + n" using Suc.prems(1,2) by simp_all
  have rest: "\<forall>j. Suc i \<le> j \<longrightarrow> j < m \<longrightarrow> ?sets ! j = []" using Suc.prems(4) by simp
  have here: "?sets ! i = chunk ops m i"
    using Suc.prems e by (auto simp: chunk_def)
  note IH = Suc.IH [OF len e rest]
  have "\<forall>j. i \<le> j \<longrightarrow> j < m \<longrightarrow>
      divide_loop ops (length ops div m) (length ops mod m) n (Suc i) ?e ?sets ! j = chunk ops m j"
  proof (intro allI impI)
    fix j
    assume "i \<le> j" "j < m"
    then show "divide_loop ops (length ops div m) (length ops mod m) n (Suc i) ?e ?sets ! j = chunk ops m j"
      using IH here by (cases "j = i") auto
  qed
  moreover have "\<forall>j < i. divide_loop ops (length ops div m) (length ops mod m) n (Suc i) ?e ?sets ! j = sets ! j"
    using IH by auto
  ultimately show ?case using IH by (simp add: Let_def)
qed

lemma divide_eq_chunks:
  assumes "0 < n"
  shows "divideOperationSetPerThread ops (int n) = Inr (map (chunk ops n) [0..<n])"
proof -
  note d = divide_loop_nth [of "replicate n []" 0 n n 0 ops]
  have "divide_loop ops (length ops div n) (length ops mod n) n 0 0 (replicate n []) = map (chunk ops n) [0..<n]"
    by (rule nth_equalityI) (use d in auto)
  with assms show ?thesis by (simp add: divideOperationSetPerThread_def)
qed

lemma concat_chunks:
  assumes "0 < n" "m \<le> n"
  shows "concat (map (chunk vec n) [0..<m]) = take (chunk_start (length vec) n m) vec"
  using assms(2)
proof (induction m)
  case 0
  then show ?case by simp
next
  case (Suc m)
  let ?a = "chunk_start (length vec) n m" and ?b = "chunk_start (length vec) n (Suc m)"
  have "?a \<le> ?b" by (rule chunk_start_mono) simp
  then have "take ?b vec = take ?a vec @ take (?b - ?a) (drop ?a vec)"
    by (metis le_add_diff_inverse take_add)
  with Suc show ?case by (simp add: chunk_def)
qed

lemma length_chunk:
  assumes "i < n"
  shows "length (chunk vec n i) = length vec div n + (if i < length vec mod n then 1 else 0)"
proof -
  have "chunk_start (length vec) n (Suc i) \<le> chunk_start (length vec) n n" by (rule chunk_start_mono) (use assms in simp)
  then have "chunk_start (length vec) n (Suc i) \<le> length vec" using assms by (simp add: chunk_start_end)
  then show ?thesis by (simp add: chunk_def chunk_start_Suc)
qed

text \<open>
  Property C34: the chunks that \<open>get_chunk\<close> hands to \<open>n\<close> workers, concatenated, are the
  whole vector in order, and their sizes differ by at most one.
\<close>

theorem get_chunk_partition:
  assumes "0 < n"
  shows "\<exists>parts. (\<forall>i < n. get_chunk vec n i = Inr (parts ! i)) \<and> length parts = n \<and> concat parts = vec
    \<and> (\<forall>i < n. length (parts ! i) = length vec div n \<or> length (parts ! i) = length vec div n + 1)"
proof (intro exI conjI)
  show "concat (map (chunk vec n) [0..<n]) = vec"
    using concat_chunks [OF assms, of n vec] by (simp add: chunk_start_end [OF assms])
qed (simp_all add: get_chunk_eq length_chunk)

theorem get_chunk_partition_witness:
  "\<exists>parts. (\<forall>i < 3. get_chunk ''abcdefgh'' 3 i = Inr (parts ! i)) \<and> concat parts = ''abcdefgh''"
  using get_chunk_partition [of 3 "''abcdefgh''"] by auto

text \<open>
  Dividing a set of operations per thread gives thread \<open>i\<close> exactly the chunk
  that \<open>get_chunk\<close> gives client \<open>i\<close>: the two routines are interchangeable.
\<close>

theorem divide_agrees_with_get_chunk:
  assumes "0 < n" "i < n"
  shows "\<exists>sets. divideOperationSetPerThread ops (int n) = Inr sets \<and> get_chunk ops n i = Inr (sets ! i)"
  using assms by (simp add: divide_eq_chunks get_chunk_eq)

theorem divide_agrees_with_get_chunk_witness:
  "\<exists>sets. divideOperationSetPerThread ''abcdefgh'' 3 = Inr sets \<and> get_chunk ''abcdefgh'' 3 1 = Inr (sets ! 1)"
  using divide_agrees_with_get_chunk [of 3 1 "''abcdefgh''"] by simp

end
