(* ===== verification/Dataset.thy ===== *)
theory Dataset
  imports Division
begin

text \<open>
  The dataset file (\<open>src/src/dataset.cpp\<close>): writing keys \<open>1..N\<close> with one random value,
  reading the keys back, and the two drivers that pick a generator by the configured
  distribution.
\<close>

section \<open>Writing and reading the dataset\<close>

definition random_letters :: "env \<Rightarrow> nat \<Rightarrow> string" where
  "random_letters e n = map (\<lambda>j. char_of (nat (rand e j mod 26) + 65)) [0..<n]"

definition dataset_text :: "string \<Rightarrow> nat \<Rightarrow> string" where
  "dataset_text val n = concat (map (\<lambda>i. to_string_nat i @ CHR '' '' # val @ [newline]) [1..<Suc n])"

definition createAndWriteDataset :: "env \<Rightarrow> string \<Rightarrow> int \<Rightarrow> int \<Rightarrow> files \<Rightarrow> files" where
  "createAndWriteDataset e datasetFile numberOfKeys valueSize fs =
     (if env_can_open e datasetFile
      then fs(datasetFile \<mapsto> dataset_text (random_letters e (nat valueSize)) (nat numberOfKeys))
      else fs)"

definition line_key :: "string \<Rightarrow> string list" where
  "line_key l = (case extract_word l of None \<Rightarrow> [] | Some (key, _) \<Rightarrow> [key])"

definition readKeysFromFile :: "files \<Rightarrow> string \<Rightarrow> string list" where
  "readKeysFromFile fs datasetFile =
     (case fs datasetFile of None \<Rightarrow> [] | Some text \<Rightarrow> concat (map line_key (split_lines text)))"

text \<open>The \<open>rand()\<close> calls of the value come first; the generator that follows sees the rest.\<close>

definition env_after :: "env \<Rightarrow> nat \<Rightarrow> env" where
  "env_after e n = e\<lparr>env_rand := (\<lambda>k. env_rand e (n + k))\<rparr>"

definition generate_for ::
    "distribution_type \<Rightarrow> env \<Rightarrow> string list \<Rightarrow> configuration \<Rightarrow> files \<Rightarrow> (operation list \<times> files) res" where
  "generate_for d = (case d of
     RANDOM_DISTRIBUTION \<Rightarrow> generateRandomOperationSet
   | PARTITIONED_DISTRIBUTION \<Rightarrow> generatePartitionedOperationSet
   | ZIPFIAN_DISTRIBUTION \<Rightarrow> generateZipfianOperationSet
   | ZIPFIAN_PARTITIONED_DISTRIBUTION \<Rightarrow> generateZipfianPartitionedOperationSet
   | SINGLE_NODE_HOT_KEYS \<Rightarrow> singleNodeHotSetData
   | SINGLE_NODE_HOT_KEYS_TO_SECOND_NODE_ONLY \<Rightarrow> singleNodeHotSetDataToSecondNodeOnly
   | SINGLE_NODE_HOT_KEYS_TO_SECOND_NODE_RDMA_ONLY \<Rightarrow> singleNodeHotSetDataToSecondNodeOnlyRDMA
   | SINGLE_NODE_HOT_KEYS_TO_SECOND_NODE_SPLIT \<Rightarrow> singleNodeHotSetDataTo80SecondNode20Other
   | YCSB \<Rightarrow> (\<lambda>e keys config fs. Inr ([], dumpOperationSetToFile e [] fs)))"

definition generateDatabaseAndOperationSet :: "env \<Rightarrow> configuration \<Rightarrow> files \<Rightarrow> (int \<times> files) res" where
  "generateDatabaseAndOperationSet e config fs =
     (let fs1 = createAndWriteDataset e (DATASET_FILE config) (NUM_KEY_VALUE_PAIRS config) (VALUE_SIZE config) fs;
          keys = readKeysFromFile fs1 (DATASET_FILE config);
          e1 = (if env_can_open e (DATASET_FILE config) then env_after e (nat (VALUE_SIZE config)) else e)
      in mapR (\<lambda>(ops, fs2). (0, fs2)) (generate_for (DISTRIBUTION_TYPE config) e1 keys config fs1))"

definition issueOps :: "env \<Rightarrow> configuration \<Rightarrow> string list \<Rightarrow> files \<Rightarrow> (int \<times> files) res" where
  "issueOps e config keys fs =
     (if DISTRIBUTION_TYPE config \<in> {RANDOM_DISTRIBUTION, PARTITIONED_DISTRIBUTION, ZIPFIAN_DISTRIBUTION,
         ZIPFIAN_PARTITIONED_DISTRIBUTION, SINGLE_NODE_HOT_KEYS}
      then mapR (\<lambda>(ops, fs'). (0, fs')) (generate_for (DISTRIBUTION_TYPE config) e keys config fs)
      else Inr (1, fs))"

section \<open>The keys read are the keys written\<close>

lemma random_letters_no_newline: "newline \<notin> set (random_letters e n)"
proof
  assume "newline \<in> set (random_letters e n)"
  then obtain j where "newline = char_of (nat (rand e j mod 26) + 65)" by (auto simp: random_letters_def)
  then have "(of_char newline :: nat) = of_char (char_of (nat (rand e j mod 26) + 65) :: char)" by simp
  moreover have "nat (rand e j mod 26) < 26" by (simp add: nat_less_iff)
  ultimately show False by simp
qed

lemma line_key_word: "is_word w \<Longrightarrow> line_key (w @ CHR '' '' # r) = [w]"
  using extract_word_append [of w "CHR '' '' # r"] by (simp add: line_key_def)

lemma word_no_newline: "is_word w \<Longrightarrow> newline \<notin> set w"
  by (auto simp: is_word_def)

lemma split_dataset_lines:
  assumes "newline \<notin> set val" "\<forall>w \<in> set ws. is_word w"
  shows "concat (map line_key (split_lines (concat (map (\<lambda>w. w @ CHR '' '' # val @ [newline]) ws)))) = ws"
  using assms(2)
proof (induction ws)
  case Nil
  then show ?case by simp
next
  case (Cons w ws)
  let ?r = "concat (map (\<lambda>w. w @ CHR '' '' # val @ [newline]) ws)"
  have "newline \<notin> set (w @ CHR '' '' # val)" using assms(1) Cons.prems word_no_newline by simp
  from split_lines_line [OF this, of ?r]
  have "split_lines ((w @ CHR '' '' # val @ [newline]) @ ?r) = (w @ CHR '' '' # val) # split_lines ?r" by simp
  with Cons show ?case by (simp add: line_key_word)
qed

text \<open>
  The keys read back from a freshly written dataset are 1 to
  \<open>NUM_KEY_VALUE_PAIRS\<close> in order, whatever letters the values hold.
\<close>

theorem readKeys_createDataset:
  assumes "env_can_open e p"
  shows "readKeysFromFile (createAndWriteDataset e p n vs fs) p = map to_string_nat [1..<Suc (nat n)]"
proof -
  let ?val = "random_letters e (nat vs)"
  have eq: "dataset_text ?val (nat n)
    = concat (map (\<lambda>w. w @ CHR '' '' # ?val @ [newline]) (map to_string_nat [1..<Suc (nat n)]))"
    by (simp add: dataset_text_def comp_def)
  have "concat (map line_key (split_lines (dataset_text ?val (nat n)))) = map to_string_nat [1..<Suc (nat n)]"
    unfolding eq
    by (rule split_dataset_lines) (auto simp: random_letters_no_newline to_string_nat_is_word)
  then show ?thesis using assms
    by (simp add: readKeysFromFile_def createAndWriteDataset_def)
qed

theorem readKeys_createDataset_witness:
  "readKeysFromFile (createAndWriteDataset sample_env ''d'' 2 3 Map.empty) ''d'' = [''1'', ''2'']"
proof -
  have "env_can_open sample_env ''d''" by (simp add: sample_env_def)
  moreover have "map to_string_nat [1..<Suc (nat 2)] = [''1'', ''2'']" by code_simp
  ultimately show ?thesis using readKeys_createDataset [of sample_env "''d''" 2 3 Map.empty] by simp
qed

section \<open>From the configuration to the operations a client loads\<close>

lemma valid_op_dumpable:
  "valid_op (map to_string_nat xs) {1..n} p \<Longrightarrow> in_int n \<Longrightarrow> dumpable p"
  by (auto simp: valid_op_def dumpable_def READ_OP_def to_string_nat_is_word
      intro: in_int_between [of n])

lemma load_after_dump:
  assumes "env_can_open e ''operations.txt''" "\<forall>p \<in> set ops. dumpable p"
  shows "loadOperationSetFromFile (dumpOperationSetToFile e ops fs) ''operations.txt'' = ops"
  using assms by (simp add: loadOperationSetFromFile_def dumpOperationSetToFile_def load_dump_text)

text \<open>
  Property C33: under the random distribution, generating the database succeeds and the
  operations loaded back from the file are \<open>TOTAL_OPERATIONS\<close> valid reads of existing keys.
\<close>

theorem generateDatabase_random_end_to_end:
  assumes "DISTRIBUTION_TYPE config = RANDOM_DISTRIBUTION" "0 < NUM_KEY_VALUE_PAIRS config"
    and "0 < NUM_NODES config" "in_int (NUM_NODES config)"
    and "env_can_open e (DATASET_FILE config)" "env_can_open e ''operations.txt''"
  shows "\<exists>fs'. generateDatabaseAndOperationSet e config fs = Inr (0, fs')
    \<and> length (loadOperationSetFromFile fs' ''operations.txt'') = nat (TOTAL_OPERATIONS config)
    \<and> (\<forall>p \<in> set (loadOperationSetFromFile fs' ''operations.txt'').
        valid_op (map to_string_nat [1..<Suc (nat (NUM_KEY_VALUE_PAIRS config))]) {1..NUM_NODES config} p)"
proof -
  let ?keys = "map to_string_nat [1..<Suc (nat (NUM_KEY_VALUE_PAIRS config))]"
  let ?fs = "createAndWriteDataset e (DATASET_FILE config) (NUM_KEY_VALUE_PAIRS config) (VALUE_SIZE config) fs"
  let ?e = "env_after e (nat (VALUE_SIZE config))"
  have "?keys \<noteq> []" using assms(2) by simp
  from generateRandomOperationSet_valid [OF this assms(3), of ?e ?fs] obtain ops where
    gen: "generateRandomOperationSet ?e ?keys config ?fs = Inr (ops, dumpOperationSetToFile ?e ops ?fs)"
    and len: "length ops = nat (TOTAL_OPERATIONS config)"
    and ok: "\<forall>i < nat (TOTAL_OPERATIONS config). valid_op ?keys {1..NUM_NODES config} (ops ! i)" by blast
  have all: "\<forall>p \<in> set ops. valid_op ?keys {1..NUM_NODES config} p"
    using ok len by (metis in_set_conv_nth)
  have "loadOperationSetFromFile (dumpOperationSetToFile ?e ops ?fs) ''operations.txt'' = ops"
    by (rule load_after_dump) (use assms(6) all valid_op_dumpable [OF _ assms(4)] in \<open>auto simp: env_after_def\<close>)
  moreover have "generateDatabaseAndOperationSet e config fs = Inr (0, dumpOperationSetToFile ?e ops ?fs)"
    using assms(1,5) gen
    by (simp add: generateDatabaseAndOperationSet_def readKeys_createDataset generate_for_def del: upt_Suc)
  ultimately show ?thesis using len all by auto
qed

theorem generateDatabase_random_end_to_end_witness:
  "\<exists>fs'. generateDatabaseAndOperationSet sample_env sample_config Map.empty = Inr (0, fs')
    \<and> length (loadOperationSetFromFile fs' ''operations.txt'') = 4"
  using generateDatabase_random_end_to_end [of sample_config sample_env Map.empty]
  by (auto simp: sample_config_def sample_env_def in_int_def int_min_def int_max_def)

end
