(* ===== verification/Snapshots.thy ===== *)
theory Snapshots
  imports Config Workload
begin

text \<open>
  The per-key counters of \<open>struct Snapshot\<close> (\<open>src/src/ldc.h\<close>): construction, the bounds check of
  \<open>get_entry\<close>, the eight counter updates, and the numbered dump files.
\<close>

record SnapshotEntry =
  key_index :: u64
  total_accesses :: u64
  cache_hits :: u64
  cache_miss :: u64
  evicted :: u64
  disk_access :: u64
  local_disk_access :: u64
  remote_disk_access :: u64
  access_rate :: u64

definition zero_entry :: SnapshotEntry where
  "zero_entry = \<lparr>key_index = 0, total_accesses = 0, cache_hits = 0, cache_miss = 0, evicted = 0,
     disk_access = 0, local_disk_access = 0, remote_disk_access = 0, access_rate = 0\<rparr>"

record Snapshot =
  sn_config :: configuration
  sn_entries :: "SnapshotEntry list"
  sn_index :: u64

definition enabled :: "configuration \<Rightarrow> bool" where
  "enabled config \<longleftrightarrow> dump_snapshot_period_ms config \<noteq> 0"

text \<open>A negative size, converted to \<open>size_t\<close>, is more than any vector can hold.\<close>

definition make_Snapshot :: "configuration \<Rightarrow> Snapshot res" where
  "make_Snapshot config =
     (if \<not> enabled config then Inr \<lparr>sn_config = config, sn_entries = [], sn_index = 0\<rparr>
      else if NUM_KEY_VALUE_PAIRS config < 0 then Inl (Throw ''length_error'')
      else Inr \<lparr>sn_config = config,
             sn_entries = map (\<lambda>i. zero_entry\<lparr>key_index := of_nat i\<rparr>) [0..<nat (NUM_KEY_VALUE_PAIRS config)],
             sn_index = 0\<rparr>)"

text \<open>
  \<open>get_entry\<close> is the pair of the check \<open>i > NUM_KEY_VALUE_PAIRS\<close> and the vector access; an
  update of an entry is the function applied through the returned reference.
\<close>

definition get_entry :: "Snapshot \<Rightarrow> u64 \<Rightarrow> SnapshotEntry res" where
  "get_entry s key =
     (if of_int (NUM_KEY_VALUE_PAIRS (sn_config s)) < key
      then Inl (Panic ''[SnapshotEntry] Getting entry out of bounds'')
      else vec_at (sn_entries s) (unat key))"

definition update_entry :: "string \<Rightarrow> (SnapshotEntry \<Rightarrow> SnapshotEntry) \<Rightarrow> u64 \<Rightarrow> Snapshot \<Rightarrow> Snapshot res" where
  "update_entry name f key s =
     (if \<not> enabled (sn_config s) then Inr s
      else if of_int (NUM_KEY_VALUE_PAIRS (sn_config s)) < key
      then Inl (Panic (''[SnapshotEntry] ['' @ name @ ''] Getting entry out of bounds''))
      else bindR (get_entry s key) (\<lambda>e.
           Inr (s\<lparr>sn_entries := (sn_entries s)[unat key := f e]\<rparr>)))"

definition update_total_access :: "u64 \<Rightarrow> Snapshot \<Rightarrow> Snapshot res" where
  "update_total_access = update_entry ''update_total_access'' (\<lambda>e. e\<lparr>total_accesses := total_accesses e + 1\<rparr>)"

definition update_cache_hits :: "u64 \<Rightarrow> Snapshot \<Rightarrow> Snapshot res" where
  "update_cache_hits = update_entry ''update_cache_hits'' (\<lambda>e. e\<lparr>cache_hits := cache_hits e + 1\<rparr>)"

definition update_cache_miss :: "u64 \<Rightarrow> Snapshot \<Rightarrow> Snapshot res" where
  "update_cache_miss = update_entry ''update_cache_miss'' (\<lambda>e. e\<lparr>cache_miss := cache_miss e + 1\<rparr>)"

definition update_evicted :: "u64 \<Rightarrow> Snapshot \<Rightarrow> Snapshot res" where
  "update_evicted = update_entry ''update_evicted'' (\<lambda>e. e\<lparr>evicted := evicted e + 1\<rparr>)"

definition update_disk_access :: "u64 \<Rightarrow> Snapshot \<Rightarrow> Snapshot res" where
  "update_disk_access = update_entry ''update_disk_access'' (\<lambda>e. e\<lparr>disk_access := disk_access e + 1\<rparr>)"

definition update_local_disk_access :: "u64 \<Rightarrow> Snapshot \<Rightarrow> Snapshot res" where
  "update_local_disk_access =
     update_entry ''update_local_disk_access'' (\<lambda>e. e\<lparr>local_disk_access := local_disk_access e + 1\<rparr>)"

definition update_remote_disk_access :: "u64 \<Rightarrow> Snapshot \<Rightarrow> Snapshot res" where
  "update_remote_disk_access =
     update_entry ''update_remote_disk_access'' (\<lambda>e. e\<lparr>remote_disk_access := remote_disk_access e + 1\<rparr>)"

definition update_access_rate :: "u64 \<Rightarrow> Snapshot \<Rightarrow> Snapshot res" where
  "update_access_rate = update_entry ''update_access_rate'' (\<lambda>e. e\<lparr>access_rate := access_rate e + 1\<rparr>)"

text \<open>
  \<open>dump\<close> writes the entries to the next numbered file. The JSON text of the entries is
  third-party (\<open>render\<close>).
\<close>

definition snapshot_dump ::
    "(SnapshotEntry list \<Rightarrow> string) \<Rightarrow> env \<Rightarrow> Snapshot \<Rightarrow> files \<Rightarrow> (Snapshot \<times> files) res" where
  "snapshot_dump render env s fs =
     (let p = dump_snapshot_file (sn_config s) @ to_string_nat (unat (sn_index s)) in
      if env_can_open env p
      then Inr (s\<lparr>sn_index := sn_index s + 1\<rparr>, fs(p \<mapsto> render (sn_entries s) @ [newline]))
      else Inl (Panic (''Cannot open path to '' @ p)))"

section \<open>The eight counters as one operation\<close>

datatype counter = Total | Hit | Miss | Evict | Disk | Local_Disk | Remote_Disk | Rate

fun counter_of :: "counter \<Rightarrow> SnapshotEntry \<Rightarrow> u64" where
  "counter_of Total e = total_accesses e"
| "counter_of Hit e = cache_hits e"
| "counter_of Miss e = cache_miss e"
| "counter_of Evict e = evicted e"
| "counter_of Disk e = disk_access e"
| "counter_of Local_Disk e = local_disk_access e"
| "counter_of Remote_Disk e = remote_disk_access e"
| "counter_of Rate e = access_rate e"

fun update_counter :: "counter \<Rightarrow> u64 \<Rightarrow> Snapshot \<Rightarrow> Snapshot res" where
  "update_counter Total = update_total_access"
| "update_counter Hit = update_cache_hits"
| "update_counter Miss = update_cache_miss"
| "update_counter Evict = update_evicted"
| "update_counter Disk = update_disk_access"
| "update_counter Local_Disk = update_local_disk_access"
| "update_counter Remote_Disk = update_remote_disk_access"
| "update_counter Rate = update_access_rate"

text \<open>The counters are a finite type, so statements about all of them can be evaluated.\<close>

instantiation counter :: enum
begin

definition "enum_counter = [Total, Hit, Miss, Evict, Disk, Local_Disk, Remote_Disk, Rate]"

definition "enum_all_counter P \<longleftrightarrow> list_all P [Total, Hit, Miss, Evict, Disk, Local_Disk, Remote_Disk, Rate]"

definition "enum_ex_counter P \<longleftrightarrow> list_ex P [Total, Hit, Miss, Evict, Disk, Local_Disk, Remote_Disk, Rate]"

instance
proof
  show all: "(UNIV :: counter set) = set enum_class.enum"
  proof (rule UNIV_eq_I)
    fix d :: counter
    show "d \<in> set enum_class.enum" by (cases d) (simp_all add: enum_counter_def)
  qed
  show "distinct (enum_class.enum :: counter list)" by (simp add: enum_counter_def)
  fix P :: "counter \<Rightarrow> bool"
  show "enum_class.enum_all P \<longleftrightarrow> Ball UNIV P" "enum_class.enum_ex P \<longleftrightarrow> Bex UNIV P"
    unfolding all by (simp_all add: enum_counter_def enum_all_counter_def enum_ex_counter_def)
qed

end

lemma all_counters: "(\<forall>d. P d) \<longleftrightarrow>
    P Total \<and> P Hit \<and> P Miss \<and> P Evict \<and> P Disk \<and> P Local_Disk \<and> P Remote_Disk \<and> P Rate"
proof -
  have "(\<forall>d. P d) \<longleftrightarrow> (\<forall>d \<in> set Enum.enum. P d)" by (simp only: UNIV_enum [symmetric] ball_UNIV)
  then show ?thesis by (simp add: enum_counter_def)
qed

lemmas update_defs = update_total_access_def update_cache_hits_def update_cache_miss_def
  update_evicted_def update_disk_access_def update_local_disk_access_def
  update_remote_disk_access_def update_access_rate_def

text \<open>A snapshot as the constructor leaves it and every update keeps it.\<close>

definition snapshot_ok :: "Snapshot \<Rightarrow> bool" where
  "snapshot_ok s \<longleftrightarrow> enabled (sn_config s) \<and> 0 \<le> NUM_KEY_VALUE_PAIRS (sn_config s)
     \<and> NUM_KEY_VALUE_PAIRS (sn_config s) < 2 ^ 31
     \<and> length (sn_entries s) = nat (NUM_KEY_VALUE_PAIRS (sn_config s))
     \<and> (\<forall>i < length (sn_entries s). key_index (sn_entries s ! i) = of_nat i)"

lemma make_Snapshot_ok:
  assumes "enabled config" "0 \<le> NUM_KEY_VALUE_PAIRS config" "NUM_KEY_VALUE_PAIRS config < 2 ^ 31"
  shows "\<exists>s. make_Snapshot config = Inr s \<and> snapshot_ok s \<and> sn_config s = config
    \<and> (\<forall>c. \<forall>e \<in> set (sn_entries s). counter_of c e = 0)"
proof -
  have "counter_of c (zero_entry\<lparr>key_index := of_nat i\<rparr>) = 0" for c i by (cases c) (simp_all add: zero_entry_def)
  with assms show ?thesis by (auto simp: make_Snapshot_def snapshot_ok_def)
qed

lemma unat_pairs: "snapshot_ok s \<Longrightarrow> unat (of_int (NUM_KEY_VALUE_PAIRS (sn_config s)) :: u64) = length (sn_entries s)"
proof -
  assume s: "snapshot_ok s"
  let ?n = "nat (NUM_KEY_VALUE_PAIRS (sn_config s))"
  from s have n: "NUM_KEY_VALUE_PAIRS (sn_config s) = int ?n" "?n < 2 ^ 31"
    by (simp_all add: snapshot_ok_def nat_less_iff)
  then have "unat (of_nat ?n :: u64) = ?n" by simp
  with n(1) s show ?thesis by (simp add: snapshot_ok_def)
qed

text \<open>
  The three ranges of a key: below the number of pairs the update happens; at the number
  itself the check passes and the access is out of range; above it the check stops.
\<close>

lemma update_entry_cases:
  assumes "snapshot_ok s"
  shows "unat key < length (sn_entries s) \<Longrightarrow>
      update_entry name f key s = Inr (s\<lparr>sn_entries := (sn_entries s)[unat key := f (sn_entries s ! unat key)]\<rparr>)"
    and "unat key = length (sn_entries s) \<Longrightarrow> update_entry name f key s = Inl (Undefined ''vector index'')"
    and "length (sn_entries s) < unat key \<Longrightarrow>
      update_entry name f key s = Inl (Panic (''[SnapshotEntry] ['' @ name @ ''] Getting entry out of bounds''))"
  using assms unat_pairs [OF assms]
  by (simp_all add: update_entry_def get_entry_def snapshot_ok_def word_less_nat_alt)

lemma update_counter_bump:
  "\<exists>name f. update_counter c = update_entry name f
    \<and> (\<forall>d e. counter_of d (f e) = counter_of d e + (if d = c then 1 else 0)) \<and> (\<forall>e. key_index (f e) = key_index e)"
proof (cases c)
qed (rule exI, rule exI, rule conjI, (simp add: update_defs; fail), simp add: all_counters)+

lemma update_counter_in:
  assumes "snapshot_ok s" "unat key < length (sn_entries s)"
  shows "\<exists>s'. update_counter c key s = Inr s' \<and> snapshot_ok s' \<and> length (sn_entries s') = length (sn_entries s)
    \<and> (\<forall>d. \<forall>i < length (sn_entries s). counter_of d (sn_entries s' ! i)
        = counter_of d (sn_entries s ! i) + (if d = c \<and> i = unat key then 1 else 0))"
proof -
  note u = update_entry_cases(1) [OF assms]
  obtain f where f: "update_counter c key s = Inr (s\<lparr>sn_entries := (sn_entries s)[unat key := f (sn_entries s ! unat key)]\<rparr>)"
      and d: "\<forall>d e. counter_of d (f e) = counter_of d e + (if d = c then 1 else 0)"
      and k: "\<forall>e. key_index (f e) = key_index e"
    using update_counter_bump [of c] u by metis
  with assms show ?thesis by (auto simp: snapshot_ok_def nth_list_update)
qed

text \<open>
  A key equal to \<open>NUM_KEY_VALUE_PAIRS\<close> passes the bounds check of every
  counter update and then indexes one past the end of the entries.
\<close>

theorem update_counter_at_bound:
  assumes "snapshot_ok s" "key = of_int (NUM_KEY_VALUE_PAIRS (sn_config s))"
  shows "update_counter c key s = Inl (Undefined ''vector index'')"
proof -
  have "unat key = length (sn_entries s)" using assms unat_pairs by simp
  note u = update_entry_cases(2) [OF assms(1) this]
  show ?thesis by (cases c) (simp_all add: update_defs u)
qed

theorem update_counter_at_bound_witness:
  "\<exists>s. make_Snapshot sample_config = Inr s \<and> update_counter Hit 6 s = Inl (Undefined ''vector index'')"
proof -
  obtain s where s: "make_Snapshot sample_config = Inr s" "snapshot_ok s" "sn_config s = sample_config"
    using make_Snapshot_ok [of sample_config] by (auto simp: enabled_def sample_config_def)
  then show ?thesis using update_counter_at_bound [OF s(2), of 6 Hit] by (simp add: sample_config_def)
qed

section \<open>A run of updates counts its events\<close>

definition count_events :: "(counter \<times> u64) list \<Rightarrow> counter \<Rightarrow> nat \<Rightarrow> nat" where
  "count_events evs d i = length (filter (\<lambda>(c, k). c = d \<and> unat k = i) evs)"

definition run_updates :: "(counter \<times> u64) list \<Rightarrow> Snapshot \<Rightarrow> Snapshot res" where
  "run_updates = foldR (\<lambda>(c, k). update_counter c k)"

lemma run_updates_counts:
  assumes "snapshot_ok s" "\<forall>(c, k) \<in> set evs. unat k < length (sn_entries s)"
  shows "\<exists>s'. run_updates evs s = Inr s' \<and> snapshot_ok s' \<and> length (sn_entries s') = length (sn_entries s)
    \<and> (\<forall>d. \<forall>i < length (sn_entries s).
        counter_of d (sn_entries s' ! i) = counter_of d (sn_entries s ! i) + of_nat (count_events evs d i))"
  using assms
proof (induction evs arbitrary: s)
  case Nil
  then show ?case by (simp add: run_updates_def count_events_def)
next
  case (Cons ev evs)
  obtain c k where ev: "ev = (c, k)" by fastforce
  from Cons.prems ev update_counter_in [of s k c] obtain s1 where
    s1: "update_counter c k s = Inr s1" "snapshot_ok s1" "length (sn_entries s1) = length (sn_entries s)"
      "\<forall>d. \<forall>i < length (sn_entries s). counter_of d (sn_entries s1 ! i)
        = counter_of d (sn_entries s ! i) + (if d = c \<and> i = unat k then 1 else 0)" by auto
  from Cons.IH [OF s1(2)] s1(3) Cons.prems(2) obtain s2 where
    s2: "run_updates evs s1 = Inr s2" "snapshot_ok s2" "length (sn_entries s2) = length (sn_entries s)"
      "\<forall>d. \<forall>i < length (sn_entries s).
        counter_of d (sn_entries s2 ! i) = counter_of d (sn_entries s1 ! i) + of_nat (count_events evs d i)" by auto
  have "run_updates (ev # evs) s = Inr s2" using s1(1) s2(1) ev by (simp add: run_updates_def)
  moreover have "count_events (ev # evs) d i = (if d = c \<and> i = unat k then 1 else 0) + count_events evs d i" for d i
    using ev by (auto simp: count_events_def)
  ultimately show ?case using s1(4) s2(2-4) by (auto simp: algebra_simps)
qed

text \<open>
  Property C35: starting from the constructor, a run of updates with keys in range leaves
  in every counter of every entry exactly the number of its events.
\<close>

theorem snapshot_counts_events:
  assumes "enabled config" "0 \<le> NUM_KEY_VALUE_PAIRS config" "NUM_KEY_VALUE_PAIRS config < 2 ^ 31"
    and "\<forall>(c, k) \<in> set evs. int (unat k) < NUM_KEY_VALUE_PAIRS config"
  shows "\<exists>s s'. make_Snapshot config = Inr s \<and> run_updates evs s = Inr s'
    \<and> (\<forall>d. \<forall>i < nat (NUM_KEY_VALUE_PAIRS config).
         key_index (sn_entries s' ! i) = of_nat i
       \<and> counter_of d (sn_entries s' ! i) = of_nat (count_events evs d i))"
proof -
  obtain s where s: "make_Snapshot config = Inr s" "snapshot_ok s" "sn_config s = config"
    "\<forall>c. \<forall>e \<in> set (sn_entries s). counter_of c e = 0" using make_Snapshot_ok [OF assms(1-3)] by blast
  then have n: "length (sn_entries s) = nat (NUM_KEY_VALUE_PAIRS config)" by (simp add: snapshot_ok_def)
  have "\<forall>(c, k) \<in> set evs. unat k < length (sn_entries s)" using assms(4) n by (fastforce simp: zless_nat_eq_int_zless)
  from run_updates_counts [OF s(2) this] obtain s' where
    s': "run_updates evs s = Inr s'" "snapshot_ok s'" "length (sn_entries s') = length (sn_entries s)"
      "\<forall>d. \<forall>i < length (sn_entries s).
        counter_of d (sn_entries s' ! i) = counter_of d (sn_entries s ! i) + of_nat (count_events evs d i)" by blast
  with s n show ?thesis by (auto simp: snapshot_ok_def)
qed

theorem snapshot_counts_events_witness:
  "\<exists>s s'. make_Snapshot sample_config = Inr s \<and> run_updates [(Hit, 1), (Miss, 2), (Hit, 1)] s = Inr s'
    \<and> cache_hits (sn_entries s' ! 1) = 2 \<and> cache_miss (sn_entries s' ! 1) = 0"
  using snapshot_counts_events [of sample_config "[(Hit, 1), (Miss, 2), (Hit, 1)]"]
  by (fastforce simp: enabled_def sample_config_def count_events_def all_counters)

end
