(* ===== verification/Queues.thy ===== *)
theory Queues
  imports Prelude
begin

text \<open>
  The concurrent queue that the components share, \<open>MPMCQueue\<close> of \<open>src/src/defines.h\<close>, an
  alias of the third-party \<open>moodycamel::ConcurrentQueue\<close>. Its documentation promises that an
  element enqueued is dequeued exactly once and that the elements of one producer keep their
  order; it promises no order between producers. The model keeps the elements in a list and
  lets a function \<open>pick\<close> choose the element that \<open>try_dequeue\<close> takes, so what is proved for
  every \<open>pick\<close> holds for every order the queue may choose.
\<close>

section \<open>The contract of a queue\<close>

locale bag_queue =
  fixes empty :: 'q
    and enq :: "'a \<Rightarrow> 'q \<Rightarrow> 'q"
    and deq :: "'q \<Rightarrow> ('a \<times> 'q) option"
    and bag :: "'q \<Rightarrow> 'a multiset"
  assumes bag_empty: "bag empty = {#}"
    and bag_enq: "bag (enq x q) = add_mset x (bag q)"
    and deq_None: "deq q = None \<longleftrightarrow> bag q = {#}"
    and deq_Some: "deq q = Some (x, q') \<Longrightarrow> bag q = add_mset x (bag q')"
begin

lemma deq_size: "deq q = Some (x, q') \<Longrightarrow> size (bag q') < size (bag q)"
  by (simp add: deq_Some)

lemma deq_member: "deq q = Some (x, q') \<Longrightarrow> x \<in># bag q"
  by (simp add: deq_Some)

lemma deq_ready: "bag q \<noteq> {#} \<Longrightarrow> \<exists>x q'. deq q = Some (x, q') \<and> bag q = add_mset x (bag q')"
  using deq_None [of q] deq_Some [of q] by (cases "deq q") auto

text \<open>An element taken from one queue and put into another is neither lost nor doubled.\<close>

lemma move_conserves: "deq p = Some (x, p') \<Longrightarrow> bag p' + bag (enq x q) = bag p + bag q"
  by (simp add: deq_Some bag_enq)

lemma deq_of_nonempty_enq: "\<exists>y q'. deq (enq x q) = Some (y, q')"
  using deq_ready [of "enq x q"] by (auto simp: bag_enq)

end

text \<open>A queue with one producer: the order of arrival is the order of departure.\<close>

locale fifo_queue = bag_queue empty enq deq bag
  for empty :: 'q and enq :: "'a \<Rightarrow> 'q \<Rightarrow> 'q" and deq :: "'q \<Rightarrow> ('a \<times> 'q) option" and bag +
  fixes contents :: "'q \<Rightarrow> 'a list"
  assumes contents_empty: "contents empty = []"
    and contents_enq: "contents (enq x q) = contents q @ [x]"
    and contents_deq: "deq q = Some (x, q') \<Longrightarrow> contents q = x # contents q'"
    and contents_bag: "mset (contents q) = bag q"
begin

lemma deq_first: "contents q = x # xs \<Longrightarrow> \<exists>q'. deq q = Some (x, q') \<and> contents q' = xs"
  using deq_ready [of q] contents_bag [of q] contents_deq by force

lemma deq_after_enq: "contents q = [] \<Longrightarrow> \<exists>q'. deq (enq x q) = Some (x, q') \<and> contents q' = []"
  by (rule deq_first) (simp add: contents_enq)

end

section \<open>The model of the queue\<close>

type_synonym 'a mpmc = "'a list"
type_synonym 'a pick = "'a list \<Rightarrow> nat"

definition enqueue :: "'a \<Rightarrow> 'a mpmc \<Rightarrow> 'a mpmc" where
  "enqueue x q = q @ [x]"

definition try_dequeue :: "'a pick \<Rightarrow> 'a mpmc \<Rightarrow> ('a \<times> 'a mpmc) option" where
  "try_dequeue pick q =
     (if q = [] then None
      else let i = pick q mod length q in Some (q ! i, take i q @ drop (Suc i) q))"

lemma mset_remove_nth: "i < length q \<Longrightarrow> mset q = add_mset (q ! i) (mset (take i q @ drop (Suc i) q))"
  by (metis add_mset_add_single append_take_drop_id Cons_nth_drop_Suc mset.simps(2) mset_append
      union_mset_add_mset_right)

lemma try_dequeue_mset: "try_dequeue pick q = Some (x, q') \<Longrightarrow> mset q = add_mset x (mset q')"
  using mset_remove_nth [of "pick q mod length q" q]
  by (auto simp: try_dequeue_def Let_def split: if_splits)

lemma try_dequeue_length: "try_dequeue pick q = Some (x, q') \<Longrightarrow> length q = Suc (length q')"
  by (auto dest!: try_dequeue_mset simp flip: size_mset)

lemma mpmc_bag_queue: "bag_queue [] enqueue (try_dequeue pick) mset"
  by unfold_locales (auto simp: enqueue_def try_dequeue_mset, simp_all add: try_dequeue_def Let_def split: if_splits)

interpretation mpmc: bag_queue "[]" enqueue "try_dequeue pick" mset for pick
  by (rule mpmc_bag_queue)

interpretation fifo: fifo_queue "[]" enqueue "try_dequeue (\<lambda>_. 0)" mset "\<lambda>q. q"
  by unfold_locales
    (auto simp: enqueue_def try_dequeue_def Let_def neq_Nil_conv split: if_splits)

section \<open>Draining a queue\<close>

text \<open>
  The loop \<open>while (q.try_dequeue(x)) body(x)\<close> that the components use to work off a queue,
  and the order in which the queue hands out its elements.
\<close>

function drainR :: "'a pick \<Rightarrow> ('a \<Rightarrow> 's \<Rightarrow> 's res) \<Rightarrow> 'a mpmc \<Rightarrow> 's \<Rightarrow> 's res" where
  "drainR pick body q s =
     (case try_dequeue pick q of None \<Rightarrow> Inr s
      | Some (x, q') \<Rightarrow> (case body x s of Inl e \<Rightarrow> Inl e | Inr s' \<Rightarrow> drainR pick body q' s'))"
  by pat_completeness auto
termination
  by (relation "measure (\<lambda>(_, _, q, _). length q)") (auto dest: try_dequeue_length)

function drain_order :: "'a pick \<Rightarrow> 'a mpmc \<Rightarrow> 'a list" where
  "drain_order pick q = (case try_dequeue pick q of None \<Rightarrow> [] | Some (x, q') \<Rightarrow> x # drain_order pick q')"
  by pat_completeness auto
termination
  by (relation "measure (\<lambda>(_, q). length q)") (auto dest: try_dequeue_length)

declare drainR.simps [simp del] drain_order.simps [simp del]

lemma mset_drain_order: "mset (drain_order pick q) = mset q"
proof (induction pick q rule: drain_order.induct)
  case (1 pick q)
  show ?case
    by (subst drain_order.simps)
      (auto simp: 1 mpmc.deq_None mpmc.bag_empty split: option.splits dest: try_dequeue_mset)
qed

lemma drainR_eq_foldR: "drainR pick body q s = foldR body (drain_order pick q) s"
proof (induction pick body q s rule: drainR.induct)
  case (1 pick body q s)
  show ?case
    by (subst drainR.simps, subst drain_order.simps)
      (auto simp: 1 bindR_def split: option.splits sum.splits)
qed

lemma set_drain_order [simp]: "set (drain_order pick q) = set q"
  using mset_drain_order by (rule mset_eq_setD)

lemma length_drain_order [simp]: "length (drain_order pick q) = length q"
  using mset_drain_order by (rule mset_eq_length)

lemma drain_order_fifo: "drain_order (\<lambda>_. 0) q = q"
proof (induction q)
  case Nil
  show ?case by (subst drain_order.simps) (simp add: try_dequeue_def)
next
  case (Cons x q)
  then show ?case by (subst drain_order.simps) (simp add: try_dequeue_def)
qed

text \<open>Draining under an invariant of the body: the loop returns and the invariant holds.\<close>

lemma drainR_total:
  assumes "P s" and "\<And>x s. x \<in> set q \<Longrightarrow> P s \<Longrightarrow> \<exists>t. body x s = Inr t \<and> P t"
  shows "\<exists>t. drainR pick body q s = Inr t \<and> P t"
  unfolding drainR_eq_foldR by (rule foldR_total [of P]) (simp_all add: assms)

end
