(* ===== verification/Rdma_Data.thy ===== *)
theory Rdma_Data
  imports Queues
begin

text \<open>
  One-sided RDMA as the server uses it (\<open>RDMAData\<close> and \<open>RDMADataWithQueue\<close> of
  \<open>src/src/ldc.h\<close>): the table of queue pairs, the pool of request tokens, the registered
  buffers, and the queue of asynchronous reads with its reused data slots.

  The verbs library is third-party. A queue pair is named by the server it connects to and the
  port, which is what selects the remote buffer; a request handed to the library is a record
  of its arguments, and what a completed read has put into the local buffer is the parameter
  \<open>arrive\<close>. Buffers are named by their address.
\<close>

section \<open>RDMAData\<close>

text \<open>\<open>RemoteMachineConfig\<close> belongs to the block-cache library; these are the fields the code reads.\<close>

record remote_machine =
  rm_index :: nat
  rm_ip :: string
  rm_port :: int
  rm_server :: bool

record post =
  post_write :: bool
  post_qp :: "nat \<times> nat"
  post_buffer :: nat
  local_offset :: u64
  remote_offset :: u64
  size_in_bytes :: u64
  request_token :: nat

record rdma_data =
  machine_index :: nat
  server_configs :: "remote_machine list"
  my_server_config :: "remote_machine option"
  buffer_map :: "nat \<rightharpoonup> u64 \<times> bool"
  listen_qps :: "nat list"
  connect_qps :: "(nat \<times> nat) list"
  start_accepting_connections :: bool
  is_server :: bool
  free_request_token_queue :: "nat mpmc"

definition FreeRequestTokenQueueSize :: nat where "FreeRequestTokenQueueSize = 50000"

definition make_RDMAData :: "remote_machine list \<Rightarrow> nat \<Rightarrow> rdma_data" where
  "make_RDMAData remote_machine_configs m =
     (let servers = filter rm_server remote_machine_configs in
      \<lparr>machine_index = m, server_configs = servers,
       my_server_config = (if m < length servers then Some (servers ! m) else None),
       buffer_map = Map.empty, listen_qps = [], connect_qps = [], start_accepting_connections = False,
       is_server = False, free_request_token_queue = [0..<FreeRequestTokenQueueSize]\<rparr>)"

definition get_buffer :: "nat \<Rightarrow> u64 \<Rightarrow> rdma_data \<Rightarrow> (u64 \<times> bool) \<times> rdma_data" where
  "get_buffer buffer sz d =
     (case buffer_map d buffer of
        Some b \<Rightarrow> (b, d)
      | None \<Rightarrow> ((sz, False), d\<lparr>buffer_map := (buffer_map d)(buffer \<mapsto> (sz, False))\<rparr>))"

definition rdma_listen :: "nat \<Rightarrow> nat \<Rightarrow> u64 \<Rightarrow> rdma_data \<Rightarrow> rdma_data" where
  "rdma_listen port buffer sz d =
     (let ((registered, _), d) = get_buffer buffer sz d in
      d\<lparr>buffer_map := (buffer_map d)(buffer \<mapsto> (registered, True)),
        start_accepting_connections := start_accepting_connections d \<or> server_configs d \<noteq> [],
        listen_qps := listen_qps d @ replicate (length (server_configs d)) port,
        is_server := True\<rparr>)"

definition rdma_connect :: "nat \<Rightarrow> rdma_data \<Rightarrow> rdma_data" where
  "rdma_connect port d =
     d\<lparr>connect_qps := connect_qps d @ map (\<lambda>i. (i, port)) [0..<length (server_configs d)],
       is_server := False\<rparr>"

definition get_request_token :: "nat pick \<Rightarrow> rdma_data \<Rightarrow> (nat \<times> rdma_data) res" where
  "get_request_token pick d =
     (case try_dequeue pick (free_request_token_queue d) of
        None \<Rightarrow> Inl (Panic ''Free request token queue out of tokens!'')
      | Some (t, q) \<Rightarrow> Inr (t, d\<lparr>free_request_token_queue := q\<rparr>))"

definition free_request_token :: "nat \<Rightarrow> rdma_data \<Rightarrow> rdma_data" where
  "free_request_token t d = d\<lparr>free_request_token_queue := enqueue t (free_request_token_queue d)\<rparr>"

definition rdma_request ::
    "bool \<Rightarrow> nat pick \<Rightarrow> nat \<Rightarrow> nat \<Rightarrow> u64 \<Rightarrow> u64 \<Rightarrow> u64 \<Rightarrow> u64 \<Rightarrow> rdma_data \<Rightarrow> (post \<times> rdma_data) res" where
  "rdma_request is_write pick remote_index buffer buffer_size loff roff sz d =
     (let (_, d) = get_buffer buffer buffer_size d in
      bindR (vec_at (connect_qps d) remote_index) (\<lambda>qp.
      bindR (get_request_token pick d) (\<lambda>(t, d).
      Inr (\<lparr>post_write = is_write, post_qp = qp, post_buffer = buffer, local_offset = loff,
            remote_offset = roff, size_in_bytes = sz, request_token = t\<rparr>, d))))"

definition rdma_read ::
    "nat pick \<Rightarrow> nat \<Rightarrow> nat \<Rightarrow> u64 \<Rightarrow> u64 \<Rightarrow> u64 \<Rightarrow> u64 \<Rightarrow> rdma_data \<Rightarrow> (post \<times> rdma_data) res" where
  "rdma_read = rdma_request False"

definition rdma_write ::
    "nat pick \<Rightarrow> nat \<Rightarrow> nat \<Rightarrow> u64 \<Rightarrow> u64 \<Rightarrow> u64 \<Rightarrow> u64 \<Rightarrow> rdma_data \<Rightarrow> (post \<times> rdma_data) res" where
  "rdma_write = rdma_request True"

text \<open>A registered buffer keeps the size of its first registration.\<close>

lemma get_buffer_again:
  "get_buffer buffer sz d = (b, d') \<Longrightarrow> get_buffer buffer sz' d' = (b, d')"
  by (auto simp: get_buffer_def split: option.splits)

lemma get_buffer_frame [simp]:
  "connect_qps (snd (get_buffer b s d)) = connect_qps d"
  "free_request_token_queue (snd (get_buffer b s d)) = free_request_token_queue d"
  "server_configs (snd (get_buffer b s d)) = server_configs d"
  "machine_index (snd (get_buffer b s d)) = machine_index d"
  by (simp_all add: get_buffer_def split: option.splits)

lemma get_buffer_frameD:
  assumes "get_buffer b s d = (x, d')"
  shows "connect_qps d' = connect_qps d" "free_request_token_queue d' = free_request_token_queue d"
    "server_configs d' = server_configs d" "machine_index d' = machine_index d"
  using get_buffer_frame [of b s d] by (simp_all add: assms)

text \<open>
  A request succeeds exactly when its queue pair exists and a token is free; it takes one token
  and leaves the connections alone.
\<close>

lemma rdma_request_ok:
  assumes "remote_index < length (connect_qps d)" "free_request_token_queue d \<noteq> []"
  shows "\<exists>p d'. rdma_request w pick remote_index buffer bsz loff roff sz d = Inr (p, d')
    \<and> post_write p = w \<and> post_qp p = connect_qps d ! remote_index \<and> post_buffer p = buffer
    \<and> local_offset p = loff \<and> remote_offset p = roff \<and> size_in_bytes p = sz
    \<and> add_mset (request_token p) (mset (free_request_token_queue d')) = mset (free_request_token_queue d)
    \<and> connect_qps d' = connect_qps d \<and> server_configs d' = server_configs d \<and> machine_index d' = machine_index d"
proof -
  obtain b d1 where g: "get_buffer buffer bsz d = (b, d1)" by fastforce
  have f: "connect_qps d1 = connect_qps d" "free_request_token_queue d1 = free_request_token_queue d"
    "server_configs d1 = server_configs d" "machine_index d1 = machine_index d"
    using get_buffer_frame [of buffer bsz d] by (simp_all add: g)
  obtain t q where t: "try_dequeue pick (free_request_token_queue d) = Some (t, q)"
    "mset (free_request_token_queue d) = add_mset t (mset q)"
    using mpmc.deq_ready [of "free_request_token_queue d" pick] assms(2) by auto
  show ?thesis using assms g f t by (simp add: rdma_request_def get_request_token_def)
qed

lemma rdma_request_no_token:
  assumes "remote_index < length (connect_qps d)" "free_request_token_queue d = []"
  shows "rdma_request w pick remote_index buffer bsz loff roff sz d
    = Inl (Panic ''Free request token queue out of tokens!'')"
proof -
  obtain b d1 where g: "get_buffer buffer bsz d = (b, d1)" by fastforce
  have f: "connect_qps d1 = connect_qps d" "free_request_token_queue d1 = free_request_token_queue d"
    using get_buffer_frame [of buffer bsz d] by (simp_all add: g)
  show ?thesis using assms g f by (simp add: rdma_request_def get_request_token_def try_dequeue_def)
qed

section \<open>RDMADataWithQueue\<close>

text \<open>
  A slot owns a buffer for one value. It is in the free queue or, while its read is pending,
  in the pending queue; \<open>slot_post\<close> is the request its token stands for.
\<close>

record ('d, 'c) slot =
  slot_addr :: nat
  slot_data :: 'd
  slot_post :: "post option"
  slot_remote :: nat
  slot_callback :: "'c option"

record ('d, 'c) rdma_queue =
  rdma :: rdma_data
  pending_read_queue :: "('d, 'c) slot mpmc"
  free_queue :: "('d, 'c) slot mpmc"

fun add_slots :: "(nat \<Rightarrow> nat) \<Rightarrow> u64 \<Rightarrow> 'd \<Rightarrow> nat \<Rightarrow> ('d, 'c) rdma_queue \<Rightarrow> ('d, 'c) rdma_queue" where
  "add_slots alloc sz d0 0 q = q"
| "add_slots alloc sz d0 (Suc n) q =
     (let q = add_slots alloc sz d0 n q;
          (_, d) = get_buffer (alloc n) sz (rdma q) in
      q\<lparr>rdma := d, free_queue := enqueue \<lparr>slot_addr = alloc n, slot_data = d0, slot_post = None,
        slot_remote = 0, slot_callback = None\<rparr> (free_queue q)\<rparr>)"

definition make_RDMADataWithQueue ::
    "(nat \<Rightarrow> nat) \<Rightarrow> u64 \<Rightarrow> 'd \<Rightarrow> remote_machine list \<Rightarrow> nat \<Rightarrow> nat \<Rightarrow> ('d, 'c) rdma_queue" where
  "make_RDMADataWithQueue alloc sz d0 configs m queue_size =
     add_slots alloc sz d0 queue_size
       \<lparr>rdma = make_RDMAData configs m, pending_read_queue = [], free_queue = []\<rparr>"

text \<open>\<open>read\<close> spins while no slot is free.\<close>

definition queue_read ::
    "('d, 'c) slot pick \<Rightarrow> nat pick \<Rightarrow> u64 \<Rightarrow> nat \<Rightarrow> 'c option \<Rightarrow> 'd \<Rightarrow> u64 \<Rightarrow> u64 \<Rightarrow> u64
     \<Rightarrow> ('d, 'c) rdma_queue \<Rightarrow> (post \<times> ('d, 'c) rdma_queue) res" where
  "queue_read pick_slot pick_token sz remote_index callback read_data loff roff len q =
     (case try_dequeue pick_slot (free_queue q) of
        None \<Rightarrow> Inl (Blocked ''free_queue'')
      | Some (s, fq) \<Rightarrow>
          bindR (rdma_read pick_token remote_index (slot_addr s) sz loff roff len (rdma q)) (\<lambda>(p, d).
          Inr (p, q\<lparr>rdma := d, free_queue := fq,
            pending_read_queue := enqueue (s\<lparr>slot_data := read_data, slot_remote := remote_index,
              slot_callback := callback, slot_post := Some p\<rparr>) (pending_read_queue q)\<rparr>)))"

text \<open>
  \<open>execute_pending\<close> works off the pending reads: wait for the data, hand the slot to \<open>f\<close>, run
  its callback if it has one, give back the token and the slot.
\<close>

definition arrived :: "(post \<Rightarrow> 'd) \<Rightarrow> ('d, 'c) slot \<Rightarrow> ('d, 'c) slot" where
  "arrived arrive s = (case slot_post s of None \<Rightarrow> s | Some p \<Rightarrow> s\<lparr>slot_data := arrive p\<rparr>)"

definition complete_read ::
    "(('d, 'c) slot \<Rightarrow> 's \<Rightarrow> 's res) \<Rightarrow> ('c \<Rightarrow> 'd \<Rightarrow> 's \<Rightarrow> 's res) \<Rightarrow> ('d, 'c) slot \<Rightarrow> 's \<Rightarrow> 's res" where
  "complete_read f run_callback s st =
     bindR (f s st) (\<lambda>st.
     case slot_callback s of None \<Rightarrow> Inr st | Some cb \<Rightarrow> run_callback cb (slot_data s) st)"

definition release_slot :: "('d, 'c) slot \<Rightarrow> ('d, 'c) rdma_queue \<Rightarrow> ('d, 'c) rdma_queue" where
  "release_slot s q =
     q\<lparr>rdma := (case slot_post s of None \<Rightarrow> rdma q | Some p \<Rightarrow> free_request_token (request_token p) (rdma q)),
       free_queue := enqueue (s\<lparr>slot_post := None\<rparr>) (free_queue q)\<rparr>"

definition queue_execute_pending ::
    "('d, 'c) slot pick \<Rightarrow> (post \<Rightarrow> 'd) \<Rightarrow> (('d, 'c) slot \<Rightarrow> 's \<Rightarrow> 's res) \<Rightarrow> ('c \<Rightarrow> 'd \<Rightarrow> 's \<Rightarrow> 's res)
     \<Rightarrow> ('d, 'c) rdma_queue \<times> 's \<Rightarrow> (('d, 'c) rdma_queue \<times> 's) res" where
  "queue_execute_pending pick arrive f run_callback = (\<lambda>(q, st).
     drainR pick (\<lambda>s (q, st).
       let s = arrived arrive s in
       bindR (complete_read f run_callback s st) (\<lambda>st. Inr (release_slot s q, st)))
       (pending_read_queue q) (q\<lparr>pending_read_queue := []\<rparr>, st))"

text \<open>
  What the reads conserve: the slots, by address, between the two queues, and the tokens
  between the pool and the pending reads.
\<close>

definition slot_bag :: "('d, 'c) rdma_queue \<Rightarrow> nat multiset" where
  "slot_bag q = image_mset slot_addr (mset (free_queue q) + mset (pending_read_queue q))"

definition slot_tokens :: "('d, 'c) slot \<Rightarrow> nat multiset" where
  "slot_tokens s = (case slot_post s of None \<Rightarrow> {#} | Some p \<Rightarrow> {#request_token p#})"

definition token_bag :: "('d, 'c) rdma_queue \<Rightarrow> nat multiset" where
  "token_bag q = mset (free_request_token_queue (rdma q)) + sum_mset (image_mset slot_tokens (mset (pending_read_queue q)))"

definition queue_ok :: "nat \<Rightarrow> ('d, 'c) rdma_queue \<Rightarrow> bool" where
  "queue_ok slots q \<longleftrightarrow> size (slot_bag q) = slots \<and> slots \<le> size (token_bag q)
     \<and> (\<forall>s \<in> set (pending_read_queue q). slot_post s \<noteq> None)"

lemma size_slot_tokens: "slot_post s \<noteq> None \<Longrightarrow> size (slot_tokens s) = 1"
  by (auto simp: slot_tokens_def)

lemma size_pending_tokens:
  "\<forall>s \<in> set xs. slot_post s \<noteq> None \<Longrightarrow> size (sum_mset (image_mset slot_tokens (mset xs))) = length xs"
  by (induction xs) (simp_all add: size_slot_tokens)

text \<open>A free slot always finds a free token, because there are as many tokens as slots.\<close>

lemma queue_ok_token:
  assumes "queue_ok slots q" "free_queue q \<noteq> []"
  shows "free_request_token_queue (rdma q) \<noteq> []"
proof
  assume e: "free_request_token_queue (rdma q) = []"
  have "slots \<le> size (token_bag q)" using assms by (simp add: queue_ok_def)
  also have "\<dots> = length (pending_read_queue q)"
    using assms e size_pending_tokens [of "pending_read_queue q"] by (simp add: token_bag_def queue_ok_def)
  finally show False using assms by (cases "free_queue q") (simp_all add: queue_ok_def slot_bag_def)
qed

lemma queue_read_ok:
  assumes "queue_ok slots q" "free_queue q \<noteq> []" "remote_index < length (connect_qps (rdma q))"
  shows "\<exists>p q'. queue_read pick_slot pick_token sz remote_index cb d0 loff roff len q = Inr (p, q')
    \<and> post_qp p = connect_qps (rdma q) ! remote_index \<and> remote_offset p = roff \<and> \<not> post_write p
    \<and> (\<exists>s. pending_read_queue q' = pending_read_queue q @ [s] \<and> slot_callback s = cb \<and> slot_post s = Some p)
    \<and> slot_bag q' = slot_bag q \<and> token_bag q' = token_bag q \<and> queue_ok slots q'
    \<and> connect_qps (rdma q') = connect_qps (rdma q)"
proof -
  obtain s fq where s: "try_dequeue pick_slot (free_queue q) = Some (s, fq)"
    "mset (free_queue q) = add_mset s (mset fq)"
    using mpmc.deq_ready [of "free_queue q" pick_slot] assms(2) by auto
  obtain p d where p: "rdma_read pick_token remote_index (slot_addr s) sz loff roff len (rdma q) = Inr (p, d)"
    "post_qp p = connect_qps (rdma q) ! remote_index" "remote_offset p = roff" "\<not> post_write p"
    "add_mset (request_token p) (mset (free_request_token_queue d)) = mset (free_request_token_queue (rdma q))"
    "connect_qps d = connect_qps (rdma q)"
    using rdma_request_ok [OF assms(3) queue_ok_token [OF assms(1,2)], of False pick_token "slot_addr s" sz loff roff len]
    by (auto simp: rdma_read_def)
  let ?s = "s\<lparr>slot_data := d0, slot_remote := remote_index, slot_callback := cb, slot_post := Some p\<rparr>"
  let ?q = "q\<lparr>rdma := d, free_queue := fq, pending_read_queue := enqueue ?s (pending_read_queue q)\<rparr>"
  have bags: "slot_bag ?q = slot_bag q" "token_bag ?q = token_bag q"
    using s p(5) by (simp_all add: slot_bag_def token_bag_def enqueue_def slot_tokens_def)
  moreover have "\<forall>s \<in> set (pending_read_queue ?q). slot_post s \<noteq> None"
    using assms(1) by (simp add: queue_ok_def enqueue_def)
  ultimately have "queue_ok slots ?q" using assms(1) by (simp only: queue_ok_def)
  with s p bags show ?thesis by (simp add: queue_read_def) (simp add: enqueue_def)
qed

lemma make_queue_ok:
  assumes "queue_size \<le> FreeRequestTokenQueueSize"
  shows "queue_ok queue_size (make_RDMADataWithQueue alloc sz d0 configs m queue_size)"
proof -
  have "pending_read_queue (add_slots alloc sz d0 n q) = pending_read_queue q
     \<and> size (slot_bag (add_slots alloc sz d0 n q)) = n + size (slot_bag q)
     \<and> token_bag (add_slots alloc sz d0 n q) = token_bag q" for n and q :: "('a, 'b) rdma_queue"
    by (induction n) (auto simp: Let_def slot_bag_def token_bag_def enqueue_def get_buffer_frameD split: prod.split)
  then show ?thesis using assms
    by (simp add: queue_ok_def make_RDMADataWithQueue_def) (simp add: slot_bag_def token_bag_def make_RDMAData_def Let_def)
qed

text \<open>
  Working off the pending reads: every one is completed exactly once, in the order the queue
  chooses, on the data that arrived for its request, and all slots and tokens come back.
\<close>

lemma release_slot_bags:
  "slot_bag (release_slot s q) = add_mset (slot_addr s) (slot_bag q)"
  "token_bag (release_slot s q) = slot_tokens s + token_bag q"
  "pending_read_queue (release_slot s q) = pending_read_queue q"
  by (simp_all add: release_slot_def slot_bag_def token_bag_def slot_tokens_def free_request_token_def
      enqueue_def split: option.split)

lemma arrived_simps [simp]:
  "slot_addr (arrived arrive s) = slot_addr s" "slot_post (arrived arrive s) = slot_post s"
  "slot_tokens (arrived arrive s) = slot_tokens s" "slot_callback (arrived arrive s) = slot_callback s"
  by (simp_all add: arrived_def slot_tokens_def split: option.split)

lemma execute_fold:
  "foldR (\<lambda>s (q, st). let s = arrived arrive s in
       bindR (complete_read f rc s st) (\<lambda>st. Inr (release_slot s q, st))) order (q, st)
   = mapR (\<lambda>st. (fold release_slot (map (arrived arrive) order) q, st))
       (foldR (complete_read f rc) (map (arrived arrive) order) st)"
proof (induction order arbitrary: q st)
  case Nil
  show ?case by simp
next
  case (Cons s order)
  show ?case by (cases "complete_read f rc (arrived arrive s) st") (simp_all add: Let_def Cons [unfolded Let_def])
qed

lemma fold_release_bags:
  "slot_bag (fold release_slot xs q) = image_mset slot_addr (mset xs) + slot_bag q"
  "token_bag (fold release_slot xs q) = sum_mset (image_mset slot_tokens (mset xs)) + token_bag q"
  "pending_read_queue (fold release_slot xs q) = pending_read_queue q"
  by (induction xs arbitrary: q) (simp_all add: release_slot_bags add_ac)

lemma queue_execute_pending_eq:
  "\<exists>order q'. mset order = mset (pending_read_queue q)
    \<and> queue_execute_pending pick arrive f rc (q, st)
      = mapR (\<lambda>st. (q', st)) (foldR (complete_read f rc) (map (arrived arrive) order) st)
    \<and> pending_read_queue q' = [] \<and> slot_bag q' = slot_bag q \<and> token_bag q' = token_bag q"
proof (intro exI conjI)
  let ?order = "drain_order pick (pending_read_queue q)"
  let ?q' = "fold release_slot (map (arrived arrive) ?order) (q\<lparr>pending_read_queue := []\<rparr>)"
  show m: "mset ?order = mset (pending_read_queue q)" by (rule mset_drain_order)
  show "queue_execute_pending pick arrive f rc (q, st)
      = mapR (\<lambda>st. (?q', st)) (foldR (complete_read f rc) (map (arrived arrive) ?order) st)"
    by (simp add: queue_execute_pending_def drainR_eq_foldR execute_fold)
  show "pending_read_queue ?q' = []" by (simp add: fold_release_bags)
  have "image_mset slot_addr (mset (map (arrived arrive) ?order)) = image_mset slot_addr (mset (pending_read_queue q))"
    "image_mset slot_tokens (mset (map (arrived arrive) ?order)) = image_mset slot_tokens (mset (pending_read_queue q))"
    by (simp_all add: m image_mset.compositionality comp_def)
  then show "slot_bag ?q' = slot_bag q" "token_bag ?q' = token_bag q"
    by (simp_all only: fold_release_bags) (simp_all add: slot_bag_def token_bag_def)
qed

section \<open>Properties\<close>

text \<open>
  Property C23: working off the pending reads completes every one of them exactly once, on the
  data that arrived for its request, whatever order the queue chooses, and then all data slots
  are free again and every request token is back in the pool.
\<close>

theorem queue_execute_pending_once:
  assumes "queue_ok slots q"
  shows "\<exists>order q'. mset order = mset (pending_read_queue q)
    \<and> queue_execute_pending pick arrive f run_callback (q, st)
      = mapR (\<lambda>st. (q', st)) (foldR (complete_read f run_callback) (map (arrived arrive) order) st)
    \<and> queue_ok slots q' \<and> length (free_queue q') = slots
    \<and> mset (free_request_token_queue (rdma q')) = token_bag q"
proof -
  obtain order q' where o: "mset order = mset (pending_read_queue q)"
    "queue_execute_pending pick arrive f run_callback (q, st)
      = mapR (\<lambda>st. (q', st)) (foldR (complete_read f run_callback) (map (arrived arrive) order) st)"
    "pending_read_queue q' = []" "slot_bag q' = slot_bag q" "token_bag q' = token_bag q"
    using queue_execute_pending_eq [of q pick arrive f run_callback st] by (elim exE conjE)
  moreover have k: "queue_ok slots q'" using assms o by (simp add: queue_ok_def)
  moreover have "length (free_queue q') = slots" using k o(3) by (simp add: queue_ok_def slot_bag_def)
  moreover have "mset (free_request_token_queue (rdma q')) = token_bag q'" using o(3) by (simp add: token_bag_def)
  ultimately show ?thesis by auto
qed

definition one_server :: "remote_machine list" where
  "one_server = [\<lparr>rm_index = 0, rm_ip = ''10.10.1.1'', rm_port = 8000, rm_server = True\<rparr>]"

theorem queue_execute_pending_once_witness:
  "\<exists>p q q'. queue_read (\<lambda>_. 0) (\<lambda>_. 0) 8 0 (Some ''k'') (0::nat) 0 64 8
       (let q = make_RDMADataWithQueue (\<lambda>i. 4096 + 8 * i) 8 0 one_server 0 1 in q\<lparr>rdma := rdma_connect 50200 (rdma q)\<rparr>)
       = Inr (p, q)
    \<and> queue_execute_pending (\<lambda>_. 0) (unat \<circ> remote_offset) (\<lambda>_. Inr) (\<lambda>cb d log. Inr (log @ [(cb, d)])) (q, [])
       = Inr (q', [(''k'', 64)]) \<and> length (free_queue q') = 1"
proof -
  let ?q0 = "make_RDMADataWithQueue (\<lambda>i. 4096 + 8 * i) 8 0 one_server 0 1 :: (nat, string) rdma_queue"
  let ?q1 = "?q0\<lparr>rdma := rdma_connect 50200 (rdma ?q0)\<rparr>"
  have "queue_ok 1 ?q0" by (rule make_queue_ok) (simp add: FreeRequestTokenQueueSize_def)
  then have ok: "queue_ok 1 ?q1" by (simp add: queue_ok_def slot_bag_def token_bag_def rdma_connect_def)
  have f: "free_queue ?q1 \<noteq> []" "pending_read_queue ?q1 = []" "connect_qps (rdma ?q1) = [(0, 50200)]"
    by (simp_all add: make_RDMADataWithQueue_def make_RDMAData_def one_server_def Let_def enqueue_def get_buffer_def
        rdma_connect_def)
  obtain p q where r: "queue_read (\<lambda>_. 0) (\<lambda>_. 0) 8 0 (Some ''k'') 0 0 64 8 ?q1 = Inr (p, q)" "remote_offset p = 64"
      "queue_ok 1 q" and s: "\<exists>s. pending_read_queue q = [s] \<and> slot_callback s = Some ''k'' \<and> slot_post s = Some p"
    using queue_read_ok [OF ok f(1), of 0 "\<lambda>_. 0" "\<lambda>_. 0" 8 "Some ''k''" 0 0 64 8] f by auto
  from queue_execute_pending_once [OF r(3), of "\<lambda>_. 0" "unat \<circ> remote_offset" "\<lambda>_. Inr"
      "\<lambda>cb d log. Inr (log @ [(cb, d)])" "[]"] s r(2)
  obtain q' where "queue_execute_pending (\<lambda>_. 0) (unat \<circ> remote_offset) (\<lambda>_. Inr) (\<lambda>cb d log. Inr (log @ [(cb, d)])) (q, [])
       = Inr (q', [(''k'', 64)]) \<and> length (free_queue q') = 1"
    by (auto simp: complete_read_def arrived_def)
  with r(1) show ?thesis by (auto simp: Let_def)
qed

end
