(* ===== verification/Cache_Indexes.thy ===== *)
theory Cache_Indexes
  imports Rdma_Data Cxx_Text
begin

text \<open>
  The replicated cache index (\<open>CacheIndexes\<close> of \<open>src/src/ldc.h\<close>). Every server has one array of
  index entries per server: its own array says where its cache holds each key, the others
  mirror the arrays of the other servers. A change of the own array is pushed to every other
  server by a one-sided write of the entry.

  The type of an index entry, its pointer field, the invalid entry and its size belong to the
  third-party block-cache library and are the record \<open>index_api\<close>. The array of server \<open>i\<close> is
  the buffer named \<open>i\<close>.
\<close>

section \<open>State and operations\<close>

record 'e index_api =
  key_value_ptr_offset :: "'e \<Rightarrow> u64"
  KEY_VALUE_PTR_INVALID :: u64
  InvalidRDMACacheIndex :: 'e
  sizeof_index :: u64
  allocated_cache_index_size :: u64

definition valid_entry :: "'e index_api \<Rightarrow> 'e \<Rightarrow> bool" where
  "valid_entry api e \<longleftrightarrow> key_value_ptr_offset api e \<noteq> KEY_VALUE_PTR_INVALID api"

record 'e cache_indexes =
  ci_rdma :: rdma_data
  rdma_cache_indexes :: "'e list list"
  pending_write_queue :: "nat mpmc"

definition CACHE_INDEXES_PORT :: nat where "CACHE_INDEXES_PORT = 50300"

definition make_CacheIndexes ::
    "'e index_api \<Rightarrow> 'e list \<Rightarrow> (nat \<Rightarrow> 'e list) \<Rightarrow> remote_machine list \<Rightarrow> nat \<Rightarrow> 'e cache_indexes" where
  "make_CacheIndexes api cache_index_buffer allocate_cache_index configs m =
     (let d = make_RDMAData configs m; n = length (server_configs d) in
      fold (\<lambda>i ci.
        ci\<lparr>rdma_cache_indexes := (rdma_cache_indexes ci)[i := if i = m then cache_index_buffer else allocate_cache_index i],
           ci_rdma := rdma_listen (CACHE_INDEXES_PORT + i) i (allocated_cache_index_size api)
             (rdma_connect (CACHE_INDEXES_PORT + i) (ci_rdma ci))\<rparr>)
        [0..<n] \<lparr>ci_rdma = d, rdma_cache_indexes = replicate n [], pending_write_queue = []\<rparr>)"

abbreviation servers :: "'e cache_indexes \<Rightarrow> nat" where
  "servers ci \<equiv> length (server_configs (ci_rdma ci))"

abbreviation me :: "'e cache_indexes \<Rightarrow> nat" where
  "me ci \<equiv> machine_index (ci_rdma ci)"

definition post_entry ::
    "'e index_api \<Rightarrow> nat pick \<Rightarrow> int \<Rightarrow> nat \<Rightarrow> post list \<times> 'e cache_indexes \<Rightarrow> (post list \<times> 'e cache_indexes) res" where
  "post_entry api pick key_index i = (\<lambda>(posts, ci).
     let offset = of_int key_index * sizeof_index api; rdma_index = me ci * servers ci + i in
     bindR (rdma_write pick rdma_index (me ci) (allocated_cache_index_size api) offset offset (sizeof_index api) (ci_rdma ci))
       (\<lambda>(p, d). Inr (posts @ [p],
         ci\<lparr>ci_rdma := d, pending_write_queue := enqueue (request_token p) (pending_write_queue ci)\<rparr>)))"

definition write_remote ::
    "'e index_api \<Rightarrow> nat pick \<Rightarrow> string \<Rightarrow> 'e cache_indexes \<Rightarrow> (post list \<times> 'e cache_indexes) res" where
  "write_remote api pick key ci =
     bindR (stoi key) (\<lambda>key_index.
     foldR (\<lambda>i (posts, ci).
       if me ci = i then Inr (posts, ci) else
       bindR (vec_at (rdma_cache_indexes ci) (me ci)) (\<lambda>rdma_cache_index.
       bindR (vec_at_int rdma_cache_index key_index) (\<lambda>e.
       if key_value_ptr_offset api e = KEY_VALUE_PTR_INVALID api
       then Inl (Panic ''Invalid key value ptr offset'')
       else post_entry api pick key_index i (posts, ci))))
       [0..<servers ci] ([], ci))"

definition dealloc_remote ::
    "'e index_api \<Rightarrow> nat pick \<Rightarrow> string \<Rightarrow> 'e cache_indexes \<Rightarrow> (post list \<times> 'e cache_indexes) res" where
  "dealloc_remote api pick key ci =
     bindR (stoi key) (\<lambda>key_index.
     foldR (\<lambda>i (posts, ci).
       if me ci = i then Inr (posts, ci) else
       bindR (vec_at (rdma_cache_indexes ci) (me ci)) (\<lambda>rdma_cache_index.
       bindR (vec_set_int rdma_cache_index key_index (InvalidRDMACacheIndex api)) (\<lambda>rdma_cache_index.
       post_entry api pick key_index i
         (posts, ci\<lparr>rdma_cache_indexes := (rdma_cache_indexes ci)[me ci := rdma_cache_index]\<rparr>))))
       [0..<servers ci] ([], ci))"

definition update_local_key ::
    "'e index_api \<Rightarrow> u64 \<Rightarrow> u64 \<Rightarrow> 'e cache_indexes \<Rightarrow> 'e cache_indexes res" where
  "update_local_key api expected_key key ci =
     (if key = KEY_VALUE_PTR_INVALID api then Inr ci else
      foldR (\<lambda>i ci.
        if me ci = i then Inr ci else
        bindR (vec_at (rdma_cache_indexes ci) (me ci)) (\<lambda>mine.
        bindR (vec_at mine (unat expected_key)) (\<lambda>e.
        bindR (vec_at (rdma_cache_indexes ci) i) (\<lambda>theirs.
        bindR (vec_set theirs (unat key) e) (\<lambda>theirs.
        Inr (ci\<lparr>rdma_cache_indexes := (rdma_cache_indexes ci)[i := theirs]\<rparr>))))))
        [0..<servers ci] ci)"

definition get_cache_index :: "nat \<Rightarrow> 'e cache_indexes \<Rightarrow> 'e list res" where
  "get_cache_index i ci = vec_at (rdma_cache_indexes ci) i"

text \<open>
  \<open>execute_pending\<close> of \<open>CacheIndexes\<close>, and of \<open>CacheIndexLogs\<close>, which has the same text: wait for
  every pending write, call \<open>f\<close> and give the token back.
\<close>

definition drain_writes ::
    "nat pick \<Rightarrow> ('s \<Rightarrow> 's res) \<Rightarrow> nat mpmc \<Rightarrow> rdma_data \<times> 's \<Rightarrow> (rdma_data \<times> 's) res" where
  "drain_writes pick f = drainR pick (\<lambda>t (d, st). bindR (f st) (\<lambda>st. Inr (free_request_token t d, st)))"

definition indexes_execute_pending ::
    "nat pick \<Rightarrow> ('s \<Rightarrow> 's res) \<Rightarrow> 'e cache_indexes \<times> 's \<Rightarrow> ('e cache_indexes \<times> 's) res" where
  "indexes_execute_pending pick f = (\<lambda>(ci, st).
     mapR (\<lambda>(d, st). (ci\<lparr>ci_rdma := d, pending_write_queue := []\<rparr>, st))
       (drain_writes pick f (pending_write_queue ci) (ci_rdma ci, st)))"

section \<open>The table of queue pairs\<close>

text \<open>
  The constructor connects to every server at the port of array 0, then at the port of array
  1, and so on; so the queue pair with number \<open>a * n + b\<close> reaches array \<open>a\<close> of server \<open>b\<close>.
\<close>

definition qp_table :: "nat \<Rightarrow> nat \<Rightarrow> (nat \<times> nat) list" where
  "qp_table base n = concat (map (\<lambda>a. map (\<lambda>b. (b, base + a)) [0..<n]) [0..<n])"

lemma concat_uniform_nth:
  "(\<forall>xs \<in> set xss. length xs = n) \<Longrightarrow> a < length xss \<Longrightarrow> b < n \<Longrightarrow> concat xss ! (a * n + b) = xss ! a ! b"
proof (induction xss arbitrary: a)
  case Nil
  then show ?case by simp
next
  case (Cons xs xss)
  then show ?case by (cases a) (auto simp: nth_append)
qed

lemma length_qp_table: "length (qp_table base n) = n * n"
  by (simp add: qp_table_def length_concat comp_def sum_list_triv)

lemma qp_table_nth: "a < n \<Longrightarrow> b < n \<Longrightarrow> qp_table base n ! (a * n + b) = (b, base + a)"
  by (simp add: qp_table_def concat_uniform_nth)

lemma qp_index_less: "a < n \<Longrightarrow> b < n \<Longrightarrow> a * n + b < n * (n :: nat)"
proof -
  assume "a < n" "b < n"
  then have "a * n + b < Suc a * n" by simp
  also have "\<dots> \<le> n * n" using \<open>a < n\<close> by (intro mult_le_mono1) simp
  finally show ?thesis .
qed

text \<open>The well-formed state of a server among \<open>n\<close>, with arrays of \<open>len\<close> entries.\<close>

definition ci_ok :: "'e index_api \<Rightarrow> nat \<Rightarrow> nat \<Rightarrow> nat \<Rightarrow> 'e cache_indexes \<Rightarrow> bool" where
  "ci_ok api n len m ci \<longleftrightarrow> m < n \<and> me ci = m \<and> servers ci = n
     \<and> connect_qps (ci_rdma ci) = qp_table CACHE_INDEXES_PORT n
     \<and> length (rdma_cache_indexes ci) = n \<and> (\<forall>a < n. length (rdma_cache_indexes ci ! a) = len)"

definition ci_tokens :: "'e cache_indexes \<Rightarrow> nat multiset" where
  "ci_tokens ci = mset (free_request_token_queue (ci_rdma ci)) + mset (pending_write_queue ci)"

lemma make_CacheIndexes_ok:
  fixes configs m
  defines "n \<equiv> length (filter rm_server configs)"
  assumes "m < n" "length own = len" "\<forall>i < n. length (alloc i) = len"
  shows "ci_ok api n len m (make_CacheIndexes api own alloc configs m)"
    and "rdma_cache_indexes (make_CacheIndexes api own alloc configs m) = (map alloc [0..<n])[m := own]"
    and "free_request_token_queue (ci_rdma (make_CacheIndexes api own alloc configs m)) = [0..<FreeRequestTokenQueueSize]"
    and "pending_write_queue (make_CacheIndexes api own alloc configs m) = []"
proof -
  let ?ci0 = "\<lparr>ci_rdma = make_RDMAData configs m, rdma_cache_indexes = replicate n [], pending_write_queue = []\<rparr>"
  let ?f = "\<lambda>i ci. ci\<lparr>rdma_cache_indexes := (rdma_cache_indexes ci)[i := if i = m then own else alloc i],
           ci_rdma := rdma_listen (CACHE_INDEXES_PORT + i) i (allocated_cache_index_size api)
             (rdma_connect (CACHE_INDEXES_PORT + i) (ci_rdma ci))\<rparr>"
  have step: "k \<le> n \<Longrightarrow> (let ci = fold ?f [0..<k] ?ci0 in me ci = m \<and> servers ci = n
    \<and> connect_qps (ci_rdma ci) = concat (map (\<lambda>a. map (\<lambda>b. (b, CACHE_INDEXES_PORT + a)) [0..<n]) [0..<k])
    \<and> rdma_cache_indexes ci = map (\<lambda>i. if i = m then own else alloc i) [0..<k] @ replicate (n - k) []
    \<and> free_request_token_queue (ci_rdma ci) = [0..<FreeRequestTokenQueueSize] \<and> pending_write_queue ci = [])" for k
  proof (induction k)
    case 0
    show ?case by (simp add: make_RDMAData_def Let_def n_def)
  next
    case (Suc k)
    then show ?case
      by (auto simp: Let_def rdma_listen_def rdma_connect_def get_buffer_frameD list_update_append
          Suc_diff_Suc [symmetric] split: prod.splits)
  qed
  have eq: "make_CacheIndexes api own alloc configs m = fold ?f [0..<n] ?ci0"
    by (simp add: make_CacheIndexes_def n_def make_RDMAData_def Let_def)
  note s = step [OF order_refl, unfolded Let_def, folded eq]
  have arr: "map (\<lambda>i. if i = m then own else alloc i) [0..<n] = (map alloc [0..<n])[m := own]"
    by (rule nth_equalityI) (auto simp: nth_list_update)
  show "rdma_cache_indexes (make_CacheIndexes api own alloc configs m) = (map alloc [0..<n])[m := own]"
    using s arr by simp
  show "free_request_token_queue (ci_rdma (make_CacheIndexes api own alloc configs m)) = [0..<FreeRequestTokenQueueSize]"
    and "pending_write_queue (make_CacheIndexes api own alloc configs m) = []" using s by simp_all
  show "ci_ok api n len m (make_CacheIndexes api own alloc configs m)"
    using s assms(2-4) by (auto simp: ci_ok_def qp_table_def nth_append)
qed

section \<open>What a push posts\<close>

text \<open>The request that pushes entry \<open>key_index\<close> of the array of server \<open>m\<close> to server \<open>i\<close>.\<close>

definition push_to :: "'e index_api \<Rightarrow> nat \<Rightarrow> int \<Rightarrow> nat \<Rightarrow> post \<Rightarrow> bool" where
  "push_to api m key_index i p \<longleftrightarrow> post_write p \<and> post_qp p = (i, CACHE_INDEXES_PORT + m) \<and> post_buffer p = m
     \<and> local_offset p = of_int key_index * sizeof_index api \<and> remote_offset p = of_int key_index * sizeof_index api
     \<and> size_in_bytes p = sizeof_index api"

lemma post_entry_ok:
  assumes "ci_ok api n len m ci" "i < n" "free_request_token_queue (ci_rdma ci) \<noteq> []"
  shows "\<exists>p ci'. post_entry api pick k i (posts, ci) = Inr (posts @ [p], ci') \<and> push_to api m k i p
    \<and> rdma_cache_indexes ci' = rdma_cache_indexes ci
    \<and> pending_write_queue ci' = pending_write_queue ci @ [request_token p]
    \<and> ci_tokens ci' = ci_tokens ci \<and> ci_ok api n len m ci'
    \<and> length (free_request_token_queue (ci_rdma ci)) = Suc (length (free_request_token_queue (ci_rdma ci')))"
proof -
  have mn: "m < n" and c: "me ci = m" "servers ci = n" "connect_qps (ci_rdma ci) = qp_table CACHE_INDEXES_PORT n"
    using assms(1) by (simp_all add: ci_ok_def)
  have idx: "m * n + i < length (connect_qps (ci_rdma ci))"
    using c mn assms(2) by (simp add: length_qp_table qp_index_less)
  let ?o = "of_int k * sizeof_index api"
  obtain p d where p: "rdma_write pick (m * n + i) m (allocated_cache_index_size api) ?o ?o (sizeof_index api) (ci_rdma ci) = Inr (p, d)"
    "post_write p" "post_qp p = qp_table CACHE_INDEXES_PORT n ! (m * n + i)" "post_buffer p = m" "local_offset p = ?o"
    "remote_offset p = ?o" "size_in_bytes p = sizeof_index api"
    "add_mset (request_token p) (mset (free_request_token_queue d)) = mset (free_request_token_queue (ci_rdma ci))"
    "connect_qps d = connect_qps (ci_rdma ci)" "server_configs d = server_configs (ci_rdma ci)" "machine_index d = machine_index (ci_rdma ci)"
    using rdma_request_ok [OF idx assms(3), of True pick m "allocated_cache_index_size api" ?o ?o "sizeof_index api"] c(3)
    unfolding rdma_write_def by auto
  let ?ci = "ci\<lparr>ci_rdma := d, pending_write_queue := enqueue (request_token p) (pending_write_queue ci)\<rparr>"
  have "post_entry api pick k i (posts, ci) = Inr (posts @ [p], ?ci)" using p(1) c by (simp add: post_entry_def Let_def)
  moreover have "push_to api m k i p" using p(2-7) mn assms(2) by (simp add: push_to_def qp_table_nth)
  moreover have "ci_tokens ?ci = ci_tokens ci" using p(8) by (simp add: ci_tokens_def enqueue_def)
  moreover have "ci_ok api n len m ?ci" using assms(1) p(9-11) by (simp add: ci_ok_def)
  moreover have "length (free_request_token_queue (ci_rdma ci)) = Suc (length (free_request_token_queue (ci_rdma ?ci)))"
    using arg_cong [OF p(8), of size] by simp
  ultimately show ?thesis by (intro exI conjI) (assumption | simp add: enqueue_def)+
qed

lemma post_entry_no_token:
  assumes "ci_ok api n len m ci" "i < n" "free_request_token_queue (ci_rdma ci) = []"
  shows "post_entry api pick k i (posts, ci) = Inl (Panic ''Free request token queue out of tokens!'')"
proof -
  have mn: "m < n" and c: "me ci = m" "servers ci = n" "connect_qps (ci_rdma ci) = qp_table CACHE_INDEXES_PORT n"
    using assms(1) by (simp_all add: ci_ok_def)
  have idx: "m * n + i < length (connect_qps (ci_rdma ci))"
    using c mn assms(2) by (simp add: length_qp_table qp_index_less)
  show ?thesis using rdma_request_no_token [OF idx assms(3)] c
    by (simp add: post_entry_def Let_def rdma_write_def)
qed

text \<open>
  The loop over the other servers, whose body first makes \<open>A'\<close> of the arrays \<open>A\<close> (the same
  arrays when an entry is pushed, the arrays without the entry when it is deallocated).
\<close>

definition others :: "nat \<Rightarrow> nat list \<Rightarrow> nat list" where
  "others m is = filter (\<lambda>i. i \<noteq> m) is"

lemma others_simps [simp]:
  "others m [] = []" "others m (m # is) = others m is" "i \<noteq> m \<Longrightarrow> others m (i # is) = i # others m is"
  by (simp_all add: others_def)

lemma length_others: "m < n \<Longrightarrow> length (others m [0..<n]) = n - 1"
proof -
  assume "m < n"
  have "distinct (others m [0..<n])" "set (others m [0..<n]) = {..<n} - {m}" by (auto simp: others_def)
  then show ?thesis using \<open>m < n\<close> distinct_card [of "others m [0..<n]"] by simp
qed

lemma push_loop:
  assumes "ci_ok api n len m ci" "set is \<subseteq> {..<n}" "rdma_cache_indexes ci \<in> {A, A'}"
    and "length A' = n" "\<forall>a < n. length (A' ! a) = len"
    and body: "\<And>i posts ci. ci_ok api n len m ci \<Longrightarrow> i < n \<Longrightarrow> rdma_cache_indexes ci \<in> {A, A'} \<Longrightarrow>
      body i (posts, ci) = (if i = m then Inr (posts, ci)
        else post_entry api pick k i (posts, ci\<lparr>rdma_cache_indexes := A'\<rparr>))"
  shows "if length (others m is) \<le> length (free_request_token_queue (ci_rdma ci)) then
      \<exists>ps ci'. foldR body is (posts, ci) = Inr (posts @ ps, ci') \<and> list_all2 (push_to api m k) (others m is) ps
        \<and> rdma_cache_indexes ci' = (if others m is = [] then rdma_cache_indexes ci else A')
        \<and> pending_write_queue ci' = pending_write_queue ci @ map request_token ps
        \<and> ci_tokens ci' = ci_tokens ci \<and> ci_ok api n len m ci'
    else foldR body is (posts, ci) = Inl (Panic ''Free request token queue out of tokens!'')"
  using assms(1-3)
proof (induction "is" arbitrary: posts ci)
  case Nil
  then show ?case by simp
next
  case (Cons i "is")
  show ?case
  proof (cases "i = m")
    case True
    with Cons body show ?thesis by simp
  next
    case False
    let ?ci = "ci\<lparr>rdma_cache_indexes := A'\<rparr>"
    have i: "i < n" using Cons.prems by simp
    have ok: "ci_ok api n len m ?ci" using Cons.prems(1) assms(4,5) by (simp add: ci_ok_def)
    have b: "body i (posts, ci) = post_entry api pick k i (posts, ?ci)" using body Cons.prems i False by simp
    show ?thesis
    proof (cases "free_request_token_queue (ci_rdma ci) = []")
      case True
      with post_entry_no_token [OF ok i, of pick k posts] b False show ?thesis by simp
    next
      case nonempty: False
      then have "free_request_token_queue (ci_rdma ?ci) \<noteq> []" by simp
      from post_entry_ok [OF ok i this, of pick k posts] obtain p ci1 where
        p: "post_entry api pick k i (posts, ?ci) = Inr (posts @ [p], ci1)" "push_to api m k i p"
          "rdma_cache_indexes ci1 = A'" "pending_write_queue ci1 = pending_write_queue ci @ [request_token p]"
          "ci_tokens ci1 = ci_tokens ci" "ci_ok api n len m ci1"
          "length (free_request_token_queue (ci_rdma ci)) = Suc (length (free_request_token_queue (ci_rdma ci1)))"
        by (auto simp: ci_tokens_def)
      have IH: "if length (others m is) \<le> length (free_request_token_queue (ci_rdma ci1)) then
          \<exists>ps ci'. foldR body is (posts @ [p], ci1) = Inr ((posts @ [p]) @ ps, ci') \<and> list_all2 (push_to api m k) (others m is) ps
            \<and> rdma_cache_indexes ci' = (if others m is = [] then rdma_cache_indexes ci1 else A')
            \<and> pending_write_queue ci' = pending_write_queue ci1 @ map request_token ps
            \<and> ci_tokens ci' = ci_tokens ci1 \<and> ci_ok api n len m ci'
        else foldR body is (posts @ [p], ci1) = Inl (Panic ''Free request token queue out of tokens!'')"
        by (rule Cons.IH) (use p Cons.prems in auto)
      show ?thesis
      proof (cases "length (others m is) \<le> length (free_request_token_queue (ci_rdma ci1))")
        case True
        with IH obtain ps ci' where "foldR body is (posts @ [p], ci1) = Inr ((posts @ [p]) @ ps, ci')"
          "list_all2 (push_to api m k) (others m is) ps" "rdma_cache_indexes ci' = A'"
          "pending_write_queue ci' = pending_write_queue ci1 @ map request_token ps" "ci_tokens ci' = ci_tokens ci1"
          "ci_ok api n len m ci'" using p(3) by (auto split: if_splits)
        with p b False True show ?thesis by (intro if_P [THEN iffD2] ) (auto intro!: exI [of _ "p # ps"])
      next
        case False
        with IH p b \<open>i \<noteq> m\<close> show ?thesis by simp
      qed
    qed
  qed
qed

text \<open>Pushing an entry, and deallocating one, in the terms of what is posted.\<close>

definition pushed :: "'e index_api \<Rightarrow> nat \<Rightarrow> nat \<Rightarrow> nat \<Rightarrow> int \<Rightarrow> 'e list list \<Rightarrow> 'e cache_indexes
    \<Rightarrow> post list \<Rightarrow> 'e cache_indexes \<Rightarrow> bool" where
  "pushed api n len m k arrays ci ps ci' \<longleftrightarrow> list_all2 (push_to api m k) (others m [0..<n]) ps
     \<and> rdma_cache_indexes ci' = arrays
     \<and> pending_write_queue ci' = pending_write_queue ci @ map request_token ps
     \<and> ci_tokens ci' = ci_tokens ci \<and> ci_ok api n len m ci'"

definition out_of_tokens :: fault where
  "out_of_tokens = Panic ''Free request token queue out of tokens!''"

lemma write_remote_cases:
  assumes "ci_ok api n len m ci" "stoi key = Inr (int k)" "k < len" "1 < n"
    and "valid_entry api (rdma_cache_indexes ci ! m ! k)"
  shows "if n - 1 \<le> length (free_request_token_queue (ci_rdma ci))
    then \<exists>ps ci'. write_remote api pick key ci = Inr (ps, ci') \<and> pushed api n len m (int k) (rdma_cache_indexes ci) ci ps ci'
    else write_remote api pick key ci = Inl out_of_tokens"
proof -
  have m: "m < n" "servers ci = n" and arr: "length (rdma_cache_indexes ci) = n" "\<forall>a < n. length (rdma_cache_indexes ci ! a) = len"
    using assms(1) by (simp_all add: ci_ok_def)
  have ne: "others m [0..<n] \<noteq> []" using length_others [OF m(1)] assms(4) by force
  let ?body = "\<lambda>i (posts, ci). if me ci = i then Inr (posts, ci) else
       bindR (vec_at (rdma_cache_indexes ci) (me ci)) (\<lambda>rdma_cache_index.
       bindR (vec_at_int rdma_cache_index (int k)) (\<lambda>e.
       if key_value_ptr_offset api e = KEY_VALUE_PTR_INVALID api
       then Inl (Panic ''Invalid key value ptr offset'')
       else post_entry api pick (int k) i (posts, ci)))"
  have loop: "if length (others m [0..<n]) \<le> length (free_request_token_queue (ci_rdma ci)) then
      \<exists>ps ci'. foldR ?body [0..<n] ([], ci) = Inr ([] @ ps, ci') \<and> list_all2 (push_to api m (int k)) (others m [0..<n]) ps
        \<and> rdma_cache_indexes ci' = (if others m [0..<n] = [] then rdma_cache_indexes ci else rdma_cache_indexes ci)
        \<and> pending_write_queue ci' = pending_write_queue ci @ map request_token ps
        \<and> ci_tokens ci' = ci_tokens ci \<and> ci_ok api n len m ci'
    else foldR ?body [0..<n] ([], ci) = Inl (Panic ''Free request token queue out of tokens!'')"
  proof (rule push_loop [OF assms(1), where A = "rdma_cache_indexes ci"])
    show "length (rdma_cache_indexes ci) = n" "\<forall>a < n. length ((rdma_cache_indexes ci) ! a) = len" using arr m(1) by (simp_all add: nth_list_update)
    show "?body i (posts, cj) = (if i = m then Inr (posts, cj)
        else post_entry api pick (int k) i (posts, cj\<lparr>rdma_cache_indexes := rdma_cache_indexes ci\<rparr>))"
      if "ci_ok api n len m cj" "i < n" "rdma_cache_indexes cj \<in> {rdma_cache_indexes ci, rdma_cache_indexes ci}" for i posts cj
    proof -
      have c: "me cj = m" "length (rdma_cache_indexes cj) = n" using that(1) by (simp_all add: ci_ok_def)
      from that(3) have e: "rdma_cache_indexes cj = rdma_cache_indexes ci" by simp
      then have u: "cj\<lparr>rdma_cache_indexes := rdma_cache_indexes ci\<rparr> = cj" by simp
      show ?thesis unfolding u using e c m(1) arr assms(3,5) by (simp add: valid_entry_def)
    qed
  qed auto
  show ?thesis
    using loop by (simp only: ne if_False append_Nil length_others [OF m(1)] write_remote_def assms(2) bindR_simps m(2)
        pushed_def out_of_tokens_def)
qed

lemma dealloc_remote_cases:
  assumes "ci_ok api n len m ci" "stoi key = Inr (int k)" "k < len" "1 < n"
  shows "if n - 1 \<le> length (free_request_token_queue (ci_rdma ci))
    then \<exists>ps ci'. dealloc_remote api pick key ci = Inr (ps, ci') \<and> pushed api n len m (int k)
      ((rdma_cache_indexes ci)[m := (rdma_cache_indexes ci ! m)[k := InvalidRDMACacheIndex api]]) ci ps ci'
    else dealloc_remote api pick key ci = Inl out_of_tokens"
proof -
  let ?A = "(rdma_cache_indexes ci)[m := (rdma_cache_indexes ci ! m)[k := InvalidRDMACacheIndex api]]"
  have m: "m < n" "servers ci = n" and arr: "length (rdma_cache_indexes ci) = n" "\<forall>a < n. length (rdma_cache_indexes ci ! a) = len"
    using assms(1) by (simp_all add: ci_ok_def)
  have ne: "others m [0..<n] \<noteq> []" using length_others [OF m(1)] assms(4) by force
  let ?body = "\<lambda>i (posts, ci). if me ci = i then Inr (posts, ci) else
       bindR (vec_at (rdma_cache_indexes ci) (me ci)) (\<lambda>rdma_cache_index.
       bindR (vec_set_int rdma_cache_index (int k) (InvalidRDMACacheIndex api)) (\<lambda>rdma_cache_index.
       post_entry api pick (int k) i
         (posts, ci\<lparr>rdma_cache_indexes := (rdma_cache_indexes ci)[me ci := rdma_cache_index]\<rparr>)))"
  have loop: "if length (others m [0..<n]) \<le> length (free_request_token_queue (ci_rdma ci)) then
      \<exists>ps ci'. foldR ?body [0..<n] ([], ci) = Inr ([] @ ps, ci') \<and> list_all2 (push_to api m (int k)) (others m [0..<n]) ps
        \<and> rdma_cache_indexes ci' = (if others m [0..<n] = [] then rdma_cache_indexes ci else ?A)
        \<and> pending_write_queue ci' = pending_write_queue ci @ map request_token ps
        \<and> ci_tokens ci' = ci_tokens ci \<and> ci_ok api n len m ci'
    else foldR ?body [0..<n] ([], ci) = Inl (Panic ''Free request token queue out of tokens!'')"
  proof (rule push_loop [OF assms(1), where A = "rdma_cache_indexes ci"])
    show "length (?A) = n" "\<forall>a < n. length ((?A) ! a) = len" using arr m(1) by (simp_all add: nth_list_update)
    show "?body i (posts, cj) = (if i = m then Inr (posts, cj)
        else post_entry api pick (int k) i (posts, cj\<lparr>rdma_cache_indexes := ?A\<rparr>))"
      if "ci_ok api n len m cj" "i < n" "rdma_cache_indexes cj \<in> {rdma_cache_indexes ci, ?A}" for i posts cj
    proof -
      have c: "me cj = m" "length (rdma_cache_indexes cj) = n" using that(1) by (simp_all add: ci_ok_def)
      have A: "length ?A = n" "?A ! m = (rdma_cache_indexes ci ! m)[k := InvalidRDMACacheIndex api]" using m(1) arr by simp_all
      have l: "m < length (rdma_cache_indexes cj)" using c(2) m(1) by simp
      have "length (rdma_cache_indexes cj ! m) = len
          \<and> (rdma_cache_indexes cj)[m := (rdma_cache_indexes cj ! m)[k := InvalidRDMACacheIndex api]] = ?A"
      proof (cases "rdma_cache_indexes cj = rdma_cache_indexes ci")
        case True
        then show ?thesis using m(1) arr by simp
      next
        case False
        then have "rdma_cache_indexes cj = ?A" using that(3) by simp
        then show ?thesis using A m(1) arr by simp
      qed
      note k = conjunct1 [OF this] conjunct2 [OF this]
      have "k < length (rdma_cache_indexes cj ! m)" using k(1) assms(3) by simp
      then show ?thesis using k(2) by (simp only: prod.case c(1) vec_at_in [OF l] bindR_simps vec_set_int_of_nat vec_set_in eq_commute [of m i])
    qed
  qed auto
  show ?thesis
    using loop by (simp only: ne if_False append_Nil length_others [OF m(1)] dealloc_remote_def assms(2) bindR_simps m(2)
        pushed_def out_of_tokens_def)
qed

lemma write_remote_invalid:
  assumes "ci_ok api n len m ci" "stoi key = Inr (int k)" "k < len" "1 < n"
    and "\<not> valid_entry api (rdma_cache_indexes ci ! m ! k)"
  shows "write_remote api pick key ci = Inl (Panic ''Invalid key value ptr offset'')"
proof -
  have c: "m < n" "me ci = m" "servers ci = n" "length (rdma_cache_indexes ci) = n"
    "length (rdma_cache_indexes ci ! m) = len" using assms(1) by (simp_all add: ci_ok_def)
  let ?body = "\<lambda>i (posts, ci). if me ci = i then Inr (posts, ci) else
       bindR (vec_at (rdma_cache_indexes ci) (me ci)) (\<lambda>rdma_cache_index.
       bindR (vec_at_int rdma_cache_index (int k)) (\<lambda>e.
       if key_value_ptr_offset api e = KEY_VALUE_PTR_INVALID api
       then Inl (Panic ''Invalid key value ptr offset'')
       else post_entry api pick (int k) i (posts, ci)))"
  have "foldR ?body is ([], ci) = Inl (Panic ''Invalid key value ptr offset'')" if "others m is \<noteq> []" for "is"
    using that
  proof (induction "is")
    case (Cons i "is")
    then show ?case using c assms(3,5) by (cases "i = m") (simp_all add: valid_entry_def)
  qed simp
  from this [of "[0..<n]"] have "foldR ?body [0..<n] ([], ci) = Inl (Panic ''Invalid key value ptr offset'')"
    using length_others [OF c(1)] assms(4) by force
  then show ?thesis by (simp only: write_remote_def assms(2) bindR_simps c(3))
qed

text \<open>Two servers whose index entries are bare pointers, for concrete runs.\<close>

definition sample_api :: "u64 index_api" where
  "sample_api = \<lparr>key_value_ptr_offset = id, KEY_VALUE_PTR_INVALID = -1, InvalidRDMACacheIndex = -1,
     sizeof_index = 8, allocated_cache_index_size = 32\<rparr>"

definition two_servers :: "remote_machine list" where
  "two_servers = map (\<lambda>i. \<lparr>rm_index = i, rm_ip = ''10.10.1.1'', rm_port = 8000, rm_server = True\<rparr>) [0, 1]"

definition sample_indexes :: "u64 cache_indexes" where
  "sample_indexes = make_CacheIndexes sample_api [-1, -1, 64, -1] (\<lambda>_. replicate 4 (-1)) two_servers 0"

lemma sample_indexes_ok:
  "ci_ok sample_api 2 4 0 sample_indexes" "rdma_cache_indexes sample_indexes = [[-1, -1, 64, -1], [-1, -1, -1, -1]]"
  "free_request_token_queue (ci_rdma sample_indexes) = [0..<FreeRequestTokenQueueSize]"
  using make_CacheIndexes_ok [of 0 two_servers "[-1, -1, 64, -1]" 4 "\<lambda>_. replicate 4 (-1)" sample_api]
  by (simp_all add: sample_indexes_def two_servers_def upt_rec numeral_eq_Suc)

text \<open>
  Property C24: pushing a key posts exactly one write of its entry to every other server, aimed
  at the array that mirrors the writer; it needs one free token per write and panics when the
  pool is short or when the local entry holds no pointer.
\<close>

theorem write_remote_branches:
  assumes "ci_ok api n len m ci" "stoi key = Inr (int k)" "k < len" "1 < n"
  shows "if \<not> valid_entry api (rdma_cache_indexes ci ! m ! k)
      then write_remote api pick key ci = Inl (Panic ''Invalid key value ptr offset'')
    else if n - 1 \<le> length (free_request_token_queue (ci_rdma ci))
      then \<exists>ps ci'. write_remote api pick key ci = Inr (ps, ci')
        \<and> list_all2 (push_to api m (int k)) (filter (\<lambda>i. i \<noteq> m) [0..<n]) ps
        \<and> rdma_cache_indexes ci' = rdma_cache_indexes ci
        \<and> pending_write_queue ci' = pending_write_queue ci @ map request_token ps
        \<and> ci_tokens ci' = ci_tokens ci
    else write_remote api pick key ci = Inl out_of_tokens"
proof (cases "valid_entry api (rdma_cache_indexes ci ! m ! k)")
  case False
  with write_remote_invalid [OF assms False] show ?thesis by simp
next
  case True
  show ?thesis
  proof (cases "n - 1 \<le> length (free_request_token_queue (ci_rdma ci))")
    case tokens: True
    with write_remote_cases [OF assms True, of pick] obtain ps ci' where
      "write_remote api pick key ci = Inr (ps, ci')" "pushed api n len m (int k) (rdma_cache_indexes ci) ci ps ci'"
      by (auto split: if_splits)
    with True tokens show ?thesis by (simp add: pushed_def others_def)
  next
    case False
    with True write_remote_cases [OF assms True, of pick] show ?thesis by simp
  qed
qed

theorem write_remote_branches_witness:
  "write_remote sample_api (\<lambda>_. 0) ''1'' sample_indexes = Inl (Panic ''Invalid key value ptr offset'')"
proof -
  have "stoi ''1'' = Inr (int 1)" by code_simp
  from write_remote_branches [OF sample_indexes_ok(1) this, of "\<lambda>_. 0"] show ?thesis
    by (simp add: sample_indexes_ok valid_entry_def sample_api_def)
qed

section \<open>update_local_key\<close>

lemma update_local_loop:
  assumes "ci_ok api n len m ci" "x < len" "y < len" "set is \<subseteq> {..<n}"
  shows "\<exists>ci'. foldR (\<lambda>i ci.
        if me ci = i then Inr ci else
        bindR (vec_at (rdma_cache_indexes ci) (me ci)) (\<lambda>mine.
        bindR (vec_at mine x) (\<lambda>e.
        bindR (vec_at (rdma_cache_indexes ci) i) (\<lambda>theirs.
        bindR (vec_set theirs y e) (\<lambda>theirs.
        Inr (ci\<lparr>rdma_cache_indexes := (rdma_cache_indexes ci)[i := theirs]\<rparr>)))))) is ci = Inr ci'
    \<and> ci_ok api n len m ci'
    \<and> (\<forall>i < n. \<forall>j < len. rdma_cache_indexes ci' ! i ! j
        = (if i \<in> set is \<and> i \<noteq> m \<and> j = y then rdma_cache_indexes ci ! m ! x else rdma_cache_indexes ci ! i ! j))"
  using assms
proof (induction "is" arbitrary: ci)
  case Nil
  then show ?case by simp
next
  case (Cons i "is")
  have c: "m < n" "me ci = m" "length (rdma_cache_indexes ci) = n" "\<forall>a < n. length (rdma_cache_indexes ci ! a) = len"
    using Cons.prems(1) by (simp_all add: ci_ok_def)
  show ?case
  proof (cases "i = m")
    case True
    with Cons.IH [OF Cons.prems(1-3)] Cons.prems(4) c(2) show ?thesis by auto
  next
    case False
    let ?c1 = "ci\<lparr>rdma_cache_indexes := (rdma_cache_indexes ci)[i := (rdma_cache_indexes ci ! i)[y := rdma_cache_indexes ci ! m ! x]]\<rparr>"
    have i: "i < n" using Cons.prems(4) by simp
    have ok: "ci_ok api n len m ?c1" using Cons.prems(1) i by (auto simp: ci_ok_def nth_list_update)
    from Cons.IH [OF ok Cons.prems(2,3)] Cons.prems(4) obtain ci' where
      c': "foldR (\<lambda>i ci.
        if me ci = i then Inr ci else
        bindR (vec_at (rdma_cache_indexes ci) (me ci)) (\<lambda>mine.
        bindR (vec_at mine x) (\<lambda>e.
        bindR (vec_at (rdma_cache_indexes ci) i) (\<lambda>theirs.
        bindR (vec_set theirs y e) (\<lambda>theirs.
        Inr (ci\<lparr>rdma_cache_indexes := (rdma_cache_indexes ci)[i := theirs]\<rparr>)))))) is ?c1 = Inr ci'" "ci_ok api n len m ci'"
      "\<forall>a < n. \<forall>j < len. rdma_cache_indexes ci' ! a ! j
        = (if a \<in> set is \<and> a \<noteq> m \<and> j = y then rdma_cache_indexes ?c1 ! m ! x else rdma_cache_indexes ?c1 ! a ! j)" by auto
    have "\<forall>a < n. \<forall>j < len. rdma_cache_indexes ci' ! a ! j
        = (if a \<in> set (i # is) \<and> a \<noteq> m \<and> j = y then rdma_cache_indexes ci ! m ! x else rdma_cache_indexes ci ! a ! j)"
      using c'(3) c False i Cons.prems(3) by (auto simp: nth_list_update)
    moreover have "me ci \<noteq> i" using False c(2) by simp
    ultimately show ?thesis using c' c i False Cons.prems(2,3) by (auto simp: c(2))
  qed
qed

text \<open>
  After a remote read returned the key \<open>key\<close> instead of \<open>expected_key\<close>, the
  repair copies this server's own entry of the expected key over the entries of the found key
  in every mirror; the mirrors' entries of the expected key, the stale ones that led to the
  wrong read, stay as they were.
\<close>

theorem update_local_key_effect:
  assumes "ci_ok api n len m ci" "unat expected_key < len" "unat key < len"
    and "key \<noteq> KEY_VALUE_PTR_INVALID api" "key \<noteq> expected_key"
  shows "\<exists>ci'. update_local_key api expected_key key ci = Inr ci'
    \<and> (\<forall>i < n. i \<noteq> m \<longrightarrow> rdma_cache_indexes ci' ! i ! unat key = rdma_cache_indexes ci ! m ! unat expected_key)
    \<and> (\<forall>i < n. rdma_cache_indexes ci' ! i ! unat expected_key = rdma_cache_indexes ci ! i ! unat expected_key)"
proof -
  have n: "servers ci = n" using assms(1) by (simp add: ci_ok_def)
  have ne: "unat expected_key \<noteq> unat key" using assms(5) by (metis word_unat_eq_iff)
  have is_sub: "set [0..<n] \<subseteq> {..<n}" by auto
  obtain ci' where "update_local_key api expected_key key ci = Inr ci'"
    and at: "\<forall>i < n. \<forall>j < len. rdma_cache_indexes ci' ! i ! j = (if i \<in> set [0..<n] \<and> i \<noteq> m \<and> j = unat key
      then rdma_cache_indexes ci ! m ! unat expected_key else rdma_cache_indexes ci ! i ! j)"
    using update_local_loop [OF assms(1-3) is_sub] assms(4) unfolding update_local_key_def n by auto
  then show ?thesis using assms(2,3) ne by auto
qed

theorem update_local_key_effect_witness:
  "\<exists>ci. update_local_key sample_api 2 3 sample_indexes = Inr ci
    \<and> rdma_cache_indexes ci ! 1 ! 3 = 64 \<and> rdma_cache_indexes ci ! 1 ! 2 = -1"
  using update_local_key_effect [OF sample_indexes_ok(1), of 2 3]
  by (auto simp: sample_indexes_ok sample_api_def)

end
