(* ===== verification/Coherence.thy ===== *)
theory Coherence
  imports Cache_Indexes
begin

text \<open>
  The cache indexes of all servers together, with the one-sided writes under way between them.
  A write is posted by \<open>write_remote\<close> or \<open>dealloc_remote\<close>; the network card reads the local
  entry at some later moment, and the remote memory changes later still. Writes on one queue
  pair take effect in the order they were posted, which is what a reliable connection promises;
  nothing is assumed about different queue pairs.
\<close>

section \<open>The cluster\<close>

record 'e cluster =
  node :: "nat \<Rightarrow> 'e cache_indexes"
  flight :: "nat \<Rightarrow> nat \<times> nat \<Rightarrow> (post \<times> 'e option) list"

definition elem_of :: "'e index_api \<Rightarrow> post \<Rightarrow> nat" where
  "elem_of api p = unat (remote_offset p) div unat (sizeof_index api)"

definition post_all :: "post list \<Rightarrow> (nat \<times> nat \<Rightarrow> (post \<times> 'e option) list) \<Rightarrow> nat \<times> nat \<Rightarrow> (post \<times> 'e option) list" where
  "post_all ps fl qp = fl qp @ map (\<lambda>p. (p, None)) (filter (\<lambda>p. post_qp p = qp) ps)"

definition set_entry :: "nat \<Rightarrow> nat \<Rightarrow> 'e \<Rightarrow> 'e cache_indexes \<Rightarrow> 'e cache_indexes" where
  "set_entry a k e ci = ci\<lparr>rdma_cache_indexes := (rdma_cache_indexes ci)[a := (rdma_cache_indexes ci ! a)[k := e]]\<rparr>"

definition entry :: "'e cluster \<Rightarrow> nat \<Rightarrow> nat \<Rightarrow> nat \<Rightarrow> 'e" where
  "entry C i a k = rdma_cache_indexes (node C i) ! a ! k"

text \<open>
  The steps: the cache of server \<open>m\<close> stores a key and pushes its entry, or evicts one; the
  card fetches the entry of a posted write; the first write of a queue pair is delivered; a
  server whose writes have all landed collects their tokens.
\<close>

inductive cluster_step :: "'e index_api \<Rightarrow> nat \<Rightarrow> nat \<Rightarrow> nat pick \<Rightarrow> 'e cluster \<Rightarrow> 'e cluster \<Rightarrow> bool"
  for api n len pick where
  put: "m < n \<Longrightarrow> k < len \<Longrightarrow> valid_entry api e
    \<Longrightarrow> write_remote api pick (to_string_nat k) (set_entry m k e (node C m)) = Inr (ps, ci)
    \<Longrightarrow> cluster_step api n len pick C
      (C\<lparr>node := (node C)(m := ci), flight := (flight C)(m := post_all ps (flight C m))\<rparr>)"
| evict: "m < n \<Longrightarrow> k < len
    \<Longrightarrow> dealloc_remote api pick (to_string_nat k) (node C m) = Inr (ps, ci)
    \<Longrightarrow> cluster_step api n len pick C
      (C\<lparr>node := (node C)(m := ci), flight := (flight C)(m := post_all ps (flight C m))\<rparr>)"
| fetch: "m < n \<Longrightarrow> flight C m qp = xs @ (p, None) # ys
    \<Longrightarrow> cluster_step api n len pick C
      (C\<lparr>flight := (flight C)(m := (flight C m)(qp := xs @ (p, Some (entry C m (post_buffer p) (elem_of api p))) # ys))\<rparr>)"
| deliver: "m < n \<Longrightarrow> flight C m qp = (p, Some e) # rest
    \<Longrightarrow> cluster_step api n len pick C
      (C\<lparr>node := (node C)(fst qp := set_entry (snd qp - CACHE_INDEXES_PORT) (elem_of api p) e (node C (fst qp))),
         flight := (flight C)(m := (flight C m)(qp := rest))\<rparr>)"
| collect: "m < n \<Longrightarrow> \<forall>qp. flight C m qp = []
    \<Longrightarrow> indexes_execute_pending pick Inr (node C m, ()) = Inr (ci, ())
    \<Longrightarrow> cluster_step api n len pick C (C\<lparr>node := (node C)(m := ci)\<rparr>)"

inductive_cases cluster_stepE: "cluster_step api n len pick C C'"

definition index_params :: "'e index_api \<Rightarrow> nat \<Rightarrow> nat \<Rightarrow> bool" where
  "index_params api n len \<longleftrightarrow> 1 < n \<and> len < 2 ^ 31 \<and> sizeof_index api \<noteq> 0
     \<and> len * unat (sizeof_index api) < 2 ^ 64
     \<and> \<not> valid_entry api (InvalidRDMACacheIndex api)"

definition initial_cluster :: "'e index_api \<Rightarrow> remote_machine list \<Rightarrow> nat \<Rightarrow> 'e cluster" where
  "initial_cluster api configs len =
     (let empty_index = replicate len (InvalidRDMACacheIndex api) in
      \<lparr>node = make_CacheIndexes api empty_index (\<lambda>_. empty_index) configs, flight = (\<lambda>_ _. [])\<rparr>)"

section \<open>The invariant\<close>

text \<open>The value of entry \<open>k\<close> of a mirror once the writes under way to it have landed.\<close>

definition settle :: "'e index_api \<Rightarrow> 'e \<Rightarrow> nat \<Rightarrow> (post \<times> 'e option) list \<Rightarrow> 'e \<Rightarrow> 'e" where
  "settle api own k fl v = fold (\<lambda>(p, d) v. if elem_of api p = k then (case d of None \<Rightarrow> own | Some e \<Rightarrow> e) else v) fl v"

lemma settle_simps [simp]:
  "settle api own k [] v = v"
  "settle api own k ((p, d) # fl) v
    = settle api own k fl (if elem_of api p = k then (case d of None \<Rightarrow> own | Some e \<Rightarrow> e) else v)"
  "settle api own k (fl @ fl') v = settle api own k fl' (settle api own k fl v)"
  by (simp_all add: settle_def)

definition flight_ok :: "'e index_api \<Rightarrow> nat \<Rightarrow> nat \<Rightarrow> nat \<Rightarrow> nat \<times> nat \<Rightarrow> post \<Rightarrow> bool" where
  "flight_ok api n len m qp p \<longleftrightarrow> (\<exists>i k. i < n \<and> i \<noteq> m \<and> k < len \<and> qp = (i, CACHE_INDEXES_PORT + m) \<and> push_to api m (int k) i p)"

definition cluster_inv :: "'e index_api \<Rightarrow> nat \<Rightarrow> nat \<Rightarrow> 'e cluster \<Rightarrow> bool" where
  "cluster_inv api n len C \<longleftrightarrow>
     (\<forall>m < n. ci_ok api n len m (node C m))
   \<and> (\<forall>m < n. \<forall>qp. \<forall>(p, d) \<in> set (flight C m qp). flight_ok api n len m qp p)
   \<and> (\<forall>m < n. \<forall>i < n. i \<noteq> m \<longrightarrow> (\<forall>k < len.
        settle api (entry C m m k) k (flight C m (i, CACHE_INDEXES_PORT + m)) (entry C i m k) = entry C m m k))"

lemma cluster_invD:
  assumes "cluster_inv api n len C" "m < n"
  shows "ci_ok api n len m (node C m)"
    and "(p, d) \<in> set (flight C m qp) \<Longrightarrow> flight_ok api n len m qp p"
    and "i < n \<Longrightarrow> i \<noteq> m \<Longrightarrow> k < len
      \<Longrightarrow> settle api (entry C m m k) k (flight C m (i, CACHE_INDEXES_PORT + m)) (entry C i m k) = entry C m m k"
  using assms unfolding cluster_inv_def by blast+

lemma cluster_invI:
  assumes "\<And>m. m < n \<Longrightarrow> ci_ok api n len m (node C m)"
    and "\<And>m qp p d. m < n \<Longrightarrow> (p, d) \<in> set (flight C m qp) \<Longrightarrow> flight_ok api n len m qp p"
    and "\<And>m i k. m < n \<Longrightarrow> i < n \<Longrightarrow> i \<noteq> m \<Longrightarrow> k < len
      \<Longrightarrow> settle api (entry C m m k) k (flight C m (i, CACHE_INDEXES_PORT + m)) (entry C i m k) = entry C m m k"
  shows "cluster_inv api n len C"
  using assms unfolding cluster_inv_def by blast

lemma elem_of_push:
  assumes "index_params api n len" "push_to api m (int k) i p" "k < len"
  shows "elem_of api p = k"
proof -
  let ?s = "unat (sizeof_index api)"
  have s: "0 < ?s" using assms(1) by (simp add: index_params_def unat_gt_0)
  have "k * ?s < 2 ^ 64"
    using assms(1,3) by (meson index_params_def le_less_trans less_imp_le_nat mult_le_mono1)
  moreover have "unat (of_nat k :: u64) = k" using assms(1,3) by (simp add: index_params_def)
  ultimately have "unat (of_nat k * sizeof_index api) = k * ?s" by (simp add: unat_mult_lem [THEN iffD1])
  with assms(2) s show ?thesis by (simp add: elem_of_def push_to_def)
qed

lemma set_entry_frame [simp]:
  "me (set_entry a k e ci) = me ci" "servers (set_entry a k e ci) = servers ci"
  "ci_rdma (set_entry a k e ci) = ci_rdma ci" "pending_write_queue (set_entry a k e ci) = pending_write_queue ci"
  "ci_tokens (set_entry a k e ci) = ci_tokens ci"
  by (simp_all add: set_entry_def ci_tokens_def)

lemma ci_ok_set_entry: "ci_ok api n len m ci \<Longrightarrow> ci_ok api n len m (set_entry a k e ci)"
  by (cases "a < length (rdma_cache_indexes ci)") (auto simp: ci_ok_def nth_list_update set_entry_def)

lemma set_entry_at:
  assumes "ci_ok api n len m ci" "a < n" "k < len" "b < n" "j < len"
  shows "rdma_cache_indexes (set_entry a k e ci) ! b ! j = (if a = b \<and> k = j then e else rdma_cache_indexes ci ! b ! j)"
  using assms by (auto simp: set_entry_def ci_ok_def nth_list_update)

lemma cluster_inv_initial:
  assumes "index_params api n len" "length (filter rm_server configs) = n"
  shows "cluster_inv api n len (initial_cluster api configs len)"
proof -
  let ?e = "replicate len (InvalidRDMACacheIndex api)"
  have ok: "ci_ok api n len m (make_CacheIndexes api ?e (\<lambda>_. ?e) configs m)"
    and arr: "rdma_cache_indexes (make_CacheIndexes api ?e (\<lambda>_. ?e) configs m) = (map (\<lambda>_. ?e) [0..<n])[m := ?e]"
    if "m < n" for m
    using make_CacheIndexes_ok [of m configs ?e len "\<lambda>_. ?e" api] assms(2) that by simp_all
  then show ?thesis by (auto simp: cluster_inv_def initial_cluster_def Let_def entry_def nth_list_update)
qed

section \<open>Preservation\<close>

lemma filter_push_none:
  "list_all2 (push_to api m k) is ps \<Longrightarrow> (\<forall>i \<in> set is. qp \<noteq> (i, CACHE_INDEXES_PORT + m))
    \<Longrightarrow> filter (\<lambda>p. post_qp p = qp) ps = []"
  by (induction rule: list_all2_induct) (auto simp: push_to_def)

lemma filter_push_one:
  "list_all2 (push_to api m k) is ps \<Longrightarrow> distinct is \<Longrightarrow> i \<in> set is
    \<Longrightarrow> \<exists>p. filter (\<lambda>p. post_qp p = (i, CACHE_INDEXES_PORT + m)) ps = [p] \<and> push_to api m k i p"
proof (induction rule: list_all2_induct)
  case Nil
  then show ?case by simp
next
  case (Cons j js p ps)
  show ?case
  proof (cases "j = i")
    case True
    with Cons have "filter (\<lambda>p. post_qp p = (i, CACHE_INDEXES_PORT + m)) ps = []"
      by (intro filter_push_none [OF Cons(2)]) auto
    with True Cons(1) show ?thesis by (simp add: push_to_def)
  next
    case False
    then have "post_qp p \<noteq> (i, CACHE_INDEXES_PORT + m)" using Cons(1) by (simp add: push_to_def)
    with Cons False show ?thesis by simp
  qed
qed

lemma others_upt: "distinct (others m [0..<n])" "i \<in> set (others m [0..<n]) \<longleftrightarrow> i < n \<and> i \<noteq> m"
  by (auto simp: others_def)

text \<open>A server that changes entry \<open>k\<close> of its own array to \<open>e\<close> and pushes it keeps the invariant.\<close>

lemma push_preserves:
  assumes inv: "cluster_inv api n len C" and par: "index_params api n len" and m: "m < n" and k: "k < len"
    and push: "pushed api n len m (int k) (rdma_cache_indexes (set_entry m k e (node C m))) (set_entry m k e (node C m)) ps ci"
  shows "cluster_inv api n len (C\<lparr>node := (node C)(m := ci), flight := (flight C)(m := post_all ps (flight C m))\<rparr>)"
    (is "cluster_inv api n len ?C")
proof -
  have okm: "ci_ok api n len i (node C i)" if "i < n" for i using cluster_invD(1) [OF inv that] .
  have la: "list_all2 (push_to api m (int k)) (others m [0..<n]) ps" and ok: "ci_ok api n len m ci"
    and arr: "rdma_cache_indexes ci = rdma_cache_indexes (set_entry m k e (node C m))"
    using push by (simp_all add: pushed_def)
  have ent: "entry ?C i a j = (if i = m \<and> a = m \<and> j = k then e else entry C i a j)" if "i < n" "a < n" "j < len" for i a j
    using set_entry_at [OF okm [OF m] m k] arr that by (auto simp: entry_def)
  have one: "\<exists>p. flight ?C m (i, CACHE_INDEXES_PORT + m) = flight C m (i, CACHE_INDEXES_PORT + m) @ [(p, None)]
      \<and> push_to api m (int k) i p" if "i < n" "i \<noteq> m" for i
    using filter_push_one [OF la others_upt(1), of i] that by (auto simp: post_all_def others_upt(2))
  have none: "flight ?C m qp = flight C m qp" if "\<forall>i < n. i \<noteq> m \<longrightarrow> qp \<noteq> (i, CACHE_INDEXES_PORT + m)" for qp
    using filter_push_none [OF la, of qp] that by (simp add: post_all_def others_upt(2))
  have fl: "flight_ok api n len i qp p" if "i < n" "(p, d) \<in> set (flight ?C i qp)" for i qp p d
  proof (cases "i = m")
    case False
    with cluster_invD(2) [OF inv that(1), of p d qp] that(2) show ?thesis by simp
  next
    case True
    show ?thesis
    proof (cases "\<forall>i < n. i \<noteq> m \<longrightarrow> qp \<noteq> (i, CACHE_INDEXES_PORT + m)")
      case all: True
      have "(p, d) \<in> set (flight C m qp)" using that(2) none [OF all] unfolding True by (simp only:)
      then show ?thesis using cluster_invD(2) [OF inv m] unfolding True by blast
    next
      case False
      then obtain j where j: "j < n" "j \<noteq> m" "qp = (j, CACHE_INDEXES_PORT + m)" by blast
      obtain p1 where p1: "flight ?C m qp = flight C m qp @ [(p1, None)]" "push_to api m (int k) j p1"
        using one [OF j(1,2)] unfolding j(3) by blast
      have "(p, d) \<in> set (flight C m qp) \<or> p = p1" using that(2) unfolding True p1(1) by auto
      moreover have "flight_ok api n len m qp p1" using j k p1(2) unfolding flight_ok_def by blast
      ultimately show ?thesis using cluster_invD(2) [OF inv m] unfolding True by blast
    qed
  qed
  have st: "settle api (entry ?C a a j) j (flight ?C a (i, CACHE_INDEXES_PORT + a)) (entry ?C i a j) = entry ?C a a j"
    if a: "a < n" "i < n" "i \<noteq> a" "j < len" for a i j
  proof -
    have old: "settle api (entry C a a j) j (flight C a (i, CACHE_INDEXES_PORT + a)) (entry C i a j) = entry C a a j"
      using cluster_invD(3) [OF inv a] .
    show ?thesis
    proof (cases "a = m")
      case False
      with ent a old show ?thesis by simp
    next
      case True
      from one [of i] a True obtain p where p: "flight ?C m (i, CACHE_INDEXES_PORT + m) = flight C m (i, CACHE_INDEXES_PORT + m) @ [(p, None)]"
        "push_to api m (int k) i p" by blast
      have el: "elem_of api p = k" by (rule elem_of_push [OF par p(2) k])
      have ei: "entry ?C i m j = entry C i m j" using ent a True m by simp
      show ?thesis
      proof (cases "j = k")
        case eq: True
        show ?thesis unfolding True p(1) by (simp add: el eq)
      next
        case ne: False
        then have "entry ?C m m j = entry C m m j" using ent m a by simp
        then show ?thesis using old ei el ne unfolding True p(1) by simp
      qed
    qed
  qed
  have "ci_ok api n len i (node ?C i)" if "i < n" for i using ok okm that by simp
  from this fl st show ?thesis by (rule cluster_invI)
qed

lemma key_text: "index_params api n len \<Longrightarrow> k < len \<Longrightarrow> stoi (to_string_nat k) = Inr (int k)"
  by (simp add: stoi_to_string index_params_def)

lemma put_preserves:
  assumes inv: "cluster_inv api n len C" and par: "index_params api n len" and m: "m < n" and k: "k < len"
    and e: "valid_entry api e"
    and w: "write_remote api pick (to_string_nat k) (set_entry m k e (node C m)) = Inr (ps, ci)"
  shows "cluster_inv api n len (C\<lparr>node := (node C)(m := ci), flight := (flight C)(m := post_all ps (flight C m))\<rparr>)"
proof (rule push_preserves [OF inv par m k])
  have ok: "ci_ok api n len m (node C m)" by (rule cluster_invD(1) [OF inv m])
  have v: "valid_entry api (rdma_cache_indexes (set_entry m k e (node C m)) ! m ! k)"
    using set_entry_at [OF ok m k m k] e by simp
  have "1 < n" using par by (simp add: index_params_def)
  from write_remote_cases [OF ci_ok_set_entry [OF ok] key_text [OF par k] k this v, of pick] w
  show "pushed api n len m (int k) (rdma_cache_indexes (set_entry m k e (node C m))) (set_entry m k e (node C m)) ps ci"
    by (auto split: if_splits)
qed

lemma evict_preserves:
  assumes inv: "cluster_inv api n len C" and par: "index_params api n len" and m: "m < n" and k: "k < len"
    and w: "dealloc_remote api pick (to_string_nat k) (node C m) = Inr (ps, ci)"
  shows "cluster_inv api n len (C\<lparr>node := (node C)(m := ci), flight := (flight C)(m := post_all ps (flight C m))\<rparr>)"
proof (rule push_preserves [OF inv par m k])
  have ok: "ci_ok api n len m (node C m)" by (rule cluster_invD(1) [OF inv m])
  have "1 < n" using par by (simp add: index_params_def)
  from dealloc_remote_cases [OF ok key_text [OF par k] k this, of pick] w
  have "pushed api n len m (int k) (rdma_cache_indexes (set_entry m k (InvalidRDMACacheIndex api) (node C m))) (node C m) ps ci"
    by (auto simp: set_entry_def split: if_splits)
  then show "pushed api n len m (int k) (rdma_cache_indexes (set_entry m k (InvalidRDMACacheIndex api) (node C m)))
      (set_entry m k (InvalidRDMACacheIndex api) (node C m)) ps ci" by (simp add: pushed_def)
qed

lemma flight_elem:
  assumes "cluster_inv api n len C" "index_params api n len" "m < n" "(p, d) \<in> set (flight C m qp)"
  shows "\<exists>i k. i < n \<and> i \<noteq> m \<and> k < len \<and> qp = (i, CACHE_INDEXES_PORT + m) \<and> post_buffer p = m \<and> elem_of api p = k"
  using cluster_invD(2) [OF assms(1,3,4)] elem_of_push [OF assms(2)] unfolding flight_ok_def push_to_def by blast

lemma fetch_preserves:
  assumes inv: "cluster_inv api n len C" and par: "index_params api n len" and m: "m < n"
    and f: "flight C m qp = xs @ (p, None) # ys"
  shows "cluster_inv api n len
    (C\<lparr>flight := (flight C)(m := (flight C m)(qp := xs @ (p, Some (entry C m (post_buffer p) (elem_of api p))) # ys))\<rparr>)"
    (is "cluster_inv api n len ?C")
proof -
  obtain j k where jk: "j < n" "j \<noteq> m" "k < len" "qp = (j, CACHE_INDEXES_PORT + m)" "post_buffer p = m" "elem_of api p = k"
    using flight_elem [OF inv par m, of p None qp] f by auto
  have ent: "entry ?C i a l = entry C i a l" for i a l by (simp add: entry_def)
  have fl: "flight_ok api n len i q r" if "i < n" "(r, d) \<in> set (flight ?C i q)" for i q r d
  proof (cases "i = m \<and> q = qp")
    case True
    with that f have "\<exists>d. (r, d) \<in> set (flight C m qp)" by auto
    then show ?thesis using cluster_invD(2) [OF inv m] True by blast
  next
    case False
    with that(2) have "(r, d) \<in> set (flight C i q)" by (auto split: if_splits)
    then show ?thesis using cluster_invD(2) [OF inv that(1)] by blast
  qed
  have st: "settle api (entry ?C a a l) l (flight ?C a (i, CACHE_INDEXES_PORT + a)) (entry ?C i a l) = entry ?C a a l"
    if a: "a < n" "i < n" "i \<noteq> a" "l < len" for a i l
    using cluster_invD(3) [OF inv a] f jk unfolding ent by (auto split: if_splits)
  have ok: "ci_ok api n len i (node ?C i)" if "i < n" for i using cluster_invD(1) [OF inv that] by simp
  from ok fl st show ?thesis by (rule cluster_invI)
qed

lemma deliver_preserves:
  assumes inv: "cluster_inv api n len C" and par: "index_params api n len" and m: "m < n"
    and f: "flight C m qp = (p, Some e) # rest"
  shows "cluster_inv api n len
    (C\<lparr>node := (node C)(fst qp := set_entry (snd qp - CACHE_INDEXES_PORT) (elem_of api p) e (node C (fst qp))),
       flight := (flight C)(m := (flight C m)(qp := rest))\<rparr>)"
    (is "cluster_inv api n len ?C")
proof -
  obtain j k where jk: "j < n" "j \<noteq> m" "k < len" "qp = (j, CACHE_INDEXES_PORT + m)" "elem_of api p = k"
    using flight_elem [OF inv par m, of p "Some e" qp] f by auto
  have node: "node ?C = (node C)(j := set_entry m k e (node C j))" using jk by simp
  have ent: "entry ?C i a l = (if i = j \<and> a = m \<and> l = k then e else entry C i a l)" if "i < n" "a < n" "l < len" for i a l
    using set_entry_at [OF cluster_invD(1) [OF inv jk(1)] m jk(3)] that unfolding entry_def node by auto
  have fl: "flight_ok api n len i q r" if "i < n" "(r, d) \<in> set (flight ?C i q)" for i q r d
  proof -
    have "(r, d) \<in> set (flight C i q)" using that(2) f by (auto split: if_splits)
    then show ?thesis using cluster_invD(2) [OF inv that(1)] by blast
  qed
  have st: "settle api (entry ?C a a l) l (flight ?C a (i, CACHE_INDEXES_PORT + a)) (entry ?C i a l) = entry ?C a a l"
    if a: "a < n" "i < n" "i \<noteq> a" "l < len" for a i l
  proof -
    have own: "entry ?C a a l = entry C a a l" using ent [of a a l] a jk(2) by auto
    show ?thesis using cluster_invD(3) [OF inv a] f jk ent [of i a l] a unfolding own by (auto split: if_splits)
  qed
  have ok: "ci_ok api n len i (node ?C i)" if "i < n" for i
    using cluster_invD(1) [OF inv that] ci_ok_set_entry unfolding node by auto
  from ok fl st show ?thesis by (rule cluster_invI)
qed

lemma drain_tokens_ok:
  "drain_writes pick Inr q (d, st) = Inr (d', st') \<Longrightarrow>
     st' = st \<and> connect_qps d' = connect_qps d \<and> server_configs d' = server_configs d \<and> machine_index d' = machine_index d
     \<and> mset (free_request_token_queue d') = mset (free_request_token_queue d) + mset q"
proof -
  have "foldR (\<lambda>t (d, st). bindR (Inr st) (\<lambda>st. Inr (free_request_token t d, st))) ts (d, st)
      = Inr (d\<lparr>free_request_token_queue := free_request_token_queue d @ ts\<rparr>, st)" for ts and d :: rdma_data and st :: 'a
    by (induction ts arbitrary: d) (simp_all add: free_request_token_def enqueue_def)
  moreover assume "drain_writes pick Inr q (d, st) = Inr (d', st')"
  ultimately show ?thesis by (auto simp: drain_writes_def drainR_eq_foldR mset_drain_order)
qed

lemma collect_preserves:
  assumes inv: "cluster_inv api n len C" and m: "m < n"
    and c: "indexes_execute_pending pick Inr (node C m, ()) = Inr (ci, ())"
  shows "cluster_inv api n len (C\<lparr>node := (node C)(m := ci)\<rparr>)"
proof -
  from c obtain d where d: "ci = (node C m)\<lparr>ci_rdma := d, pending_write_queue := []\<rparr>"
    "drain_writes pick Inr (pending_write_queue (node C m)) (ci_rdma (node C m), ()) = Inr (d, ())"
    by (auto simp: indexes_execute_pending_def mapR_Inr_iff)
  have ok: "ci_ok api n len m ci"
    using cluster_invD(1) [OF inv m] drain_tokens_ok [OF d(2)] by (simp add: d(1) ci_ok_def)
  have ent: "entry (C\<lparr>node := (node C)(m := ci)\<rparr>) i a l = entry C i a l" for i a l by (simp add: entry_def d(1))
  show ?thesis using inv ok unfolding cluster_inv_def ent by auto
qed

lemma step_preserves:
  assumes "cluster_step api n len pick C C'" "cluster_inv api n len C" "index_params api n len"
  shows "cluster_inv api n len C'"
  using assms by (cases rule: cluster_step.cases)
    (simp_all only: put_preserves evict_preserves fetch_preserves deliver_preserves collect_preserves)

lemma reachable_inv:
  assumes "(cluster_step api n len pick)\<^sup>*\<^sup>* (initial_cluster api configs len) C"
    and "index_params api n len" "length (filter rm_server configs) = n"
  shows "cluster_inv api n len C"
  using assms by (induction rule: rtranclp_induct) (auto intro: cluster_inv_initial step_preserves)

section \<open>Letting the writes land\<close>

abbreviation steps :: "'e index_api \<Rightarrow> nat \<Rightarrow> nat \<Rightarrow> nat pick \<Rightarrow> 'e cluster \<Rightarrow> 'e cluster \<Rightarrow> bool" where
  "steps api n len pick \<equiv> (cluster_step api n len pick)\<^sup>*\<^sup>*"

definition same_own :: "nat \<Rightarrow> nat \<Rightarrow> 'e cluster \<Rightarrow> 'e cluster \<Rightarrow> bool" where
  "same_own n len C C' \<longleftrightarrow> (\<forall>a < n. \<forall>k < len. entry C' a a k = entry C a a k)"

lemma same_own_trans: "same_own n len A B \<Longrightarrow> same_own n len B C \<Longrightarrow> same_own n len A C"
  by (simp add: same_own_def)

lemma land_first:
  assumes inv: "cluster_inv api n len C" and par: "index_params api n len" and m: "m < n"
    and f: "flight C m qp = (p, Some e) # rest"
  shows "\<exists>C'. cluster_step api n len pick C C' \<and> flight C' = (flight C)(m := (flight C m)(qp := rest)) \<and> same_own n len C C'"
proof -
  let ?C = "C\<lparr>node := (node C)(fst qp := set_entry (snd qp - CACHE_INDEXES_PORT) (elem_of api p) e (node C (fst qp))),
       flight := (flight C)(m := (flight C m)(qp := rest))\<rparr>"
  obtain j k where jk: "j < n" "j \<noteq> m" "k < len" "qp = (j, CACHE_INDEXES_PORT + m)" "elem_of api p = k"
    using flight_elem [OF inv par m, of p "Some e" qp] f by auto
  have "same_own n len C ?C"
    using jk m set_entry_at [OF cluster_invD(1) [OF inv jk(1)] m jk(3)] by (auto simp: same_own_def entry_def)
  moreover have "cluster_step api n len pick C ?C" by (rule cluster_step.deliver) (use m f in simp_all)
  ultimately show ?thesis by (intro exI conjI) simp_all
qed

lemma land_head:
  assumes inv: "cluster_inv api n len C" and par: "index_params api n len" and m: "m < n"
    and f: "flight C m qp = (p, d) # rest"
  shows "\<exists>C'. steps api n len pick C C' \<and> flight C' = (flight C)(m := (flight C m)(qp := rest)) \<and> same_own n len C C'"
proof (cases d)
  case (Some e)
  with land_first [OF inv par m, of qp p e rest pick] f show ?thesis by blast
next
  case None
  let ?e = "entry C m (post_buffer p) (elem_of api p)"
  let ?C = "C\<lparr>flight := (flight C)(m := (flight C m)(qp := [] @ (p, Some ?e) # rest))\<rparr>"
  have f': "flight C m qp = [] @ (p, None) # rest" using f None by simp
  have s: "cluster_step api n len pick C ?C" by (rule cluster_step.fetch [OF m f'])
  have i: "cluster_inv api n len ?C" by (rule fetch_preserves [OF inv par m f'])
  have "flight ?C m qp = (p, Some ?e) # rest" by simp
  from land_first [OF i par m this, of pick] obtain C' where
    c: "cluster_step api n len pick ?C C'" "flight C' = (flight ?C)(m := (flight ?C m)(qp := rest))" "same_own n len ?C C'"
    by blast
  have "same_own n len C C'" using c(3) by (simp add: same_own_def entry_def)
  moreover have "steps api n len pick C C'" using s c(1) by (meson converse_rtranclp_into_rtranclp r_into_rtranclp)
  moreover have "flight C' = (flight C)(m := (flight C m)(qp := rest))" using c(2) by simp
  ultimately show ?thesis by blast
qed

lemma steps_preserve:
  "steps api n len pick C C' \<Longrightarrow> cluster_inv api n len C \<Longrightarrow> index_params api n len \<Longrightarrow> cluster_inv api n len C'"
  by (induction rule: rtranclp_induct) (auto intro: step_preserves)

lemma land_all:
  assumes "cluster_inv api n len C" "index_params api n len" "m < n"
  shows "\<exists>C'. steps api n len pick C C' \<and> flight C' = (flight C)(m := (flight C m)(qp := [])) \<and> same_own n len C C'"
  using assms
proof (induction "flight C m qp" arbitrary: C)
  case Nil
  then have "flight C = (flight C)(m := (flight C m)(qp := []))" by (simp add: fun_eq_iff)
  moreover have "same_own n len C C" by (simp add: same_own_def)
  ultimately show ?case by blast
next
  case (Cons x rest)
  obtain p d where "flight C m qp = (p, d) # rest" using Cons.hyps(2) [symmetric] by (cases x) blast
  from land_head [OF Cons.prems this, of pick] obtain C1 where
    c1: "steps api n len pick C C1" "flight C1 = (flight C)(m := (flight C m)(qp := rest))" "same_own n len C C1" by blast
  have "cluster_inv api n len C1" by (rule steps_preserve [OF c1(1) Cons.prems(1,2)])
  from Cons.hyps(1) [OF _ this Cons.prems(2,3)] c1(2) obtain C' where
    c': "steps api n len pick C1 C'" "flight C' = (flight C1)(m := (flight C1 m)(qp := []))" "same_own n len C1 C'" by auto
  have "flight C' = (flight C)(m := (flight C m)(qp := []))" using c1(2) c'(2) by (simp add: fun_eq_iff)
  with c1 c' same_own_trans show ?case by (meson rtranclp_trans)
qed

lemma land_every:
  assumes "cluster_inv api n len C" "index_params api n len" "\<forall>(m, qp) \<in> set pairs. m < n"
  shows "\<exists>C'. steps api n len pick C C' \<and> same_own n len C C'
    \<and> (\<forall>m qp. flight C' m qp = (if (m, qp) \<in> set pairs then [] else flight C m qp))"
  using assms
proof (induction pairs arbitrary: C)
  case Nil
  then show ?case by (intro exI [of _ C]) (simp add: same_own_def)
next
  case (Cons x pairs)
  obtain m qp where x: "x = (m, qp)" by (cases x)
  with Cons.prems(3) have m: "m < n" by simp
  from land_all [OF Cons.prems(1,2) m, of pick qp] obtain C1 where
    c1: "steps api n len pick C C1" "flight C1 = (flight C)(m := (flight C m)(qp := []))" "same_own n len C C1" by blast
  have "cluster_inv api n len C1" by (rule steps_preserve [OF c1(1) Cons.prems(1,2)])
  from Cons.IH [OF this Cons.prems(2)] Cons.prems(3) obtain C' where
    c': "steps api n len pick C1 C'" "same_own n len C1 C'"
      "\<forall>m qp. flight C' m qp = (if (m, qp) \<in> set pairs then [] else flight C1 m qp)" by auto
  have "\<forall>a q. flight C' a q = (if (a, q) \<in> set (x # pairs) then [] else flight C a q)"
    using c'(3) c1(2) x by auto
  with c1 c' same_own_trans show ?case by (meson rtranclp_trans)
qed

definition quiescent :: "nat \<Rightarrow> 'e cluster \<Rightarrow> bool" where
  "quiescent n C \<longleftrightarrow> (\<forall>m < n. \<forall>qp. flight C m qp = [])"

definition coherent :: "nat \<Rightarrow> nat \<Rightarrow> 'e cluster \<Rightarrow> bool" where
  "coherent n len C \<longleftrightarrow> (\<forall>m < n. \<forall>i < n. \<forall>k < len. entry C i m k = entry C m m k)"

lemma quiescent_coherent:
  assumes "cluster_inv api n len C" "quiescent n C"
  shows "coherent n len C"
  unfolding coherent_def
proof (intro allI impI)
  fix m i k
  assume a: "m < n" "i < n" "k < len"
  show "entry C i m k = entry C m m k"
    using cluster_invD(3) [OF assms(1), of m i k] assms(2) a by (cases "i = m") (simp_all add: quiescent_def)
qed

lemma can_settle:
  assumes "cluster_inv api n len C" "index_params api n len"
  shows "\<exists>C'. steps api n len pick C C' \<and> quiescent n C' \<and> same_own n len C C'"
proof -
  let ?pairs = "[(m, (i, CACHE_INDEXES_PORT + m)). m \<leftarrow> [0..<n], i \<leftarrow> [0..<n]]"
  obtain C' where c: "steps api n len pick C C'" "same_own n len C C'"
    "\<forall>m qp. flight C' m qp = (if (m, qp) \<in> set ?pairs then [] else flight C m qp)"
    using land_every [OF assms, of ?pairs pick] by auto
  have "flight C' m qp = []" if "m < n" for m qp
  proof (cases "(m, qp) \<in> set ?pairs")
    case False
    have "flight C m qp = []"
    proof (rule ccontr)
      assume "flight C m qp \<noteq> []"
      then obtain p d where "(p, d) \<in> set (flight C m qp)" by (cases "flight C m qp") auto
      from flight_elem [OF assms that this] obtain i where "i < n" "qp = (i, CACHE_INDEXES_PORT + m)" by blast
      with that have "(m, qp) \<in> set ?pairs" by (simp add: image_iff)
      with False show False by simp
    qed
    moreover have "flight C' m qp = (if (m, qp) \<in> set ?pairs then [] else flight C m qp)" using c(3) by blast
    ultimately show ?thesis using False by (simp only: if_False)
  next
    case True
    moreover have "flight C' m qp = (if (m, qp) \<in> set ?pairs then [] else flight C m qp)" using c(3) by blast
    ultimately show ?thesis by (simp only: if_True)
  qed
  then have "quiescent n C'" by (simp add: quiescent_def)
  with c show ?thesis by blast
qed

section \<open>A sample run\<close>

lemma sample_params_ok: "index_params sample_api 2 4"
  by (simp add: index_params_def sample_api_def valid_entry_def)

lemma two_servers_two: "length (filter rm_server two_servers) = 2"
  by (simp add: two_servers_def)

lemma sample_put:
  "\<exists>D. (cluster_step sample_api 2 4 (\<lambda>_. 0))\<^sup>*\<^sup>* (initial_cluster sample_api two_servers 4) D \<and> entry D 0 0 2 = 64"
proof -
  let ?C = "initial_cluster sample_api two_servers 4"
  note par = sample_params_ok and two = two_servers_two
  have ok: "ci_ok sample_api 2 4 0 (node ?C 0)" using cluster_invD(1) [OF cluster_inv_initial [OF par two]] by simp
  note at = set_entry_at [OF ok, of 0 2 0 2 64]
  have v: "valid_entry sample_api (rdma_cache_indexes (set_entry 0 2 64 (node ?C 0)) ! 0 ! 2)"
    using at by (simp add: valid_entry_def sample_api_def)
  have t: "free_request_token_queue (ci_rdma (set_entry 0 2 64 (node ?C 0))) = [0..<FreeRequestTokenQueueSize]"
    using make_CacheIndexes_ok(3) [of 0 two_servers "replicate 4 (InvalidRDMACacheIndex sample_api)" 4
      "\<lambda>_. replicate 4 (InvalidRDMACacheIndex sample_api)" sample_api] two by (simp add: initial_cluster_def Let_def)
  from write_remote_cases [OF ci_ok_set_entry [OF ok] key_text [OF par] _ _ v, of "\<lambda>_. 0"] t
  obtain ps ci where w: "write_remote sample_api (\<lambda>_. 0) (to_string_nat 2) (set_entry 0 2 64 (node ?C 0)) = Inr (ps, ci)"
    "rdma_cache_indexes ci = rdma_cache_indexes (set_entry 0 2 64 (node ?C 0))"
    by (auto simp: pushed_def FreeRequestTokenQueueSize_def)
  let ?D = "?C\<lparr>node := (node ?C)(0 := ci), flight := (flight ?C)(0 := post_all ps (flight ?C 0))\<rparr>"
  have "cluster_step sample_api 2 4 (\<lambda>_. 0) ?C ?D"
    by (rule cluster_step.put [OF _ _ _ w(1)]) (simp_all add: valid_entry_def sample_api_def)
  then have "(cluster_step sample_api 2 4 (\<lambda>_. 0))\<^sup>*\<^sup>* ?C ?D" by (rule r_into_rtranclp)
  moreover have "entry ?D 0 0 2 = 64" using w(2) at by (simp add: entry_def)
  ultimately show ?thesis by blast
qed

section \<open>Properties\<close>

text \<open>
  Property C1: whenever no write is under way, after any interleaving of stores, evictions,
  fetches, deliveries and collections, every server's mirror of every other server's cache
  index is exact.
\<close>

theorem cluster_coherent:
  assumes "(cluster_step api n len pick)\<^sup>*\<^sup>* (initial_cluster api configs len) C"
    and "index_params api n len" "length (filter rm_server configs) = n" "quiescent n C"
  shows "coherent n len C"
  by (rule quiescent_coherent [OF reachable_inv [OF assms(1-3)] assms(4)])

theorem cluster_coherent_witness:
  "\<exists>C. (cluster_step sample_api 2 4 (\<lambda>_. 0))\<^sup>*\<^sup>* (initial_cluster sample_api two_servers 4) C
     \<and> entry C 0 0 2 = 64 \<and> entry C 1 0 2 = 64 \<and> coherent 2 4 C"
proof -
  let ?C = "initial_cluster sample_api two_servers 4"
  obtain D where D: "(cluster_step sample_api 2 4 (\<lambda>_. 0))\<^sup>*\<^sup>* ?C D" "entry D 0 0 2 = 64" using sample_put by blast
  obtain E where E: "(cluster_step sample_api 2 4 (\<lambda>_. 0))\<^sup>*\<^sup>* D E" "quiescent 2 E" "same_own 2 4 D E"
    using can_settle [OF reachable_inv [OF D(1) sample_params_ok two_servers_two] sample_params_ok] by blast
  have r: "(cluster_step sample_api 2 4 (\<lambda>_. 0))\<^sup>*\<^sup>* ?C E" by (rule rtranclp_trans [OF D(1) E(1)])
  have c: "coherent 2 4 E" by (rule cluster_coherent [OF r sample_params_ok two_servers_two E(2)])
  have "entry E 0 0 2 = 64" using E(3) D(2) by (simp add: same_own_def)
  moreover have "entry E 1 0 2 = entry E 0 0 2" by (rule c [unfolded coherent_def, rule_format]) simp_all
  ultimately show ?thesis using r c by metis
qed

text \<open>
  Property C2: from every reachable state the network alone can bring the mirrors up to date:
  a run exists that lands all writes and changes no server's own index, and then every mirror
  equals the index the servers had at the start of the run.
\<close>

theorem cluster_settles:
  assumes "(cluster_step api n len pick)\<^sup>*\<^sup>* (initial_cluster api configs len) C"
    and "index_params api n len" "length (filter rm_server configs) = n"
  shows "\<exists>C'. (cluster_step api n len pick)\<^sup>*\<^sup>* C C' \<and> quiescent n C'
    \<and> (\<forall>m < n. \<forall>i < n. \<forall>k < len. entry C' i m k = entry C m m k)"
proof -
  note inv = reachable_inv [OF assms]
  obtain C' where c: "steps api n len pick C C'" "quiescent n C'" "same_own n len C C'"
    using can_settle [OF inv assms(2)] by blast
  have "coherent n len C'" by (rule quiescent_coherent [OF steps_preserve [OF c(1) inv assms(2)] c(2)])
  then have "\<forall>m < n. \<forall>i < n. \<forall>k < len. entry C' i m k = entry C m m k"
    using c(3) unfolding coherent_def same_own_def by metis
  with c show ?thesis by blast
qed

theorem cluster_settles_witness:
  "\<exists>C C'. entry C 0 0 2 = 64 \<and> (cluster_step sample_api 2 4 (\<lambda>_. 0))\<^sup>*\<^sup>* C C' \<and> entry C' 1 0 2 = 64"
proof -
  obtain D where D: "(cluster_step sample_api 2 4 (\<lambda>_. 0))\<^sup>*\<^sup>* (initial_cluster sample_api two_servers 4) D" "entry D 0 0 2 = 64"
    using sample_put by blast
  from cluster_settles [OF D(1) sample_params_ok two_servers_two] obtain C' where
    "(cluster_step sample_api 2 4 (\<lambda>_. 0))\<^sup>*\<^sup>* D C'" "entry C' 1 0 2 = entry D 0 0 2" by fastforce
  with D(2) show ?thesis by metis
qed

end
