(* ===== verification/Cache_Logs.thy ===== *)
theory Cache_Logs
  imports Cache_Indexes Config
begin

text \<open>
  The batched alternative to pushing every change of the cache index (\<open>CacheIndexLogs\<close> of
  \<open>src/src/ldc.h\<close>): a server collects its changes in a ring of log entries, ships the whole
  ring to the other servers each time the ring wraps, and a background worker applies the
  rings that arrived to the mirrors.
\<close>

section \<open>State and operations\<close>

record 'e log_entry =
  le_key :: u64
  le_index :: 'e
  le_filled :: bool

record 'e machine_log =
  ml_entries :: "'e log_entry list"
  ml_index :: u64

record 'e cache_logs =
  cl_rdma :: rdma_data
  max_cache_log_index :: u64
  cache_index_log_entries_size :: u64
  machine_cache_index_logs :: "'e machine_log list"
  cl_pending_write_queue :: "nat mpmc"

definition CACHE_INDEX_LOG_PORT :: nat where "CACHE_INDEX_LOG_PORT = 50100"

definition default_log_entry :: "'e index_api \<Rightarrow> 'e log_entry" where
  "default_log_entry api = \<lparr>le_key = -1, le_index = InvalidRDMACacheIndex api, le_filled = False\<rparr>"

definition make_CacheIndexLogs ::
    "'e index_api \<Rightarrow> u64 \<Rightarrow> remote_machine list \<Rightarrow> configuration \<Rightarrow> nat \<Rightarrow> 'e cache_logs res" where
  "make_CacheIndexLogs api sizeof_entry configs config m =
     (let d = make_RDMAData configs m; n = length (server_configs d);
          cl = \<lparr>cl_rdma = d, max_cache_log_index = 0, cache_index_log_entries_size = 0,
                machine_cache_index_logs = [], cl_pending_write_queue = []\<rparr> in
      if \<not> use_cache_logs config then Inr cl
      else if cache_log_sync_every_x_operations config < -1 then Inl (Throw ''length_error'')
      else
        let max = of_int (cache_log_sync_every_x_operations config);
            entries = replicate (unat (max + 1)) (default_log_entry api);
            sz = of_nat (length entries) * sizeof_entry in
        Inr (fold (\<lambda>i cl. cl\<lparr>cl_rdma := rdma_listen (CACHE_INDEX_LOG_PORT + i) i sz
                 (rdma_connect (CACHE_INDEX_LOG_PORT + i) (cl_rdma cl))\<rparr>) [0..<n]
          (cl\<lparr>max_cache_log_index := max, cache_index_log_entries_size := sz,
             machine_cache_index_logs := replicate n \<lparr>ml_entries = entries, ml_index = 0\<rparr>\<rparr>)))"

abbreviation cl_me :: "'e cache_logs \<Rightarrow> nat" where
  "cl_me cl \<equiv> machine_index (cl_rdma cl)"

abbreviation cl_servers :: "'e cache_logs \<Rightarrow> nat" where
  "cl_servers cl \<equiv> length (server_configs (cl_rdma cl))"

text \<open>The background worker: one pass over the rings of the other servers.\<close>

definition apply_entry ::
    "'e index_api \<Rightarrow> nat \<Rightarrow> 'e log_entry list \<times> 'e list \<Rightarrow> ('e log_entry list \<times> 'e list) res" where
  "apply_entry api j = (\<lambda>(entries, cache_indexes).
     bindR (vec_at entries j) (\<lambda>entry.
     if \<not> le_filled entry then Inr (entries, cache_indexes)
     else
       let entries = entries[j := entry\<lparr>le_filled := False\<rparr>] in
       if le_key entry = KEY_VALUE_PTR_INVALID api then Inr (entries, cache_indexes)
       else mapR (Pair entries) (vec_set cache_indexes (unat (le_key entry)) (le_index entry))))"

definition apply_log ::
    "'e index_api \<Rightarrow> u64 \<Rightarrow> 'e machine_log \<Rightarrow> 'e list \<Rightarrow> ('e machine_log \<times> 'e list) res" where
  "apply_log api mx lg cache_indexes =
     bindR (foldR (apply_entry api) [0..<unat mx] (ml_entries lg, cache_indexes)) (\<lambda>(entries, cache_indexes).
     bindR (vec_at entries (unat mx)) (\<lambda>last_entry.
     Inr (lg\<lparr>ml_entries := entries[unat mx := last_entry\<lparr>le_filled := False\<rparr>]\<rparr>, cache_indexes)))"

definition background_pass ::
    "'e index_api \<Rightarrow> 'e cache_logs \<times> 'e cache_indexes \<Rightarrow> ('e cache_logs \<times> 'e cache_indexes) res" where
  "background_pass api = (\<lambda>(cl, ci).
     foldR (\<lambda>i (cl, ci).
       if cl_me cl = i then Inr (cl, ci) else
       bindR (get_cache_index i ci) (\<lambda>arr.
       bindR (vec_at (machine_cache_index_logs cl) i) (\<lambda>log.
       bindR (apply_log api (max_cache_log_index cl) log arr) (\<lambda>(log, arr).
       Inr (cl\<lparr>machine_cache_index_logs := (machine_cache_index_logs cl)[i := log]\<rparr>,
            ci\<lparr>rdma_cache_indexes := (rdma_cache_indexes ci)[i := arr]\<rparr>)))))
       [0..<cl_servers cl] (cl, ci))"

text \<open>
  Appending. \<open>first qp\<close> is what a one-sided read of the first log entry over that queue pair
  returns; it lands in the last element of the own ring.
\<close>

definition set_log_entry :: "nat \<Rightarrow> 'e log_entry \<Rightarrow> 'e cache_logs \<Rightarrow> 'e cache_logs res" where
  "set_log_entry j e cl =
     bindR (vec_at (machine_cache_index_logs cl) (cl_me cl)) (\<lambda>log.
     bindR (vec_set (ml_entries log) j e) (\<lambda>entries.
     Inr (cl\<lparr>machine_cache_index_logs := (machine_cache_index_logs cl)[cl_me cl := log\<lparr>ml_entries := entries\<rparr>]\<rparr>)))"

definition get_log_entry :: "nat \<Rightarrow> 'e cache_logs \<Rightarrow> 'e log_entry res" where
  "get_log_entry j cl = bindR (vec_at (machine_cache_index_logs cl) (cl_me cl)) (\<lambda>log. vec_at (ml_entries log) j)"

definition check_ready ::
    "u64 \<Rightarrow> nat pick \<Rightarrow> (nat \<times> nat \<Rightarrow> 'e log_entry) \<Rightarrow> nat \<Rightarrow> nat \<times> 'e cache_logs \<Rightarrow> (nat \<times> 'e cache_logs) res" where
  "check_ready sizeof_entry pick first i = (\<lambda>(machines_ready, cl).
     if cl_me cl = i then Inr (machines_ready, cl) else
     let rdma_index = i * cl_servers cl + cl_me cl; last = unat (max_cache_log_index cl) in
     bindR (rdma_read pick rdma_index (cl_me cl) (cache_index_log_entries_size cl)
       (max_cache_log_index cl * sizeof_entry) 0 sizeof_entry (cl_rdma cl)) (\<lambda>(p, d).
     bindR (set_log_entry last (first (post_qp p)) (cl\<lparr>cl_rdma := free_request_token (request_token p) d\<rparr>)) (\<lambda>cl.
     bindR (get_log_entry last cl) (\<lambda>last_entry.
     Inr (if le_filled last_entry then machines_ready else machines_ready + 1, cl)))))"

definition ship_log :: "nat pick \<Rightarrow> nat \<Rightarrow> post list \<times> 'e cache_logs \<Rightarrow> (post list \<times> 'e cache_logs) res" where
  "ship_log pick i = (\<lambda>(posts, cl).
     if cl_me cl = i then Inr (posts, cl) else
     let rdma_index = cl_me cl * cl_servers cl + i in
     bindR (rdma_write pick rdma_index (cl_me cl) (cache_index_log_entries_size cl) 0 0
       (cache_index_log_entries_size cl) (cl_rdma cl)) (\<lambda>(p, d).
     Inr (posts @ [p], cl\<lparr>cl_rdma := free_request_token (request_token p) d\<rparr>)))"

definition sync_logs ::
    "u64 \<Rightarrow> nat pick \<Rightarrow> (nat \<times> nat \<Rightarrow> 'e log_entry) \<Rightarrow> 'e cache_logs \<Rightarrow> (post list \<times> 'e cache_logs) res" where
  "sync_logs sizeof_entry pick first cl =
     bindR (foldR (check_ready sizeof_entry pick first) [0..<cl_servers cl] (0, cl)) (\<lambda>(machines_ready, cl).
     if machines_ready = cl_servers cl - 1 then
       bindR (get_log_entry (unat (max_cache_log_index cl)) cl) (\<lambda>last_entry.
       bindR (set_log_entry (unat (max_cache_log_index cl)) (last_entry\<lparr>le_filled := True\<rparr>) cl) (\<lambda>cl.
       foldR (ship_log pick) [0..<cl_servers cl] ([], cl)))
     else Inl (Blocked ''Unable to sync! Other nodes are not ready''))"

definition append_entry ::
    "u64 \<Rightarrow> nat pick \<Rightarrow> (nat \<times> nat \<Rightarrow> 'e log_entry) \<Rightarrow> 'e log_entry \<Rightarrow> 'e cache_logs
     \<Rightarrow> (post list \<times> 'e cache_logs) res" where
  "append_entry sizeof_entry pick first entry cl =
     bindR (vec_at (machine_cache_index_logs cl) (cl_me cl)) (\<lambda>log.
     bindR (u64_mod (ml_index log) (max_cache_log_index cl)) (\<lambda>current_log_index.
     let cl = cl\<lparr>machine_cache_index_logs := (machine_cache_index_logs cl)[cl_me cl := log\<lparr>ml_index := ml_index log + 1\<rparr>]\<rparr> in
     bindR (set_log_entry (unat current_log_index) (entry\<lparr>le_filled := True\<rparr>) cl) (\<lambda>cl.
     if current_log_index = 0 then sync_logs sizeof_entry pick first cl else Inr ([], cl))))"

definition append_entry_k ::
    "u64 \<Rightarrow> nat pick \<Rightarrow> (nat \<times> nat \<Rightarrow> 'e log_entry) \<Rightarrow> string \<Rightarrow> 'e cache_logs \<times> 'e cache_indexes
     \<Rightarrow> (post list \<times> 'e cache_logs) res" where
  "append_entry_k sizeof_entry pick first key = (\<lambda>(cl, ci).
     bindR (stoi key) (\<lambda>key_index.
     bindR (get_cache_index (cl_me cl) ci) (\<lambda>rdma_cache_index.
     bindR (vec_at_int rdma_cache_index key_index) (\<lambda>cache_index.
     append_entry sizeof_entry pick first
       \<lparr>le_key = of_int key_index, le_index = cache_index, le_filled = True\<rparr> cl))))"

definition logs_execute_pending ::
    "nat pick \<Rightarrow> ('s \<Rightarrow> 's res) \<Rightarrow> 'e cache_logs \<times> 's \<Rightarrow> ('e cache_logs \<times> 's) res" where
  "logs_execute_pending pick f = (\<lambda>(cl, st).
     mapR (\<lambda>(d, st). (cl\<lparr>cl_rdma := d, cl_pending_write_queue := []\<rparr>, st))
       (drain_writes pick f (cl_pending_write_queue cl) (cl_rdma cl, st)))"

section \<open>Applying a ring\<close>

definition live_entry :: "'e index_api \<Rightarrow> 'e log_entry \<Rightarrow> bool" where
  "live_entry api e \<longleftrightarrow> le_filled e \<and> le_key e \<noteq> KEY_VALUE_PTR_INVALID api"

definition install :: "'e index_api \<Rightarrow> 'e log_entry \<Rightarrow> 'e list \<Rightarrow> 'e list" where
  "install api e arr = (if live_entry api e then arr[unat (le_key e) := le_index e] else arr)"

abbreviation unfilled :: "'e log_entry \<Rightarrow> 'e log_entry" where
  "unfilled e \<equiv> e\<lparr>le_filled := False\<rparr>"

lemma length_install [simp]: "length (install api e arr) = length arr"
  by (simp add: install_def)

lemma install_nth:
  "k < length arr \<Longrightarrow> install api e arr ! k = (if live_entry api e \<and> unat (le_key e) = k then le_index e else arr ! k)"
  by (auto simp: install_def nth_list_update)

lemma length_fold_install [simp]: "length (fold (install api) es arr) = length arr"
  by (induction es arbitrary: arr) simp_all

lemma apply_prefix:
  assumes "\<forall>e \<in> set es. live_entry api e \<longrightarrow> unat (le_key e) < length arr" "k \<le> length es"
  shows "foldR (apply_entry api) [0..<k] (es, arr)
    = Inr (map unfilled (take k es) @ drop k es, fold (install api) (take k es) arr)"
  using assms(2)
proof (induction k)
  case 0
  then show ?case by simp
next
  case (Suc k)
  then have k: "k < length es" by simp
  have live: "live_entry api (es ! k) \<longrightarrow> unat (le_key (es ! k)) < length arr" using assms(1) k by simp
  have t: "take (Suc k) es = take k es @ [es ! k]" and d: "drop k es = es ! k # drop (Suc k) es"
    using k by (simp_all add: take_Suc_conv_app_nth Cons_nth_drop_Suc)
  have len: "length (map unfilled (take k es)) = k" using k by simp
  have "apply_entry api k (map unfilled (take k es) @ drop k es, fold (install api) (take k es) arr)
    = Inr (map unfilled (take (Suc k) es) @ drop (Suc k) es, fold (install api) (take (Suc k) es) arr)"
    unfolding t d using k live len
    by (auto simp: apply_entry_def nth_append list_update_append install_def live_entry_def min_absorb2)
  with Suc k show ?case by (simp add: foldR_append)
qed

lemma apply_log_eq:
  assumes "length (ml_entries lg) = unat mx + 1"
    and "\<forall>e \<in> set (ml_entries lg). live_entry api e \<longrightarrow> unat (le_key e) < length arr"
  shows "apply_log api mx lg arr
    = Inr (lg\<lparr>ml_entries := map unfilled (ml_entries lg)\<rparr>, fold (install api) (take (unat mx) (ml_entries lg)) arr)"
proof -
  let ?es = "ml_entries lg"
  have d: "drop (unat mx) ?es = [?es ! unat mx]" "?es = take (unat mx) ?es @ [?es ! unat mx]"
    using assms(1) by (simp_all add: Cons_nth_drop_Suc [symmetric]) (metis append_take_drop_id Cons_nth_drop_Suc drop_all lessI order_refl)
  have len: "length (take (unat mx) ?es) = unat mx" using assms(1) by simp
  have "map unfilled ?es = map unfilled (take (unat mx) ?es) @ [unfilled (?es ! unat mx)]"
    by (subst (1) d(2)) simp
  then show ?thesis
    using apply_prefix [OF assms(2), of "unat mx"] assms(1) d(1) len
    by (simp add: apply_log_def nth_append list_update_append)
qed

text \<open>The entry of a key after a ring was installed: the last live log entry of the key decides.\<close>

definition changes_of :: "'e index_api \<Rightarrow> nat \<Rightarrow> 'e log_entry list \<Rightarrow> 'e list" where
  "changes_of api k es = map le_index (filter (\<lambda>e. live_entry api e \<and> unat (le_key e) = k) es)"

lemma changes_of_simps [simp]:
  "changes_of api k [] = []"
  "changes_of api k (es @ es') = changes_of api k es @ changes_of api k es'"
  by (simp_all add: changes_of_def)

lemma fold_install_nth:
  "k < length arr \<Longrightarrow> fold (install api) es arr ! k
    = (if changes_of api k es = [] then arr ! k else List.last (changes_of api k es))"
proof (induction es rule: rev_induct)
  case Nil
  then show ?case by simp
next
  case (snoc e es)
  have c: "changes_of api k [e] = (if live_entry api e \<and> unat (le_key e) = k then [le_index e] else [])"
    by (simp add: changes_of_def)
  show ?case using snoc by (auto simp: c install_nth)
qed

section \<open>Appending to the ring\<close>

definition log_ok :: "nat \<Rightarrow> nat \<Rightarrow> 'e cache_logs \<Rightarrow> bool" where
  "log_ok n m cl \<longleftrightarrow> m < n \<and> cl_me cl = m \<and> cl_servers cl = n
     \<and> connect_qps (cl_rdma cl) = qp_table CACHE_INDEX_LOG_PORT n
     \<and> length (machine_cache_index_logs cl) = n
     \<and> (\<forall>a < n. length (ml_entries (machine_cache_index_logs cl ! a)) = unat (max_cache_log_index cl) + 1)
     \<and> 0 < max_cache_log_index cl \<and> free_request_token_queue (cl_rdma cl) \<noteq> []"

abbreviation ring :: "'e cache_logs \<Rightarrow> 'e log_entry list" where
  "ring cl \<equiv> ml_entries (machine_cache_index_logs cl ! cl_me cl)"

abbreviation last_slot :: "'e cache_logs \<Rightarrow> nat" where
  "last_slot cl \<equiv> unat (max_cache_log_index cl)"

lemma set_log_entry_ok:
  assumes "log_ok n m cl" "j \<le> last_slot cl"
  shows "\<exists>cl'. set_log_entry j e cl = Inr cl' \<and> log_ok n m cl' \<and> ring cl' = (ring cl)[j := e]
    \<and> cl_rdma cl' = cl_rdma cl \<and> max_cache_log_index cl' = max_cache_log_index cl
    \<and> cache_index_log_entries_size cl' = cache_index_log_entries_size cl
    \<and> (\<forall>a. a \<noteq> m \<longrightarrow> machine_cache_index_logs cl' ! a = machine_cache_index_logs cl ! a)"
  using assms by (auto simp: set_log_entry_def log_ok_def nth_list_update)

lemma check_ready_ok:
  assumes "log_ok n m cl" "i < n" "i \<noteq> m"
  shows "\<exists>cl'. check_ready se pick first i (r, cl)
      = Inr (if le_filled (first (m, CACHE_INDEX_LOG_PORT + i)) then r else r + 1, cl')
    \<and> log_ok n m cl' \<and> max_cache_log_index cl' = max_cache_log_index cl
    \<and> take (last_slot cl) (ring cl') = take (last_slot cl) (ring cl)
    \<and> cache_index_log_entries_size cl' = cache_index_log_entries_size cl"
proof -
  have c: "m < n" "cl_me cl = m" "cl_servers cl = n" "connect_qps (cl_rdma cl) = qp_table CACHE_INDEX_LOG_PORT n"
    "free_request_token_queue (cl_rdma cl) \<noteq> []" using assms(1) by (simp_all add: log_ok_def)
  let ?qp = "(m, CACHE_INDEX_LOG_PORT + i)"
  have idx: "i * n + m < length (connect_qps (cl_rdma cl))" using c assms(2) by (simp add: length_qp_table qp_index_less)
  obtain p d where p: "rdma_read pick (i * n + m) m (cache_index_log_entries_size cl) (max_cache_log_index cl * se) 0 se (cl_rdma cl) = Inr (p, d)"
    "post_qp p = ?qp" "connect_qps d = qp_table CACHE_INDEX_LOG_PORT n" "server_configs d = server_configs (cl_rdma cl)" "machine_index d = m"
    using rdma_request_ok [OF idx c(5), of False pick m "cache_index_log_entries_size cl" "max_cache_log_index cl * se" 0 se]
      qp_table_nth [OF assms(2) c(1)] c unfolding rdma_read_def by auto
  let ?cl = "cl\<lparr>cl_rdma := free_request_token (request_token p) d\<rparr>"
  have ok: "log_ok n m ?cl" using assms(1) p by (simp add: log_ok_def free_request_token_def enqueue_def)
  obtain cl' where cl': "set_log_entry (last_slot cl) (first ?qp) ?cl = Inr cl'" "log_ok n m cl'"
    "ring cl' = (ring ?cl)[last_slot cl := first ?qp]" "cl_rdma cl' = cl_rdma ?cl"
    "max_cache_log_index cl' = max_cache_log_index cl" "cache_index_log_entries_size cl' = cache_index_log_entries_size cl"
    using set_log_entry_ok [OF ok, of "last_slot cl" "first ?qp"] by auto
  have me: "cl_me cl' = m" "cl_me ?cl = m" using cl'(2) ok by (simp_all add: log_ok_def)
  have l: "m < length (machine_cache_index_logs cl')" "last_slot cl < length (ring cl')"
    using cl'(2,5) by (simp_all add: log_ok_def)
  then have "ring cl' ! last_slot cl = first ?qp" unfolding cl'(3) by simp
  then have "get_log_entry (last_slot cl) cl' = Inr (first ?qp)" using l me by (simp add: get_log_entry_def)
  moreover have "take (last_slot cl) (ring cl') = take (last_slot cl) (ring cl)"
    unfolding cl'(3) using me c(2) by simp
  ultimately show ?thesis using p(1,2) c assms(3) cl' by (simp add: check_ready_def Let_def)
qed

lemma check_loop:
  assumes "log_ok n m cl" "set is \<subseteq> {..<n}"
  shows "\<exists>cl'. foldR (check_ready se pick first) is (r, cl)
      = Inr (r + length (filter (\<lambda>i. \<not> le_filled (first (m, CACHE_INDEX_LOG_PORT + i))) (others m is)), cl')
    \<and> log_ok n m cl' \<and> max_cache_log_index cl' = max_cache_log_index cl
    \<and> take (last_slot cl) (ring cl') = take (last_slot cl) (ring cl)
    \<and> cache_index_log_entries_size cl' = cache_index_log_entries_size cl"
  using assms
proof (induction "is" arbitrary: r cl)
  case Nil
  then show ?case by simp
next
  case (Cons i "is")
  have me: "cl_me cl = m" using Cons.prems(1) by (simp add: log_ok_def)
  show ?case
  proof (cases "i = m")
    case True
    have "check_ready se pick first i (r, cl) = Inr (r, cl)" using True me by (simp add: check_ready_def)
    with Cons.IH [OF Cons.prems(1), of r] Cons.prems(2) True show ?thesis by simp
  next
    case False
    let ?r = "if le_filled (first (m, CACHE_INDEX_LOG_PORT + i)) then r else r + 1"
    from check_ready_ok [OF Cons.prems(1) _ False, of se pick first r] Cons.prems(2) obtain c1 where
      c1: "check_ready se pick first i (r, cl) = Inr (?r, c1)" "log_ok n m c1"
        "max_cache_log_index c1 = max_cache_log_index cl" "take (last_slot cl) (ring c1) = take (last_slot cl) (ring cl)"
        "cache_index_log_entries_size c1 = cache_index_log_entries_size cl" by auto
    from Cons.IH [OF c1(2), of ?r] Cons.prems(2) obtain c2 where
      c2: "foldR (check_ready se pick first) is (?r, c1)
        = Inr (?r + length (filter (\<lambda>i. \<not> le_filled (first (m, CACHE_INDEX_LOG_PORT + i))) (others m is)), c2)"
        "log_ok n m c2" "max_cache_log_index c2 = max_cache_log_index c1"
        "take (last_slot c1) (ring c2) = take (last_slot c1) (ring c1)"
        "cache_index_log_entries_size c2 = cache_index_log_entries_size c1" by auto
    have "take (last_slot cl) (ring c2) = take (last_slot cl) (ring cl)" using c1(3,4) c2(4) by simp
    with c1 c2 False show ?thesis by auto
  qed
qed

lemma ship_loop:
  assumes "log_ok n m cl" "set is \<subseteq> {..<n}"
  shows "\<exists>ps cl'. foldR (ship_log pick) is (posts, cl) = Inr (posts @ ps, cl')
    \<and> map post_qp ps = map (\<lambda>i. (i, CACHE_INDEX_LOG_PORT + m)) (others m is)
    \<and> (\<forall>p \<in> set ps. post_write p \<and> post_buffer p = m \<and> local_offset p = 0 \<and> remote_offset p = 0
         \<and> size_in_bytes p = cache_index_log_entries_size cl)
    \<and> log_ok n m cl' \<and> machine_cache_index_logs cl' = machine_cache_index_logs cl
    \<and> max_cache_log_index cl' = max_cache_log_index cl"
  using assms
proof (induction "is" arbitrary: posts cl)
  case Nil
  then show ?case by simp
next
  case (Cons i "is")
  have c: "m < n" "cl_me cl = m" "cl_servers cl = n" "connect_qps (cl_rdma cl) = qp_table CACHE_INDEX_LOG_PORT n"
    "free_request_token_queue (cl_rdma cl) \<noteq> []" using Cons.prems(1) by (simp_all add: log_ok_def)
  show ?case
  proof (cases "i = m")
    case True
    have "ship_log pick i (posts, cl) = Inr (posts, cl)" using True c(2) by (simp add: ship_log_def)
    with Cons.IH [OF Cons.prems(1), of posts] Cons.prems(2) True show ?thesis by simp
  next
    case False
    have i: "i < n" using Cons.prems(2) by simp
    have idx: "m * n + i < length (connect_qps (cl_rdma cl))" using c i by (simp add: length_qp_table qp_index_less)
    obtain p d where p: "rdma_write pick (m * n + i) m (cache_index_log_entries_size cl) 0 0 (cache_index_log_entries_size cl) (cl_rdma cl) = Inr (p, d)"
      "post_write p" "post_qp p = (i, CACHE_INDEX_LOG_PORT + m)" "post_buffer p = m" "local_offset p = 0" "remote_offset p = 0"
      "size_in_bytes p = cache_index_log_entries_size cl" "connect_qps d = qp_table CACHE_INDEX_LOG_PORT n"
      "server_configs d = server_configs (cl_rdma cl)" "machine_index d = m"
      using rdma_request_ok [OF idx c(5), of True pick m "cache_index_log_entries_size cl" 0 0 "cache_index_log_entries_size cl"]
        qp_table_nth [OF c(1) i] c unfolding rdma_write_def by auto
    let ?c1 = "cl\<lparr>cl_rdma := free_request_token (request_token p) d\<rparr>"
    have s: "ship_log pick i (posts, cl) = Inr (posts @ [p], ?c1)" using p(1) c False by (simp add: ship_log_def Let_def)
    have ok: "log_ok n m ?c1" using Cons.prems(1) p by (simp add: log_ok_def free_request_token_def enqueue_def)
    from Cons.IH [OF ok, of "posts @ [p]"] Cons.prems(2) obtain ps c2 where
      c2: "foldR (ship_log pick) is (posts @ [p], ?c1) = Inr ((posts @ [p]) @ ps, c2)"
        "map post_qp ps = map (\<lambda>i. (i, CACHE_INDEX_LOG_PORT + m)) (others m is)"
        "\<forall>p \<in> set ps. post_write p \<and> post_buffer p = m \<and> local_offset p = 0 \<and> remote_offset p = 0
         \<and> size_in_bytes p = cache_index_log_entries_size cl"
        "log_ok n m c2" "machine_cache_index_logs c2 = machine_cache_index_logs cl" "max_cache_log_index c2 = max_cache_log_index cl"
      by auto
    show ?thesis by (rule exI [of _ "p # ps"], rule exI [of _ c2]) (use s c2 p False in simp)
  qed
qed

abbreviation filled :: "'e log_entry \<Rightarrow> 'e log_entry" where
  "filled e \<equiv> e\<lparr>le_filled := True\<rparr>"

abbreviation next_index :: "'e cache_logs \<Rightarrow> u64" where
  "next_index cl \<equiv> ml_index (machine_cache_index_logs cl ! cl_me cl)"

text \<open>The state after the entry was put into its slot and the index moved on.\<close>

lemma append_put:
  assumes "log_ok n m cl"
  shows "\<exists>c1. (\<forall>first. append_entry se pick first e cl
      = (if next_index cl mod max_cache_log_index cl = 0 then sync_logs se pick first c1 else Inr ([], c1)))
    \<and> log_ok n m c1 \<and> max_cache_log_index c1 = max_cache_log_index cl
    \<and> ring c1 = (ring cl)[unat (next_index cl mod max_cache_log_index cl) := filled e]
    \<and> next_index c1 = next_index cl + 1
    \<and> cache_index_log_entries_size c1 = cache_index_log_entries_size cl"
proof -
  have c: "m < n" "cl_me cl = m" "length (machine_cache_index_logs cl) = n" "0 < max_cache_log_index cl"
    using assms by (simp_all add: log_ok_def)
  let ?lg = "machine_cache_index_logs cl ! m"
  let ?c0 = "cl\<lparr>machine_cache_index_logs := (machine_cache_index_logs cl)[m := ?lg\<lparr>ml_index := ml_index ?lg + 1\<rparr>]\<rparr>"
  let ?i = "ml_index ?lg mod max_cache_log_index cl"
  let ?c1 = "?c0\<lparr>machine_cache_index_logs := (machine_cache_index_logs ?c0)[m := (machine_cache_index_logs ?c0 ! m)
    \<lparr>ml_entries := (ml_entries ?lg)[unat ?i := filled e]\<rparr>]\<rparr>"
  have ok: "log_ok n m ?c0" "log_ok n m ?c1" using assms by (auto simp: log_ok_def nth_list_update)
  have "?i < max_cache_log_index cl" using c(4) by (simp add: word_mod_less_divisor)
  then have i: "unat ?i < length (ml_entries ?lg)" using assms by (auto simp: log_ok_def word_less_nat_alt)
  have "set_log_entry (unat ?i) (filled e) ?c0 = Inr ?c1"
    using i c by (simp add: set_log_entry_def)
  moreover have "vec_at (machine_cache_index_logs cl) m = Inr ?lg" using c by simp
  moreover have "u64_mod (ml_index ?lg) (max_cache_log_index cl) = Inr ?i" using c(4) by (simp add: u64_mod_def)
  ultimately have "\<forall>first. append_entry se pick first e cl = (if ?i = 0 then sync_logs se pick first ?c1 else Inr ([], ?c1))"
    unfolding append_entry_def c(2) Let_def by (simp only: bindR_simps simp_thms)
  with ok(2) c show ?thesis by (intro exI [of _ ?c1]) simp
qed

lemma upt_below: "set [0..<n] \<subseteq> {..<n}"
  by auto

lemma sync_logs_cases:
  assumes "log_ok n m cl"
  shows "if \<forall>i < n. i \<noteq> m \<longrightarrow> \<not> le_filled (first (m, CACHE_INDEX_LOG_PORT + i))
    then \<exists>ps cl'. sync_logs se pick first cl = Inr (ps, cl')
      \<and> map post_qp ps = map (\<lambda>i. (i, CACHE_INDEX_LOG_PORT + m)) (others m [0..<n])
      \<and> (\<forall>p \<in> set ps. post_write p \<and> post_buffer p = m \<and> local_offset p = 0 \<and> remote_offset p = 0
           \<and> size_in_bytes p = cache_index_log_entries_size cl)
      \<and> log_ok n m cl' \<and> take (last_slot cl) (ring cl') = take (last_slot cl) (ring cl)
    else sync_logs se pick first cl = Inl (Blocked ''Unable to sync! Other nodes are not ready'')"
proof -
  let ?ready = "filter (\<lambda>i. \<not> le_filled (first (m, CACHE_INDEX_LOG_PORT + i))) (others m [0..<n])"
  have mn: "m < n" "cl_servers cl = n" using assms by (simp_all add: log_ok_def)
  obtain c1 where c1: "foldR (check_ready se pick first) [0..<n] (0, cl) = Inr (length ?ready, c1)" "log_ok n m c1"
    "max_cache_log_index c1 = max_cache_log_index cl" "take (last_slot cl) (ring c1) = take (last_slot cl) (ring cl)"
    "cache_index_log_entries_size c1 = cache_index_log_entries_size cl"
    using check_loop [OF assms upt_below, of se pick first 0] by auto
  have n1: "cl_servers c1 = n" "cl_me c1 = m" using c1(2) by (simp_all add: log_ok_def)
  have all: "length ?ready = n - 1 \<longleftrightarrow> (\<forall>i < n. i \<noteq> m \<longrightarrow> \<not> le_filled (first (m, CACHE_INDEX_LOG_PORT + i)))"
  proof -
    have "length ?ready = length (others m [0..<n]) \<longleftrightarrow> (\<forall>i \<in> set (others m [0..<n]). \<not> le_filled (first (m, CACHE_INDEX_LOG_PORT + i)))"
      by (rule length_filter_all)
    then show ?thesis unfolding length_others [OF mn(1)] by (auto simp: others_def)
  qed
  show ?thesis
  proof (cases "length ?ready = n - 1")
    case False
    then have "sync_logs se pick first cl = Inl (Blocked ''Unable to sync! Other nodes are not ready'')"
      using c1(1) n1 mn by (simp add: sync_logs_def)
    with False all show ?thesis by simp
  next
    case True
    let ?last = "ring c1 ! last_slot cl"
    have g: "get_log_entry (last_slot cl) c1 = Inr ?last" using c1(2,3) n1 by (simp add: get_log_entry_def log_ok_def)
    obtain c2 where c2: "set_log_entry (last_slot cl) (filled ?last) c1 = Inr c2" "log_ok n m c2"
      "ring c2 = (ring c1)[last_slot cl := filled ?last]" "cache_index_log_entries_size c2 = cache_index_log_entries_size c1"
      using set_log_entry_ok [OF c1(2), of "last_slot cl" "filled ?last"] c1(3) by auto
    have "cl_servers c2 = n" "cl_me c2 = m" using c2(2) by (simp_all add: log_ok_def)
    moreover obtain ps c3 where c3: "foldR (ship_log pick) [0..<n] ([], c2) = Inr ([] @ ps, c3)"
      "map post_qp ps = map (\<lambda>i. (i, CACHE_INDEX_LOG_PORT + m)) (others m [0..<n])"
      "\<forall>p \<in> set ps. post_write p \<and> post_buffer p = m \<and> local_offset p = 0 \<and> remote_offset p = 0
         \<and> size_in_bytes p = cache_index_log_entries_size c2"
      "log_ok n m c3" "machine_cache_index_logs c3 = machine_cache_index_logs c2"
      using ship_loop [OF c2(2) upt_below, of pick "[]"] by auto
    moreover have "cl_me c3 = m" using c3(4) by (simp add: log_ok_def)
    ultimately have "sync_logs se pick first cl = Inr (ps, c3)"
        "take (last_slot cl) (ring c3) = take (last_slot cl) (ring cl)"
      using c1 c2 g True n1 mn by (simp_all add: sync_logs_def)
    with c3(2-4) c2(4) c1(5) True all show ?thesis by auto
  qed
qed

lemma make_CacheIndexLogs_ok:
  assumes "use_cache_logs config" "0 < cache_log_sync_every_x_operations config"
    and "cache_log_sync_every_x_operations config < 2 ^ 31" "m < n" "n = length (filter rm_server configs)"
  shows "\<exists>cl. make_CacheIndexLogs api sz configs config m = Inr cl \<and> log_ok n m cl
    \<and> max_cache_log_index cl = of_int (cache_log_sync_every_x_operations config)
    \<and> machine_cache_index_logs cl = replicate n \<lparr>ml_entries =
        replicate (nat (cache_log_sync_every_x_operations config) + 1) (default_log_entry api), ml_index = 0\<rparr>
    \<and> cache_index_log_entries_size cl = of_nat (nat (cache_log_sync_every_x_operations config) + 1) * sz"
proof -
  let ?k = "nat (cache_log_sync_every_x_operations config)"
  let ?mx = "of_int (cache_log_sync_every_x_operations config) :: u64"
  have k: "?mx = of_nat ?k" "?k < 2 ^ 31" "0 < ?k" using assms(2,3) by (simp_all add: nat_less_iff)
  have u: "unat ?mx = ?k" unfolding k(1) using k(2) by simp
  have u1: "unat (?mx + 1) = ?k + 1" using u k(2) by (simp add: unat_plus_if')
  have loop: "(let cl = fold (\<lambda>i cl. cl\<lparr>cl_rdma := rdma_listen (CACHE_INDEX_LOG_PORT + i) i s
                 (rdma_connect (CACHE_INDEX_LOG_PORT + i) (cl_rdma cl))\<rparr>) [0..<j] cl0 in cl_me cl = cl_me cl0 \<and> cl_servers cl = cl_servers cl0
    \<and> connect_qps (cl_rdma cl) = connect_qps (cl_rdma cl0)
        @ concat (map (\<lambda>a. map (\<lambda>b. (b, CACHE_INDEX_LOG_PORT + a)) [0..<cl_servers cl0]) [0..<j])
    \<and> free_request_token_queue (cl_rdma cl) = free_request_token_queue (cl_rdma cl0)
    \<and> max_cache_log_index cl = max_cache_log_index cl0 \<and> machine_cache_index_logs cl = machine_cache_index_logs cl0
    \<and> cache_index_log_entries_size cl = cache_index_log_entries_size cl0)"
    for j s and cl0 :: "'a cache_logs"
    by (induction j) (auto simp: Let_def rdma_listen_def rdma_connect_def get_buffer_frameD split: prod.splits)
  have "0 < ?mx" using u k(3) by (simp add: word_less_nat_alt)
  then show ?thesis
    using assms loop [unfolded Let_def] u u1
    by (simp add: make_CacheIndexLogs_def Let_def log_ok_def qp_table_def make_RDMAData_def FreeRequestTokenQueueSize_def add.commute)
qed

section \<open>Properties\<close>

text \<open>The logs of two servers with a ring of four entries, for concrete runs.\<close>

definition sample_logs :: "u64 cache_logs" where
  "sample_logs = projr (make_CacheIndexLogs sample_api 32 two_servers (sample_config\<lparr>use_cache_logs := True\<rparr>) 0)"

definition change :: "u64 \<Rightarrow> u64 \<Rightarrow> u64 log_entry" where
  "change k e = \<lparr>le_key = k, le_index = e, le_filled = True\<rparr>"

lemma sample_logs_ok:
  "make_CacheIndexLogs sample_api 32 two_servers (sample_config\<lparr>use_cache_logs := True\<rparr>) 0 = Inr sample_logs"
  "log_ok 2 0 sample_logs" "max_cache_log_index sample_logs = 4"
  "machine_cache_index_logs sample_logs = replicate 2 \<lparr>ml_entries = replicate 5 (default_log_entry sample_api), ml_index = 0\<rparr>"
  "cl_me sample_logs = 0" "cache_index_log_entries_size sample_logs = 160"
proof -
  obtain cl where "make_CacheIndexLogs sample_api 32 two_servers (sample_config\<lparr>use_cache_logs := True\<rparr>) 0 = Inr cl"
    "log_ok 2 0 cl" "max_cache_log_index cl = 4"
    "machine_cache_index_logs cl = replicate 2 \<lparr>ml_entries = replicate 5 (default_log_entry sample_api), ml_index = 0\<rparr>"
    "cache_index_log_entries_size cl = 160"
    using make_CacheIndexLogs_ok [of "sample_config\<lparr>use_cache_logs := True\<rparr>" 0 2 two_servers sample_api 32]
    by (auto simp: sample_config_def two_servers_def)
  then show "make_CacheIndexLogs sample_api 32 two_servers (sample_config\<lparr>use_cache_logs := True\<rparr>) 0 = Inr sample_logs"
    and ok: "log_ok 2 0 sample_logs" and "max_cache_log_index sample_logs = 4"
    and "machine_cache_index_logs sample_logs = replicate 2 \<lparr>ml_entries = replicate 5 (default_log_entry sample_api), ml_index = 0\<rparr>"
    and "cache_index_log_entries_size sample_logs = 160"
    by (simp_all add: sample_logs_def)
  from ok show "cl_me sample_logs = 0" by (simp add: log_ok_def)
qed

text \<open>A server with the logs on and a period of 0 is built, but its first entry divides by zero.\<close>

lemma append_entry_undefined:
  assumes "use_cache_logs config" "cache_log_sync_every_x_operations config = 0"
    and "make_CacheIndexLogs api sz configs config m = Inr cl" "m < length (filter rm_server configs)"
  shows "append_entry se pick first e cl = Inl (Undefined ''division by zero'')"
proof -
  let ?put = "\<lambda>s i cl. cl\<lparr>cl_rdma := rdma_listen (CACHE_INDEX_LOG_PORT + i) i s (rdma_connect (CACHE_INDEX_LOG_PORT + i) (cl_rdma cl))\<rparr>"
  have "(let cl = fold (?put s) [0..<j] cl0 in cl_me cl = cl_me cl0 \<and> max_cache_log_index cl = max_cache_log_index cl0
      \<and> machine_cache_index_logs cl = machine_cache_index_logs cl0)" for j s and cl0 :: "'a cache_logs"
    by (induction j) (auto simp: Let_def rdma_listen_def rdma_connect_def get_buffer_frameD split: prod.splits)
  then have "cl_me cl = m" "max_cache_log_index cl = 0" "length (machine_cache_index_logs cl) = length (filter rm_server configs)"
    using assms(1-3) by (auto simp: make_CacheIndexLogs_def Let_def make_RDMAData_def)
  then show ?thesis using assms(4) by (simp add: append_entry_def u64_mod_def)
qed

text \<open>
  Appending an entry that does not start a round only fills its slot of the ring;
  an entry that does start one is put into slot 0 and the whole ring is shipped to every other
  server, or the call waits while one of the rings that arrived here still has its first entry
  unapplied.
\<close>

theorem append_entry_branches:
  assumes "log_ok n m cl" and "i = next_index cl mod max_cache_log_index cl"
  shows "if i \<noteq> 0
      then \<exists>cl'. append_entry se pick first e cl = Inr ([], cl') \<and> ring cl' = (ring cl)[unat i := filled e]
    else if \<forall>i < n. i \<noteq> m \<longrightarrow> \<not> le_filled (first (m, CACHE_INDEX_LOG_PORT + i))
      then \<exists>ps cl'. append_entry se pick first e cl = Inr (ps, cl')
        \<and> map post_qp ps = map (\<lambda>i. (i, CACHE_INDEX_LOG_PORT + m)) (filter (\<lambda>i. i \<noteq> m) [0..<n])
        \<and> (\<forall>p \<in> set ps. remote_offset p = 0 \<and> size_in_bytes p = cache_index_log_entries_size cl)
        \<and> take (last_slot cl) (ring cl') = take (last_slot cl) ((ring cl)[0 := filled e])
    else append_entry se pick first e cl = Inl (Blocked ''Unable to sync! Other nodes are not ready'')"
proof -
  obtain c1 where c1: "append_entry se pick first e cl = (if i = 0 then sync_logs se pick first c1 else Inr ([], c1))"
    "log_ok n m c1" "max_cache_log_index c1 = max_cache_log_index cl" "ring c1 = (ring cl)[unat i := filled e]"
    "cache_index_log_entries_size c1 = cache_index_log_entries_size cl"
    using append_put [OF assms(1), of se pick e] assms(2) by auto
  note c1(3,5) [simp]
  show ?thesis
  proof (cases "i = 0")
    case False
    with c1(1,4) show ?thesis by auto
  next
    case True
    then have r: "ring c1 = (ring cl)[0 := filled e]" "append_entry se pick first e cl = sync_logs se pick first c1"
      using c1(1,4) by simp_all
    note s = sync_logs_cases [OF c1(2), of first se pick]
    show ?thesis
    proof (cases "\<forall>i < n. i \<noteq> m \<longrightarrow> \<not> le_filled (first (m, CACHE_INDEX_LOG_PORT + i))")
      case ready: True
      with s obtain ps cl' where "sync_logs se pick first c1 = Inr (ps, cl')"
        "map post_qp ps = map (\<lambda>i. (i, CACHE_INDEX_LOG_PORT + m)) (others m [0..<n])"
        "\<forall>p \<in> set ps. remote_offset p = 0 \<and> size_in_bytes p = cache_index_log_entries_size cl"
        "take (last_slot cl) (ring cl') = take (last_slot cl) (ring c1)" by auto
      with ready True r show ?thesis by (simp add: others_def)
    next
      case False
      with s True r show ?thesis by auto
    qed
  qed
qed

theorem append_entry_branches_witness:
  "\<exists>ps cl. append_entry 32 (\<lambda>_. 0) (\<lambda>_. default_log_entry sample_api) (change 2 64) sample_logs = Inr (ps, cl)
    \<and> map post_qp ps = [(1, 50100)]"
  using append_entry_branches [OF sample_logs_ok(2) refl, of 32 "\<lambda>_. 0" "\<lambda>_. default_log_entry sample_api" "change 2 64"]
  by (auto simp: sample_logs_ok default_log_entry_def CACHE_INDEX_LOG_PORT_def upt_rec numeral_2_eq_2)

text \<open>
  Whether an append ships or waits depends only on memory of the appending
  server: two states of the network that agree on that server's own buffers give the same
  result, so the check never looks at the receivers it is meant to protect.
\<close>

theorem sync_ignores_receivers:
  assumes "log_ok n m cl" "\<forall>port. first (m, port) = first' (m, port)"
  shows "append_entry se pick first e cl = append_entry se pick first' e cl"
proof -
  have step: "check_ready se pick first i (r, c) = check_ready se pick first' i (r, c)"
    if c: "log_ok n m c" and i: "i < n" for i r c
  proof (cases "i = m")
    case True
    with c show ?thesis by (simp add: check_ready_def log_ok_def)
  next
    case False
    have cm: "m < n" "cl_me c = m" "cl_servers c = n" "connect_qps (cl_rdma c) = qp_table CACHE_INDEX_LOG_PORT n"
      using c by (simp_all add: log_ok_def)
    have idx: "i * n + m < length (connect_qps (cl_rdma c))" using cm i by (simp add: length_qp_table qp_index_less)
    have "post_qp p = (m, CACHE_INDEX_LOG_PORT + i)"
      if "rdma_read pick (i * n + m) b bs lo ro sz (cl_rdma c) = Inr (p, d)" for b bs lo ro sz p d
      using that idx cm qp_table_nth [OF i cm(1)]
      by (auto simp: rdma_read_def rdma_request_def bindR_Inr_iff vec_at_Inr_iff get_buffer_frameD split: prod.splits)
    then show ?thesis using assms(2) cm
      by (auto simp: check_ready_def Let_def bindR_def split: sum.splits)
  qed
  have loop: "foldR (check_ready se pick first) is (r, c) = foldR (check_ready se pick first') is (r, c)"
    if "log_ok n m c" "set is \<subseteq> {..<n}" for "is" r c
    using that
  proof (induction "is" arbitrary: r c)
    case (Cons i "is")
    show ?case
    proof (cases "check_ready se pick first' i (r, c)")
      case (Inr rc)
      have "log_ok n m (snd rc)"
      proof (cases "i = m")
        case True
        with Inr Cons.prems(1) show ?thesis by (auto simp: check_ready_def log_ok_def)
      next
        case False
        with Inr check_ready_ok [OF Cons.prems(1) _ False, of se pick first' r] Cons.prems(2) show ?thesis by auto
      qed
      with Inr Cons step [OF Cons.prems(1), of i r] show ?thesis by (cases rc) simp
    qed (use step [OF Cons.prems(1), of i r] Cons.prems(2) in simp)
  qed simp
  have "sync_logs se pick first c = sync_logs se pick first' c" if "log_ok n m c" for c
    using loop [OF that upt_below, of 0] that by (simp add: sync_logs_def log_ok_def)
  moreover obtain c1 where "log_ok n m c1"
    "append_entry se pick first e cl = (if next_index cl mod max_cache_log_index cl = 0 then sync_logs se pick first c1 else Inr ([], c1))"
    "append_entry se pick first' e cl = (if next_index cl mod max_cache_log_index cl = 0 then sync_logs se pick first' c1 else Inr ([], c1))"
    using append_put [OF assms(1), of se pick e] by metis
  ultimately show ?thesis by simp
qed

theorem sync_ignores_receivers_witness:
  "append_entry 32 (\<lambda>_. 0) (\<lambda>_. default_log_entry sample_api) (change 2 64) sample_logs
   = append_entry 32 (\<lambda>_. 0) (\<lambda>qp. if fst qp = 1 then change 3 96 else default_log_entry sample_api) (change 2 64) sample_logs"
  by (rule sync_ignores_receivers [OF sample_logs_ok(2)]) simp

text \<open>
  Property C22: applying a ring that arrived empties it and gives each key the index of its last
  change in slot order. The newest change sits in slot 0, so it is applied first and an older
  change of the same key in a later slot overwrites it.
\<close>

theorem ring_applied:
  assumes "length (ml_entries lg) = unat mx + 1" "0 < mx"
    and "\<forall>e \<in> set (ml_entries lg). live_entry api e \<longrightarrow> unat (le_key e) < length arr"
  shows "\<exists>lg' arr'. apply_log api mx lg arr = Inr (lg', arr') \<and> (\<forall>e \<in> set (ml_entries lg'). \<not> le_filled e)
    \<and> (let newest = hd (ml_entries lg); older = tl (take (unat mx) (ml_entries lg)) in
       \<forall>k < length arr. arr' ! k =
         (if changes_of api k older \<noteq> [] then List.last (changes_of api k older)
          else if live_entry api newest \<and> unat (le_key newest) = k then le_index newest
          else arr ! k))"
proof -
  have "unat mx \<noteq> 0" using assms(2) by (simp add: word_less_nat_alt)
  then obtain e es where t: "take (unat mx) (ml_entries lg) = e # es" "hd (ml_entries lg) = e"
    using assms(1) by (cases "ml_entries lg"; cases "unat mx") auto
  have c: "changes_of api k (e # es) = (if live_entry api e \<and> unat (le_key e) = k then [le_index e] else []) @ changes_of api k es" for k
    by (simp add: changes_of_def)
  have "fold (install api) (e # es) arr ! k =
      (if changes_of api k es \<noteq> [] then List.last (changes_of api k es)
       else if live_entry api e \<and> unat (le_key e) = k then le_index e else arr ! k)" if "k < length arr" for k
    unfolding fold_install_nth [OF that] c by simp
  then show ?thesis unfolding apply_log_eq [OF assms(1,3)] t by (auto simp: Let_def)
qed

theorem ring_applied_witness:
  "\<exists>lg' arr'. apply_log sample_api 2 \<lparr>ml_entries = [change 1 96, change 1 64, change 0 0], ml_index = 3\<rparr> [-1, -1]
     = Inr (lg', arr') \<and> arr' ! 1 = 64"
  using ring_applied [of "\<lparr>ml_entries = [change 1 96, change 1 64, change 0 0], ml_index = 3\<rparr>" 2 sample_api "[-1, -1]"]
  by (auto simp: change_def changes_of_def live_entry_def sample_api_def Let_def dest: spec [of _ 1])

lemma appends_fill:
  assumes "log_ok n m cl" "unat (next_index cl) mod last_slot cl = j" "0 < j" "j + length es \<le> last_slot cl"
    and "unat (next_index cl) + length es < 2 ^ 64"
  shows "\<exists>cl'. foldR (\<lambda>e cl. mapR snd (append_entry se pick first e cl)) es cl = Inr cl' \<and> log_ok n m cl'
    \<and> max_cache_log_index cl' = max_cache_log_index cl
    \<and> ring cl' = take j (ring cl) @ map filled es @ drop (j + length es) (ring cl)
    \<and> unat (next_index cl') = unat (next_index cl) + length es
    \<and> cache_index_log_entries_size cl' = cache_index_log_entries_size cl"
  using assms
proof (induction es arbitrary: j cl)
  case Nil
  then show ?case by simp
next
  case (Cons e es)
  have j: "unat (next_index cl mod max_cache_log_index cl) = j" using Cons.prems(2) by (simp add: unat_mod)
  have nz: "next_index cl mod max_cache_log_index cl \<noteq> 0"
  proof
    assume "next_index cl mod max_cache_log_index cl = 0"
    with j have "j = 0" by (simp only: unat_0)
    with Cons.prems(3) show False by simp
  qed
  obtain c1 where c1: "append_entry se pick first e cl = Inr ([], c1)" "log_ok n m c1"
    "max_cache_log_index c1 = max_cache_log_index cl" "ring c1 = (ring cl)[j := filled e]" "next_index c1 = next_index cl + 1"
    "cache_index_log_entries_size c1 = cache_index_log_entries_size cl"
    using append_put [OF Cons.prems(1), of se pick e] nz j by auto
  have u: "unat (next_index c1) = Suc (unat (next_index cl))"
    using Cons.prems(5) unfolding c1(5) by (simp add: unat_plus_if')
  have len: "length (ring cl) = last_slot cl + 1" using Cons.prems(1) by (simp add: log_ok_def)
  show ?case
  proof (cases "es = []")
    case True
    with c1 u len Cons.prems(4) show ?thesis by (auto simp: upd_conv_take_nth_drop)
  next
    case False
    then have lt: "Suc j < last_slot cl" using Cons.prems(4) by (cases es) simp_all
    have m1: "unat (next_index c1) mod last_slot c1 = Suc j"
      using Cons.prems(2) lt u c1(3) by (simp add: mod_Suc)
    obtain c2 where c2: "foldR (\<lambda>e cl. mapR snd (append_entry se pick first e cl)) es c1 = Inr c2" "log_ok n m c2"
      "max_cache_log_index c2 = max_cache_log_index c1"
      "ring c2 = take (Suc j) (ring c1) @ map filled es @ drop (Suc j + length es) (ring c1)"
      "unat (next_index c2) = unat (next_index c1) + length es"
      "cache_index_log_entries_size c2 = cache_index_log_entries_size c1"
      using Cons.IH [OF c1(2) m1] Cons.prems(4,5) c1(3) u by auto
    have "ring c2 = take j (ring cl) @ map filled (e # es) @ drop (j + length (e # es)) (ring cl)"
      using c2(4) c1(4) len lt by (simp add: take_Suc_conv_app_nth)
    with c1 c2 u show ?thesis by simp
  qed
qed

text \<open>
  Property C21: on a server whose log has the size that its constructor gives it, a round of appends
  after a wrap fills the ring in order. When the other servers have by then applied what this one
  shipped before (the reads of the readiness check find their first entries not filled), the append
  that wraps again posts to every other server one write of the whole ring, from its start to the
  start of the receiver's copy, and the ring holds the new entry in slot 0 followed by the whole
  round: no change is lost between two shipments.
\<close>

theorem ring_ships_round:
  assumes "log_ok n m cl" "unat (next_index cl) mod last_slot cl = 1" "Suc (length es) = last_slot cl" "1 < last_slot cl"
    and "unat (next_index cl) + last_slot cl < 2 ^ 64" "cache_index_log_entries_size cl = of_nat (length (ring cl)) * se"
    and "\<forall>i < n. i \<noteq> m \<longrightarrow> \<not> le_filled (first (m, CACHE_INDEX_LOG_PORT + i))"
  shows "\<exists>c1 ps cl'. foldR (\<lambda>e cl. mapR snd (append_entry se pick first e cl)) es cl = Inr c1
    \<and> append_entry se pick first e c1 = Inr (ps, cl')
    \<and> map post_qp ps = map (\<lambda>i. (i, CACHE_INDEX_LOG_PORT + m)) (filter (\<lambda>i. i \<noteq> m) [0..<n])
    \<and> (\<forall>p \<in> set ps. post_write p \<and> post_buffer p = m \<and> local_offset p = 0 \<and> remote_offset p = 0
         \<and> size_in_bytes p = of_nat (last_slot cl + 1) * se)
    \<and> take (last_slot cl) (ring cl') = map filled (e # es)"
proof -
  obtain c1 where c1: "foldR (\<lambda>e cl. mapR snd (append_entry se pick first e cl)) es cl = Inr c1" "log_ok n m c1"
    "max_cache_log_index c1 = max_cache_log_index cl"
    "ring c1 = take 1 (ring cl) @ map filled es @ drop (1 + length es) (ring cl)"
    "unat (next_index c1) = unat (next_index cl) + length es"
    "cache_index_log_entries_size c1 = cache_index_log_entries_size cl"
    using appends_fill [OF assms(1,2), of es se pick first] assms(3,5) by auto
  have "unat (next_index c1) mod last_slot c1 = (unat (next_index cl) mod last_slot cl + length es) mod last_slot cl"
    unfolding c1(3,5) by (simp add: mod_add_left_eq)
  also have "\<dots> = 0" unfolding assms(2) using assms(3) by simp
  finally have z: "next_index c1 mod max_cache_log_index c1 = 0" by (simp add: unat_mod flip: unat_eq_0)
  obtain c2 where c2: "append_entry se pick first e c1 = sync_logs se pick first c2" "log_ok n m c2"
    "max_cache_log_index c2 = max_cache_log_index cl" "ring c2 = (ring c1)[0 := filled e]"
    "cache_index_log_entries_size c2 = cache_index_log_entries_size cl"
    using append_put [OF c1(2), of se pick e] z c1(3,6) by auto
  obtain ps cl' where s: "sync_logs se pick first c2 = Inr (ps, cl')"
    "map post_qp ps = map (\<lambda>i. (i, CACHE_INDEX_LOG_PORT + m)) (others m [0..<n])"
    "\<forall>p \<in> set ps. post_write p \<and> post_buffer p = m \<and> local_offset p = 0 \<and> remote_offset p = 0
       \<and> size_in_bytes p = cache_index_log_entries_size c2"
    "take (last_slot c2) (ring cl') = take (last_slot c2) (ring c2)"
    using sync_logs_cases [OF c2(2), of first se pick] assms(7) by auto
  have "length (ring cl) = last_slot cl + 1" using assms(1) by (simp add: log_ok_def)
  then have sz: "cache_index_log_entries_size c2 = of_nat (last_slot cl + 1) * se" unfolding c2(5) assms(6) by simp
  obtain x xs where r: "ring cl = x # xs" using assms(1) by (cases "ring cl") (auto simp: log_ok_def)
  have "take (last_slot cl) (ring c2) = map filled (e # es)"
    unfolding c2(4) c1(4) r assms(3) [symmetric] by simp
  then have t: "take (last_slot cl) (ring cl') = map filled (e # es)" using s(4) unfolding c2(3) by simp
  show ?thesis
    by (intro exI [of _ c1] exI [of _ ps] exI [of _ cl'] conjI c1(1) t)
      (use c2(1) s(1-3) in \<open>simp_all only: sz others_def\<close>)
qed

theorem ring_ships_round_witness:
  "\<exists>cl c1 ps cl'. foldR (\<lambda>e cl. mapR snd (append_entry 32 (\<lambda>_. 0) (\<lambda>_. default_log_entry sample_api) e cl))
       [change 1 8, change 2 16, change 3 24] cl = Inr c1
    \<and> append_entry 32 (\<lambda>_. 0) (\<lambda>_. default_log_entry sample_api) (change 1 32) c1 = Inr (ps, cl')
    \<and> map post_qp ps = [(1, CACHE_INDEX_LOG_PORT)] \<and> (\<forall>p \<in> set ps. post_write p \<and> size_in_bytes p = 160)
    \<and> take 4 (ring cl') = [change 1 32, change 1 8, change 2 16, change 3 24]"
proof -
  let ?cl = "sample_logs\<lparr>machine_cache_index_logs := map (\<lambda>l. l\<lparr>ml_index := 1\<rparr>) (machine_cache_index_logs sample_logs)\<rparr>"
  have ok: "log_ok 2 0 ?cl" using sample_logs_ok(2) by (simp add: log_ok_def)
  have i: "next_index ?cl = 1" "last_slot ?cl = 4" using sample_logs_ok(3-5) by simp_all
  have sz: "cache_index_log_entries_size ?cl = of_nat (length (ring ?cl)) * 32"
    using sample_logs_ok(3-6) by simp
  have f: "\<forall>i < 2. i \<noteq> 0 \<longrightarrow> \<not> le_filled ((\<lambda>_. default_log_entry sample_api) (0 :: nat, CACHE_INDEX_LOG_PORT + i))"
    by (simp add: default_log_entry_def)
  obtain c1 ps cl' where r:
    "foldR (\<lambda>e cl. mapR snd (append_entry 32 (\<lambda>_. 0) (\<lambda>_. default_log_entry sample_api) e cl)) [change 1 8, change 2 16, change 3 24] ?cl = Inr c1"
    "append_entry 32 (\<lambda>_. 0) (\<lambda>_. default_log_entry sample_api) (change 1 32) c1 = Inr (ps, cl')"
    "map post_qp ps = map (\<lambda>i. (i, CACHE_INDEX_LOG_PORT + 0)) (filter (\<lambda>i. i \<noteq> 0) [0..<2])"
    "\<forall>p \<in> set ps. post_write p \<and> post_buffer p = 0 \<and> local_offset p = 0 \<and> remote_offset p = 0 \<and> size_in_bytes p = of_nat (4 + 1) * 32"
    "take 4 (ring cl') = map filled [change 1 32, change 1 8, change 2 16, change 3 24]"
    using ring_ships_round [OF ok, unfolded i, OF _ _ _ _ sz f, of "[change 1 8, change 2 16, change 3 24]" "\<lambda>_. 0" "change 1 32"] by auto
  have "map post_qp ps = [(1, CACHE_INDEX_LOG_PORT)]" unfolding r(3) by (simp add: upt_rec)
  moreover have "\<forall>p \<in> set ps. post_write p \<and> size_in_bytes p = 160" using r(4) by simp
  moreover have "take 4 (ring cl') = [change 1 32, change 1 8, change 2 16, change 3 24]" unfolding r(5) by (simp add: change_def)
  ultimately show ?thesis
    using r(1,2) by (intro exI [of _ ?cl] exI [of _ c1] exI [of _ ps] exI [of _ cl'] conjI)
qed

end
