(* ===== verification/Kv_Cache.thy ===== *)
theory Kv_Cache
  imports Coherence Cache_Logs Snapshots
begin

text \<open>
  The part of a server that keeps the replicated index in step with its cache and reads values
  from the other servers' memory (\<open>KeyValueStorage\<close> and \<open>RDMAKeyValueCache\<close> of
  \<open>src/src/ldc.h\<close>). \<open>'d\<close> is the record that a remote read returns (the third-party
  \<open>RDMACacheIndexKeyValue\<close>), \<open>'c\<close> a callback.
\<close>

definition KEY_VALUE_STORAGE_PORT :: nat where "KEY_VALUE_STORAGE_PORT = 50200"
definition CacheIndexValueQueueSize :: nat where "CacheIndexValueQueueSize = 50000"

definition make_KeyValueStorage ::
    "(nat \<Rightarrow> nat) \<Rightarrow> u64 \<Rightarrow> 'd \<Rightarrow> nat \<Rightarrow> u64 \<Rightarrow> remote_machine list \<Rightarrow> nat \<Rightarrow> ('d, 'c) rdma_queue" where
  "make_KeyValueStorage alloc sz d0 key_value_buffer key_value_buffer_size configs m =
     (let q = make_RDMADataWithQueue alloc sz d0 configs m CacheIndexValueQueueSize in
      q\<lparr>rdma := rdma_listen KEY_VALUE_STORAGE_PORT key_value_buffer key_value_buffer_size
         (rdma_connect KEY_VALUE_STORAGE_PORT (rdma q))\<rparr>)"

record ('e, 'd, 'c) kv_params =
  kv_api :: "'e index_api"
  sizeof_log_entry :: u64
  sizeof_key_value :: u64
  empty_key_value :: 'd
  pick_token :: "nat pick"
  pick_slot :: "('d, 'c) slot pick"
  first_remote_entry :: "nat \<times> nat \<Rightarrow> 'e log_entry"

record ('e, 'd, 'c) kv_cache =
  kv_config :: configuration
  cache_indexes :: "'e cache_indexes"
  cache_index_logs :: "'e cache_logs"
  key_value_storage :: "('d, 'c) rdma_queue"
  writes :: u64

abbreviation kv_me :: "('e, 'd, 'c) kv_cache \<Rightarrow> nat" where
  "kv_me kv \<equiv> me (cache_indexes kv)"

abbreviation kv_servers :: "('e, 'd, 'c) kv_cache \<Rightarrow> nat" where
  "kv_servers kv \<equiv> servers (cache_indexes kv)"

definition storage_read ::
    "('e, 'd, 'c) kv_params \<Rightarrow> nat \<Rightarrow> 'c option \<Rightarrow> 'e \<Rightarrow> ('e, 'd, 'c) kv_cache \<Rightarrow> (post \<times> ('e, 'd, 'c) kv_cache) res" where
  "storage_read P remote_index callback rdma_cache_index kv =
     (let remote_offset = key_value_ptr_offset (kv_api P) rdma_cache_index in
      mapR (\<lambda>(p, q). (p, kv\<lparr>key_value_storage := q\<rparr>))
        (queue_read (pick_slot P) (pick_token P) (sizeof_key_value P) remote_index callback (empty_key_value P)
          0 remote_offset (sizeof_key_value P) (key_value_storage kv)))"

section \<open>The cache's callbacks\<close>

definition on_write ::
    "('e, 'd, 'c) kv_params \<Rightarrow> string \<Rightarrow> ('e, 'd, 'c) kv_cache \<Rightarrow> (post list \<times> ('e, 'd, 'c) kv_cache) res" where
  "on_write P key kv =
     mapR (\<lambda>(posts, kv). (posts, kv\<lparr>writes := writes kv + 1\<rparr>))
      (if use_cache_logs (kv_config kv)
       then mapR (\<lambda>(posts, cl). (posts, kv\<lparr>cache_index_logs := cl\<rparr>))
         (append_entry_k (sizeof_log_entry P) (pick_token P) (first_remote_entry P) key (cache_index_logs kv, cache_indexes kv))
       else mapR (\<lambda>(posts, ci). (posts, kv\<lparr>cache_indexes := ci\<rparr>))
         (write_remote (kv_api P) (pick_token P) key (cache_indexes kv)))"

definition on_eviction ::
    "('e, 'd, 'c) kv_params \<Rightarrow> string \<Rightarrow> ('e, 'd, 'c) kv_cache \<times> Snapshot
     \<Rightarrow> (post list \<times> ('e, 'd, 'c) kv_cache \<times> Snapshot) res" where
  "on_eviction P key = (\<lambda>(kv, snapshot).
     bindR (stoi key) (\<lambda>k.
     bindR (update_evicted (of_int k) snapshot) (\<lambda>snapshot.
     mapR (\<lambda>(posts, kv). (posts, kv\<lparr>writes := writes kv + 1\<rparr>, snapshot))
      (if use_cache_logs (kv_config kv)
       then mapR (\<lambda>(posts, cl). (posts, kv\<lparr>cache_index_logs := cl\<rparr>))
         (append_entry_k (sizeof_log_entry P) (pick_token P) (first_remote_entry P) key (cache_index_logs kv, cache_indexes kv))
       else mapR (\<lambda>(posts, ci). (posts, kv\<lparr>cache_indexes := ci\<rparr>))
         (dealloc_remote (kv_api P) (pick_token P) key (cache_indexes kv))))))"

text \<open>
  What the third-party cache does, while a call of it runs, to the parts that the key-value cache
  has given it: it stores an entry in the registered array of this machine, and it calls the
  callbacks. Which events a call has, and in which order, is the cache's own affair.
\<close>

datatype 'e cache_event = Entry_stored nat 'e | Key_written string | Key_evicted string

fun run_cache_event ::
    "('e, 'd, 'c) kv_params \<Rightarrow> 'e cache_event \<Rightarrow> ('e, 'd, 'c) kv_cache \<times> Snapshot \<Rightarrow> (('e, 'd, 'c) kv_cache \<times> Snapshot) res" where
  "run_cache_event P (Entry_stored k e) (kv, sn) = Inr (kv\<lparr>cache_indexes := set_entry (kv_me kv) k e (cache_indexes kv)\<rparr>, sn)"
| "run_cache_event P (Key_written key) (kv, sn) = mapR (\<lambda>(_, kv). (kv, sn)) (on_write P key kv)"
| "run_cache_event P (Key_evicted key) (kv, sn) = mapR snd (on_eviction P key (kv, sn))"

lemma run_cache_event_storage:
  "run_cache_event P ev (kv, sn) = Inr (kv', sn') \<Longrightarrow> key_value_storage kv' = key_value_storage kv"
  by (cases ev) (auto simp: on_write_def on_eviction_def mapR_Inr_iff bindR_Inr_iff split: if_splits)

section \<open>Reading from another server\<close>

definition kv_read ::
    "('e, 'd, 'c) kv_params \<Rightarrow> nat \<Rightarrow> u64 \<Rightarrow> ('e, 'd, 'c) kv_cache \<Rightarrow> (post \<times> ('e, 'd, 'c) kv_cache) res" where
  "kv_read P remote_index k_idx kv =
     bindR (get_cache_index remote_index (cache_indexes kv)) (\<lambda>cache_index.
     bindR (vec_at cache_index (unat k_idx)) (\<lambda>ci.
     storage_read P remote_index None ci kv))"

text \<open>The loop of \<open>read_callback\<close>: the first other server whose index entry holds a pointer.\<close>

fun find_holder :: "'e index_api \<Rightarrow> 'e cache_indexes \<Rightarrow> u64 \<Rightarrow> nat list \<Rightarrow> (nat \<times> 'e) option res" where
  "find_holder api ci k_idx [] = Inr None"
| "find_holder api ci k_idx (i # is) =
     (if i = me ci then find_holder api ci k_idx is
      else bindR (get_cache_index i ci) (\<lambda>cache_index.
        bindR (vec_at cache_index (unat k_idx)) (\<lambda>e.
        if key_value_ptr_offset api e = KEY_VALUE_PTR_INVALID api
        then find_holder api ci k_idx is
        else Inr (Some (i, e)))))"

definition read_callback ::
    "('e, 'd, 'c) kv_params \<Rightarrow> u64 \<Rightarrow> 'c \<Rightarrow> ('e, 'd, 'c) kv_cache \<Rightarrow> (bool \<times> post list \<times> ('e, 'd, 'c) kv_cache) res" where
  "read_callback P k_idx callback kv =
     bindR (find_holder (kv_api P) (cache_indexes kv) k_idx [0..<kv_servers kv]) (\<lambda>holder.
     case holder of
       None \<Rightarrow> Inr (False, [], kv)
     | Some (i, e) \<Rightarrow> mapR (\<lambda>(p, kv). (True, [p], kv)) (storage_read P i (Some callback) e kv))"

definition kv_update_local_key ::
    "('e, 'd, 'c) kv_params \<Rightarrow> u64 \<Rightarrow> u64 \<Rightarrow> ('e, 'd, 'c) kv_cache \<Rightarrow> ('e, 'd, 'c) kv_cache res" where
  "kv_update_local_key P expected_key key kv =
     mapR (\<lambda>ci. kv\<lparr>cache_indexes := ci\<rparr>) (update_local_key (kv_api P) expected_key key (cache_indexes kv))"

definition kv_execute_pending ::
    "('e, 'd, 'c) kv_params \<Rightarrow> (post \<Rightarrow> 'd) \<Rightarrow> (('d, 'c) slot \<Rightarrow> 's \<Rightarrow> 's res) \<Rightarrow> ('c \<Rightarrow> 'd \<Rightarrow> 's \<Rightarrow> 's res)
     \<Rightarrow> ('s \<Rightarrow> 's res) \<Rightarrow> ('e, 'd, 'c) kv_cache \<times> 's \<Rightarrow> (('e, 'd, 'c) kv_cache \<times> 's) res" where
  "kv_execute_pending P arrive on_key_value_storage_read run_callback on_cache_index_write = (\<lambda>(kv, st).
     bindR (logs_execute_pending (pick_token P) on_cache_index_write (cache_index_logs kv, st)) (\<lambda>(cl, st).
     bindR (indexes_execute_pending (pick_token P) on_cache_index_write (cache_indexes kv, st)) (\<lambda>(ci, st).
     bindR (queue_execute_pending (pick_slot P) arrive on_key_value_storage_read run_callback (key_value_storage kv, st)) (\<lambda>(q, st).
     Inr (kv\<lparr>cache_index_logs := cl, cache_indexes := ci, key_value_storage := q\<rparr>, st)))))"

section \<open>Lemmas\<close>

text \<open>Well-formed: \<open>n\<close> servers, index arrays of \<open>len\<close> entries, a storage with \<open>slots\<close> data slots.\<close>

definition kv_ok :: "('e, 'd, 'c) kv_params \<Rightarrow> nat \<Rightarrow> nat \<Rightarrow> nat \<Rightarrow> nat \<Rightarrow> ('e, 'd, 'c) kv_cache \<Rightarrow> bool" where
  "kv_ok P n len slots m kv \<longleftrightarrow> ci_ok (kv_api P) n len m (cache_indexes kv)
     \<and> queue_ok slots (key_value_storage kv)
     \<and> connect_qps (rdma (key_value_storage kv)) = map (\<lambda>i. (i, KEY_VALUE_STORAGE_PORT)) [0..<n]"

definition holders :: "('e, 'd, 'c) kv_params \<Rightarrow> u64 \<Rightarrow> ('e, 'd, 'c) kv_cache \<Rightarrow> nat list" where
  "holders P k kv = filter (\<lambda>i. i \<noteq> kv_me kv \<and> valid_entry (kv_api P) (rdma_cache_indexes (cache_indexes kv) ! i ! unat k))
     [0..<kv_servers kv]"

lemma find_holder_eq:
  assumes "ci_ok api n len m ci" "unat k < len" "set is \<subseteq> {..<n}"
  shows "find_holder api ci k is = Inr
    (case filter (\<lambda>i. i \<noteq> me ci \<and> valid_entry api (rdma_cache_indexes ci ! i ! unat k)) is of
       [] \<Rightarrow> None | i # _ \<Rightarrow> Some (i, rdma_cache_indexes ci ! i ! unat k))"
  using assms
proof (induction "is")
  case (Cons i "is")
  have "length (rdma_cache_indexes ci) = n" "\<forall>a < n. length (rdma_cache_indexes ci ! a) = len"
    using assms(1) by (simp_all add: ci_ok_def)
  with Cons show ?case by (simp add: get_cache_index_def valid_entry_def)
qed simp

lemma storage_read_ok:
  assumes "kv_ok P n len slots m kv" "i < n" "free_queue (key_value_storage kv) \<noteq> []"
  shows "\<exists>p kv'. storage_read P i cb e kv = Inr (p, kv') \<and> post_qp p = (i, KEY_VALUE_STORAGE_PORT)
    \<and> remote_offset p = key_value_ptr_offset (kv_api P) e \<and> \<not> post_write p
    \<and> (\<exists>s. pending_read_queue (key_value_storage kv') = pending_read_queue (key_value_storage kv) @ [s]
        \<and> slot_callback s = cb \<and> slot_post s = Some p)
    \<and> cache_indexes kv' = cache_indexes kv \<and> kv_ok P n len slots m kv'"
proof -
  have q: "queue_ok slots (key_value_storage kv)" "i < length (connect_qps (rdma (key_value_storage kv)))"
    "connect_qps (rdma (key_value_storage kv)) ! i = (i, KEY_VALUE_STORAGE_PORT)"
    using assms by (simp_all add: kv_ok_def)
  obtain p q' where "queue_read (pick_slot P) (pick_token P) (sizeof_key_value P) i cb (empty_key_value P) 0
      (key_value_ptr_offset (kv_api P) e) (sizeof_key_value P) (key_value_storage kv) = Inr (p, q')"
    "post_qp p = (i, KEY_VALUE_STORAGE_PORT)" "remote_offset p = key_value_ptr_offset (kv_api P) e" "\<not> post_write p"
    "\<exists>s. pending_read_queue q' = pending_read_queue (key_value_storage kv) @ [s] \<and> slot_callback s = cb \<and> slot_post s = Some p"
    "queue_ok slots q'" "connect_qps (rdma q') = connect_qps (rdma (key_value_storage kv))"
    using queue_read_ok [OF q(1) assms(3) q(2), of "pick_slot P" "pick_token P" "sizeof_key_value P" cb "empty_key_value P" 0
        "key_value_ptr_offset (kv_api P) e" "sizeof_key_value P"] q(3) by auto
  then show ?thesis using assms(1) by (simp add: storage_read_def Let_def kv_ok_def)
qed

text \<open>The first element that a filter keeps.\<close>

lemma filter_upt_first:
  "filter Q [0..<n] = i # is \<Longrightarrow> i < n \<and> Q i \<and> (\<forall>j < i. \<not> Q j)"
proof (induction n arbitrary: "is")
  case (Suc n)
  show ?case
  proof (cases "filter Q [0..<n]")
    case Nil
    then have none: "\<forall>j < n. \<not> Q j" by (auto simp: filter_empty_conv)
    have "filter Q [n] = i # is" using Suc.prems Nil by simp
    then have "i = n" "Q n" by (auto split: if_splits)
    with none show ?thesis by simp
  next
    case (Cons i' is')
    then have "i' = i" using Suc.prems by simp
    with Suc.IH Cons show ?thesis by auto
  qed
qed simp

lemma read_callback_cases:
  assumes "kv_ok P n len slots m kv" "unat k < len"
  shows "case holders P k kv of
      [] \<Rightarrow> read_callback P k cb kv = Inr (False, [], kv)
    | i # _ \<Rightarrow> if free_queue (key_value_storage kv) = [] then read_callback P k cb kv = Inl (Blocked ''free_queue'')
        else \<exists>p s kv'. read_callback P k cb kv = Inr (True, [p], kv') \<and> \<not> post_write p
          \<and> post_qp p = (i, KEY_VALUE_STORAGE_PORT)
          \<and> remote_offset p = key_value_ptr_offset (kv_api P) (rdma_cache_indexes (cache_indexes kv) ! i ! unat k)
          \<and> pending_read_queue (key_value_storage kv') = pending_read_queue (key_value_storage kv) @ [s]
          \<and> slot_callback s = Some cb \<and> slot_post s = Some p \<and> kv_ok P n len slots m kv'"
proof -
  have ci: "ci_ok (kv_api P) n len m (cache_indexes kv)" "kv_servers kv = n"
    using assms(1) by (simp_all add: kv_ok_def ci_ok_def)
  have f: "find_holder (kv_api P) (cache_indexes kv) k [0..<kv_servers kv] = Inr (case holders P k kv of
      [] \<Rightarrow> None | i # _ \<Rightarrow> Some (i, rdma_cache_indexes (cache_indexes kv) ! i ! unat k))"
    using find_holder_eq [OF ci(1) assms(2) upt_below] by (simp add: holders_def ci(2))
  show ?thesis
  proof (cases "holders P k kv")
    case Nil
    with f show ?thesis by (simp add: read_callback_def)
  next
    case (Cons i "is")
    have "i \<in> set (holders P k kv)" using Cons by simp
    then have i: "i < n" using ci(2) by (simp add: holders_def)
    let ?e = "rdma_cache_indexes (cache_indexes kv) ! i ! unat k"
    have r: "read_callback P k cb kv = mapR (\<lambda>(p, kv). (True, [p], kv)) (storage_read P i (Some cb) ?e kv)"
      using f Cons by (simp add: read_callback_def)
    show ?thesis
    proof (cases "free_queue (key_value_storage kv) = []")
      case True
      then show ?thesis using Cons r by (simp add: storage_read_def queue_read_def try_dequeue_def Let_def)
    next
      case False
      from storage_read_ok [OF assms(1) i False, of "Some cb" ?e] r Cons False show ?thesis by auto
    qed
  qed
qed

section \<open>Properties\<close>

text \<open>A server among two with one data slot, for concrete runs.\<close>

definition sample_params :: "(u64, u64, 'c) kv_params" where
  "sample_params = \<lparr>kv_api = sample_api, sizeof_log_entry = 32, sizeof_key_value = 8, empty_key_value = 0,
     pick_token = (\<lambda>_. 0), pick_slot = (\<lambda>_. 0), first_remote_entry = (\<lambda>_. default_log_entry sample_api)\<rparr>"

definition sample_storage :: "(u64, 'c) rdma_queue" where
  "sample_storage = (let q = make_RDMADataWithQueue (\<lambda>i. 4096 + 8 * i) 8 0 two_servers 0 1 in
     q\<lparr>rdma := rdma_connect KEY_VALUE_STORAGE_PORT (rdma q)\<rparr>)"

definition sample_kv :: "u64 cache_indexes \<Rightarrow> (u64, u64, 'c) kv_cache" where
  "sample_kv ci = \<lparr>kv_config = sample_config, cache_indexes = ci, cache_index_logs = sample_logs,
     key_value_storage = sample_storage, writes = 0\<rparr>"

definition mirrored_indexes :: "u64 cache_indexes" where
  "mirrored_indexes = make_CacheIndexes sample_api [-1, -1, 64, -1] (\<lambda>_. [-1, 128, -1, -1]) two_servers 0"

lemma sample_storage_ok:
  "queue_ok 1 (sample_storage :: (u64, 'c) rdma_queue)" "length (free_queue (sample_storage :: (u64, 'c) rdma_queue)) = 1"
  "connect_qps (rdma (sample_storage :: (u64, 'c) rdma_queue)) = map (\<lambda>i. (i, KEY_VALUE_STORAGE_PORT)) [0..<2]"
proof -
  let ?q = "make_RDMADataWithQueue (\<lambda>i. 4096 + 8 * i) 8 0 two_servers 0 1 :: (u64, 'c) rdma_queue"
  have "queue_ok 1 ?q" by (rule make_queue_ok) (simp add: FreeRequestTokenQueueSize_def)
  then show "queue_ok 1 (sample_storage :: (u64, 'c) rdma_queue)"
    by (simp add: queue_ok_def slot_bag_def token_bag_def rdma_connect_def sample_storage_def Let_def)
  show "length (free_queue (sample_storage :: (u64, 'c) rdma_queue)) = 1"
    "connect_qps (rdma (sample_storage :: (u64, 'c) rdma_queue)) = map (\<lambda>i. (i, KEY_VALUE_STORAGE_PORT)) [0..<2]"
    by (simp_all add: sample_storage_def make_RDMADataWithQueue_def make_RDMAData_def two_servers_def Let_def enqueue_def
        get_buffer_def rdma_connect_def numeral_2_eq_2)
qed

lemma sample_params_simps [simp]:
  "kv_api sample_params = sample_api" "key_value_ptr_offset sample_api = id" "KEY_VALUE_PTR_INVALID sample_api = -1"
  "InvalidRDMACacheIndex sample_api = -1"
  by (simp_all add: sample_params_def sample_api_def)

lemma sample_kv_simps [simp]:
  "cache_indexes (sample_kv ci) = ci" "key_value_storage (sample_kv ci) = sample_storage"
  "free_queue (sample_storage :: (u64, 'c) rdma_queue) \<noteq> []"
proof -
  show "cache_indexes (sample_kv ci) = ci" "key_value_storage (sample_kv ci) = sample_storage" by (simp_all add: sample_kv_def)
  have "length (free_queue (sample_storage :: (u64, 'c) rdma_queue)) = 1" by (rule sample_storage_ok(2))
  then show "free_queue (sample_storage :: (u64, 'c) rdma_queue) \<noteq> []" by auto
qed

lemma sample_kv_ok: "ci_ok sample_api 2 4 m ci \<Longrightarrow> kv_ok sample_params 2 4 1 m (sample_kv ci)"
  using sample_storage_ok by (simp add: kv_ok_def)

lemma mirrored_indexes_ok:
  "ci_ok sample_api 2 4 0 mirrored_indexes" "rdma_cache_indexes mirrored_indexes = [[-1, -1, 64, -1], [-1, 128, -1, -1]]"
  using make_CacheIndexes_ok [of 0 two_servers "[-1, -1, 64, -1]" 4 "\<lambda>_. [-1, 128, -1, -1]" sample_api]
  by (simp_all add: mirrored_indexes_def two_servers_def upt_rec numeral_eq_Suc)

lemma mirrored_holders: "holders sample_params 1 (sample_kv mirrored_indexes) = [1]"
proof -
  have "kv_me (sample_kv mirrored_indexes) = 0" "kv_servers (sample_kv mirrored_indexes) = 2"
    using mirrored_indexes_ok(1) by (simp_all add: ci_ok_def sample_kv_def)
  then show ?thesis
    by (simp add: holders_def upt_rec) (simp add: sample_kv_def mirrored_indexes_ok(2) valid_entry_def)
qed

text \<open>
  A remote read looks at the mirrors in server order, skips this server and the
  servers without a pointer, and posts exactly one read, at the pointer of the first server
  left, with the callback; it reports whether there was one and waits when no data slot is free.
\<close>

theorem read_callback_branches:
  assumes "kv_ok P n len slots m kv" "unat k < len"
  shows "case holders P k kv of
      [] \<Rightarrow> read_callback P k cb kv = Inr (False, [], kv)
    | i # _ \<Rightarrow> if free_queue (key_value_storage kv) = [] then read_callback P k cb kv = Inl (Blocked ''free_queue'')
        else \<exists>p s kv'. read_callback P k cb kv = Inr (True, [p], kv') \<and> \<not> post_write p
          \<and> post_qp p = (i, KEY_VALUE_STORAGE_PORT)
          \<and> remote_offset p = key_value_ptr_offset (kv_api P) (rdma_cache_indexes (cache_indexes kv) ! i ! unat k)
          \<and> pending_read_queue (key_value_storage kv') = pending_read_queue (key_value_storage kv) @ [s]
          \<and> slot_callback s = Some cb \<and> slot_post s = Some p \<and> kv_ok P n len slots m kv'"
  by (rule read_callback_cases [OF assms])

theorem read_callback_branches_witness:
  "\<exists>p kv. read_callback sample_params 1 ''cb'' (sample_kv mirrored_indexes) = Inr (True, [p], kv)
    \<and> post_qp p = (1, 50200) \<and> remote_offset p = 128"
  using read_callback_branches [OF sample_kv_ok [OF mirrored_indexes_ok(1)], of 1 "''cb''"]
  by (auto simp: mirrored_holders mirrored_indexes_ok(2) KEY_VALUE_STORAGE_PORT_def)

text \<open>
  Property C3: in a cluster without writes under way, a server that looks for a key which some
  other server holds posts exactly one read, to the first server in order that does hold it, at
  the pointer in that server's own index, and one slot that carries the callback and this read
  joins the pending ones; when no other server holds the key it reports so, posts nothing and
  changes nothing. A free data slot is assumed; without one the code waits.
\<close>

theorem read_callback_aims_right:
  assumes "(cluster_step (kv_api P) n len pick)\<^sup>*\<^sup>* (initial_cluster (kv_api P) configs len) C"
    and "index_params (kv_api P) n len" "length (filter rm_server configs) = n" "quiescent n C"
    and "kv_ok P n len slots m kv" "cache_indexes kv = node C m" "unat k < len" "free_queue (key_value_storage kv) \<noteq> []"
  shows "if \<exists>i < n. i \<noteq> m \<and> valid_entry (kv_api P) (entry C i i (unat k))
    then \<exists>i p s kv'. read_callback P k cb kv = Inr (True, [p], kv')
      \<and> i < n \<and> i \<noteq> m \<and> valid_entry (kv_api P) (entry C i i (unat k))
      \<and> (\<forall>j < i. j = m \<or> \<not> valid_entry (kv_api P) (entry C j j (unat k)))
      \<and> \<not> post_write p \<and> post_qp p = (i, KEY_VALUE_STORAGE_PORT)
      \<and> remote_offset p = key_value_ptr_offset (kv_api P) (entry C i i (unat k))
      \<and> pending_read_queue (key_value_storage kv') = pending_read_queue (key_value_storage kv) @ [s]
      \<and> slot_callback s = Some cb \<and> slot_post s = Some p
    else read_callback P k cb kv = Inr (False, [], kv)"
proof -
  let ?holds = "\<lambda>i. i \<noteq> m \<and> valid_entry (kv_api P) (entry C i i (unat k))"
  have coh: "coherent n len C" by (rule quiescent_coherent [OF reachable_inv [OF assms(1-3)] assms(4)])
  have m: "m < n" "kv_me kv = m" "kv_servers kv = n" using assms(5) by (simp_all add: kv_ok_def ci_ok_def)
  have e: "rdma_cache_indexes (cache_indexes kv) ! i ! unat k = entry C i i (unat k)" if "i < n" for i
  proof -
    have "entry C m i (unat k) = entry C i i (unat k)" using coh that m(1) assms(7) unfolding coherent_def by blast
    then show ?thesis using assms(6) by (simp add: entry_def)
  qed
  have h: "holders P k kv = filter ?holds [0..<n]"
    unfolding holders_def m using e by (intro filter_cong) auto
  note b = read_callback_cases [OF assms(5,7), of cb]
  show ?thesis
  proof (cases "holders P k kv")
    case Nil
    then have "\<not> (\<exists>i < n. ?holds i)" unfolding h filter_empty_conv by auto
    with b Nil show ?thesis by simp
  next
    case (Cons i "is")
    have i: "i < n" "?holds i" "\<forall>j < i. \<not> ?holds j"
      using filter_upt_first [OF Cons [unfolded h]] by simp_all
    from b Cons assms(8) e [OF i(1)] obtain p s kv' where p: "read_callback P k cb kv = Inr (True, [p], kv')"
      "\<not> post_write p" "post_qp p = (i, KEY_VALUE_STORAGE_PORT)"
      "remote_offset p = key_value_ptr_offset (kv_api P) (entry C i i (unat k))"
      "pending_read_queue (key_value_storage kv') = pending_read_queue (key_value_storage kv) @ [s]"
      "slot_callback s = Some cb" "slot_post s = Some p" by auto
    have "\<exists>i < n. ?holds i" using i by blast
    with p i show ?thesis by auto
  qed
qed

text \<open>Server 0 stores key 2, and once the writes have landed server 1 reads it there.\<close>

theorem read_callback_aims_right_witness:
  "\<exists>C p (kv :: (u64, u64, string) kv_cache). entry C 0 0 2 = 64
     \<and> read_callback sample_params 2 ''cb'' (sample_kv (node C 1)) = Inr (True, [p], kv)
     \<and> post_qp p = (0, 50200) \<and> remote_offset p = 64"
proof -
  let ?A = "kv_api (sample_params :: (u64, u64, string) kv_params)" and ?C = "initial_cluster sample_api two_servers 4"
  have a: "?A = sample_api" by simp
  obtain D where D: "(cluster_step sample_api 2 4 (\<lambda>_. 0))\<^sup>*\<^sup>* ?C D" "entry D 0 0 2 = 64" using sample_put by blast
  obtain E where E: "(cluster_step sample_api 2 4 (\<lambda>_. 0))\<^sup>*\<^sup>* D E" "quiescent 2 E" "same_own 2 4 D E"
    using can_settle [OF reachable_inv [OF D(1) sample_params_ok two_servers_two] sample_params_ok] by blast
  have r: "(cluster_step sample_api 2 4 (\<lambda>_. 0))\<^sup>*\<^sup>* ?C E" by (rule rtranclp_trans [OF D(1) E(1)])
  have own: "entry E 0 0 2 = 64" using E(3) D(2) by (simp add: same_own_def)
  have ok: "kv_ok sample_params 2 4 1 1 (sample_kv (node E 1) :: (u64, u64, string) kv_cache)"
    using sample_kv_ok cluster_invD(1) [OF reachable_inv [OF r sample_params_ok two_servers_two], of 1] by simp
  have v: "valid_entry ?A (entry E i i 2)" if "i < 2" "i \<noteq> 1" for i
  proof -
    have "i = 0" using that by simp
    then show ?thesis using own by (simp add: a valid_entry_def)
  qed
  have h: "\<exists>i < 2. i \<noteq> 1 \<and> valid_entry ?A (entry E i i (unat (2 :: u64)))"
    by (rule exI [of _ 0]) (use v [of 0] in simp)
  from read_callback_aims_right [where P = "sample_params :: (u64, u64, string) kv_params" and k = 2 and cb = "''cb''" and m = 1,
      unfolded a, OF r sample_params_ok two_servers_two E(2) ok _ _ , unfolded if_P [OF h [unfolded a]]]
  obtain i p and kv :: "(u64, u64, string) kv_cache" where
    "read_callback sample_params 2 ''cb'' (sample_kv (node E 1)) = Inr (True, [p], kv)" "i < 2" "i \<noteq> 1"
    "post_qp p = (i, KEY_VALUE_STORAGE_PORT)" "remote_offset p = entry E i i 2" by auto
  moreover have "i = 0" using calculation by simp
  ultimately show ?thesis using own by (auto simp: KEY_VALUE_STORAGE_PORT_def)
qed

text \<open>
  Property C25: after a remote read returned another key than the expected one, repairing the
  index with \<open>update_local_key\<close> leaves the servers that a read of the expected key looks at,
  and the pointer it follows, unchanged: the next read of the expected key goes wrong the same
  way.
\<close>

theorem repair_keeps_stale_pointer:
  assumes "kv_ok P n len slots m kv" "unat expected_key < len" "unat found < len"
    and "found \<noteq> KEY_VALUE_PTR_INVALID (kv_api P)" "found \<noteq> expected_key"
  shows "\<exists>kv'. kv_update_local_key P expected_key found kv = Inr kv'
    \<and> holders P expected_key kv' = holders P expected_key kv
    \<and> (\<forall>i \<in> set (holders P expected_key kv). rdma_cache_indexes (cache_indexes kv') ! i ! unat expected_key
        = rdma_cache_indexes (cache_indexes kv) ! i ! unat expected_key)"
proof -
  have ci: "ci_ok (kv_api P) n len m (cache_indexes kv)" using assms(1) by (simp add: kv_ok_def)
  have ne: "unat expected_key \<noteq> unat found" using assms(5) by (metis word_unat_eq_iff)
  obtain ci' where u: "update_local_key (kv_api P) expected_key found (cache_indexes kv) = Inr ci'" "ci_ok (kv_api P) n len m ci'"
    "\<forall>i < n. \<forall>j < len. rdma_cache_indexes ci' ! i ! j = (if i \<in> set [0..<n] \<and> i \<noteq> m \<and> j = unat found
      then rdma_cache_indexes (cache_indexes kv) ! m ! unat expected_key else rdma_cache_indexes (cache_indexes kv) ! i ! j)"
    using update_local_loop [OF ci assms(2,3) upt_below] ci assms(4) unfolding update_local_key_def ci_ok_def by auto
  have n: "kv_servers kv = n" "servers ci' = n" "kv_me kv = m" "me ci' = m" using ci u(2) by (simp_all add: ci_ok_def)
  have same: "rdma_cache_indexes ci' ! i ! unat expected_key = rdma_cache_indexes (cache_indexes kv) ! i ! unat expected_key"
    if "i < n" for i using u(3) that assms(2) ne by simp
  let ?kv = "kv\<lparr>cache_indexes := ci'\<rparr>"
  have h: "holders P expected_key ?kv = holders P expected_key kv"
    unfolding holders_def using same n by (auto intro!: filter_cong)
  have "\<forall>i \<in> set (holders P expected_key kv). rdma_cache_indexes (cache_indexes ?kv) ! i ! unat expected_key
        = rdma_cache_indexes (cache_indexes kv) ! i ! unat expected_key"
    using same n by (auto simp: holders_def)
  with h u(1) show ?thesis by (auto simp: kv_update_local_key_def)
qed

theorem repair_keeps_stale_pointer_witness:
  "\<exists>kv :: (u64, u64, string) kv_cache. kv_update_local_key sample_params 1 3 (sample_kv mirrored_indexes) = Inr kv \<and> holders sample_params 1 kv = [1]"
  using repair_keeps_stale_pointer [OF sample_kv_ok [OF mirrored_indexes_ok(1)], of 1 3]
  by (auto simp: mirrored_holders)

end
