(* ===== verification/Placement.thy ===== *)
theory Placement
  imports Config
begin

text \<open>
  Where a key lives in the one-sided memory of the servers when the cache index is not used
  (\<open>calculateNodeAndOffset\<close>, \<open>write_correct_node\<close> and \<open>rdma_writer_thread\<close> of
  \<open>src/src/rdma_reads.cpp\<close>). The registered memory of a server is a map from byte addresses to
  bytes; a one-sided write replaces the bytes at its offset, a read returns them.
\<close>

section \<open>Node and offset of a key\<close>

definition calculateNodeAndOffset :: "configuration \<Rightarrow> u64 \<Rightarrow> (int \<times> u64) res" where
  "calculateNodeAndOffset config key =
     bindR (int_div (NUM_KEY_VALUE_PAIRS config) (NUM_NODES config)) (\<lambda>q.
     let keys_per_node = of_int q; total = keys_per_node * of_int (NUM_NODES config) in
     if total < key then Inr (0, keys_per_node + (key - total))
     else
       bindR (u64_div (key - 1) keys_per_node) (\<lambda>node.
       bindR (u64_mod (key - 1) keys_per_node) (\<lambda>offset.
       Inr (int_of_u64 node, offset))))"

section \<open>Reading and writing blocks\<close>

type_synonym byte = "8 word"
type_synonym region = "nat \<Rightarrow> byte"
type_synonym rdma_nodes = "u64 \<rightharpoonup> region"

definition BLKSZ :: nat where "BLKSZ = 4096"

definition write_bytes :: "nat \<Rightarrow> byte list \<Rightarrow> region \<Rightarrow> region" where
  "write_bytes off bs mem = (\<lambda>a. if off \<le> a \<and> a < off + length bs then bs ! (a - off) else mem a)"

definition read_bytes :: "nat \<Rightarrow> nat \<Rightarrow> region \<Rightarrow> byte list" where
  "read_bytes off n mem = map mem [off..<off + n]"

text \<open>
  \<open>rdma_nodes[node + server_start_index]\<close>: a missing entry is default-constructed by
  \<open>operator[]\<close>, and its uninitialised queue pair is used.
\<close>

definition node_at :: "int \<Rightarrow> int \<Rightarrow> rdma_nodes \<Rightarrow> (u64 \<times> region) res" where
  "node_at node server_start_index nodes =
     bindR (ck_int (node + server_start_index)) (\<lambda>i.
     case nodes (of_int i) of None \<Rightarrow> Inl (Undefined ''default RDMA_connect'') | Some mem \<Rightarrow> Inr (of_int i, mem))"

text \<open>
  Every server registers one gigabyte (\<open>RDMA_Server_Init\<close> is started with \<open>1 * GB_TO_BYTES\<close>). A
  remote read or write that leaves the registered memory is a fault of the RDMA library.
\<close>

definition GB_TO_BYTES :: int where "GB_TO_BYTES = 1024 * 1024 * 1024"

definition registered_bytes :: nat where "registered_bytes = nat (1 * GB_TO_BYTES)"

definition registered :: "u64 \<Rightarrow> nat \<Rightarrow> bool" where
  "registered offset n \<longleftrightarrow> unat offset + n \<le> registered_bytes"

definition rdma_writer_thread :: "u64 \<Rightarrow> u64 \<Rightarrow> byte list \<Rightarrow> rdma_nodes \<Rightarrow> rdma_nodes res" where
  "rdma_writer_thread i offset buffer_data nodes =
     bindR (guardR (registered offset (length buffer_data)) (Undefined ''outside the registered memory'')) (\<lambda>_.
     Inr (nodes(i := map_option (write_bytes (unat offset) buffer_data) (nodes i))))"

definition write_correct_node ::
    "configuration \<Rightarrow> int \<Rightarrow> u64 \<Rightarrow> byte list \<Rightarrow> rdma_nodes \<Rightarrow> rdma_nodes res" where
  "write_correct_node config server_start_index key buffer_data nodes =
     bindR (calculateNodeAndOffset config key) (\<lambda>(node, remote_offset).
     bindR (node_at node server_start_index nodes) (\<lambda>(i, _).
     rdma_writer_thread i remote_offset buffer_data nodes))"

text \<open>The bytes that a synchronous \<open>rdma_reader_thread\<close> copies out of a region, and those of a key.\<close>

definition rdma_reader_sync :: "u64 \<Rightarrow> region \<Rightarrow> byte list res" where
  "rdma_reader_sync offset mem =
     bindR (guardR (registered offset BLKSZ) (Undefined ''outside the registered memory'')) (\<lambda>_.
     Inr (read_bytes (unat offset) BLKSZ mem))"

definition read_block_of ::
    "configuration \<Rightarrow> int \<Rightarrow> u64 \<Rightarrow> rdma_nodes \<Rightarrow> byte list res" where
  "read_block_of config server_start_index key nodes =
     bindR (calculateNodeAndOffset config key) (\<lambda>(node, remote_offset).
     bindR (node_at node server_start_index nodes) (\<lambda>(_, mem).
     rdma_reader_sync remote_offset mem))"

section \<open>Lemmas\<close>

definition place_ok :: "configuration \<Rightarrow> bool" where
  "place_ok config \<longleftrightarrow> 0 < NUM_NODES config \<and> NUM_NODES config \<le> NUM_KEY_VALUE_PAIRS config
     \<and> NUM_KEY_VALUE_PAIRS config < 2 ^ 31"

definition key_ok :: "configuration \<Rightarrow> u64 \<Rightarrow> bool" where
  "key_ok config key \<longleftrightarrow> 0 < unat key \<and> unat key \<le> nat (NUM_KEY_VALUE_PAIRS config)"

text \<open>The placement in natural numbers.\<close>

definition place :: "configuration \<Rightarrow> nat \<Rightarrow> nat \<times> nat" where
  "place config k =
     (let n = nat (NUM_NODES config); kpn = nat (NUM_KEY_VALUE_PAIRS config) div n in
      if kpn * n < k then (0, kpn + (k - kpn * n)) else ((k - 1) div kpn, (k - 1) mod kpn))"

lemma calculate_eq_place:
  assumes "place_ok config" "key_ok config key"
  shows "calculateNodeAndOffset config key
    = Inr (int (fst (place config (unat key))), of_nat (snd (place config (unat key))))"
proof -
  obtain n N where n: "NUM_NODES config = int n" "NUM_KEY_VALUE_PAIRS config = int N"
    using assms(1) by (metis place_ok_def less_imp_le order.trans zero_le_imp_eq_int)
  let ?q = "N div n" and ?k = "unat key"
  have b: "0 < n" "n \<le> N" "N < 2 ^ 31" "0 < ?k" "?k \<le> N" using assms n by (simp_all add: place_ok_def key_ok_def)
  have q: "0 < ?q" "?q \<le> N" "?q * n \<le> N" using b by (simp_all add: div_greater_zero_iff)
  have d: "int_div (int N) (int n) = Inr (int ?q)"
    using b by (simp add: int_div_pos in_int_def int_min_def int_max_def zdiv_int)
  have c: "calculateNodeAndOffset config key = (if of_nat ?q * of_nat n < key then Inr (0, of_nat ?q + (key - of_nat ?q * of_nat n))
    else bindR (u64_div (key - 1) (of_nat ?q)) (\<lambda>node. bindR (u64_mod (key - 1) (of_nat ?q)) (\<lambda>offset. Inr (int_of_u64 node, offset))))"
    unfolding calculateNodeAndOffset_def n d bindR_simps Let_def by simp
  have N64: "N < 2 ^ 64" using b(3) by simp
  have "?q < 2 ^ 64" "n < 2 ^ 64" using le_less_trans [OF q(2) N64] le_less_trans [OF b(2) N64] by simp_all
  then have uq: "unat (of_nat ?q :: u64) = ?q" and un: "unat (of_nat n :: u64) = n" by simp_all
  have ut: "unat (of_nat ?q * of_nat n :: u64) = ?q * n"
  proof -
    have "unat (of_nat (?q * n) :: u64) = ?q * n" using le_less_trans [OF q(3) N64] by (rule unat_of_nat_u64)
    then show ?thesis by simp
  qed
  have k1: "unat (key - 1) = ?k - 1" using b(4) by (simp add: unat_minus_one unat_gt_0)
  have nz: "(of_nat ?q :: u64) \<noteq> 0" using uq q(1) by (metis less_irrefl unat_0)
  show ?thesis
  proof (cases "?q * n < ?k")
    case True
    then have lt: "(of_nat ?q * of_nat n :: u64) < key" using ut by (simp add: word_less_nat_alt)
    have "unat (key - of_nat ?q * of_nat n) = ?k - ?q * n" using lt ut by (simp add: unat_sub less_imp_le)
    then have "key - of_nat ?q * of_nat n = of_nat (?k - ?q * n)" by (metis of_nat_unat_u64)
    then have "of_nat ?q + (key - of_nat ?q * of_nat n) = of_nat (?q + (?k - ?q * n))" by (simp only: of_nat_add)
    with True lt show ?thesis unfolding c place_def n by (simp add: Let_def del: add_diff_assoc)
  next
    case False
    then have nlt: "\<not> (of_nat ?q * of_nat n :: u64) < key" using ut by (simp add: word_less_nat_alt)
    have dv: "unat ((key - 1) div of_nat ?q) = (?k - 1) div ?q" "unat ((key - 1) mod of_nat ?q) = (?k - 1) mod ?q"
      using k1 uq by (simp_all add: unat_div unat_mod)
    have "(?k - 1) div ?q < 2 ^ 31" using b by (meson div_le_dividend le_less_trans diff_le_self)
    then have "int_of_u64 ((key - 1) div of_nat ?q) = int ((?k - 1) div ?q)" using dv(1) by (simp add: int_of_u64_small)
    moreover have "(key - 1) mod of_nat ?q = of_nat ((?k - 1) mod ?q)" using dv(2) by (metis of_nat_unat_u64)
    ultimately show ?thesis using False nlt nz unfolding c place_def n
      by (simp add: Let_def u64_div_def u64_mod_def)
  qed
qed

lemma place_bounds:
  assumes "place_ok config" "0 < k" "int k \<le> NUM_KEY_VALUE_PAIRS config"
  shows "fst (place config k) < nat (NUM_NODES config)" "snd (place config k) \<le> k"
proof -
  obtain n N where n: "NUM_NODES config = int n" "NUM_KEY_VALUE_PAIRS config = int N"
    using assms(1) by (metis place_ok_def less_imp_le order.trans zero_le_imp_eq_int)
  have b: "0 < n" "n \<le> N" "0 < N div n" using assms n by (simp_all add: place_ok_def div_greater_zero_iff)
  show "fst (place config k) < nat (NUM_NODES config)"
  proof (cases "N div n * n < k")
    case False
    have "k - 1 < N div n * n" using False assms(2) by simp
    then have "(k - 1) div (N div n) < n" using b by (simp add: less_mult_imp_div_less mult.commute)
    then show ?thesis using False by (simp add: place_def n Let_def)
  qed (simp add: place_def n b Let_def)
  show "snd (place config k) \<le> k"
  proof (cases "N div n * n < k")
    case True
    have "N div n \<le> N div n * n" using b by simp
    with True have "N div n + (k - N div n * n) \<le> k" by linarith
    with True show ?thesis by (simp add: place_def n Let_def del: add_diff_assoc)
  next
    case False
    have "(k - 1) mod (N div n) \<le> k - 1" by simp
    with False show ?thesis by (simp add: place_def n Let_def del: mod_less_eq_dividend)
  qed
qed

lemma place_inj:
  assumes "place_ok config" "0 < j" "int j \<le> NUM_KEY_VALUE_PAIRS config" "0 < k" "int k \<le> NUM_KEY_VALUE_PAIRS config"
    and "place config j = place config k"
  shows "j = k"
proof -
  obtain n N where n: "NUM_NODES config = int n" "NUM_KEY_VALUE_PAIRS config = int N"
    using assms(1) by (metis place_ok_def less_imp_le order.trans zero_le_imp_eq_int)
  let ?q = "N div n"
  have q: "0 < ?q" using assms(1) n by (simp add: place_ok_def div_greater_zero_iff)
  have inv: "i = (if ?q \<le> snd (place config i) then snd (place config i) - ?q + ?q * n
      else fst (place config i) * ?q + snd (place config i) + 1)" if "0 < i" for i
  proof (cases "?q * n < i")
    case False
    have "(i - 1) mod ?q < ?q" using q by simp
    then show ?thesis using False that div_mult_mod_eq [of "i - 1" ?q] by (simp add: place_def n Let_def)
  qed (simp add: place_def n Let_def)
  from inv [OF assms(2)] inv [OF assms(4)] assms(6) show ?thesis by (simp split: if_splits)
qed

lemma write_bytes_length [simp]: "length (read_bytes off n mem) = n"
  by (simp add: read_bytes_def)

lemma read_after_write: "read_bytes off (length bs) (write_bytes off bs mem) = bs"
  by (rule nth_equalityI) (simp_all add: read_bytes_def write_bytes_def)

lemma read_after_next_write:
  assumes "length xs = n" "length ys = n" "0 < n"
  shows "read_bytes off n (write_bytes (Suc off) ys (write_bytes off xs mem)) = hd xs # take (n - 1) ys"
proof (rule nth_equalityI)
  fix i
  assume "i < length (read_bytes off n (write_bytes (Suc off) ys (write_bytes off xs mem)))"
  then have i: "i < n" by simp
  show "read_bytes off n (write_bytes (Suc off) ys (write_bytes off xs mem)) ! i = (hd xs # take (n - 1) ys) ! i"
    using i assms by (cases i) (auto simp: read_bytes_def write_bytes_def hd_conv_nth)
qed (use assms in simp)

lemma node_at_ok:
  assumes "place_ok config" "0 < k" "k \<le> nat (NUM_KEY_VALUE_PAIRS config)" "0 \<le> start" "start < 2 ^ 30" "NUM_NODES config < 2 ^ 30"
  shows "node_at (int (fst (place config k))) start nodes = (case nodes (of_int (int (fst (place config k)) + start)) of
      None \<Rightarrow> Inl (Undefined ''default RDMA_connect'') | Some mem \<Rightarrow> Inr (of_int (int (fst (place config k)) + start), mem))"
proof -
  have "fst (place config k) < nat (NUM_NODES config)" using place_bounds(1) [OF assms(1,2)] assms(2,3) by simp
  then have "in_int (int (fst (place config k)) + start)" using assms(4-6) by (simp add: in_int_def int_min_def int_max_def)
  then show ?thesis by (simp add: node_at_def)
qed

text \<open>The blocks of all keys lie in the registered memory of their nodes.\<close>

definition fits_memory :: "configuration \<Rightarrow> bool" where
  "fits_memory config \<longleftrightarrow> (\<forall>k. 0 < k \<longrightarrow> int k \<le> NUM_KEY_VALUE_PAIRS config \<longrightarrow> snd (place config k) + BLKSZ \<le> registered_bytes)"

lemma registered_of_nat: "registered (of_nat o' :: u64) n \<longleftrightarrow> o' + n \<le> registered_bytes" if "o' < 2 ^ 64" for o' :: nat
  using that by (simp add: registered_def)

lemma fits_memoryD:
  assumes "fits_memory config" "place_ok config" "0 < k" "int k \<le> NUM_KEY_VALUE_PAIRS config"
  shows "registered (of_nat (snd (place config k))) BLKSZ" "unat (of_nat (snd (place config k)) :: u64) = snd (place config k)"
proof -
  have "snd (place config k) + BLKSZ \<le> registered_bytes" using assms(1,3,4) by (simp add: fits_memory_def)
  then have "snd (place config k) < 2 ^ 64" and "snd (place config k) + BLKSZ \<le> registered_bytes"
    by (simp_all add: registered_bytes_def GB_TO_BYTES_def)
  then show "registered (of_nat (snd (place config k))) BLKSZ" "unat (of_nat (snd (place config k)) :: u64) = snd (place config k)"
    by (simp_all add: registered_of_nat)
qed

lemma fits_memory_small:
  assumes "place_ok config" "NUM_KEY_VALUE_PAIRS config + int BLKSZ \<le> int registered_bytes"
  shows "fits_memory config"
  unfolding fits_memory_def
proof (intro allI impI)
  fix k :: nat
  assume k: "0 < k" "int k \<le> NUM_KEY_VALUE_PAIRS config"
  from place_bounds(2) [OF assms(1) k] k(2) assms(2) show "snd (place config k) + BLKSZ \<le> registered_bytes" by linarith
qed

text \<open>Consecutive keys of a node have consecutive offsets, also when they are the rest of the division.\<close>

lemma place_next:
  assumes "place_ok config" "0 < k" "int (Suc k) \<le> NUM_KEY_VALUE_PAIRS config" "fst (place config (Suc k)) = fst (place config k)"
  shows "snd (place config (Suc k)) = Suc (snd (place config k))"
proof -
  define n N where "n = nat (NUM_NODES config)" and "N = nat (NUM_KEY_VALUE_PAIRS config)"
  let ?q = "N div n"
  have b: "0 < n" "n \<le> N" "Suc k \<le> N" using assms(1,3) by (auto simp: place_ok_def n_def N_def)
  have q: "0 < ?q" using b by (simp add: div_greater_zero_iff)
  have p: "place config j = (if ?q * n < j then (0, ?q + (j - ?q * n)) else ((j - 1) div ?q, (j - 1) mod ?q))" for j
    by (simp add: place_def n_def N_def Let_def)
  obtain j where j: "k = Suc j" using assms(2) by (cases k) simp_all
  show ?thesis
  proof (cases "?q * n < k")
    case True
    then show ?thesis using p [of k] p [of "Suc k"] by simp
  next
    case below: False
    show ?thesis
    proof (cases "?q * n < Suc k")
      case True
      then have k: "k = ?q * n" using below by simp
      have "(k - 1) div ?q = 0" using assms(4) p [of k] p [of "Suc k"] True below by simp
      then have "j div ?q = 0" by (simp add: j)
      then have "j < ?q" using q by (metis div_eq_0_iff less_irrefl)
      then have "?q * n \<le> ?q * 1" using k j by linarith
      then have "n = 1" using q b(1) by simp
      then show ?thesis using k b(3) by simp
    next
      case False
      then have "Suc j div ?q = j div ?q" using assms(4) below p [of k] p [of "Suc k"] by (simp add: j)
      then have "Suc j mod ?q = Suc (j mod ?q)" by (metis add_left_cancel add_Suc_right div_mult_mod_eq)
      then show ?thesis using below False p [of k] p [of "Suc k"] by (simp add: j)
    qed
  qed
qed

section \<open>Properties\<close>

text \<open>
  Property C26: for a dataset that fills every node, the placement sends every key to an existing
  node, and two different keys never share a node and an offset.
\<close>

theorem placement_injective:
  assumes "place_ok config" "key_ok config j" "key_ok config k"
  shows "\<exists>node offset node' offset'. calculateNodeAndOffset config j = Inr (node, offset)
    \<and> calculateNodeAndOffset config k = Inr (node', offset')
    \<and> 0 \<le> node \<and> node < NUM_NODES config \<and> unat offset \<le> unat j
    \<and> ((node, offset) = (node', offset') \<longleftrightarrow> j = k)"
proof -
  let ?p = "place config (unat j)" and ?r = "place config (unat k)"
  have b: "0 < unat j" "int (unat j) \<le> NUM_KEY_VALUE_PAIRS config" "0 < unat k" "int (unat k) \<le> NUM_KEY_VALUE_PAIRS config"
    using assms by (simp_all add: key_ok_def place_ok_def le_nat_iff)
  have lt: "unat j < 2 ^ 64" "unat k < 2 ^ 64" by (rule unat_below_u64)+
  have s: "snd ?p < 2 ^ 64" "snd ?r < 2 ^ 64"
    using le_less_trans [OF place_bounds(2) [OF assms(1) b(1,2)] lt(1)] le_less_trans [OF place_bounds(2) [OF assms(1) b(3,4)] lt(2)] .
  have o: "(of_nat (snd ?p) :: u64) = of_nat (snd ?r) \<longleftrightarrow> snd ?p = snd ?r"
    using s by (metis unat_of_nat_u64)
  have "(int (fst ?p), of_nat (snd ?p) :: u64) = (int (fst ?r), of_nat (snd ?r)) \<longleftrightarrow> j = k"
    using place_inj [OF assms(1) b] o by (metis prod.collapse Pair_inject of_nat_eq_iff of_nat_unat_u64)
  then show ?thesis
    using calculate_eq_place [OF assms(1,2)] calculate_eq_place [OF assms(1,3)] place_bounds [OF assms(1) b(1,2)] s(1)
    by (auto simp: less_nat_zero_code)
qed

theorem placement_injective_witness:
  "\<exists>o1 o3. calculateNodeAndOffset sample_config 1 = Inr (0, o1) \<and> calculateNodeAndOffset sample_config 3 = Inr (1, o3)"
  using placement_injective [of sample_config 1 3]
    calculate_eq_place [of sample_config 1] calculate_eq_place [of sample_config 3]
  by (auto simp: place_ok_def key_ok_def place_def sample_config_def Let_def)

lemma node_at_Inr:
  assumes "node_at node start nodes = Inr (i, mem)"
  shows "nodes i = Some mem" "nodes' i = Some mem' \<Longrightarrow> node_at node start nodes' = Inr (i, mem')"
  using assms by (auto simp: node_at_def bindR_Inr_iff ck_int_Inr_iff split: option.splits)

text \<open>
  A block written for a key is what a read of the key returns, when nothing is
  written in between; a key whose block does not fit into the registered memory cannot be written.
\<close>

theorem write_then_read_block:
  assumes "place_ok config" "key_ok config key" "length block = BLKSZ"
    and "node_at (int (fst (place config (unat key)))) start nodes = Inr (i, mem)"
  shows "if registered (of_nat (snd (place config (unat key)))) BLKSZ
    then \<exists>nodes'. write_correct_node config start key block nodes = Inr nodes' \<and> read_block_of config start key nodes' = Inr block
    else write_correct_node config start key block nodes = Inl (Undefined ''outside the registered memory'')"
proof -
  let ?o = "of_nat (snd (place config (unat key))) :: u64" let ?off = "unat ?o"
  let ?nodes = "nodes(i := map_option (write_bytes ?off block) (nodes i))"
  note c = calculate_eq_place [OF assms(1,2)]
  show ?thesis
  proof (cases "registered ?o BLKSZ")
    case True
    have w: "write_correct_node config start key block nodes = Inr ?nodes"
      using assms(3,4) c True by (simp add: write_correct_node_def rdma_writer_thread_def)
    have "?nodes i = Some (write_bytes ?off block mem)" using node_at_Inr(1) [OF assms(4)] by simp
    from node_at_Inr(2) [OF assms(4), of ?nodes, OF this] have "read_block_of config start key ?nodes
        = Inr (read_bytes ?off BLKSZ (write_bytes ?off block mem))"
      using c True by (simp add: read_block_of_def rdma_reader_sync_def)
    then show ?thesis using True w read_after_write [of ?off block mem] assms(3) by simp
  next
    case False
    then show ?thesis using assms(3,4) c by (simp add: write_correct_node_def rdma_writer_thread_def)
  qed
qed

definition sample_nodes :: rdma_nodes where
  "sample_nodes = [0 \<mapsto> (\<lambda>_. 0), 1 \<mapsto> (\<lambda>_. 0), 2 \<mapsto> (\<lambda>_. 0)]"

lemma sample_place:
  "place_ok sample_config" "key_ok sample_config 1" "key_ok sample_config 2" "key_ok sample_config 3"
  "place sample_config (Suc 0) = (0, 0)" "place sample_config 2 = (0, 1)" "place sample_config 3 = (1, 0)"
  by (simp_all add: place_ok_def key_ok_def place_def sample_config_def Let_def)

lemma sample_node_at: "node_at 0 0 sample_nodes = Inr (0, \<lambda>_. 0)"
  by (simp add: node_at_def sample_nodes_def in_int_def int_min_def int_max_def)

theorem write_then_read_block_witness:
  "\<exists>nodes'. write_correct_node sample_config 0 1 (replicate BLKSZ 65) sample_nodes = Inr nodes'
    \<and> read_block_of sample_config 0 1 nodes' = Inr (replicate BLKSZ 65)"
  using write_then_read_block [OF sample_place(1,2), of "replicate BLKSZ 65" 0 sample_nodes 0 "\<lambda>_. 0"] sample_node_at
  by (simp add: sample_place registered_def registered_bytes_def GB_TO_BYTES_def BLKSZ_def)

text \<open>
  Property C27: the offset of a key counts slots but is used as a byte address: when a key and the
  next one are placed on the same node their offsets differ by one, and the block written for the
  next key overwrites all but the first byte of the block before it, so that a read of the first key
  returns the first byte of its own block followed by the other key's block.
\<close>

theorem next_block_overlaps:
  assumes "place_ok config" "key_ok config key" "key_ok config (key + 1)"
    and "calculateNodeAndOffset config key = Inr (node, off)" "calculateNodeAndOffset config (key + 1) = Inr (node, off')"
    and "registered off' BLKSZ" "length block = BLKSZ" "length block' = BLKSZ" "node_at node start nodes = Inr (i, mem)"
  shows "off' = off + 1
    \<and> (\<exists>nodes' nodes''. write_correct_node config start key block nodes = Inr nodes'
    \<and> write_correct_node config start (key + 1) block' nodes' = Inr nodes''
    \<and> read_block_of config start key nodes'' = Inr (hd block # take (BLKSZ - 1) block'))"
proof -
  have k1: "unat (key + 1) = Suc (unat key)"
  proof -
    have "1 + key \<noteq> 0" using assms(3) by (auto simp: key_ok_def add.commute)
    from unatSuc [OF this] show ?thesis by (simp add: add.commute)
  qed
  have pl: "node = int (fst (place config (unat key)))" "off = of_nat (snd (place config (unat key)))"
    "node = int (fst (place config (Suc (unat key))))" "off' = of_nat (snd (place config (Suc (unat key))))"
    using calculate_eq_place [OF assms(1,2)] calculate_eq_place [OF assms(1,3)] assms(4,5) by (simp_all add: k1)
  have s: "snd (place config (Suc (unat key))) = Suc (snd (place config (unat key)))"
  proof (rule place_next [OF assms(1)])
    show "0 < unat key" using assms(2) by (simp add: key_ok_def)
    have "Suc (unat key) \<le> nat (NUM_KEY_VALUE_PAIRS config)" using assms(3) by (simp only: key_ok_def k1)
    then show "int (Suc (unat key)) \<le> NUM_KEY_VALUE_PAIRS config" by linarith
    show "fst (place config (Suc (unat key))) = fst (place config (unat key))" using pl(1,3) by linarith
  qed
  have off: "off' = off + 1" unfolding pl(2,4) s by simp
  have kb: "0 < unat key" "int (unat key) \<le> NUM_KEY_VALUE_PAIRS config"
  proof -
    have "0 < unat key \<and> unat key \<le> nat (NUM_KEY_VALUE_PAIRS config)" using assms(2) unfolding key_ok_def .
    then show "0 < unat key" "int (unat key) \<le> NUM_KEY_VALUE_PAIRS config" by linarith+
  qed
  have "int (snd (place config (unat key))) < 2 ^ 31"
    using place_bounds(2) [OF assms(1) kb] kb(2) assms(1) unfolding place_ok_def by linarith
  then have "Suc (snd (place config (unat key))) < 2 ^ 64" by simp
  then have u: "unat off' = Suc (unat off)" unfolding pl(2,4) s by (subst (1 2) unat_of_nat_u64) simp_all
  have r: "registered off BLKSZ" using assms(6) u by (simp add: registered_def)
  let ?n1 = "nodes(i := map_option (write_bytes (unat off) block) (nodes i))"
  let ?n2 = "?n1(i := map_option (write_bytes (unat off') block') (?n1 i))"
  have n1: "?n1 i = Some (write_bytes (unat off) block mem)"
    using node_at_Inr(1) [OF assms(9)] by simp
  have n2: "?n2 i = Some (write_bytes (Suc (unat off)) block' (write_bytes (unat off) block mem))"
  proof -
    have "?n2 i = map_option (write_bytes (unat off') block') (?n1 i)" by simp
    then show ?thesis unfolding n1 u by simp
  qed
  note a1 = node_at_Inr(2) [OF assms(9), where nodes' = ?n1, OF n1] and a2 = node_at_Inr(2) [OF assms(9), where nodes' = ?n2, OF n2]
  have "write_correct_node config start key block nodes = Inr ?n1"
    "write_correct_node config start (key + 1) block' ?n1 = Inr ?n2"
    using assms(4-9) a1 r by (simp_all add: write_correct_node_def rdma_writer_thread_def)
  moreover have "read_block_of config start key ?n2 = Inr (hd block # take (BLKSZ - 1) block')"
    using assms(4) a2 r read_after_next_write [OF assms(7,8), of "unat off" mem]
    by (simp add: read_block_of_def rdma_reader_sync_def) (simp add: BLKSZ_def)
  ultimately show ?thesis using off by blast
qed

theorem next_block_overlaps_witness:
  "\<exists>n1 n2. write_correct_node sample_config 0 1 (replicate BLKSZ 65) sample_nodes = Inr n1
    \<and> write_correct_node sample_config 0 2 (replicate BLKSZ 66) n1 = Inr n2
    \<and> read_block_of sample_config 0 1 n2 = Inr (65 # replicate (BLKSZ - 1) 66)"
proof -
  have c: "calculateNodeAndOffset sample_config 1 = Inr (0, 0)" "calculateNodeAndOffset sample_config (1 + 1) = Inr (0, 1)"
    using calculate_eq_place [OF sample_place(1,2)] calculate_eq_place [OF sample_place(1,3)] by (simp_all add: sample_place)
  have k: "key_ok sample_config (1 + 1)" using sample_place(3) by simp
  have r: "registered 1 BLKSZ" by (simp add: registered_def registered_bytes_def GB_TO_BYTES_def BLKSZ_def)
  show ?thesis
    using next_block_overlaps [OF sample_place(1,2) k c r, of "replicate BLKSZ 65" "replicate BLKSZ 66" 0 sample_nodes 0 "\<lambda>_. 0"] sample_node_at
    by (simp add: BLKSZ_def)
qed

end
