(* ===== verification/Access_Rate.thy ===== *)
theory Access_Rate
  imports Cxx_Text Cxx_Float "HOL-Library.Multiset" "HOL-Library.List_Lexorder" "HOL-Library.Product_Lexorder" "HOL-Library.Char_ord"
begin

text \<open>
  The optimiser of the cache split (\<open>src/src/access_rate_calculations.cpp\<close>): the cumulative
  distribution of key frequencies, the number of accesses a segment of it stands for, the
  estimated performance of a split into local, remote and disk keys, and the search for the
  best split.

  The frequencies, the number of keys and the cache size come from the third-party cache; what
  the search tells it is the list of its calls.
\<close>

section \<open>The cumulative distribution\<close>

type_synonym cdf = "(u64 \<times> string \<times> u64) list \<times> (string \<rightharpoonup> u64 \<times> u64)"

text \<open>Sort by frequency and key, largest first; a total order, so the result is determined.\<close>

definition sorted_by_freq :: "(string \<times> u64) list \<Rightarrow> u64 \<Rightarrow> (u64 \<times> string) list" where
  "sorted_by_freq key_freq total_keys =
     take (unat total_keys) (rev (sort (map (\<lambda>(k, f). (f, k)) key_freq)))"

text \<open>The array \<open>key_map\<close> of the keys that occur, with an index check where the code has none.\<close>

definition mark_keys :: "(u64 \<times> string) list \<Rightarrow> u64 \<Rightarrow> bool list res" where
  "mark_keys sorted_key_freq total_keys =
     foldR (\<lambda>e key_map. bindR (stoi (snd e)) (\<lambda>i. vec_set_int key_map i True))
       sorted_key_freq (replicate (unat total_keys + 1) False)"

definition missing_keys :: "bool list \<Rightarrow> u64 \<Rightarrow> (u64 \<times> string) list" where
  "missing_keys key_map total_keys =
     map (\<lambda>i. (0, to_string_nat i)) (filter (\<lambda>i. \<not> key_map ! i) [1..<Suc (unat total_keys)])"

fun percentiles :: "u64 \<Rightarrow> u64 \<Rightarrow> (u64 \<times> string) list \<Rightarrow> (u64 \<times> u64 \<times> string) list res" where
  "percentiles total_freq cumulative_freq [] = Inr []"
| "percentiles total_freq cumulative_freq (kv # kvs) =
     (let cumulative_freq = cumulative_freq + fst kv in
      bindR (u64_div (cumulative_freq * 100) total_freq) (\<lambda>percentile.
      mapR (\<lambda>rest. (percentile, kv) # rest) (percentiles total_freq cumulative_freq kvs)))"

text \<open>The ordered map \<open>cdf_buckets\<close>, as the list of its entries in key order.\<close>

definition cdf_buckets :: "(u64 \<times> u64 \<times> string) list \<Rightarrow> (u64 \<times> (u64 \<times> string) list) list" where
  "cdf_buckets pks = map (\<lambda>p. (p, map snd (filter (\<lambda>x. fst x = p) pks))) (sort (remdups (map fst pks)))"

definition sort_bucket :: "(u64 \<times> string) list \<Rightarrow> (u64 \<times> string) list res" where
  "sort_bucket kvs =
     bindR (mapMR (\<lambda>kv. mapR (\<lambda>v. (v, kv)) (stoull (snd kv))) kvs) (\<lambda>vs.
     Inr (map snd (rev (sort_key fst vs))))"

definition emit_bucket ::
    "u64 \<times> (u64 \<times> string) list \<Rightarrow> u64 \<times> cdf \<Rightarrow> (u64 \<times> cdf) res" where
  "emit_bucket bucket st =
     bindR (sort_bucket (snd bucket)) (\<lambda>bucket_keys.
     Inr (fold (\<lambda>it (total_cum_sum, freqs, key_freq_bucket_map).
       let total_cum_sum = total_cum_sum + fst it in
       (total_cum_sum, freqs @ [(fst it, snd it, fst bucket)],
        key_freq_bucket_map(snd it \<mapsto> (total_cum_sum, fst bucket)))) bucket_keys st))"

definition get_and_sort_freq :: "(string \<times> u64) list \<Rightarrow> u64 \<Rightarrow> cdf res" where
  "get_and_sort_freq key_freq total_keys =
     (let sorted_key_freq = sorted_by_freq key_freq total_keys in
      bindR (mark_keys sorted_key_freq total_keys) (\<lambda>key_map.
      let sorted_key_freq = sorted_key_freq @ missing_keys key_map total_keys;
          total_freq = sum_list (map fst sorted_key_freq) in
      bindR (percentiles total_freq 0 sorted_key_freq) (\<lambda>pks.
      mapR snd (foldR emit_bucket (cdf_buckets pks) (0, [], Map.empty)))))"

definition get_keys_under_l :: "(u64 \<times> string) list \<Rightarrow> u64 \<Rightarrow> string list" where
  "get_keys_under_l cdf L = map snd (take (unat L) cdf)"

section \<open>Segments and performance\<close>

text \<open>
  \<open>operator[]\<close> on a key that is not in the map gives the value-initialised pair; that it also
  inserts it changes no later lookup, so the insertion is not tracked.
\<close>

definition cum_sum_at :: "cdf \<Rightarrow> u64 \<Rightarrow> u64 res" where
  "cum_sum_at cdf i =
     bindR (vec_at (fst cdf) (unat i)) (\<lambda>e. Inr (fst (map_at (snd cdf) (fst (snd e)) (0, 0))))"

definition get_sum_freq_till_index :: "cdf \<Rightarrow> u64 \<Rightarrow> u64 \<Rightarrow> u64 res" where
  "get_sum_freq_till_index cdf start stop =
     (let sz = of_nat (length (fst cdf)) :: u64;
          start = (if sz \<le> start then sz - 1 else start);
          stop = (if sz \<le> stop then sz - 1 else stop) in
      bindR (cum_sum_at cdf start) (\<lambda>start_key_freq_sum.
      bindR (cum_sum_at cdf stop) (\<lambda>end_key_freq_sum.
      Inr (end_key_freq_sum - start_key_freq_sum))))"

definition calculate_performance ::
    "cdf \<Rightarrow> u64 \<Rightarrow> u64 \<Rightarrow> u64 \<Rightarrow> u64 \<Rightarrow> u64 \<Rightarrow> u64 res" where
  "calculate_performance cdf water_mark_local water_mark_remote cache_ns_avg disk_ns_avg rdma_ns_avg =
     (let total_keys = of_nat (length (fst cdf)) in
      bindR (get_sum_freq_till_index cdf 0 water_mark_local) (\<lambda>total_local_accesses.
      bindR (get_sum_freq_till_index cdf water_mark_local (water_mark_local + water_mark_remote)) (\<lambda>total_remote_accesses.
      bindR (get_sum_freq_till_index cdf (water_mark_remote + water_mark_local) total_keys) (\<lambda>total_disk_accesses.
      let local_latency = total_local_accesses * cache_ns_avg;
          remote_latency = ((2 * total_remote_accesses) div 3) * rdma_ns_avg + (total_remote_accesses div 3) * cache_ns_avg;
          disk_latency = total_disk_accesses * disk_ns_avg;
          latency = local_latency + remote_latency + disk_latency in
      Inr (if latency \<noteq> 0 then (-1) div latency else 0)))))"

definition percentage_to_index :: "u64 \<Rightarrow> rat \<Rightarrow> u64 res" where
  "percentage_to_index total_size percent =
     (let x = trunc (f64 (f64 (of_nat (unat total_size)) * f64 (percent / 100))) in
      if 0 \<le> x \<and> x < 2 ^ 64 then Inr (of_int x) else Inl (Undefined ''float conversion''))"

section \<open>The search\<close>

text \<open>The calls on the third-party cache, in the order the code makes them.\<close>

datatype cache_call =
    Set_water_marks u64 u64
  | Set_access_rate u64
  | Set_bucket_id u64
  | Set_key_id_cutoff u64
  | Set_keys_from_past "(u64 \<times> string \<times> u64) list"
  | Check_and_set_total_cache_duplication
  | Set_perf_stats u64 u64 u64
  | Print_all_stats

fun search_loop ::
    "(u64 \<Rightarrow> u64 \<Rightarrow> u64 res) \<Rightarrow> u64 \<Rightarrow> nat list \<Rightarrow> u64 \<times> u64 \<times> u64 \<Rightarrow> (u64 \<times> u64 \<times> u64) res" where
  "search_loop perf cache_size [] best = Inr best"
| "search_loop perf cache_size (i # is) best =
     (let local = of_nat i; remote = cache_size - 3 * local in
      if remote < 0 then Inr best
      else if cache_size div 3 < local then Inr best
      else bindR (perf local remote) (\<lambda>new_performance.
        search_loop perf cache_size is
          (if fst best < new_performance then (new_performance, local, remote) else best)))"

definition best_cutoffs :: "cdf \<Rightarrow> u64 \<Rightarrow> (u64 \<times> u64 \<times> u64) res" where
  "best_cutoffs cdf best_local =
     (if best_local \<noteq> 0 then
        bindR (vec_at (fst cdf) (unat best_local)) (\<lambda>(rate, key, bucket).
        bindR (stoi key) (\<lambda>k. Inr (rate, bucket, of_int k)))
      else Inr (-1, -1, -1))"

definition settings_for :: "cdf \<Rightarrow> u64 \<times> u64 \<times> u64 \<Rightarrow> cache_call list res" where
  "settings_for cdf = (\<lambda>(best_performance, best_local, best_remote).
     bindR (best_cutoffs cdf best_local) (\<lambda>(best_access_rate, best_bucket, cutoff_key_id).
     Inr [Set_water_marks best_local best_remote, Set_access_rate best_access_rate, Set_bucket_id best_bucket,
          Set_key_id_cutoff cutoff_key_id, Set_keys_from_past (fst cdf), Check_and_set_total_cache_duplication,
          Set_perf_stats best_local best_remote best_performance, Print_all_stats]))"

definition itr_through_all_the_perf_values_to_find_optimal ::
    "u64 \<Rightarrow> cdf \<Rightarrow> u64 \<Rightarrow> u64 \<Rightarrow> u64 \<Rightarrow> cache_call list res" where
  "itr_through_all_the_perf_values_to_find_optimal cache_size cdf cache_ns_avg disk_ns_avg rdma_ns_avg =
     bindR (search_loop (\<lambda>local remote. calculate_performance cdf local remote cache_ns_avg disk_ns_avg rdma_ns_avg)
       cache_size [0..<length (fst cdf)] (0, 0, cache_size))
     (settings_for cdf)"

section \<open>Segments of a well-formed distribution\<close>

definition freqs_of :: "cdf \<Rightarrow> u64 list" where
  "freqs_of cdf = map fst (fst cdf)"

text \<open>Every key of the list has its cumulative sum, up to and including its own entry, in the map.\<close>

definition cdf_ok :: "cdf \<Rightarrow> bool" where
  "cdf_ok cdf \<longleftrightarrow> length (fst cdf) < 2 ^ 64
     \<and> (\<forall>i < length (fst cdf). snd cdf (fst (snd (fst cdf ! i)))
          = Some (sum_list (take (Suc i) (freqs_of cdf)), snd (snd (fst cdf ! i))))"

lemma cum_sum_at_ok:
  "cdf_ok cdf \<Longrightarrow> unat i < length (fst cdf) \<Longrightarrow> cum_sum_at cdf i = Inr (sum_list (take (Suc (unat i)) (freqs_of cdf)))"
  by (simp add: cum_sum_at_def cdf_ok_def map_at_def)

definition clamp :: "cdf \<Rightarrow> u64 \<Rightarrow> nat" where
  "clamp cdf i = min (unat i) (length (fst cdf) - 1)"

lemma clamp_eq:
  assumes "length (fst cdf) < 2 ^ 64" "fst cdf \<noteq> []"
  shows "unat (if of_nat (length (fst cdf)) \<le> i then of_nat (length (fst cdf)) - 1 else i) = clamp cdf i"
    "clamp cdf i < length (fst cdf)"
proof -
  let ?n = "length (fst cdf)"
  have n: "unat (of_nat ?n :: u64) = ?n" "0 < ?n" using assms by simp_all
  then have "unat (of_nat ?n - 1 :: u64) = ?n - 1" by (metis unat_minus_one unat_0 less_irrefl)
  moreover have "(of_nat ?n \<le> i) = (?n \<le> unat i)" using n by (simp add: word_le_nat_alt)
  ultimately show "unat (if of_nat ?n \<le> i then of_nat ?n - 1 else i) = clamp cdf i" by (auto simp: clamp_def)
  show "clamp cdf i < ?n" using n(2) unfolding clamp_def by linarith
qed

lemma get_sum_eq:
  assumes "cdf_ok cdf" "fst cdf \<noteq> []"
  shows "get_sum_freq_till_index cdf s e
    = Inr (sum_list (take (Suc (clamp cdf e)) (freqs_of cdf)) - sum_list (take (Suc (clamp cdf s)) (freqs_of cdf)))"
proof -
  have l: "length (fst cdf) < 2 ^ 64" using assms(1) by (simp add: cdf_ok_def)
  note c = clamp_eq [OF l assms(2)]
  have "cum_sum_at cdf (if of_nat (length (fst cdf)) \<le> i then of_nat (length (fst cdf)) - 1 else i)
      = Inr (sum_list (take (Suc (clamp cdf i)) (freqs_of cdf)))" for i
    using cum_sum_at_ok [OF assms(1)] c by metis
  then show ?thesis by (simp only: get_sum_freq_till_index_def Let_def bindR_simps)
qed

lemma sum_take_diff:
  "i \<le> j \<Longrightarrow> sum_list (take j xs) - sum_list (take i xs) = sum_list (take (j - i) (drop i xs))" for xs :: "u64 list"
proof -
  assume "i \<le> j"
  then have "take j xs = take i xs @ take (j - i) (drop i xs)" by (metis le_add_diff_inverse take_add)
  then have "sum_list (take j xs) = sum_list (take i xs) + sum_list (take (j - i) (drop i xs))" by (metis sum_list_append)
  then show ?thesis by simp
qed

section \<open>The result of the search\<close>

definition candidates :: "u64 \<Rightarrow> nat \<Rightarrow> nat list" where
  "candidates cache_size n = takeWhile (\<lambda>i. of_nat i \<le> cache_size div 3) [0..<n]"

definition better :: "(nat \<Rightarrow> u64) \<Rightarrow> u64 \<Rightarrow> nat \<Rightarrow> u64 \<times> u64 \<times> u64 \<Rightarrow> u64 \<times> u64 \<times> u64" where
  "better p cache_size i best = (if fst best < p i then (p i, of_nat i, cache_size - 3 * of_nat i) else best)"

lemma search_loop_eq:
  assumes "\<And>i. i \<in> set is \<Longrightarrow> perf (of_nat i) (cache_size - 3 * of_nat i) = Inr (p i)"
  shows "search_loop perf cache_size is best
    = Inr (fold (better p cache_size) (takeWhile (\<lambda>i. of_nat i \<le> cache_size div 3) is) best)"
  using assms
proof (induction "is" arbitrary: best)
  case (Cons i "is")
  have p: "perf (of_nat i) (cache_size - 3 * of_nat i) = Inr (p i)" using Cons.prems by simp
  note IH = Cons.IH [OF Cons.prems [OF list.set_intros(2)]]
  have b: "(if fst best < p i then (p i, of_nat i, cache_size - 3 * of_nat i) else best) = better p cache_size i best"
    by (simp only: better_def)
  show ?case
  proof (cases "cache_size div 3 < (of_nat i :: u64)")
    case True
    then have "\<not> of_nat i \<le> cache_size div 3" by (simp add: not_le)
    then show ?thesis using True by (simp add: Let_def del: not_le)
  next
    case False
    then have "(of_nat i :: u64) \<le> cache_size div 3" by (simp add: not_less)
    then show ?thesis using False by (simp add: Let_def p b IH del: not_less)
  qed
qed simp

text \<open>
  The best of a list of candidates: an upper bound of their values, reached first at the index
  returned, or the initial values when no candidate has a positive one.
\<close>

definition first_best :: "(nat \<Rightarrow> u64) \<Rightarrow> u64 \<Rightarrow> nat list \<Rightarrow> u64 \<times> u64 \<times> u64 \<Rightarrow> bool" where
  "first_best p c is best \<longleftrightarrow> (\<forall>i \<in> set is. p i \<le> fst best) \<and>
     (best = (0, 0, c) \<or>
      0 < fst best \<and> (\<exists>j \<in> set is. best = (p j, of_nat j, c - 3 * of_nat j) \<and> (\<forall>i \<in> set is. i < j \<longrightarrow> p i < p j)))"

lemma fold_better:
  "sorted_wrt (<) is \<Longrightarrow> first_best p c is (fold (better p c) is (0, 0, c))"
proof (induction "is" rule: rev_induct)
  case Nil
  then show ?case by (simp add: first_best_def)
next
  case (snoc i "is")
  have srt: "sorted_wrt (<) is" "\<forall>j \<in> set is. j < i" using snoc.prems by (simp_all add: sorted_wrt_append)
  obtain b where b: "b = fold (better p c) is (0, 0, c)" by blast
  have fb: "first_best p c is b" using snoc.IH [OF srt(1)] b by simp
  have step: "fold (better p c) (is @ [i]) (0, 0, c) = better p c i b" using b by simp
  have le: "\<forall>j \<in> set is. p j \<le> fst b" using fb by (simp add: first_best_def)
  show ?case
  proof (cases "fst b < p i")
    case True
    have "\<forall>j \<in> set is. p j < p i" using le True by (meson le_less_trans)
    moreover have "0 < p i" using True by (meson le_less_trans word_zero_le)
    moreover have "better p c i b = (p i, of_nat i, c - 3 * of_nat i)" using True by (simp add: better_def)
    ultimately show ?thesis unfolding step first_best_def by (auto simp: less_imp_le)
  next
    case False
    have e: "better p c i b = b" using False by (simp add: better_def)
    have "p i \<le> fst b" using False by simp
    moreover have "b = (0, 0, c) \<or> 0 < fst b \<and> (\<exists>j \<in> set (is @ [i]). b = (p j, of_nat j, c - 3 * of_nat j)
        \<and> (\<forall>k \<in> set (is @ [i]). k < j \<longrightarrow> p k < p j))"
    proof (cases "b = (0, 0, c)")
      case nz: False
      then obtain j where j: "j \<in> set is" "b = (p j, of_nat j, c - 3 * of_nat j)" "0 < fst b"
          "\<forall>k \<in> set is. k < j \<longrightarrow> p k < p j"
        using fb unfolding first_best_def by blast
      have "\<not> i < j" using srt(2) j(1) by (meson less_not_sym)
      then have "\<forall>k \<in> set (is @ [i]). k < j \<longrightarrow> p k < p j" using j(4) by auto
      with j show ?thesis by (metis Un_iff set_append)
    qed simp
    ultimately show ?thesis unfolding step e first_best_def using le by auto
  qed
qed

section \<open>The estimate counts every access but those of the hottest key\<close>

lemma sum_take_clamp_0: "fst cdf \<noteq> [] \<Longrightarrow> sum_list (take (Suc (clamp cdf 0)) (freqs_of cdf)) = hd (freqs_of cdf)"
  by (cases "fst cdf") (simp_all add: clamp_def freqs_of_def)

lemma sum_take_clamp_size:
  "length (fst cdf) < 2 ^ 64 \<Longrightarrow> fst cdf \<noteq> [] \<Longrightarrow>
   sum_list (take (Suc (clamp cdf (of_nat (length (fst cdf))))) (freqs_of cdf)) = sum_list (freqs_of cdf)"
  by (simp add: clamp_def freqs_of_def)

lemma sum_list_tl: "xs \<noteq> [] \<Longrightarrow> sum_list xs - hd xs = sum_list (tl xs)" for xs :: "u64 list"
  by (cases xs) simp_all

lemma calculate_performance_returns:
  "cdf_ok cdf \<Longrightarrow> fst cdf \<noteq> [] \<Longrightarrow> \<exists>x. calculate_performance cdf l r cache_ns disk_ns rdma_ns = Inr x"
  by (simp add: calculate_performance_def get_sum_eq Let_def)

text \<open>
  On a well-formed distribution the performance estimate returns for every split;
  its local, remote and disk accesses together are the accesses of all keys but the first entry of
  the distribution, which is in no segment, and the estimate is the largest word divided by the
  latency those accesses cost, or 0 for a latency of 0.
\<close>

theorem calculate_performance_segments:
  assumes "cdf_ok cdf" "fst cdf \<noteq> []"
  shows "\<exists>a b c. get_sum_freq_till_index cdf 0 l = Inr a \<and> get_sum_freq_till_index cdf l (l + r) = Inr b
    \<and> get_sum_freq_till_index cdf (l + r) (of_nat (length (fst cdf))) = Inr c
    \<and> a + b + c = sum_list (tl (freqs_of cdf))
    \<and> calculate_performance cdf l r cache_ns disk_ns rdma_ns
      = Inr (let latency = a * cache_ns + (2 * b div 3 * rdma_ns + b div 3 * cache_ns) + c * disk_ns in
             if latency = 0 then 0 else (- 1) div latency)"
proof -
  let ?S = "\<lambda>i. sum_list (take (Suc (clamp cdf i)) (freqs_of cdf))" and ?n = "of_nat (length (fst cdf)) :: u64"
  have l: "length (fst cdf) < 2 ^ 64" using assms(1) by (simp add: cdf_ok_def)
  have g: "get_sum_freq_till_index cdf i j = Inr (?S j - ?S i)" for i j by (rule get_sum_eq [OF assms])
  have "freqs_of cdf \<noteq> []" using assms(2) by (simp add: freqs_of_def)
  then have "(?S l - ?S 0) + (?S (l + r) - ?S l) + (?S ?n - ?S (l + r)) = sum_list (tl (freqs_of cdf))"
    using sum_take_clamp_0 [OF assms(2)] sum_take_clamp_size [OF l assms(2)] sum_list_tl by (simp add: algebra_simps)
  moreover have "calculate_performance cdf l r cache_ns disk_ns rdma_ns
      = Inr (let latency = (?S l - ?S 0) * cache_ns + (2 * (?S (l + r) - ?S l) div 3 * rdma_ns + (?S (l + r) - ?S l) div 3 * cache_ns)
               + (?S ?n - ?S (l + r)) * disk_ns in if latency = 0 then 0 else (- 1) div latency)"
    by (simp only: calculate_performance_def Let_def g bindR_simps add.commute [of r l] add.assoc if_not_P refl if_split_asm)
       (simp add: ac_simps)
  ultimately show ?thesis using g by blast
qed

section \<open>The search finds the first best split\<close>

lemma best_cutoffs_returns:
  assumes "\<forall>e \<in> set (fst cdf). returns (stoi (fst (snd e)))" and "l \<noteq> 0 \<longrightarrow> unat l < length (fst cdf)"
  shows "\<exists>r b k. best_cutoffs cdf l = Inr (r, b, k)"
proof (cases "l = 0")
  case False
  obtain rate key bucket where e: "fst cdf ! unat l = (rate, key, bucket)" by (cases "fst cdf ! unat l")
  have i: "unat l < length (fst cdf)" using assms(2) False by simp
  then have "returns (stoi key)" using assms(1) e by (metis nth_mem fst_conv snd_conv)
  then show ?thesis using False i e by (auto simp: best_cutoffs_def returns_iff)
qed (simp add: best_cutoffs_def)

lemma settings_for_returns:
  assumes "\<forall>e \<in> set (fst cdf). returns (stoi (fst (snd e)))" and "fst (snd best) \<noteq> 0 \<longrightarrow> unat (fst (snd best)) < length (fst cdf)"
  shows "\<exists>calls. settings_for cdf best = Inr (Set_water_marks (fst (snd best)) (snd (snd best)) # calls)"
  using best_cutoffs_returns [OF assms] by (auto simp: settings_for_def split: prod.split)

lemma candidates_below:
  assumes "i \<in> set (candidates cache_size n)" "n < 2 ^ 64"
  shows "i < n" "3 * i \<le> unat cache_size" "unat (cache_size - 3 * of_nat i :: u64) = unat cache_size - 3 * i"
proof -
  have c: "(of_nat i :: u64) \<le> cache_size div 3" "i < n"
    using set_takeWhileD [OF assms(1) [unfolded candidates_def]] by simp_all
  then show "i < n" by simp
  have "unat (of_nat i :: u64) = i" using c(2) assms(2) by simp
  moreover have "unat (cache_size div 3) = unat cache_size div 3" by (simp add: unat_div)
  ultimately have "i \<le> unat cache_size div 3" using c(1) by (simp add: word_le_nat_alt)
  then show le: "3 * i \<le> unat cache_size" by linarith
  have "3 * i < 2 ^ 64" using le unat_below_u64 [of cache_size] by linarith
  then have u: "unat (of_nat (3 * i) :: u64) = 3 * i" by (rule unat_of_nat_u64)
  then have "(of_nat (3 * i) :: u64) \<le> cache_size" using le by (simp only: word_le_nat_alt)
  from unat_sub [OF this] u show "unat (cache_size - 3 * of_nat i :: u64) = unat cache_size - 3 * i" by simp
qed

text \<open>
  Property C32: on a well-formed distribution whose keys are numbers the search returns; the
  water marks it sets are those of the first candidate with the largest estimated performance,
  among the local shares up to a third of the cache (no local and the whole cache remote when no
  candidate has a positive estimate), and three times the local share plus the remote share is
  exactly the cache size, without wrap-around.
\<close>

theorem optimal_split_is_first_best:
  assumes "cdf_ok cdf" "fst cdf \<noteq> []" "\<forall>e \<in> set (fst cdf). returns (stoi (fst (snd e)))"
  shows "\<exists>p bp bl br calls.
    itr_through_all_the_perf_values_to_find_optimal cache_size cdf cache_ns disk_ns rdma_ns
      = Inr (Set_water_marks bl br # calls)
    \<and> (\<forall>i \<in> set (candidates cache_size (length (fst cdf))).
         calculate_performance cdf (of_nat i) (cache_size - 3 * of_nat i) cache_ns disk_ns rdma_ns = Inr (p i))
    \<and> first_best p cache_size (candidates cache_size (length (fst cdf))) (bp, bl, br)
    \<and> 3 * unat bl + unat br = unat cache_size"
proof -
  let ?n = "length (fst cdf)" and ?c = "candidates cache_size (length (fst cdf))"
  let ?perf = "\<lambda>l r. calculate_performance cdf l r cache_ns disk_ns rdma_ns"
  have l: "?n < 2 ^ 64" using assms(1) by (simp add: cdf_ok_def)
  have "\<forall>i. \<exists>x. ?perf (of_nat i) (cache_size - 3 * of_nat i) = Inr x"
    using calculate_performance_returns [OF assms(1,2)] by blast
  then obtain p where p: "\<And>i. ?perf (of_nat i) (cache_size - 3 * of_nat i) = Inr (p i)" by metis
  obtain bp bl br where best: "fold (better p cache_size) ?c (0, 0, cache_size) = (bp, bl, br)" by (metis prod_cases3)
  have "sorted_wrt (<) ?c" unfolding candidates_def by (rule sorted_wrt_takeWhile) (simp add: sorted_wrt_upt)
  from fold_better [OF this, of p cache_size] have fb: "first_best p cache_size ?c (bp, bl, br)" by (simp only: best)
  have lr: "3 * unat bl + unat br = unat cache_size \<and> (bl \<noteq> 0 \<longrightarrow> unat bl < ?n)"
  proof (cases "(bp, bl, br) = (0, 0, cache_size)")
    case False
    then obtain j where j: "j \<in> set ?c" "bl = of_nat j" "br = cache_size - 3 * of_nat j"
      using fb by (auto simp: first_best_def)
    note c = candidates_below [OF j(1) l]
    have "unat bl = j" using c(1) l j(2) by simp
    then show ?thesis using c j(3) by simp
  qed simp
  have "search_loop ?perf cache_size [0..<?n] (0, 0, cache_size) = Inr (bp, bl, br)"
    using search_loop_eq [of "[0..<?n]" ?perf cache_size p] p best by (simp add: candidates_def)
  moreover obtain calls where "settings_for cdf (bp, bl, br) = Inr (Set_water_marks bl br # calls)"
    using settings_for_returns [OF assms(3), of "(bp, bl, br)"] lr by auto
  ultimately have "itr_through_all_the_perf_values_to_find_optimal cache_size cdf cache_ns disk_ns rdma_ns
      = Inr (Set_water_marks bl br # calls)"
    by (simp add: itr_through_all_the_perf_values_to_find_optimal_def)
  then show ?thesis using p fb lr by blast
qed

definition sample_cdf :: cdf where
  "sample_cdf = ([(50, ''2'', 50), (30, ''1'', 80), (20, ''3'', 100)],
     [''2'' \<mapsto> (50, 50), ''1'' \<mapsto> (80, 80), ''3'' \<mapsto> (100, 100)])"

lemma sample_cdf_ok: "cdf_ok sample_cdf" "fst sample_cdf \<noteq> []"
proof -
  have "length (fst sample_cdf) = 3" by (simp add: sample_cdf_def)
  moreover have "\<forall>i < 3. snd sample_cdf (fst (snd (fst sample_cdf ! i)))
      = Some (sum_list (take (Suc i) (freqs_of sample_cdf)), snd (snd (fst sample_cdf ! i)))" by code_simp
  ultimately show "cdf_ok sample_cdf" by (simp only: cdf_ok_def) simp
qed (simp add: sample_cdf_def)

lemma sample_cdf_keys: "\<forall>e \<in> set (fst sample_cdf). returns (stoi (fst (snd e)))"
  by code_simp

theorem calculate_performance_segments_witness:
  "\<exists>a b c. get_sum_freq_till_index sample_cdf 0 1 = Inr a \<and> get_sum_freq_till_index sample_cdf 1 (1 + 1) = Inr b
    \<and> get_sum_freq_till_index sample_cdf (1 + 1) 3 = Inr c \<and> a + b + c = 50
    \<and> calculate_performance sample_cdf 1 1 10 1000 100
      = Inr (let latency = a * 10 + (2 * b div 3 * 100 + b div 3 * 10) + c * 1000 in
             if latency = 0 then 0 else (- 1) div latency)"
  using calculate_performance_segments [OF sample_cdf_ok, of 1 1 10 1000 100]
  by (simp add: sample_cdf_def freqs_of_def)

theorem optimal_split_is_first_best_witness:
  "\<exists>p bp bl br calls. itr_through_all_the_perf_values_to_find_optimal 6 sample_cdf 10 1000 100 = Inr (Set_water_marks bl br # calls)
    \<and> first_best p 6 [0, 1, 2] (bp, bl, br) \<and> 3 * unat bl + unat br = 6"
proof -
  have c: "candidates 6 (length (fst sample_cdf)) = [0, 1, 2]"
    by (simp add: candidates_def sample_cdf_def upt_rec)
  show ?thesis
    using optimal_split_is_first_best [OF sample_cdf_ok sample_cdf_keys, of 6 10 1000 100] unfolding c by fastforce
qed

section \<open>The distribution is well formed\<close>

lemma mark_loop:
  assumes "\<forall>e \<in> set es. \<exists>i \<le> n. snd e = to_string_nat i" "n < 2 ^ 31" "length km = Suc n"
  shows "\<exists>km'. foldR (\<lambda>e key_map. bindR (stoi (snd e)) (\<lambda>i. vec_set_int key_map i True)) es km = Inr km'
    \<and> length km' = Suc n \<and> (\<forall>i \<le> n. km' ! i = (km ! i \<or> to_string_nat i \<in> snd ` set es))"
  using assms
proof (induction es arbitrary: km)
  case (Cons e es)
  obtain j where j: "j \<le> n" "snd e = to_string_nat j" using Cons.prems(1) by auto
  then have s: "stoi (snd e) = Inr (int j)" using Cons.prems(2) by (simp add: stoi_to_string)
  have "length (km[j := True]) = Suc n" using Cons.prems(3) by simp
  from Cons.IH [OF _ Cons.prems(2) this] Cons.prems(1) obtain km' where
    km': "foldR (\<lambda>e key_map. bindR (stoi (snd e)) (\<lambda>i. vec_set_int key_map i True)) es (km[j := True]) = Inr km'"
      "length km' = Suc n" "\<forall>i \<le> n. km' ! i = (km[j := True] ! i \<or> to_string_nat i \<in> snd ` set es)"
    by auto
  have "\<forall>i \<le> n. km' ! i = (km ! i \<or> to_string_nat i \<in> snd ` set (e # es))"
    using km'(3) j Cons.prems(3) by (auto simp: nth_list_update to_string_nat_inj)
  then show ?case using km'(1,2) s j Cons.prems(3) by (simp add: vec_set_in)
qed simp

lemma percentiles_returns:
  "total_freq \<noteq> 0 \<Longrightarrow> \<exists>pks. percentiles total_freq c kvs = Inr pks \<and> map snd pks = kvs"
proof (induction kvs arbitrary: c)
  case (Cons kv kvs)
  from Cons.IH [OF Cons.prems, of "c + fst kv"] obtain pks where
    "percentiles total_freq (c + fst kv) kvs = Inr pks" "map snd pks = kvs" by blast
  then show ?case using Cons.prems by (simp add: u64_div_def Let_def)
qed simp

lemma mset_concat_groups:
  "distinct ps \<Longrightarrow> set (map fst xs) \<subseteq> set ps \<Longrightarrow>
   mset (concat (map (\<lambda>p. map snd (filter (\<lambda>x. fst x = p) xs)) ps)) = mset (map snd xs)"
proof (induction ps arbitrary: xs)
  case (Cons p ps)
  let ?ys = "filter (\<lambda>x. fst x \<noteq> p) xs"
  have "map (\<lambda>q. map snd (filter (\<lambda>x. fst x = q) xs)) ps = map (\<lambda>q. map snd (filter (\<lambda>x. fst x = q) ?ys)) ps"
    using Cons.prems(1) by (auto intro!: map_cong arg_cong [where f = "map snd"] filter_cong)
  moreover have "mset (concat (map (\<lambda>q. map snd (filter (\<lambda>x. fst x = q) ?ys)) ps)) = mset (map snd ?ys)"
    using Cons.prems by (intro Cons.IH) auto
  moreover have "mset (map snd xs) = mset (map snd (filter (\<lambda>x. fst x = p) xs)) + mset (map snd ?ys)"
    by (induction xs) simp_all
  ultimately show ?case by (simp only: list.map concat.simps mset_append)
qed simp

lemma cdf_buckets_mset: "mset (concat (map snd (cdf_buckets pks))) = mset (map snd pks)"
proof -
  have "mset (concat (map (\<lambda>p. map snd (filter (\<lambda>x. fst x = p) pks)) (sort (remdups (map fst pks))))) = mset (map snd pks)"
    by (rule mset_concat_groups) simp_all
  then show ?thesis by (simp add: cdf_buckets_def comp_def)
qed

lemma sort_bucket_returns:
  assumes "\<forall>kv \<in> set kvs. returns (stoull (snd kv))"
  shows "\<exists>kvs'. sort_bucket kvs = Inr kvs' \<and> mset kvs' = mset kvs"
proof -
  obtain g where g: "\<And>kv. kv \<in> set kvs \<Longrightarrow> stoull (snd kv) = Inr (g kv)"
    using assms unfolding returns_iff by metis
  then have "mapMR (\<lambda>kv. mapR (\<lambda>v. (v, kv)) (stoull (snd kv))) kvs = Inr (map (\<lambda>kv. (g kv, kv)) kvs)"
    by (intro mapMR_pure) simp
  then have "sort_bucket kvs = Inr (map snd (rev (sort_key fst (map (\<lambda>kv. (g kv, kv)) kvs))))"
    by (simp add: sort_bucket_def)
  moreover have "mset (map snd (rev (sort_key fst (map (\<lambda>kv. (g kv, kv)) kvs)))) = mset kvs"
    by (simp add: image_mset.compositionality comp_def)
  ultimately show ?thesis by blast
qed

text \<open>What the emission loop keeps: the running total and the cumulative sums of the entries so far.\<close>

definition emitted :: "u64 \<times> cdf \<Rightarrow> bool" where
  "emitted = (\<lambda>(tot, freqs, m). tot = sum_list (map fst freqs) \<and> distinct (map (\<lambda>e. fst (snd e)) freqs)
     \<and> (\<forall>i < length freqs. m (fst (snd (freqs ! i))) = Some (sum_list (take (Suc i) (map fst freqs)), snd (snd (freqs ! i)))))"

lemma emitted_step:
  assumes "emitted (tot, freqs, m)" "k \<notin> (\<lambda>e. fst (snd e)) ` set freqs"
  shows "emitted (tot + f, freqs @ [(f, k, b)], m(k \<mapsto> (tot + f, b)))"
proof -
  have "fst (snd (freqs ! i)) \<noteq> k" if "i < length freqs" for i using assms(2) nth_mem [OF that] by force
  then show ?thesis using assms by (auto simp: emitted_def nth_append less_Suc_eq)
qed

lemma emit_entries:
  assumes "emitted (tot, freqs, m)" "distinct (map snd kvs)" "\<forall>kv \<in> set kvs. snd kv \<notin> (\<lambda>e. fst (snd e)) ` set freqs"
  shows "\<exists>tot' m'. fold (\<lambda>it (total_cum_sum, freqs, key_freq_bucket_map).
       let total_cum_sum = total_cum_sum + fst it in
       (total_cum_sum, freqs @ [(fst it, snd it, b)],
        key_freq_bucket_map(snd it \<mapsto> (total_cum_sum, b)))) kvs (tot, freqs, m)
     = (tot', freqs @ map (\<lambda>kv. (fst kv, snd kv, b)) kvs, m') \<and> emitted (tot', freqs @ map (\<lambda>kv. (fst kv, snd kv, b)) kvs, m')"
  using assms
proof (induction kvs arbitrary: tot freqs m)
  case (Cons kv kvs)
  have "emitted (tot + fst kv, freqs @ [(fst kv, snd kv, b)], m(snd kv \<mapsto> (tot + fst kv, b)))"
    using Cons.prems by (intro emitted_step) auto
  moreover have "\<forall>kv' \<in> set kvs. snd kv' \<notin> (\<lambda>e. fst (snd e)) ` set (freqs @ [(fst kv, snd kv, b)])"
    using Cons.prems by (auto simp: image_iff)
  ultimately have "\<exists>tot' m'. fold (\<lambda>it (total_cum_sum, freqs, key_freq_bucket_map).
       let total_cum_sum = total_cum_sum + fst it in
       (total_cum_sum, freqs @ [(fst it, snd it, b)],
        key_freq_bucket_map(snd it \<mapsto> (total_cum_sum, b)))) kvs (tot + fst kv, freqs @ [(fst kv, snd kv, b)], m(snd kv \<mapsto> (tot + fst kv, b)))
     = (tot', (freqs @ [(fst kv, snd kv, b)]) @ map (\<lambda>kv. (fst kv, snd kv, b)) kvs, m')
       \<and> emitted (tot', (freqs @ [(fst kv, snd kv, b)]) @ map (\<lambda>kv. (fst kv, snd kv, b)) kvs, m')"
    using Cons.prems(2) by (intro Cons.IH) (simp_all del: fun_upd_apply)
  then show ?case by (simp add: Let_def del: fun_upd_apply)
qed simp

definition plain_entry :: "u64 \<times> string \<times> u64 \<Rightarrow> u64 \<times> string" where
  "plain_entry e = (fst e, fst (snd e))"

definition entry_bucket :: "u64 \<times> string \<times> u64 \<Rightarrow> u64" where
  "entry_bucket e = snd (snd e)"

lemma emit_bucket_returns:
  assumes "emitted (tot, freqs, m)" "distinct (map snd (snd bucket))"
    "\<forall>kv \<in> set (snd bucket). snd kv \<notin> (\<lambda>e. fst (snd e)) ` set freqs \<and> returns (stoull (snd kv))"
  shows "\<exists>tot' new m'. emit_bucket bucket (tot, freqs, m) = Inr (tot', freqs @ new, m') \<and> emitted (tot', freqs @ new, m')
    \<and> mset (map plain_entry new) = mset (snd bucket) \<and> (\<forall>e \<in> set new. entry_bucket e = fst bucket)"
proof -
  have "\<forall>kv \<in> set (snd bucket). returns (stoull (snd kv))" using assms(3) by blast
  then obtain kvs where kvs: "sort_bucket (snd bucket) = Inr kvs" "mset kvs = mset (snd bucket)"
    using sort_bucket_returns by blast
  have "mset (map snd kvs) = mset (map snd (snd bucket))" using kvs(2) by simp
  then have d: "distinct (map snd kvs)" using assms(2) by (metis mset_eq_imp_distinct_iff)
  have "\<forall>kv \<in> set kvs. snd kv \<notin> (\<lambda>e. fst (snd e)) ` set freqs"
    using assms(3) kvs(2) by (metis mset_eq_setD)
  from emit_entries [OF assms(1) d this, of "fst bucket"] obtain tot' m' where
    "emit_bucket bucket (tot, freqs, m) = Inr (tot', freqs @ map (\<lambda>kv. (fst kv, snd kv, fst bucket)) kvs, m')"
    "emitted (tot', freqs @ map (\<lambda>kv. (fst kv, snd kv, fst bucket)) kvs, m')"
    unfolding emit_bucket_def kvs(1) bindR_simps by (metis (no_types, lifting))
  moreover have "map plain_entry (map (\<lambda>kv. (fst kv, snd kv, fst bucket)) kvs) = kvs"
    by (simp add: plain_entry_def comp_def)
  moreover have "\<forall>e \<in> set (map (\<lambda>kv. (fst kv, snd kv, fst bucket)) kvs). entry_bucket e = fst bucket"
    by (simp add: entry_bucket_def)
  ultimately show ?thesis using kvs(2)
    by (intro exI [of _ tot'] exI [of _ "map (\<lambda>kv. (fst kv, snd kv, fst bucket)) kvs"] exI [of _ m'] conjI) simp_all
qed

lemma emit_buckets:
  assumes "emitted (tot, freqs, m)" "distinct (map snd (concat (map snd bs)))" "sorted (map fst bs)"
    "\<forall>kv \<in> set (concat (map snd bs)). snd kv \<notin> (\<lambda>e. fst (snd e)) ` set freqs \<and> returns (stoull (snd kv))"
    "sorted (map entry_bucket freqs)" "\<forall>e \<in> set freqs. \<forall>b \<in> set bs. entry_bucket e \<le> fst b"
  shows "\<exists>tot' new m'. foldR emit_bucket bs (tot, freqs, m) = Inr (tot', freqs @ new, m') \<and> emitted (tot', freqs @ new, m')
    \<and> mset (map plain_entry new) = mset (concat (map snd bs)) \<and> sorted (map entry_bucket (freqs @ new))"
  using assms
proof (induction bs arbitrary: tot freqs m)
  case (Cons b bs)
  obtain tot1 new1 m1 where 1: "emit_bucket b (tot, freqs, m) = Inr (tot1, freqs @ new1, m1)" "emitted (tot1, freqs @ new1, m1)"
    "mset (map plain_entry new1) = mset (snd b)" "\<forall>e \<in> set new1. entry_bucket e = fst b"
    using emit_bucket_returns [OF Cons.prems(1), of b] Cons.prems(2,4) by auto
  have keys: "(\<lambda>e. fst (snd e)) ` set new1 = snd ` set (snd b)"
  proof -
    have "plain_entry ` set new1 = set (snd b)" using 1(3) by (metis mset_eq_setD set_map)
    then have "snd ` plain_entry ` set new1 = snd ` set (snd b)" by simp
    then show ?thesis by (simp add: image_comp comp_def plain_entry_def)
  qed
  have "\<exists>tot' new m'. foldR emit_bucket bs (tot1, freqs @ new1, m1) = Inr (tot', (freqs @ new1) @ new, m')
    \<and> emitted (tot', (freqs @ new1) @ new, m') \<and> mset (map plain_entry new) = mset (concat (map snd bs))
    \<and> sorted (map entry_bucket ((freqs @ new1) @ new))"
  proof (rule Cons.IH [OF 1(2)])
    show "\<forall>kv \<in> set (concat (map snd bs)). snd kv \<notin> (\<lambda>e. fst (snd e)) ` set (freqs @ new1) \<and> returns (stoull (snd kv))"
    proof
      fix kv assume kv: "kv \<in> set (concat (map snd bs))"
      have "snd kv \<in> snd ` set (concat (map snd bs))" using kv by (rule imageI)
      then have "snd kv \<notin> snd ` set (snd b)" using Cons.prems(2) by (auto simp: image_iff)
      moreover have "snd kv \<notin> (\<lambda>e. fst (snd e)) ` set freqs \<and> returns (stoull (snd kv))"
        using Cons.prems(4) kv by simp
      ultimately show "snd kv \<notin> (\<lambda>e. fst (snd e)) ` set (freqs @ new1) \<and> returns (stoull (snd kv))"
        by (simp only: set_append image_Un keys Un_iff) blast
    qed
    have "map entry_bucket new1 = replicate (length new1) (fst b)" using 1(4) by (induction new1) simp_all
    then have "sorted (map entry_bucket new1)" by simp
    then show "sorted (map entry_bucket (freqs @ new1))"
      using Cons.prems(5,6) 1(4) by (simp add: sorted_append)
    show "\<forall>e \<in> set (freqs @ new1). \<forall>b \<in> set bs. entry_bucket e \<le> fst b"
      using Cons.prems(3,6) 1(4) by auto
  qed (use Cons.prems(2,3) in simp_all)
  then obtain tot' new m' where 2: "foldR emit_bucket bs (tot1, freqs @ new1, m1) = Inr (tot', (freqs @ new1) @ new, m')"
    "emitted (tot', (freqs @ new1) @ new, m')" "mset (map plain_entry new) = mset (concat (map snd bs))"
    "sorted (map entry_bucket ((freqs @ new1) @ new))" by blast
  have "foldR emit_bucket (b # bs) (tot, freqs, m) = Inr (tot', freqs @ new1 @ new, m')" using 1(1) 2(1) by simp
  moreover have "mset (map plain_entry (new1 @ new)) = mset (concat (map snd (b # bs)))" using 1(3) 2(3) by simp
  ultimately show ?case using 2(2,4) by (metis append.assoc)
qed simp


lemma cdf_ok_emitted:
  assumes "emitted (tot, fst cdf, snd cdf)" "length (fst cdf) < 2 ^ 64" shows "cdf_ok cdf"
  using assms by (cases cdf) (simp add: emitted_def cdf_ok_def freqs_of_def)

text \<open>The frequency of every key of the dataset, 0 for the keys that were never read.\<close>

definition all_freqs :: "(nat \<times> u64) list \<Rightarrow> nat \<Rightarrow> (u64 \<times> string) list" where
  "all_freqs ks n = map (\<lambda>i. (map_at (map_of ks) i 0, to_string_nat i)) [1..<Suc n]"

lemma mset_all_freqs:
  assumes "distinct (map fst ks)" "fst ` set ks \<subseteq> {1..n}"
    "\<forall>i \<in> {1..n}. km ! i = (to_string_nat i \<in> (\<lambda>k. to_string_nat (fst k)) ` set ks)"
  shows "mset (map (\<lambda>(i, f). (f, to_string_nat i)) ks)
     + mset (map (\<lambda>i. (0, to_string_nat i)) (filter (\<lambda>i. \<not> km ! i) [1..<Suc n])) = mset (all_freqs ks n)"
proof -
  let ?f = "\<lambda>i. (map_at (map_of ks) i 0, to_string_nat i)" and ?in = "\<lambda>i. i \<in> fst ` set ks"
  have km: "km ! i = ?in i" if "i \<in> set [1..<Suc n]" for i
    using that assms(3) by (auto simp: to_string_nat_inj image_iff)
  have "mset (filter ?in [1..<Suc n]) = mset (map fst ks)"
  proof (rule set_eq_iff_mset_eq_distinct [THEN iffD1])
    show "set (filter ?in [1..<Suc n]) = set (map fst ks)" using assms(2) by auto
  qed (use assms(1) in simp_all)
  then have "mset (map ?f (filter ?in [1..<Suc n])) = mset (map ?f (map fst ks))" by (metis mset_map)
  moreover have "map ?f (map fst ks) = map (\<lambda>(i, f). (f, to_string_nat i)) ks"
    using assms(1) by (auto simp: map_at_def)
  ultimately have a: "mset (map (\<lambda>(i, f). (f, to_string_nat i)) ks) = mset (map ?f (filter ?in [1..<Suc n]))" by (simp only:)
  have "map_at (map_of ks) i 0 = 0" if "i \<notin> fst ` set ks" for i
    using that by (simp add: map_at_def map_of_eq_None_iff [THEN iffD2])
  then have "map (\<lambda>i. (0, to_string_nat i)) (filter (\<lambda>i. \<not> ?in i) [1..<Suc n]) = map ?f (filter (\<lambda>i. \<not> ?in i) [1..<Suc n])"
    by simp
  moreover have "filter (\<lambda>i. \<not> km ! i) [1..<Suc n] = filter (\<lambda>i. \<not> ?in i) [1..<Suc n]"
    using km by (intro filter_cong) simp_all
  ultimately have "map (\<lambda>i. (0, to_string_nat i)) (filter (\<lambda>i. \<not> km ! i) [1..<Suc n])
      = map ?f (filter (\<lambda>i. \<not> ?in i) [1..<Suc n])" by (simp only:)
  then have "mset (map (\<lambda>(i, f). (f, to_string_nat i)) ks) + mset (map (\<lambda>i. (0, to_string_nat i)) (filter (\<lambda>i. \<not> km ! i) [1..<Suc n]))
      = mset (map ?f (filter ?in [1..<Suc n])) + mset (map ?f (filter (\<lambda>i. \<not> ?in i) [1..<Suc n]))"
    using a by (simp only:)
  also have "\<dots> = mset (map ?f [1..<Suc n])"
    by (simp only: mset_map mset_filter image_mset_union [symmetric] multiset_partition [symmetric])
  finally show ?thesis by (simp only: all_freqs_def)
qed


lemma sorted_by_freq_mset:
  "length key_freq \<le> unat total_keys \<Longrightarrow> mset (sorted_by_freq key_freq total_keys) = mset (map (\<lambda>(k, f). (f, k)) key_freq)"
  by (simp add: sorted_by_freq_def)

lemma plain_entry_props: "map fst xs = map (fst \<circ> plain_entry) xs" "map (\<lambda>e. fst (snd e)) xs = map (snd \<circ> plain_entry) xs"
  by (simp_all add: plain_entry_def)

text \<open>
  Property C31: when the cache reports distinct keys of the dataset with a non-zero total
  frequency, the distribution is built: it lists every key of the dataset exactly once with its
  frequency (0 for the keys that were never read), in the order of the percentile buckets, and its
  map holds for every key the cumulative frequency up to and including it and its bucket.
\<close>

theorem get_and_sort_freq_wellformed:
  assumes "distinct (map fst ks)" "fst ` set ks \<subseteq> {1..unat total_keys}" "unat total_keys < 2 ^ 31"
    and "sum_list (map snd ks) \<noteq> 0"
  shows "\<exists>cdf. get_and_sort_freq (map (\<lambda>(i, f). (to_string_nat i, f)) ks) total_keys = Inr cdf
    \<and> cdf_ok cdf \<and> mset (map plain_entry (fst cdf)) = mset (all_freqs ks (unat total_keys))
    \<and> sorted (map entry_bucket (fst cdf))"
proof -
  let ?n = "unat total_keys" and ?kf = "map (\<lambda>(i, f). (to_string_nat i, f)) ks"
  let ?s = "sorted_by_freq ?kf total_keys"
  have "length ks \<le> ?n"
    using card_mono [OF _ assms(2)] distinct_card [OF assms(1)] by simp
  then have ms: "mset ?s = mset (map (\<lambda>(i, f). (f, to_string_nat i)) ks)"
    by (subst sorted_by_freq_mset) (simp_all add: case_prod_unfold image_mset.compositionality comp_def)
  have sets: "set ?s = (\<lambda>(i, f). (f, to_string_nat i)) ` set ks" using mset_eq_setD [OF ms] by simp
  then have snds: "snd ` set ?s = (\<lambda>k. to_string_nat (fst k)) ` set ks" by (simp add: image_image case_prod_unfold)
  have "\<forall>e \<in> set ?s. \<exists>i \<le> ?n. snd e = to_string_nat i" using sets assms(2) by fastforce
  note ml = mark_loop [OF this assms(3), of "replicate (?n + 1) False"]
  have "\<forall>i \<le> ?n. replicate (?n + 1) False ! i = False" by (simp del: replicate_Suc)
  with ml obtain km where
    km: "mark_keys ?s total_keys = Inr km" "\<forall>i \<le> ?n. km ! i = (to_string_nat i \<in> snd ` set ?s)"
    unfolding mark_keys_def by (metis length_replicate Suc_eq_plus1)
  let ?all = "?s @ missing_keys km total_keys"
  have all: "mset ?all = mset (all_freqs ks ?n)"
    using mset_all_freqs [OF assms(1,2), of km] km(2) ms by (simp add: snds missing_keys_def)
  have "sum_list (map fst (missing_keys km total_keys)) = 0" by (simp add: missing_keys_def comp_def)
  moreover have "sum_list (map fst ?s) = sum_list (map snd ks)"
    using ms by (intro sum_list_mset_eq) (simp add: image_mset.compositionality comp_def case_prod_unfold)
  ultimately have "sum_list (map fst ?all) \<noteq> 0" using assms(4) by simp
  from percentiles_returns [OF this, of 0 ?all] obtain pks where
    pks: "percentiles (sum_list (map fst ?all)) 0 ?all = Inr pks" "map snd pks = ?all" by blast
  let ?bs = "cdf_buckets pks"
  have bs: "mset (concat (map snd ?bs)) = mset (all_freqs ks ?n)" using cdf_buckets_mset pks(2) all by metis
  then have "mset (map snd (concat (map snd ?bs))) = mset (map snd (all_freqs ks ?n))" by (metis mset_map)
  moreover have "distinct (map snd (all_freqs ks ?n))"
    by (simp add: all_freqs_def comp_def distinct_map inj_on_def to_string_nat_inj)
  ultimately have d: "distinct (map snd (concat (map snd ?bs)))" by (metis mset_eq_imp_distinct_iff)
  have st: "\<forall>kv \<in> set (concat (map snd ?bs)). snd kv \<notin> (\<lambda>e. fst (snd e)) ` set [] \<and> returns (stoull (snd kv))"
    using mset_eq_setD [OF bs] assms(3) by (auto simp: all_freqs_def stoull_to_string)
  have "map fst ?bs = sort (remdups (map fst pks))" by (simp add: cdf_buckets_def comp_def)
  then have srt: "sorted (map fst ?bs)" by simp
  have "emitted (0, [], Map.empty)" by (simp add: emitted_def)
  from emit_buckets [OF this d srt st] obtain tot freqs m where
    f: "foldR emit_bucket ?bs (0, [], Map.empty) = Inr (tot, freqs, m)" "emitted (tot, freqs, m)"
      "mset (map plain_entry freqs) = mset (concat (map snd ?bs))" "sorted (map entry_bucket freqs)" by auto
  have fm: "mset (map plain_entry freqs) = mset (all_freqs ks ?n)" using f(3) bs by simp
  have "length freqs = ?n" using arg_cong [OF fm, of size] by (simp add: all_freqs_def)
  then have "cdf_ok (freqs, m)" using f(2) assms(3) by (intro cdf_ok_emitted [of tot]) simp_all
  moreover have "get_and_sort_freq ?kf total_keys = Inr (freqs, m)"
    using km(1) pks(1) f(1) by (simp add: get_and_sort_freq_def Let_def)
  ultimately show ?thesis using fm f(4) by auto
qed

theorem get_and_sort_freq_wellformed_witness:
  "\<exists>cdf. get_and_sort_freq [(''3'', 5), (''1'', 7)] 4 = Inr cdf \<and> cdf_ok cdf
     \<and> mset (map plain_entry (fst cdf)) = {#(7, ''1''), (0, ''2''), (5, ''3''), (0, ''4'')#}"
proof -
  let ?ks = "[(3, 5), (1, 7)] :: (nat \<times> u64) list"
  have "map (\<lambda>(i, f). (to_string_nat i, f)) ?ks = [(''3'', 5), (''1'', 7)]" by code_simp
  moreover have "all_freqs ?ks (unat (4 :: u64)) = [(7, ''1''), (0, ''2''), (5, ''3''), (0, ''4'')]" by code_simp
  moreover have "distinct (map fst ?ks)" "fst ` set ?ks \<subseteq> {1..unat (4 :: u64)}" "unat (4 :: u64) < 2 ^ 31" "sum_list (map snd ?ks) \<noteq> 0"
    by simp_all
  note get_and_sort_freq_wellformed [OF this]
  ultimately show ?thesis by (metis (no_types, lifting) mset.simps)
qed

end
