(* ===== verification/Connection.thy ===== *)
theory Connection
  imports Rdma_Data
begin

text \<open>
  The message layer (\<open>src/src/connection.h\<close>, \<open>src/src/connection.cpp\<close>, \<open>src/src/packet.capnp\<close>):
  the packets, the table of flows of a connection, sending, receiving with a handler, the client
  side of a request and the barrier between clients.

  The network stack (machnet) is a record of functions: connecting, listening and sending can
  succeed or fail, and what is received is a list of outcomes of polls, each with the value of
  \<open>g_stop\<close> after it. A message is its list of packets here; \<open>Packet_Wire\<close>
  goes below, to the structs that the generated accessors read and write. A connection keeps a log \<open>sent\<close> of the messages it handed to machnet. Machine
  indexes and ports are small numbers and are not wrapped.
\<close>

section \<open>Packets and flows\<close>

datatype response_type = OK | INVALID

datatype packet =
    PutRequest string string
  | PutResponse response_type
  | GetRequest string
  | GetResponse response_type string
  | RdmaSetupRequest u64 u64 u64
  | RdmaSetupResponse response_type
  | ClientSyncRequest response_type u64
  | ClientSyncResponse response_type
  | SingletonPutRequest string string bool u64
  | DeleteRequest string

text \<open>\<open>cStr()\<close> turned into a \<open>std::string\<close>: the text up to its first zero byte.\<close>

definition c_str :: "string \<Rightarrow> string" where
  "c_str s = takeWhile (\<lambda>c. c \<noteq> CHR 0x00) s"

record flow =
  src_ip :: "32 word"
  dst_ip :: "32 word"
  src_port :: int
  dst_port :: int

definition no_flow :: flow where
  "no_flow = \<lparr>src_ip = 0, dst_ip = 0, src_port = 0, dst_port = 0\<rparr>"

definition reply_flow :: "flow \<Rightarrow> flow" where
  "reply_flow rx = \<lparr>src_ip = dst_ip rx, dst_ip = src_ip rx, src_port = dst_port rx, dst_port = src_port rx\<rparr>"

datatype recv_result = Recv_error | Recv_nothing | Recv flow "packet list"

record network =
  inet_addr_host :: "string \<Rightarrow> 32 word"
  machnet_connect :: "string \<Rightarrow> string \<Rightarrow> int \<Rightarrow> nat \<Rightarrow> flow option"
  machnet_listen :: "string \<Rightarrow> int \<Rightarrow> bool"
  machnet_send :: "flow \<Rightarrow> packet list \<Rightarrow> bool"

section \<open>Connection\<close>

record connection =
  remote_machine_configs :: "remote_machine list"
  cn_machine_index :: int
  thread_index :: int
  machine_index_to_connection :: "int \<times> int \<rightharpoonup> flow"
  dst_ip_to_machine_index :: "32 word \<rightharpoonup> int"
  current_port :: int
  sent :: "(flow \<times> packet list) list"

definition make_Connection :: "network \<Rightarrow> remote_machine list \<Rightarrow> int \<Rightarrow> int \<Rightarrow> connection res" where
  "make_Connection net configs m t =
     bindR (vec_at_int configs m) (\<lambda>mine.
     Inr \<lparr>remote_machine_configs = configs, cn_machine_index = m, thread_index = t,
          machine_index_to_connection = Map.empty,
          dst_ip_to_machine_index =
            fold (\<lambda>i ips. ips(inet_addr_host net (rm_ip (configs ! i)) \<mapsto> int i)) [0..<length configs] Map.empty,
          current_port = rm_port mine + t * int (length configs), sent = []\<rparr>)"

definition MACHNET_CONNECT_RETRIES :: nat where "MACHNET_CONNECT_RETRIES = 1000000"

fun connect_loop :: "(nat \<Rightarrow> flow option) \<Rightarrow> nat \<Rightarrow> nat \<Rightarrow> flow option" where
  "connect_loop attempt i n =
     (if n = 0 then None
      else case attempt i of Some f \<Rightarrow> Some f | None \<Rightarrow> connect_loop attempt (Suc i) (n - 1))"

declare connect_loop.simps [simp del]

definition connect_to_remote_machine ::
    "network \<Rightarrow> int \<Rightarrow> 'a connection_scheme \<Rightarrow> 'a connection_scheme res" where
  "connect_to_remote_machine net remote_index c =
     bindR (vec_at_int (remote_machine_configs c) (cn_machine_index c)) (\<lambda>mine.
     bindR (vec_at_int (remote_machine_configs c) remote_index) (\<lambda>remote.
     let remote_port = rm_port remote + thread_index c in
     case connect_loop (machnet_connect net (rm_ip mine) (rm_ip remote) remote_port) 0 MACHNET_CONNECT_RETRIES of
       None \<Rightarrow> Inl (Exit (-1))
     | Some f \<Rightarrow> Inr (c\<lparr>machine_index_to_connection := (machine_index_to_connection c)((remote_index, remote_port) \<mapsto> f)\<rparr>)))"

definition cn_listen :: "network \<Rightarrow> 'a connection_scheme \<Rightarrow> 'a connection_scheme res" where
  "cn_listen net c =
     bindR (vec_at_int (remote_machine_configs c) (cn_machine_index c)) (\<lambda>mine.
     let p = rm_port mine + thread_index c in
     if machnet_listen net (rm_ip mine) p
     then Inr (c\<lparr>machine_index_to_connection := (machine_index_to_connection c)((cn_machine_index c, p) \<mapsto> no_flow)\<rparr>)
     else Inl (Exit (-1)))"

text \<open>The two overloads of \<open>send\<close>; the table is read with \<open>operator[]\<close>, which inserts a zero flow.\<close>

definition send :: "network \<Rightarrow> int \<Rightarrow> int \<Rightarrow> packet list \<Rightarrow> 'a connection_scheme \<Rightarrow> 'a connection_scheme res" where
  "send net index port data c =
     (let f = map_at (machine_index_to_connection c) (index, port) no_flow;
          c = c\<lparr>machine_index_to_connection := map_touch (machine_index_to_connection c) (index, port) no_flow\<rparr> in
      if machnet_send net f data then Inr (c\<lparr>sent := sent c @ [(f, data)]\<rparr>)
      else Inl (Panic ''machnet_send() failed''))"

definition send_default :: "network \<Rightarrow> int \<Rightarrow> packet list \<Rightarrow> 'a connection_scheme \<Rightarrow> 'a connection_scheme res" where
  "send_default net index data c =
     bindR (vec_at_int (remote_machine_configs c) index) (\<lambda>r. send net index (rm_port r) data c)"

section \<open>Receiving\<close>

text \<open>
  A handler works on the connection and on the locals its closure captures. The sender's flow
  is recorded before the handler runs, under the index of its address (0 if it is unknown).
\<close>

type_synonym 's handler = "int \<Rightarrow> int \<Rightarrow> flow \<Rightarrow> packet \<Rightarrow> 's \<Rightarrow> 's res"

definition note_sender :: "flow \<Rightarrow> 'a connection_scheme \<Rightarrow> int \<times> 'a connection_scheme" where
  "note_sender rx c =
     (let remote_index = map_at (dst_ip_to_machine_index c) (src_ip rx) 0 in
      (remote_index,
       c\<lparr>dst_ip_to_machine_index := map_touch (dst_ip_to_machine_index c) (src_ip rx) 0,
         machine_index_to_connection := (machine_index_to_connection c)((remote_index, src_port rx) \<mapsto> reply_flow rx)\<rparr>))"

definition receive ::
    "('a connection_scheme \<times> 'l) handler \<Rightarrow> recv_result \<Rightarrow> 'a connection_scheme \<times> 'l
     \<Rightarrow> (bool \<times> 'a connection_scheme \<times> 'l) res" where
  "receive handler ev st =
     (case ev of
        Recv_error \<Rightarrow> Inl (Exit (-1))
      | Recv_nothing \<Rightarrow> Inr (False, st)
      | Recv rx_flow packets \<Rightarrow>
          bindR (foldR (\<lambda>data (c, l).
            let (remote_index, c) = note_sender rx_flow c in
            handler remote_index (src_port rx_flow) (reply_flow rx_flow) data (c, l)) packets st) (\<lambda>st.
          Inr (True, st)))"

fun poll_receive ::
    "('a connection_scheme \<times> 'l) handler \<Rightarrow> (recv_result \<times> bool) list \<Rightarrow> 'a connection_scheme \<times> 'l
     \<Rightarrow> ((recv_result \<times> bool) list \<times> 'a connection_scheme \<times> 'l) res" where
  "poll_receive handler [] st = Inl (Blocked ''machnet_recv'')"
| "poll_receive handler ((ev, g_stop) # evs) st =
     bindR (receive handler ev st) (\<lambda>(received_data, st).
     if received_data \<or> g_stop then Inr (evs, st) else poll_receive handler evs st)"

text \<open>\<open>loop\<close> also executes the pending operations, a virtual method, before each poll.\<close>

fun loop ::
    "('a connection_scheme \<times> 'l \<Rightarrow> ('a connection_scheme \<times> 'l) res) \<Rightarrow> ('a connection_scheme \<times> 'l) handler
     \<Rightarrow> (recv_result \<times> bool) list \<Rightarrow> 'a connection_scheme \<times> 'l
     \<Rightarrow> ((recv_result \<times> bool) list \<times> 'a connection_scheme \<times> 'l) res" where
  "loop execute_pending_operations handler [] st = Inl (Blocked ''machnet_recv'')"
| "loop execute_pending_operations handler ((ev, g_stop) # evs) st =
     bindR (execute_pending_operations st) (\<lambda>st.
     bindR (receive handler ev st) (\<lambda>(received_data, st).
     if received_data \<or> g_stop then Inr (evs, st) else loop execute_pending_operations handler evs st))"

section \<open>Requests of a client\<close>

definition put_handler :: "('a connection_scheme \<times> unit) handler" where
  "put_handler remote_index remote_port tx_flow data st = Inr st"

definition connection_put ::
    "network \<Rightarrow> int \<Rightarrow> int \<Rightarrow> string \<Rightarrow> string \<Rightarrow> (recv_result \<times> bool) list \<Rightarrow> 'a connection_scheme
     \<Rightarrow> ((recv_result \<times> bool) list \<times> 'a connection_scheme) res" where
  "connection_put net index t key value evs c =
     bindR (vec_at_int (remote_machine_configs c) index) (\<lambda>r.
     bindR (send net index (rm_port r + t) [PutRequest key value] c) (\<lambda>c.
     bindR (poll_receive put_handler evs (c, ())) (\<lambda>(evs, c, _). Inr (evs, c))))"

definition get_handler :: "('a connection_scheme \<times> string) handler" where
  "get_handler remote_index remote_port tx_flow data = (\<lambda>(c, value).
     case data of GetResponse _ v \<Rightarrow> Inr (c, c_str v) | _ \<Rightarrow> Inr (c, value))"

definition connection_get ::
    "network \<Rightarrow> int \<Rightarrow> int \<Rightarrow> string \<Rightarrow> (recv_result \<times> bool) list \<Rightarrow> 'a connection_scheme
     \<Rightarrow> (string \<times> (recv_result \<times> bool) list \<times> 'a connection_scheme) res" where
  "connection_get net index t key evs c =
     bindR (vec_at_int (remote_machine_configs c) index) (\<lambda>r.
     bindR (send net index (rm_port r + t) [GetRequest key] c) (\<lambda>c.
     bindR (poll_receive get_handler evs (c, [])) (\<lambda>(evs, c, value). Inr (value, evs, c))))"

section \<open>Clients\<close>

text \<open>The loops over the machines that are not this one, servers or clients.\<close>

definition others_such :: "bool \<Rightarrow> 'a connection_scheme \<Rightarrow> int list" where
  "others_such server c =
     map int (filter (\<lambda>i. int i \<noteq> cn_machine_index c \<and> rm_server (remote_machine_configs c ! i) = server)
       [0..<length (remote_machine_configs c)])"

definition make_Client :: "network \<Rightarrow> remote_machine list \<Rightarrow> int \<Rightarrow> int \<Rightarrow> connection res" where
  "make_Client net configs m t =
     bindR (make_Connection net configs m t) (\<lambda>c.
     foldR (connect_to_remote_machine net) (others_such True c) c)"

definition connect_to_other_clients :: "network \<Rightarrow> 'a connection_scheme \<Rightarrow> 'a connection_scheme res" where
  "connect_to_other_clients net c =
     bindR (cn_listen net c) (\<lambda>c. foldR (connect_to_remote_machine net) (others_such False c) c)"

definition sync_handler :: "('a connection_scheme \<times> (int \<rightharpoonup> bool)) handler" where
  "sync_handler remote_index remote_port tx_flow data = (\<lambda>(c, request_acks).
     case data of ClientSyncRequest _ index \<Rightarrow> Inr (c, request_acks(int_of_u64 index \<mapsto> True))
     | _ \<Rightarrow> Inr (c, request_acks))"

definition sync_with_other_clients ::
    "network \<Rightarrow> (recv_result \<times> bool) list \<Rightarrow> 'a connection_scheme \<Rightarrow> ((recv_result \<times> bool) list \<times> 'a connection_scheme) res" where
  "sync_with_other_clients net evs c =
     (let total_other_clients = length (others_such False c) in
      bindR (foldR (\<lambda>i. send_default net i [ClientSyncRequest OK (of_int (cn_machine_index c))]) (others_such False c) c) (\<lambda>c.
      bindR (foldR (\<lambda>_ (evs, st). poll_receive sync_handler evs st) [0..<total_other_clients] (evs, c, Map.empty)) (\<lambda>(evs, c, request_acks).
      if card (dom request_acks) \<noteq> total_other_clients then Inl (Panic ''Client sync failed'')
      else Inr (evs, c))))"

section \<open>Servers\<close>

record rdma_get_response =
  gr_index :: int
  gr_port :: int
  gr_response_type :: response_type
  gr_value :: string

record block_cache_request =
  bc_index :: int
  bc_port :: int
  bc_response_type :: response_type
  bc_key :: string
  bc_value :: string

record append_singleton_request =
  sp_index :: int
  sp_port :: int
  sp_response_type :: response_type
  sp_key :: string
  sp_value :: string
  sp_singleton :: bool
  sp_forward_count :: u64

record append_delete_request_data =
  dr_index :: int
  dr_port :: int
  dr_key :: string

record server = connection +
  block_db_async :: bool
  rdma_get_response_queue :: "rdma_get_response mpmc"
  remote_rdma_cache_hits :: u64
  block_cache_request_queue :: "block_cache_request mpmc"
  async_disk_requests :: u64
  singleton_put_request_queue :: "append_singleton_request mpmc"
  delete_request_queue :: "append_delete_request_data mpmc"

definition make_Server :: "network \<Rightarrow> bool \<Rightarrow> remote_machine list \<Rightarrow> int \<Rightarrow> int \<Rightarrow> server res" where
  "make_Server net db_async configs m t =
     bindR (make_Connection net configs m t) (\<lambda>c.
     bindR (cn_listen net (connection.extend c
       \<lparr>block_db_async = db_async, rdma_get_response_queue = [], remote_rdma_cache_hits = 0, block_cache_request_queue = [],
        async_disk_requests = 0, singleton_put_request_queue = [], delete_request_queue = []\<rparr>)) (\<lambda>s.
     foldR (connect_to_remote_machine net) (others_such True s) s))"

definition put_response :: "network \<Rightarrow> int \<Rightarrow> int \<Rightarrow> response_type \<Rightarrow> 'a connection_scheme \<Rightarrow> 'a connection_scheme res" where
  "put_response net index port rt = send net index port [PutResponse rt]"

definition put_response_default :: "network \<Rightarrow> int \<Rightarrow> response_type \<Rightarrow> 'a connection_scheme \<Rightarrow> 'a connection_scheme res" where
  "put_response_default net index rt c =
     bindR (vec_at_int (remote_machine_configs c) index) (\<lambda>r. put_response net index (rm_port r) rt c)"

definition get_response ::
    "network \<Rightarrow> int \<Rightarrow> int \<Rightarrow> response_type \<Rightarrow> string \<Rightarrow> 'a connection_scheme \<Rightarrow> 'a connection_scheme res" where
  "get_response net index port rt value = send net index port [GetResponse rt value]"

definition get_response_default ::
    "network \<Rightarrow> int \<Rightarrow> response_type \<Rightarrow> string \<Rightarrow> 'a connection_scheme \<Rightarrow> 'a connection_scheme res" where
  "get_response_default net index rt value c =
     bindR (vec_at_int (remote_machine_configs c) index) (\<lambda>r. get_response net index (rm_port r) rt value c)"

text \<open>The body of \<open>pass_write_to_server_request\<close> is commented out.\<close>

definition pass_write_to_server_request :: "int \<Rightarrow> int \<Rightarrow> string \<Rightarrow> 'a connection_scheme \<Rightarrow> 'a connection_scheme res" where
  "pass_write_to_server_request index port key c = Inr c"

definition rdma_setup_request :: "int \<Rightarrow> int \<Rightarrow> u64 \<Rightarrow> u64 \<Rightarrow> 'a connection_scheme \<Rightarrow> 'a connection_scheme res" where
  "rdma_setup_request index my_index start_address sz c = Inl (Panic ''Deprecated'')"

definition rdma_setup_response :: "int \<Rightarrow> response_type \<Rightarrow> 'a connection_scheme \<Rightarrow> 'a connection_scheme res" where
  "rdma_setup_response index rt c = Inl (Panic ''Deprecated'')"

definition singleton_put_request ::
    "network \<Rightarrow> int \<Rightarrow> int \<Rightarrow> string \<Rightarrow> string \<Rightarrow> bool \<Rightarrow> u64 \<Rightarrow> 'a connection_scheme \<Rightarrow> 'a connection_scheme res" where
  "singleton_put_request net index port key value singleton forward_count =
     send net index port [SingletonPutRequest key value singleton forward_count]"

definition delete_request :: "network \<Rightarrow> int \<Rightarrow> int \<Rightarrow> string \<Rightarrow> 'a connection_scheme \<Rightarrow> 'a connection_scheme res" where
  "delete_request net index port key = send net index port [DeleteRequest key]"

definition append_to_rdma_get_response_queue ::
    "int \<Rightarrow> int \<Rightarrow> response_type \<Rightarrow> string \<Rightarrow> 'a server_scheme \<Rightarrow> 'a server_scheme" where
  "append_to_rdma_get_response_queue index port rt value s =
     s\<lparr>rdma_get_response_queue := enqueue \<lparr>gr_index = index, gr_port = port, gr_response_type = rt, gr_value = value\<rparr> (rdma_get_response_queue s),
       remote_rdma_cache_hits := remote_rdma_cache_hits s + 1\<rparr>"

definition append_to_rdma_block_cache_request_queue ::
    "int \<Rightarrow> int \<Rightarrow> response_type \<Rightarrow> string \<Rightarrow> string \<Rightarrow> 'a server_scheme \<Rightarrow> 'a server_scheme" where
  "append_to_rdma_block_cache_request_queue index port rt key value s =
     s\<lparr>block_cache_request_queue := enqueue \<lparr>bc_index = index, bc_port = port, bc_response_type = rt, bc_key = key, bc_value = value\<rparr>
         (block_cache_request_queue s),
       async_disk_requests := async_disk_requests s + 1\<rparr>"

definition append_singleton_put_request ::
    "int \<Rightarrow> int \<Rightarrow> string \<Rightarrow> string \<Rightarrow> bool \<Rightarrow> u64 \<Rightarrow> 'a server_scheme \<Rightarrow> 'a server_scheme" where
  "append_singleton_put_request index port key value singleton forward_count s =
     s\<lparr>singleton_put_request_queue := enqueue \<lparr>sp_index = index, sp_port = port, sp_response_type = OK, sp_key = key,
         sp_value = value, sp_singleton = singleton, sp_forward_count = forward_count\<rparr> (singleton_put_request_queue s)\<rparr>"

definition append_delete_request :: "int \<Rightarrow> int \<Rightarrow> string \<Rightarrow> 'a server_scheme \<Rightarrow> 'a server_scheme" where
  "append_delete_request index port key s =
     s\<lparr>delete_request_queue := enqueue \<lparr>dr_index = index, dr_port = port, dr_key = key\<rparr> (delete_request_queue s)\<rparr>"

definition get_stats :: "'a server_scheme \<Rightarrow> u64 \<times> u64" where
  "get_stats s = (remote_rdma_cache_hits s, async_disk_requests s)"

text \<open>
  \<open>execute_pending_operations\<close>: the four queues one after the other. \<open>pick n\<close> is the element the
  lock-free queue hands out when it holds \<open>n\<close>.
\<close>

definition run_get_response :: "network \<Rightarrow> rdma_get_response \<Rightarrow> 'a server_scheme \<Rightarrow> 'a server_scheme res" where
  "run_get_response net r s =
     (if gr_response_type r \<noteq> OK then Inl (Panic ''RDMA get failed'')
      else get_response net (gr_index r) (gr_port r) (gr_response_type r) (gr_value r) s)"

definition run_block_cache_request :: "network \<Rightarrow> block_cache_request \<Rightarrow> 'a server_scheme \<Rightarrow> 'a server_scheme res" where
  "run_block_cache_request net r s =
     (if bc_response_type r \<noteq> OK then Inl (Panic ''Disk get failed'')
      else get_response net (bc_index r) (bc_port r) (bc_response_type r) (bc_value r) s)"

definition run_singleton_put :: "network \<Rightarrow> append_singleton_request \<Rightarrow> 'a server_scheme \<Rightarrow> 'a server_scheme res" where
  "run_singleton_put net r s =
     (if sp_response_type r \<noteq> OK then Inl (Panic ''Singleton put failed'')
      else singleton_put_request net (sp_index r) (sp_port r) (sp_key r) (sp_value r) (sp_singleton r) (sp_forward_count r) s)"

definition run_delete :: "network \<Rightarrow> append_delete_request_data \<Rightarrow> 'a server_scheme \<Rightarrow> 'a server_scheme res" where
  "run_delete net r = delete_request net (dr_index r) (dr_port r) (dr_key r)"

definition execute_pending_operations :: "network \<Rightarrow> (nat \<Rightarrow> nat) \<Rightarrow> 'a server_scheme \<Rightarrow> 'a server_scheme res" where
  "execute_pending_operations net pick s =
     bindR (drainR (\<lambda>q. pick (length q)) (run_get_response net) (rdma_get_response_queue s) (s\<lparr>rdma_get_response_queue := []\<rparr>)) (\<lambda>s.
     bindR (if block_db_async s
            then drainR (\<lambda>q. pick (length q)) (run_block_cache_request net) (block_cache_request_queue s) (s\<lparr>block_cache_request_queue := []\<rparr>)
            else Inr s) (\<lambda>s.
     bindR (drainR (\<lambda>q. pick (length q)) (run_singleton_put net) (singleton_put_request_queue s) (s\<lparr>singleton_put_request_queue := []\<rparr>)) (\<lambda>s.
     drainR (\<lambda>q. pick (length q)) (run_delete net) (delete_request_queue s) (s\<lparr>delete_request_queue := []\<rparr>))))"

section \<open>Sending\<close>

definition flow_to :: "'a connection_scheme \<Rightarrow> int \<times> int \<Rightarrow> flow" where
  "flow_to c ip = map_at (machine_index_to_connection c) ip no_flow"

definition reliable :: "network \<Rightarrow> bool" where
  "reliable net \<longleftrightarrow> (\<forall>f data. machnet_send net f data)"

definition sent_to :: "int \<Rightarrow> int \<Rightarrow> packet list \<Rightarrow> 'a connection_scheme \<Rightarrow> 'a connection_scheme" where
  "sent_to index port data c =
     c\<lparr>machine_index_to_connection := map_touch (machine_index_to_connection c) (index, port) no_flow,
       sent := sent c @ [(flow_to c (index, port), data)]\<rparr>"

lemma send_reliable: "reliable net \<Longrightarrow> send net index port data c = Inr (sent_to index port data c)"
  by (simp add: send_def Let_def reliable_def sent_to_def flow_to_def)

lemma sent_to_simps [simp]:
  "sent (sent_to index port data c) = sent c @ [(flow_to c (index, port), data)]"
  "flow_to (sent_to index port data c) ip = flow_to c ip"
  "remote_machine_configs (sent_to index port data c) = remote_machine_configs c"
  "cn_machine_index (sent_to index port data c) = cn_machine_index c"
  "thread_index (sent_to index port data c) = thread_index c"
  "dst_ip_to_machine_index (sent_to index port data c) = dst_ip_to_machine_index c"
  by (simp_all add: sent_to_def flow_to_def)

lemma sent_to_server_simps [simp]:
  "rdma_get_response_queue (sent_to index port data s) = rdma_get_response_queue s"
  "block_cache_request_queue (sent_to index port data s) = block_cache_request_queue s"
  "singleton_put_request_queue (sent_to index port data s) = singleton_put_request_queue s"
  "delete_request_queue (sent_to index port data s) = delete_request_queue s"
  "block_db_async (sent_to index port data s) = block_db_async s"
  "remote_rdma_cache_hits (sent_to index port data s) = remote_rdma_cache_hits s"
  "async_disk_requests (sent_to index port data s) = async_disk_requests s"
  by (simp_all add: sent_to_def)

text \<open>A loop that sends one message per element sends them in order, over the flows of the start.\<close>

lemma foldR_send:
  assumes "\<And>x s. x \<in> set xs \<Longrightarrow> body x s = Inr (sent_to (idx x) (prt x) (msg x) s)"
  shows "foldR body xs s = Inr (fold (\<lambda>x. sent_to (idx x) (prt x) (msg x)) xs s)"
  using assms by (rule foldR_cong_pure)

lemma fold_sent_to [simp]:
  "sent (fold (\<lambda>x. sent_to (idx x) (prt x) (msg x)) xs s) = sent s @ map (\<lambda>x. (flow_to s (idx x, prt x), msg x)) xs"
  "flow_to (fold (\<lambda>x. sent_to (idx x) (prt x) (msg x)) xs s) = flow_to s"
  "remote_machine_configs (fold (\<lambda>x. sent_to (idx x) (prt x) (msg x)) xs s) = remote_machine_configs s"
  "cn_machine_index (fold (\<lambda>x. sent_to (idx x) (prt x) (msg x)) xs s) = cn_machine_index s"
  by (induction xs arbitrary: s) (simp_all add: fun_eq_iff)

lemma fold_sent_to_server [simp]:
  "rdma_get_response_queue (fold (\<lambda>x. sent_to (idx x) (prt x) (msg x)) xs s) = rdma_get_response_queue s"
  "block_cache_request_queue (fold (\<lambda>x. sent_to (idx x) (prt x) (msg x)) xs s) = block_cache_request_queue s"
  "singleton_put_request_queue (fold (\<lambda>x. sent_to (idx x) (prt x) (msg x)) xs s) = singleton_put_request_queue s"
  "delete_request_queue (fold (\<lambda>x. sent_to (idx x) (prt x) (msg x)) xs s) = delete_request_queue s"
  "block_db_async (fold (\<lambda>x. sent_to (idx x) (prt x) (msg x)) xs s) = block_db_async s"
  by (induction xs arbitrary: s) simp_all

section \<open>Working off the queues of a server\<close>

definition drained :: "(nat \<Rightarrow> nat) \<Rightarrow> ('x \<Rightarrow> int) \<Rightarrow> ('x \<Rightarrow> int) \<Rightarrow> ('x \<Rightarrow> packet list) \<Rightarrow> 'x mpmc \<Rightarrow> 'a server_scheme \<Rightarrow> 'a server_scheme" where
  "drained pick idx prt msg q = fold (\<lambda>x. sent_to (idx x) (prt x) (msg x)) (drain_order (\<lambda>q. pick (length q)) q)"

lemma drainR_send:
  assumes "\<And>x s. x \<in> set q \<Longrightarrow> body x s = Inr (sent_to (idx x) (prt x) (msg x) s)"
  shows "drainR (\<lambda>q. pick (length q)) body q s = Inr (drained pick idx prt msg q s)"
  unfolding drainR_eq_foldR drained_def by (rule foldR_send) (simp add: assms)

lemma drained_simps [simp]:
  "mset (sent (drained pick idx prt msg q s)) = mset (sent s) + mset (map (\<lambda>x. (flow_to s (idx x, prt x), msg x)) q)"
  "flow_to (drained pick idx prt msg q s) = flow_to s"
  "rdma_get_response_queue (drained pick idx prt msg q s) = rdma_get_response_queue s"
  "block_cache_request_queue (drained pick idx prt msg q s) = block_cache_request_queue s"
  "singleton_put_request_queue (drained pick idx prt msg q s) = singleton_put_request_queue s"
  "delete_request_queue (drained pick idx prt msg q s) = delete_request_queue s"
  "block_db_async (drained pick idx prt msg q s) = block_db_async s"
  by (simp_all add: drained_def mset_drain_order)

lemma flow_to_queues [simp]:
  "flow_to (s\<lparr>rdma_get_response_queue := q1\<rparr>) = flow_to s"
  "flow_to (s\<lparr>block_cache_request_queue := q2\<rparr>) = flow_to s"
  "flow_to (s\<lparr>singleton_put_request_queue := q3\<rparr>) = flow_to s"
  "flow_to (s\<lparr>delete_request_queue := q4\<rparr>) = flow_to s"
  by (simp_all add: flow_to_def fun_eq_iff)

text \<open>All requests in the queues of a server carry the response type OK, as the appending code puts it.\<close>

definition queues_ok :: "'a server_scheme \<Rightarrow> bool" where
  "queues_ok s \<longleftrightarrow> (\<forall>r \<in> set (rdma_get_response_queue s). gr_response_type r = OK)
     \<and> (\<forall>r \<in> set (block_cache_request_queue s). bc_response_type r = OK)
     \<and> (\<forall>r \<in> set (singleton_put_request_queue s). sp_response_type r = OK)"

definition waiting_messages :: "'a server_scheme \<Rightarrow> (flow \<times> packet list) multiset" where
  "waiting_messages s =
     mset (map (\<lambda>r. (flow_to s (gr_index r, gr_port r), [GetResponse OK (gr_value r)])) (rdma_get_response_queue s))
     + (if block_db_async s
        then mset (map (\<lambda>r. (flow_to s (bc_index r, bc_port r), [GetResponse OK (bc_value r)])) (block_cache_request_queue s))
        else {#})
     + mset (map (\<lambda>r. (flow_to s (sp_index r, sp_port r), [SingletonPutRequest (sp_key r) (sp_value r) (sp_singleton r) (sp_forward_count r)]))
         (singleton_put_request_queue s))
     + mset (map (\<lambda>r. (flow_to s (dr_index r, dr_port r), [DeleteRequest (dr_key r)])) (delete_request_queue s))"

lemma drained_all:
  assumes "reliable net" "queues_ok s"
  shows "\<exists>s'. execute_pending_operations net pick s = Inr s'
    \<and> mset (sent s') = mset (sent s) + waiting_messages s
    \<and> rdma_get_response_queue s' = [] \<and> singleton_put_request_queue s' = [] \<and> delete_request_queue s' = []
    \<and> block_cache_request_queue s' = (if block_db_async s then [] else block_cache_request_queue s)"
proof -
  note r = send_reliable [OF assms(1)]
  let ?m1 = "\<lambda>r. [GetResponse OK (gr_value r)]" and ?m2 = "\<lambda>r. [GetResponse OK (bc_value r)]"
    and ?m3 = "\<lambda>r. [SingletonPutRequest (sp_key r) (sp_value r) (sp_singleton r) (sp_forward_count r)]"
    and ?m4 = "\<lambda>r. [DeleteRequest (dr_key r)]"
  let ?s1 = "drained pick gr_index gr_port ?m1 (rdma_get_response_queue s) (s\<lparr>rdma_get_response_queue := []\<rparr>)"
  let ?s2 = "if block_db_async s then drained pick bc_index bc_port ?m2 (block_cache_request_queue s) (?s1\<lparr>block_cache_request_queue := []\<rparr>) else ?s1"
  let ?s3 = "drained pick sp_index sp_port ?m3 (singleton_put_request_queue s) (?s2\<lparr>singleton_put_request_queue := []\<rparr>)"
  let ?s4 = "drained pick dr_index dr_port ?m4 (delete_request_queue s) (?s3\<lparr>delete_request_queue := []\<rparr>)"
  have 1: "drainR (\<lambda>q. pick (length q)) (run_get_response net) (rdma_get_response_queue s) (s\<lparr>rdma_get_response_queue := []\<rparr>) = Inr ?s1"
    using assms(2) by (intro drainR_send) (simp add: run_get_response_def get_response_def r queues_ok_def)
  have disk: "drainR (\<lambda>q. pick (length q)) (run_block_cache_request net) (block_cache_request_queue s) t
      = Inr (drained pick bc_index bc_port ?m2 (block_cache_request_queue s) t)" for t :: "'a server_scheme"
    using assms(2) by (intro drainR_send) (simp add: run_block_cache_request_def get_response_def r queues_ok_def)
  have 2: "(if block_db_async ?s1 then drainR (\<lambda>q. pick (length q)) (run_block_cache_request net) (block_cache_request_queue ?s1) (?s1\<lparr>block_cache_request_queue := []\<rparr>)
      else Inr ?s1) = Inr ?s2"
    using disk by simp
  have q: "singleton_put_request_queue ?s2 = singleton_put_request_queue s" "delete_request_queue ?s3 = delete_request_queue s" by simp_all
  have 3: "drainR (\<lambda>q. pick (length q)) (run_singleton_put net) (singleton_put_request_queue s) (?s2\<lparr>singleton_put_request_queue := []\<rparr>) = Inr ?s3"
    using assms(2) by (intro drainR_send) (simp add: run_singleton_put_def singleton_put_request_def r queues_ok_def)
  have 4: "drainR (\<lambda>q. pick (length q)) (run_delete net) (delete_request_queue s) (?s3\<lparr>delete_request_queue := []\<rparr>) = Inr ?s4"
    by (intro drainR_send) (simp add: run_delete_def delete_request_def r)
  have "execute_pending_operations net pick s = Inr ?s4"
    unfolding execute_pending_operations_def by (simp only: 1 2 3 4 q bindR_simps)
  moreover have "mset (sent ?s4) = mset (sent s) + waiting_messages s"
    by (simp add: waiting_messages_def)
  moreover have "rdma_get_response_queue ?s4 = [] \<and> singleton_put_request_queue ?s4 = [] \<and> delete_request_queue ?s4 = []
    \<and> block_cache_request_queue ?s4 = (if block_db_async s then [] else block_cache_request_queue s)" by simp
  ultimately show ?thesis by blast
qed

text \<open>
  Property C18: when machnet accepts messages and the queues hold only OK entries, executing the
  pending operations returns whatever order the queues hand their elements out in, sends for
  every queued request exactly one message, over the flow recorded for its machine and port, and
  leaves the queues empty, except that the disk responses stay queued when the block database is
  not asynchronous.
\<close>

theorem execute_pending_operations_sends_all:
  assumes "reliable net" "queues_ok s"
  shows "\<exists>s'. execute_pending_operations net pick s = Inr s'
    \<and> mset (sent s') = mset (sent s) + waiting_messages s
    \<and> rdma_get_response_queue s' = [] \<and> singleton_put_request_queue s' = [] \<and> delete_request_queue s' = []
    \<and> block_cache_request_queue s' = (if block_db_async s then [] else block_cache_request_queue s)"
  by (rule drained_all [OF assms])

section \<open>Receiving\<close>

lemma receive_one:
  "receive handler (Recv rx [data]) (c, l) =
     (let (i, c) = note_sender rx c in mapR (Pair True) (handler i (src_port rx) (reply_flow rx) data (c, l)))"
  by (cases "note_sender rx c", cases "handler (fst (note_sender rx c)) (src_port rx) (reply_flow rx) data (snd (note_sender rx c), l)")
    (simp_all add: receive_def)

lemma note_sender_simps [simp]:
  "fst (note_sender rx c) = map_at (dst_ip_to_machine_index c) (src_ip rx) 0"
  "flow_to (snd (note_sender rx c)) (fst (note_sender rx c), src_port rx) = reply_flow rx"
  "sent (snd (note_sender rx c)) = sent c"
  "remote_machine_configs (snd (note_sender rx c)) = remote_machine_configs c"
  "cn_machine_index (snd (note_sender rx c)) = cn_machine_index c"
  by (simp_all add: note_sender_def Let_def flow_to_def)

text \<open>A handler that answers each packet, at the machine and port it was given.\<close>

definition answering :: "network \<Rightarrow> (packet \<Rightarrow> packet list) \<Rightarrow> ('a connection_scheme \<times> 'l) handler" where
  "answering net answer i p tx_flow data = (\<lambda>(c, l). mapR (\<lambda>c. (c, l)) (send net i p (answer data) c))"

text \<open>
  Whatever machine a message comes from, known or not, an answer that the handler
  sends to the index and port it is called with goes back over the reversed flow of the message:
  a received message with any number of packets is answered packet by packet, in order, to its
  sender.
\<close>

theorem answers_go_to_sender:
  assumes "reliable net"
  shows "\<exists>c'. receive (answering net answer) (Recv rx packets) (c, l) = Inr (True, c', l)
    \<and> sent c' = sent c @ map (\<lambda>data. (reply_flow rx, answer data)) packets"
proof -
  let ?body = "\<lambda>data (c, l). let (remote_index, c) = note_sender rx c in
    answering net answer remote_index (src_port rx) (reply_flow rx) data (c, l)"
  have "\<exists>c'. foldR ?body packets (c, l) = Inr (c', l) \<and> sent c' = sent c @ map (\<lambda>data. (reply_flow rx, answer data)) packets"
  proof (induction packets arbitrary: c)
    case (Cons data packets)
    obtain i c1 where n: "note_sender rx c = (i, c1)" by (cases "note_sender rx c")
    have f: "flow_to c1 (i, src_port rx) = reply_flow rx" "sent c1 = sent c"
      using note_sender_simps(2,3) [of rx c] by (simp_all only: n fst_conv snd_conv)
    have "?body data (c, l) = Inr (sent_to i (src_port rx) (answer data) c1, l)"
      by (simp add: n answering_def send_reliable [OF assms])
    with Cons.IH [of "sent_to i (src_port rx) (answer data) c1"] f show ?case by simp
  qed simp
  then show ?thesis unfolding receive_def by auto
qed

section \<open>Requests take the next message\<close>

declare poll_receive.simps(2) [simp del]

definition value_of :: "packet \<Rightarrow> string" where
  "value_of m = (case m of GetResponse _ v \<Rightarrow> c_str v | _ \<Rightarrow> [])"

lemma poll_nothing [simp]:
  "poll_receive handler ((Recv_nothing, False) # evs) st = poll_receive handler evs st"
  by (simp add: receive_def poll_receive.simps(2))

text \<open>Handlers of clients only touch what they capture; one message ends the poll.\<close>

lemma poll_one:
  assumes "\<And>i p tx c l. handler i p tx m (c, l) = Inr (c, g l)"
  shows "poll_receive handler ((Recv f [m], stop) # evs) (c, l) = Inr (evs, snd (note_sender f c), g l)"
  by (simp add: receive_one assms Let_def case_prod_unfold poll_receive.simps(2))

lemma connection_get_one:
  assumes "reliable net" "0 \<le> index" "nat index < length (remote_machine_configs c)"
  shows "connection_get net index t key ((Recv f [m], stop) # evs) c
    = Inr (value_of m, evs, snd (note_sender f (sent_to index (rm_port (remote_machine_configs c ! nat index) + t) [GetRequest key] c)))"
proof -
  have h: "get_handler i p tx m (c', l) = Inr (c', case m of GetResponse _ v \<Rightarrow> c_str v | _ \<Rightarrow> l)" for i p tx c' l
    by (simp add: get_handler_def split: packet.splits)
  have v: "(case m of GetResponse _ v \<Rightarrow> c_str v | _ \<Rightarrow> []) = value_of m" by (simp add: value_of_def)
  have r: "vec_at_int (remote_machine_configs c) index = Inr (remote_machine_configs c ! nat index)"
    using assms(2,3) by (intro vec_at_int_in) linarith+
  show ?thesis
    by (simp add: connection_get_def r send_reliable [OF assms(1)] poll_one [where m = m and handler = get_handler and g = "\<lambda>l. case m of GetResponse _ v \<Rightarrow> c_str v | _ \<Rightarrow> l", OF h] v)
qed

section \<open>The barrier between clients\<close>

definition acked :: "packet list \<Rightarrow> int set" where
  "acked ms = set (concat (map (\<lambda>m. case m of ClientSyncRequest _ i \<Rightarrow> [int_of_u64 i] | _ \<Rightarrow> []) ms))"

definition add_ack :: "packet \<Rightarrow> (int \<rightharpoonup> bool) \<Rightarrow> (int \<rightharpoonup> bool)" where
  "add_ack m acks = (case m of ClientSyncRequest _ i \<Rightarrow> acks(int_of_u64 i \<mapsto> True) | _ \<Rightarrow> acks)"

lemma dom_add_acks: "dom (fold add_ack ms acks) = dom acks \<union> acked ms"
  by (induction ms arbitrary: acks) (auto simp: add_ack_def acked_def split: packet.splits)

lemma sync_polls:
  assumes "length ks = length msgs"
  shows "\<exists>c'. foldR (\<lambda>_ (evs, st). poll_receive sync_handler evs st) ks (map (\<lambda>(f, m). (Recv f [m], False)) msgs @ rest, c, acks)
      = Inr (rest, c', fold add_ack (map snd msgs) acks) \<and> sent c' = sent c"
  using assms
proof (induction ks msgs arbitrary: c acks rule: list_induct2)
  case (Cons k ks fm msgs)
  obtain f m where fm: "fm = (f, m)" by (cases fm)
  have h: "sync_handler i p tx m (c', l) = Inr (c', add_ack m l)" for i p tx c' l
    by (simp add: sync_handler_def add_ack_def split: packet.splits)
  from Cons.IH [of "snd (note_sender f c)" "add_ack m acks"] show ?case by (simp add: fm poll_one [where m = m and handler = sync_handler and g = "add_ack m", OF h])
qed simp

lemma others_such_range: "i \<in> set (others_such b c) \<Longrightarrow> 0 \<le> i \<and> nat i < length (remote_machine_configs c)"
  by (auto simp: others_such_def)

lemma send_default_reliable:
  assumes "reliable net" "0 \<le> i" "nat i < length (remote_machine_configs c)"
  shows "send_default net i data c = Inr (sent_to i (rm_port (remote_machine_configs c ! nat i)) data c)"
proof -
  have "vec_at_int (remote_machine_configs c) i = Inr (remote_machine_configs c ! nat i)"
    using assms(2,3) by (intro vec_at_int_in) linarith+
  then show ?thesis by (simp add: send_default_def send_reliable [OF assms(1)])
qed

lemma sync_sends:
  assumes "reliable net" "\<forall>i \<in> set is. 0 \<le> i \<and> nat i < length (remote_machine_configs c)"
  shows "foldR (\<lambda>i. send_default net i data) is c
    = Inr (fold (\<lambda>i. sent_to i (rm_port (remote_machine_configs c ! nat i)) data) is c)"
  using assms(2)
proof (induction "is" arbitrary: c)
  case (Cons i "is")
  then show ?case by (simp add: send_default_reliable [OF assms(1)])
qed simp


section \<open>Samples\<close>

definition sample_net :: network where
  "sample_net = \<lparr>inet_addr_host = (\<lambda>ip. of_nat (length ip)), machnet_connect = (\<lambda>_ _ p _. Some (no_flow\<lparr>dst_port := p\<rparr>)),
     machnet_listen = (\<lambda>_ _. True), machnet_send = (\<lambda>_ _. True)\<rparr>"

lemma sample_net_reliable: "reliable sample_net"
  by (simp add: reliable_def sample_net_def)

definition sample_machines :: "remote_machine list" where
  "sample_machines = [\<lparr>rm_index = 0, rm_ip = ''a'', rm_port = 100, rm_server = False\<rparr>,
     \<lparr>rm_index = 1, rm_ip = ''bb'', rm_port = 100, rm_server = False\<rparr>,
     \<lparr>rm_index = 2, rm_ip = ''ccc'', rm_port = 100, rm_server = True\<rparr>]"

definition sample_connection :: connection where
  "sample_connection = \<lparr>remote_machine_configs = sample_machines, cn_machine_index = 0, thread_index = 0,
     machine_index_to_connection = [(1, 100) \<mapsto> no_flow\<lparr>dst_port := 100\<rparr>], dst_ip_to_machine_index = Map.empty,
     current_port = 100, sent = []\<rparr>"

definition sample_server :: server where
  "sample_server = connection.extend sample_connection
     \<lparr>block_db_async = True, rdma_get_response_queue = [\<lparr>gr_index = 0, gr_port = 7, gr_response_type = OK, gr_value = ''A''\<rparr>],
      remote_rdma_cache_hits = 1, block_cache_request_queue = [\<lparr>bc_index = 1, bc_port = 9, bc_response_type = OK, bc_key = ''4'', bc_value = ''B''\<rparr>],
      async_disk_requests = 1, singleton_put_request_queue = [], delete_request_queue = []\<rparr>"

lemmas sample_connection_defs = sample_connection_def sample_machines_def sample_server_def connection.defs


theorem answers_go_to_sender_witness:
  "\<exists>c'. receive (answering sample_net (\<lambda>_. [PutResponse OK])) (Recv no_flow [GetRequest ''1'', GetRequest ''2'']) (sample_connection, ()) = Inr (True, c', ())
     \<and> sent c' = [(reply_flow no_flow, [PutResponse OK]), (reply_flow no_flow, [PutResponse OK])]"
  using answers_go_to_sender [OF sample_net_reliable, of "\<lambda>_. [PutResponse OK]" no_flow "[GetRequest ''1'', GetRequest ''2'']" sample_connection "()"]
  by (simp add: sample_connection_defs)

theorem execute_pending_operations_sends_all_witness:
  "\<exists>s'. execute_pending_operations sample_net (\<lambda>_. 0) sample_server = Inr s'
     \<and> mset (sent s') = {#(no_flow, [GetResponse OK ''A'']), (no_flow, [GetResponse OK ''B''])#}
     \<and> rdma_get_response_queue s' = [] \<and> block_cache_request_queue s' = []"
  using execute_pending_operations_sends_all [OF sample_net_reliable, of sample_server "\<lambda>_. 0"]
  by (auto simp: queues_ok_def waiting_messages_def sample_connection_defs flow_to_def map_at_def add_mset_commute)

end
