(* ===== verification/Client_Worker.thy ===== *)
theory Client_Worker
  imports Connection Division Dataset
begin

text \<open>
  The client side of a run: the timed loop \<open>execute_operations\<close> and the thread body
  \<open>client_worker\<close> (\<open>src/src/ldc.cpp\<close>), and the untimed \<open>executeOperations\<close>
  (\<open>src/src/operations.cpp\<close>).

  The clock is a function of the number of times it was read: the nanoseconds since the
  operation began and the whole seconds since the run began. The counters shared by the threads
  of a process are those of this thread. Spinning until the other threads reach the barrier is
  not modelled, the barrier between machines is.
\<close>

section \<open>The timed loop\<close>

record clock =
  ck_nanoseconds :: "nat \<Rightarrow> int"
  ck_run_time :: "nat \<Rightarrow> int"

definition WARMUP_TIME_IN_SECONDS :: int where "WARMUP_TIME_IN_SECONDS = 60"

record 'a client_run =
  cr_conn :: "'a connection_scheme"
  cr_events :: "(recv_result \<times> bool) list"
  cr_ticks :: nat
  wrong_value :: int
  timeStamps :: "int list"
  dump_latency :: bool
  total_ops_executed :: u64
  client_thread_ops_executed :: u64
  run_time :: int
  cr_files :: files

definition expected_value :: "configuration \<Rightarrow> string" where
  "expected_value ops_config = replicate (nat (VALUE_SIZE ops_config)) (CHR ''A'')"

text \<open>\<open>run_time >= TOTAL_RUNTIME_IN_SECONDS + extra\<close> compares in \<open>float\<close>.\<close>

definition out_of_time :: "configuration \<Rightarrow> int \<Rightarrow> int \<Rightarrow> bool" where
  "out_of_time ops_config extra t \<longleftrightarrow> f32 (TOTAL_RUNTIME_IN_SECONDS ops_config + of_int extra) \<le> f32 (of_int t)"

definition execute_one ::
    "network \<Rightarrow> clock \<Rightarrow> configuration \<Rightarrow> int \<Rightarrow> int \<Rightarrow> operation \<Rightarrow> 'a client_run \<Rightarrow> 'a client_run res" where
  "execute_one net ck ops_config client_start_index t oper st =
     (if NUM_NODES ops_config < op_node oper then Inl (Panic ''Invalid node number'')
      else bindR (connection_get net (op_node oper + client_start_index) t (op_key oper) (cr_events st) (cr_conn st)) (\<lambda>(v, evs, c).
        let now = ck_run_time ck (cr_ticks st) in
        Inr (st\<lparr>cr_conn := c, cr_events := evs, cr_ticks := cr_ticks st + 1,
          wrong_value := (if v \<noteq> expected_value ops_config then wrong_value st + 1 else wrong_value st),
          timeStamps := (if dump_latency st then timeStamps st @ [ck_nanoseconds ck (cr_ticks st)] else timeStamps st),
          total_ops_executed := total_ops_executed st + 1,
          client_thread_ops_executed := client_thread_ops_executed st + 1,
          run_time := now,
          dump_latency := (dump_latency st \<or> WARMUP_TIME_IN_SECONDS \<le> now)\<rparr>)))"

fun execute_pass ::
    "network \<Rightarrow> clock \<Rightarrow> configuration \<Rightarrow> int \<Rightarrow> int \<Rightarrow> operation list \<Rightarrow> 'a client_run \<Rightarrow> 'a client_run res" where
  "execute_pass net ck ops_config start t [] st = Inr st"
| "execute_pass net ck ops_config start t (oper # opers) st =
     bindR (execute_one net ck ops_config start t oper st) (\<lambda>st.
     if out_of_time ops_config WARMUP_TIME_IN_SECONDS (run_time st) then Inr st
     else execute_pass net ck ops_config start t opers st)"

text \<open>The loop \<open>do ... while\<close>, with a bound on the number of passes.\<close>

fun execute_passes ::
    "nat \<Rightarrow> network \<Rightarrow> clock \<Rightarrow> configuration \<Rightarrow> int \<Rightarrow> int \<Rightarrow> operation list \<Rightarrow> 'a client_run \<Rightarrow> 'a client_run res option" where
  "execute_passes 0 net ck ops_config start t opers st = None"
| "execute_passes (Suc fuel) net ck ops_config start t opers st =
     (case execute_pass net ck ops_config start t opers st of
        Inl e \<Rightarrow> Some (Inl e)
      | Inr st \<Rightarrow>
          let st = st\<lparr>run_time := ck_run_time ck (cr_ticks st), cr_ticks := cr_ticks st + 1\<rparr> in
          if out_of_time ops_config 0 (run_time st) then Some (Inr st)
          else execute_passes fuel net ck ops_config start t opers st)"

text \<open>The first client of a process synchronises with the other machines, before and after.\<close>

definition start_sync :: "network \<Rightarrow> int \<Rightarrow> int \<Rightarrow> 'a client_run \<Rightarrow> 'a client_run res" where
  "start_sync net t client_index_per_thread st =
     (if t = 0 \<and> client_index_per_thread = 0
      then bindR (connect_to_other_clients net (cr_conn st)) (\<lambda>c.
           bindR (sync_with_other_clients net (cr_events st) c) (\<lambda>(evs, c).
           Inr (st\<lparr>cr_conn := c, cr_events := evs\<rparr>)))
      else Inr st)"

definition end_sync :: "network \<Rightarrow> int \<Rightarrow> int \<Rightarrow> 'a client_run \<Rightarrow> 'a client_run res" where
  "end_sync net t client_index_per_thread st =
     (if t = 0 \<and> client_index_per_thread = 0
      then bindR (sync_with_other_clients net (cr_events st) (cr_conn st)) (\<lambda>(evs, c).
           Inr (st\<lparr>cr_conn := c, cr_events := evs\<rparr>))
      else Inr st)"

text \<open>The latencies of a thread go to a file of their own; a path that does not open is not written.\<close>

definition dump_latency_to_file :: "(string \<Rightarrow> bool) \<Rightarrow> string \<Rightarrow> int list \<Rightarrow> files \<Rightarrow> files" where
  "dump_latency_to_file opens filename timestamps fs =
     (if opens filename then fs(filename \<mapsto> concat (map (\<lambda>t. to_string_int t @ [CHR 0x0A]) timestamps)) else fs)"

definition dump_per_thread_latency_to_file :: "(string \<Rightarrow> bool) \<Rightarrow> int list \<Rightarrow> int \<Rightarrow> int \<Rightarrow> int \<Rightarrow> files \<Rightarrow> files" where
  "dump_per_thread_latency_to_file opens timestamps client_index_per_thread m t =
     dump_latency_to_file opens (''latency_data_client_'' @ to_string_int m @ ''_thread_'' @ to_string_int t
       @ ''_client_index_per_thread_'' @ to_string_int client_index_per_thread @ ''.txt'') timestamps"

definition execute_operations ::
    "nat \<Rightarrow> network \<Rightarrow> clock \<Rightarrow> (string \<Rightarrow> bool) \<Rightarrow> configuration \<Rightarrow> int \<Rightarrow> int \<Rightarrow> int \<Rightarrow> operation list \<Rightarrow> 'a client_run \<Rightarrow> 'a client_run res option" where
  "execute_operations fuel net ck opens ops_config client_start_index t client_index_per_thread opers st =
     (case start_sync net t client_index_per_thread st of
        Inl e \<Rightarrow> Some (Inl e)
      | Inr st \<Rightarrow> map_option (\<lambda>r. bindR r (\<lambda>st. end_sync net t client_index_per_thread
            (st\<lparr>cr_files := dump_per_thread_latency_to_file opens (timeStamps st) client_index_per_thread
                 (cn_machine_index (cr_conn st)) t (cr_files st)\<rparr>)))
          (execute_passes fuel net ck ops_config client_start_index t opers
            (st\<lparr>wrong_value := 0, timeStamps := [], dump_latency := False, run_time := 0\<rparr>)))"

section \<open>The thread body\<close>

definition first_server :: "remote_machine list \<Rightarrow> nat" where
  "first_server configs = length (takeWhile (\<lambda>r. \<not> rm_server r) configs)"

definition ycsb_file :: "int \<Rightarrow> int \<Rightarrow> int \<Rightarrow> string" where
  "ycsb_file m t j = ''/mydata/client_'' @ to_string_int m @ ''_thread_'' @ to_string_int t
     @ ''_clientPerThread_'' @ to_string_int j @ ''.txt''"

text \<open>\<open>threads\<close> and \<open>clients_per_threads\<close> are the command-line flags.\<close>

definition client_chunk ::
    "files \<Rightarrow> configuration \<Rightarrow> nat \<Rightarrow> nat \<Rightarrow> int \<Rightarrow> nat \<Rightarrow> nat \<Rightarrow> operation list \<Rightarrow> operation list res" where
  "client_chunk fs ops_config threads clients_per_threads m t j opers =
     (let client_index = t * clients_per_threads + j in
      if DISTRIBUTION_TYPE ops_config \<noteq> YCSB then get_chunk opers (threads * clients_per_threads) client_index
      else Inr (loadOperationSetFromFile fs (ycsb_file m (int t) (int j))))"

definition client_worker ::
    "nat \<Rightarrow> network \<Rightarrow> clock \<Rightarrow> (string \<Rightarrow> bool) \<Rightarrow> configuration \<Rightarrow> nat \<Rightarrow> nat \<Rightarrow> int \<Rightarrow> nat \<Rightarrow> nat \<Rightarrow> operation list
     \<Rightarrow> 'a client_run \<Rightarrow> 'a client_run res option" where
  "client_worker fuel net ck opens ops_config threads clients_per_threads m t j opers st =
     (let start_client_index = first_server (remote_machine_configs (cr_conn st)) in
      case client_chunk (cr_files st) ops_config threads clients_per_threads m t j opers of
        Inl e \<Rightarrow> Some (Inl e)
      | Inr ops_chunk \<Rightarrow> execute_operations fuel net ck opens ops_config (int start_client_index - 1) (int t) (int j) ops_chunk st)"

section \<open>The untimed loop\<close>

definition executeOperations_one ::
    "network \<Rightarrow> configuration \<Rightarrow> int \<Rightarrow> operation \<Rightarrow> (recv_result \<times> bool) list \<times> 'a connection_scheme
     \<Rightarrow> ((recv_result \<times> bool) list \<times> 'a connection_scheme) res" where
  "executeOperations_one net ops_config client_start_index oper = (\<lambda>(evs, c).
     if NUM_NODES ops_config < op_node oper then Inl (Panic ''Invalid node number'')
     else
       bindR (if op_code oper = READ_OP
              then connection_get net (op_node oper + client_start_index) 0 (op_key oper) evs c
              else if op_code oper = INSERT_OP \<or> op_code oper = UPDATE_OP
              then mapR (Pair []) (connection_put net (op_node oper + client_start_index) 0 (op_key oper) (expected_value ops_config) evs c)
              else Inr ([], evs, c)) (\<lambda>(v, evs, c).
       if v \<noteq> expected_value ops_config then Inl (Panic ''unexpected data'') else Inr (evs, c)))"

definition executeOperations ::
    "network \<Rightarrow> configuration \<Rightarrow> int \<Rightarrow> operation list \<Rightarrow> (recv_result \<times> bool) list \<times> 'a connection_scheme
     \<Rightarrow> ((recv_result \<times> bool) list \<times> 'a connection_scheme) res" where
  "executeOperations net ops_config client_start_index = foldR (executeOperations_one net ops_config client_start_index)"

section \<open>The values are judged in the order of the messages\<close>

definition aimed :: "configuration \<Rightarrow> int \<Rightarrow> nat \<Rightarrow> operation \<Rightarrow> bool" where
  "aimed ops_config start n oper \<longleftrightarrow> op_node oper \<le> NUM_NODES ops_config
     \<and> 0 \<le> op_node oper + start \<and> nat (op_node oper + start) < n"

definition wrong_of :: "configuration \<Rightarrow> packet \<Rightarrow> nat" where
  "wrong_of ops_config m = (if value_of m \<noteq> expected_value ops_config then 1 else 0)"

lemma execute_one_reads:
  assumes "reliable net" "aimed ops_config start (length (remote_machine_configs (cr_conn st))) oper"
    and "cr_events st = (Recv f [m], stop) # evs"
  shows "\<exists>st'. execute_one net ck ops_config start t oper st = Inr st' \<and> cr_events st' = evs
    \<and> wrong_value st' = wrong_value st + int (wrong_of ops_config m)
    \<and> Client_Worker.total_ops_executed st' = Client_Worker.total_ops_executed st + 1
    \<and> cr_ticks st' = cr_ticks st + 1 \<and> run_time st' = ck_run_time ck (cr_ticks st)
    \<and> map snd (sent (cr_conn st')) = map snd (sent (cr_conn st)) @ [[GetRequest (op_key oper)]]
    \<and> remote_machine_configs (cr_conn st') = remote_machine_configs (cr_conn st)"
  using assms(2,3) connection_get_one [OF assms(1), of "op_node oper + start" "cr_conn st" t "op_key oper" f m stop evs]
  by (simp add: execute_one_def aimed_def Let_def wrong_of_def)

text \<open>
  Property C20: while the time lasts, a pass of a client over its operations sends one read per
  operation, in order, and takes one message after each; operation \<open>j\<close> is judged against message
  \<open>j\<close>, whatever key that message answers and even if it is no answer at all. So a pass whose
  answers arrive alone and in order counts exactly the wrong ones, and one stray message shifts
  the judgement of all later operations and leaves the last answer unread.
\<close>

theorem execute_pass_judges_in_order:
  fixes st :: "'a client_run"
  assumes "reliable net" "length msgs = length opers"
    and "\<forall>oper \<in> set opers. aimed ops_config start (length (remote_machine_configs (cr_conn st))) oper"
    and "\<forall>k < length opers. \<not> out_of_time ops_config WARMUP_TIME_IN_SECONDS (ck_run_time ck (cr_ticks st + k))"
    and "cr_events st = map (\<lambda>(f, m). (Recv f [m], False)) msgs @ rest"
  shows "\<exists>st' :: 'a client_run. execute_pass net ck ops_config start t opers st = Inr st' \<and> cr_events st' = rest
    \<and> wrong_value st' = wrong_value st + int (sum_list (map (\<lambda>(f, m). wrong_of ops_config m) msgs))
    \<and> total_ops_executed st' = total_ops_executed st + of_nat (length opers)
    \<and> map snd (sent (cr_conn st')) = map snd (sent (cr_conn st)) @ map (\<lambda>oper. [GetRequest (op_key oper)]) opers"
  using assms(2-5)
proof (induction msgs opers arbitrary: st rule: list_induct2)
  case (Cons fm msgs oper opers)
  obtain f m where fm: "fm = (f, m)" by (cases fm)
  obtain st1 where 1: "execute_one net ck ops_config start t oper st = Inr st1"
    "cr_events st1 = map (\<lambda>(f, m). (Recv f [m], False)) msgs @ rest"
    "wrong_value st1 = wrong_value st + int (wrong_of ops_config m)"
    "total_ops_executed st1 = total_ops_executed st + 1" "cr_ticks st1 = cr_ticks st + 1"
    "run_time st1 = ck_run_time ck (cr_ticks st)"
    "map snd (sent (cr_conn st1)) = map snd (sent (cr_conn st)) @ [[GetRequest (op_key oper)]]"
    "remote_machine_configs (cr_conn st1) = remote_machine_configs (cr_conn st)"
    using execute_one_reads [OF assms(1), of ops_config start st oper f m False "map (\<lambda>(f, m). (Recv f [m], False)) msgs @ rest" ck t] Cons.prems(1,3) fm
    by auto
  have t: "\<not> out_of_time ops_config WARMUP_TIME_IN_SECONDS (run_time st1)" using Cons.prems(2) 1(6) by fastforce
  have "\<forall>k < length opers. \<not> out_of_time ops_config WARMUP_TIME_IN_SECONDS (ck_run_time ck (cr_ticks st1 + k))"
    using Cons.prems(2) 1(5) by (metis Suc_less_eq add_Suc_right add_Suc_shift length_Cons Suc_eq_plus1)
  with Cons.IH [of st1] Cons.prems(1) 1(2,8) obtain st2 where
    2: "execute_pass net ck ops_config start t opers st1 = Inr st2" "cr_events st2 = rest"
      "wrong_value st2 = wrong_value st1 + int (sum_list (map (\<lambda>(f, m). wrong_of ops_config m) msgs))"
      "total_ops_executed st2 = total_ops_executed st1 + of_nat (length opers)"
      "map snd (sent (cr_conn st2)) = map snd (sent (cr_conn st1)) @ map (\<lambda>oper. [GetRequest (op_key oper)]) opers"
    by auto
  have "execute_pass net ck ops_config start t (oper # opers) st = Inr st2" using 1(1) t 2(1) by simp
  with 1 2 fm show ?case by simp
qed simp

section \<open>The clients of a machine share the operations\<close>

text \<open>
  Unless the operations come from per-client files, the operations of the clients of
  a machine, taken by thread and by client within the thread, are the operation set of the
  machine, each operation exactly once and in order.
\<close>

theorem client_chunks_cover:
  assumes "DISTRIBUTION_TYPE ops_config \<noteq> YCSB" "0 < threads" "0 < clients_per_threads"
  shows "\<exists>parts. length parts = threads * clients_per_threads \<and> concat parts = opers
    \<and> (\<forall>t < threads. \<forall>j < clients_per_threads.
         client_chunk fs ops_config threads clients_per_threads m t j opers = Inr (parts ! (t * clients_per_threads + j)))"
proof (intro exI conjI allI impI)
  let ?n = "threads * clients_per_threads"
  have n: "0 < ?n" using assms(2,3) by simp
  show "concat (map (chunk opers ?n) [0..<?n]) = opers"
    using concat_chunks [OF n, of ?n opers] by (simp add: chunk_start_end [OF n])
  show "length (map (chunk opers ?n) [0..<?n]) = ?n" by simp
  fix t j assume tj: "t < threads" "j < clients_per_threads"
  have "t * clients_per_threads + j < Suc t * clients_per_threads" using tj(2) by simp
  also have "\<dots> \<le> ?n" using tj(1) by (intro mult_le_mono1) simp
  finally have i: "t * clients_per_threads + j < ?n" .
  then show "client_chunk fs ops_config threads clients_per_threads m t j opers
      = Inr (map (chunk opers ?n) [0..<?n] ! (t * clients_per_threads + j))"
    using assms(1) by (simp add: client_chunk_def Let_def get_chunk_eq del: mult_Suc)
qed

section \<open>Writes in the untimed loop\<close>

text \<open>
  The untimed loop panics at its first insert or update, even when the server
  acknowledges it: the value it compares with the expected one is only filled in by reads.
\<close>

theorem executeOperations_insert_panics:
  assumes "reliable net" "aimed ops_config start (length (remote_machine_configs c)) oper"
    and "op_code oper = INSERT_OP \<or> op_code oper = UPDATE_OP" "0 < VALUE_SIZE ops_config"
  shows "executeOperations net ops_config start (oper # opers) ((Recv f [PutResponse OK], False) # evs, c) = Inl (Panic ''unexpected data'')"
proof -
  have i: "vec_at_int (remote_machine_configs c) (op_node oper + start) = Inr (remote_machine_configs c ! nat (op_node oper + start))"
    using assms(2) unfolding aimed_def by (intro vec_at_int_in) linarith+
  have r: "op_code oper \<noteq> READ_OP" using assms(3) by (auto simp: READ_OP_def INSERT_OP_def UPDATE_OP_def)
  have e: "expected_value ops_config \<noteq> []" using assms(4) by (simp add: expected_value_def)
  have h: "put_handler i p tx m (c', l) = Inr (c', l)" for i p tx m c' l by (simp add: put_handler_def)
  show ?thesis
    using assms(2,3) r e by (simp add: executeOperations_def executeOperations_one_def aimed_def not_less connection_put_def i
        send_reliable [OF assms(1)] poll_one [where handler = put_handler and g = "\<lambda>l. l", OF h])
qed

section \<open>Samples\<close>

definition sample_run :: "unit client_run" where
  "sample_run = \<lparr>cr_conn = sample_connection,
     cr_events = [(Recv no_flow [ClientSyncRequest OK 1], False), (Recv no_flow [GetResponse OK ''AAAA''], False), (Recv no_flow [GetResponse OK ''AAAA''], False)],
     cr_ticks = 0, wrong_value = 0, timeStamps = [], dump_latency = False, total_ops_executed = 0,
     client_thread_ops_executed = 0, run_time = 0, cr_files = Map.empty\<rparr>"

definition sample_ops :: "operation list" where
  "sample_ops = [\<lparr>op_key = ''1'', op_node = 1, op_code = READ_OP\<rparr>, \<lparr>op_key = ''2'', op_node = 1, op_code = READ_OP\<rparr>]"

lemma sample_in_time: "\<not> out_of_time sample_config WARMUP_TIME_IN_SECONDS 0"
  by (simp add: out_of_time_def WARMUP_TIME_IN_SECONDS_def sample_config_def) code_simp

theorem execute_pass_judges_in_order_witness:
  "\<exists>st'. execute_pass sample_net \<lparr>ck_nanoseconds = (\<lambda>_. 5), ck_run_time = (\<lambda>_. 0)\<rparr> sample_config 1 0 sample_ops sample_run = Inr st'
     \<and> cr_events st' = [(Recv no_flow [GetResponse OK ''AAAA''], False)] \<and> wrong_value st' = 1 \<and> total_ops_executed st' = 2"
  using execute_pass_judges_in_order [OF sample_net_reliable, of "[(no_flow, ClientSyncRequest OK 1), (no_flow, GetResponse OK ''AAAA'')]"
      sample_ops sample_config 1 sample_run "\<lparr>ck_nanoseconds = (\<lambda>_. 5), ck_run_time = (\<lambda>_. 0)\<rparr>" "[(Recv no_flow [GetResponse OK ''AAAA''], False)]" 0]
    sample_in_time
  by (auto simp: sample_ops_def sample_run_def aimed_def sample_connection_defs sample_config_def wrong_of_def value_of_def
      c_str_def expected_value_def eval_nat_numeral)

theorem client_chunks_cover_witness:
  "\<exists>parts. length parts = 4 \<and> concat parts = sample_ops
     \<and> (\<forall>t < 2. \<forall>j < 2. client_chunk Map.empty sample_config 2 2 0 t j sample_ops = Inr (parts ! (t * 2 + j)))"
  using client_chunks_cover [of sample_config 2 2 sample_ops Map.empty 0] by (simp add: sample_config_def)

theorem executeOperations_insert_panics_witness:
  "executeOperations sample_net sample_config 1 [\<lparr>op_key = ''1'', op_node = 1, op_code = INSERT_OP\<rparr>]
     ([(Recv no_flow [PutResponse OK], False)], sample_connection) = Inl (Panic ''unexpected data'')"
  by (rule executeOperations_insert_panics [OF sample_net_reliable])
    (simp_all add: aimed_def sample_connection_defs sample_config_def)

section \<open>Loading the database through a client\<close>

text \<open>\<open>load_database\<close> (\<open>src/src/dataset.cpp\<close>) puts every key on machines 1, 2 and 3.\<close>

definition load_database ::
    "env \<Rightarrow> network \<Rightarrow> configuration \<Rightarrow> files \<Rightarrow> (recv_result \<times> bool) list \<times> 'a connection_scheme
     \<Rightarrow> (string list \<times> files \<times> (recv_result \<times> bool) list \<times> 'a connection_scheme) res" where
  "load_database e net ops_config fs st =
     (let fs = createAndWriteDataset e (DATASET_FILE ops_config) (NUM_KEY_VALUE_PAIRS ops_config) (VALUE_SIZE ops_config) fs;
          keys = readKeysFromFile fs (DATASET_FILE ops_config) in
      mapR (\<lambda>st. (keys, fs, st))
        (foldR (\<lambda>key. foldR (\<lambda>i (evs, c). connection_put net i 0 key (expected_value ops_config) evs c) [1, 2, 3]) keys st))"

end
