(* ===== verification/Async_Rdma.thy ===== *)
theory Async_Rdma
  imports Connection Placement
begin

text \<open>
  Asynchronous one-sided reads without cache indexing (\<open>src/src/async_rdma.h\<close>, the variant that
  is compiled, and \<open>rdma_reader_thread\<close> of \<open>src/src/rdma_reads.cpp\<close>): a fixed set of read
  operations moves between a free and a pending queue; a background thread polls the pending
  ones and queues the response of each completed read at the server.

  An operation is named by the number of its buffer and request token; \<open>None\<close> is the
  default-constructed operation, whose buffer pointer is null. Whether a posted read has
  completed is an argument of the background step.
\<close>

section \<open>The operations and their queues\<close>

record async_rdma_op =
  ao_slot :: "nat option"
  ao_data :: "byte list"
  ao_offset :: u64
  ao_remoteIndex :: int
  ao_remote_port :: int
  ao_isAvailable :: bool

definition default_async_rdma_op :: async_rdma_op where
  "default_async_rdma_op = \<lparr>ao_slot = None, ao_data = [], ao_offset = 0, ao_remoteIndex = 0, ao_remote_port = 0, ao_isAvailable = True\<rparr>"

record async_disk_request =
  ad_index :: int
  ad_port :: int
  ad_key :: string

record circular_buffer =
  cb_size :: nat
  cb_value_size :: int
  cb_free_queue :: "async_rdma_op mpmc"
  cb_pending_queue :: "async_rdma_op mpmc"
  cb_free_disk_queue :: "async_disk_request mpmc"
  cb_pending_disk_queue :: "async_disk_request mpmc"

definition RDMA_ASYNC_BUFFER_SIZE :: nat where "RDMA_ASYNC_BUFFER_SIZE = 512"

definition make_circular_buffer :: "(nat \<Rightarrow> byte list) \<Rightarrow> nat \<Rightarrow> int \<Rightarrow> circular_buffer" where
  "make_circular_buffer fresh bufferSize valuesize =
     fold (\<lambda>i cb. cb\<lparr>cb_free_queue := enqueue (default_async_rdma_op\<lparr>ao_slot := Some i, ao_data := fresh i\<rparr>) (cb_free_queue cb),
         cb_free_disk_queue := enqueue \<lparr>ad_index = 0, ad_port = 0, ad_key = []\<rparr> (cb_free_disk_queue cb)\<rparr>)
       [0..<bufferSize] \<lparr>cb_size = bufferSize, cb_value_size = valuesize, cb_free_queue = [], cb_pending_queue = [],
         cb_free_disk_queue = [], cb_pending_disk_queue = []\<rparr>"

text \<open>The pick of a queue is the index of the element it hands out, by its length.\<close>

definition get_next_available_async_rdma_op :: "(nat \<Rightarrow> nat) \<Rightarrow> circular_buffer \<Rightarrow> async_rdma_op \<times> circular_buffer" where
  "get_next_available_async_rdma_op pick cb =
     (case try_dequeue (\<lambda>q. pick (length q)) (cb_free_queue cb) of
        None \<Rightarrow> (default_async_rdma_op, cb)
      | Some (op, q) \<Rightarrow> (op, cb\<lparr>cb_free_queue := q\<rparr>))"

definition enqueue_async_rdma_op :: "async_rdma_op \<Rightarrow> circular_buffer \<Rightarrow> circular_buffer" where
  "enqueue_async_rdma_op op cb = cb\<lparr>cb_pending_queue := enqueue op (cb_pending_queue cb)\<rparr>"

definition enqueue_disk_request :: "async_disk_request \<Rightarrow> circular_buffer \<Rightarrow> circular_buffer" where
  "enqueue_disk_request r cb = cb\<lparr>cb_pending_disk_queue := enqueue r (cb_pending_disk_queue cb)\<rparr>"

definition get_next_disk_request :: "(nat \<Rightarrow> nat) \<Rightarrow> circular_buffer \<Rightarrow> async_disk_request \<times> circular_buffer" where
  "get_next_disk_request pick cb =
     (case try_dequeue (\<lambda>q. pick (length q)) (cb_free_disk_queue cb) of
        None \<Rightarrow> (\<lparr>ad_index = 0, ad_port = 0, ad_key = []\<rparr>, cb)
      | Some (r, q) \<Rightarrow> (r, cb\<lparr>cb_free_disk_queue := q\<rparr>))"

text \<open>The asynchronous branch of \<open>rdma_reader_thread\<close>.\<close>

definition rdma_reader_async :: "(nat \<Rightarrow> nat) \<Rightarrow> u64 \<Rightarrow> int \<Rightarrow> int \<Rightarrow> circular_buffer \<Rightarrow> circular_buffer res" where
  "rdma_reader_async pick offset remoteIndex remote_port cb =
     (let (op, cb) = get_next_available_async_rdma_op pick cb in
      if ao_slot op = None then Inl (Undefined ''read into a null buffer'')
      else if \<not> registered offset BLKSZ then Inl (Undefined ''outside the registered memory'')
      else Inr (enqueue_async_rdma_op (op\<lparr>ao_offset := offset, ao_remoteIndex := remoteIndex, ao_remote_port := remote_port\<rparr>) cb))"

text \<open>
  One round of \<open>background_work\<close>. The data of a completed read is the block at its offset in the
  remote region; the response takes its first \<open>value_size\<close> bytes.
\<close>

definition text_of :: "byte list \<Rightarrow> string" where
  "text_of bs = map (\<lambda>b. char_of (unat b)) bs"

definition view_value :: "int \<Rightarrow> byte list \<Rightarrow> string res" where
  "view_value value_size bs =
     (if 0 \<le> value_size \<and> nat value_size \<le> length bs then Inr (text_of (take (nat value_size) bs))
      else Inl (Undefined ''string_view past the buffer''))"

definition background_work ::
    "(nat \<Rightarrow> nat) \<Rightarrow> (async_rdma_op \<Rightarrow> bool) \<Rightarrow> region \<Rightarrow> circular_buffer \<times> 'a server_scheme \<Rightarrow> (circular_buffer \<times> 'a server_scheme) res" where
  "background_work pick completed mem = (\<lambda>(cb, s).
     case try_dequeue (\<lambda>q. pick (length q)) (cb_pending_queue cb) of
       None \<Rightarrow> Inr (cb, s)
     | Some (op, q) \<Rightarrow>
         let cb = cb\<lparr>cb_pending_queue := q\<rparr> in
         if completed op then
           let op = op\<lparr>ao_data := read_bytes (unat (ao_offset op)) BLKSZ mem\<rparr> in
           bindR (view_value (cb_value_size cb) (ao_data op)) (\<lambda>value.
           Inr (cb\<lparr>cb_free_queue := enqueue op (cb_free_queue cb)\<rparr>,
                append_to_rdma_get_response_queue (ao_remoteIndex op) (ao_remote_port op) OK value s))
         else Inr (cb\<lparr>cb_pending_queue := enqueue op (cb_pending_queue cb)\<rparr>, s))"

section \<open>Runs\<close>

text \<open>
  The server thread posts reads, the background thread polls. The fourth component collects, as
  a ghost, the requester and the offset of every read that was posted.
\<close>

type_synonym 'a async_state = "circular_buffer \<times> 'a server_scheme \<times> region \<times> (int \<times> int \<times> u64) multiset"

inductive async_step :: "(nat \<Rightarrow> nat) \<Rightarrow> 'a async_state \<Rightarrow> 'a async_state \<Rightarrow> bool" for pick where
  post_read: "rdma_reader_async pick offset remoteIndex remote_port cb = Inr cb'
    \<Longrightarrow> async_step pick (cb, s, mem, posted) (cb', s, mem, add_mset (remoteIndex, remote_port, offset) posted)"
| poll: "background_work pick completed mem (cb, s) = Inr (cb', s')
    \<Longrightarrow> async_step pick (cb, s, mem, posted) (cb', s', mem, posted)"

inductive_cases async_stepE: "async_step pick st st'"

section \<open>Conservation\<close>

definition slots_of :: "async_rdma_op mpmc \<Rightarrow> nat option multiset" where
  "slots_of q = image_mset ao_slot (mset q)"

definition requester :: "async_rdma_op \<Rightarrow> int \<times> int \<times> u64" where
  "requester op = (ao_remoteIndex op, ao_remote_port op, ao_offset op)"

definition response_for :: "int \<Rightarrow> region \<Rightarrow> int \<times> int \<times> u64 \<Rightarrow> rdma_get_response" where
  "response_for value_size mem = (\<lambda>(i, p, off). \<lparr>gr_index = i, gr_port = p, gr_response_type = OK,
     gr_value = text_of (take (nat value_size) (read_bytes (unat off) BLKSZ mem))\<rparr>)"

text \<open>The operations are all there, and every posted read is pending or has its response queued.\<close>

definition async_inv :: "nat \<Rightarrow> int \<Rightarrow> region \<Rightarrow> 'a async_state \<Rightarrow> bool" where
  "async_inv n value_size mem = (\<lambda>(cb, s, mem', posted).
     mem' = mem \<and> cb_value_size cb = value_size
     \<and> slots_of (cb_free_queue cb) + slots_of (cb_pending_queue cb) = image_mset Some (mset [0..<n])
     \<and> image_mset (response_for value_size mem) posted
       = image_mset (response_for value_size mem \<circ> requester) (mset (cb_pending_queue cb)) + mset (rdma_get_response_queue s))"

lemma make_circular_buffer_queues:
  "cb_free_queue (make_circular_buffer fresh n vs) = map (\<lambda>i. default_async_rdma_op\<lparr>ao_slot := Some i, ao_data := fresh i\<rparr>) [0..<n]"
  "cb_pending_queue (make_circular_buffer fresh n vs) = []" "cb_value_size (make_circular_buffer fresh n vs) = vs"
proof -
  let ?f = "\<lambda>i cb. cb\<lparr>cb_free_queue := enqueue (default_async_rdma_op\<lparr>ao_slot := Some i, ao_data := fresh i\<rparr>) (cb_free_queue cb),
         cb_free_disk_queue := enqueue \<lparr>ad_index = 0, ad_port = 0, ad_key = []\<rparr> (cb_free_disk_queue cb)\<rparr>"
  have "cb_free_queue (fold ?f xs cb) = cb_free_queue cb @ map (\<lambda>i. default_async_rdma_op\<lparr>ao_slot := Some i, ao_data := fresh i\<rparr>) xs
      \<and> cb_pending_queue (fold ?f xs cb) = cb_pending_queue cb \<and> cb_value_size (fold ?f xs cb) = cb_value_size cb" for xs cb
    by (induction xs arbitrary: cb) (simp_all add: enqueue_def)
  note * = this [of "[0..<n]" "\<lparr>cb_size = n, cb_value_size = vs, cb_free_queue = [], cb_pending_queue = [],
         cb_free_disk_queue = [], cb_pending_disk_queue = []\<rparr>"]
  show "cb_free_queue (make_circular_buffer fresh n vs) = map (\<lambda>i. default_async_rdma_op\<lparr>ao_slot := Some i, ao_data := fresh i\<rparr>) [0..<n]"
    unfolding make_circular_buffer_def using * by simp
  show "cb_pending_queue (make_circular_buffer fresh n vs) = []" unfolding make_circular_buffer_def using * by simp
  show "cb_value_size (make_circular_buffer fresh n vs) = vs" unfolding make_circular_buffer_def using * by simp
qed

lemma async_inv_initial:
  "rdma_get_response_queue s = [] \<Longrightarrow> async_inv n vs mem (make_circular_buffer fresh n vs, s, mem, {#})"
  by (simp add: async_inv_def make_circular_buffer_queues slots_of_def image_mset.compositionality comp_def)

lemma mset_enqueue [simp]: "mset (enqueue x q) = add_mset x (mset q)"
  by (simp add: enqueue_def)

lemma rdma_reader_async_returns:
  assumes "rdma_reader_async pick offset i p cb = Inr cb'"
  shows "\<exists>op q. mset (cb_free_queue cb) = add_mset op (mset q)
    \<and> cb' = cb\<lparr>cb_free_queue := q, cb_pending_queue := enqueue (op\<lparr>ao_offset := offset, ao_remoteIndex := i, ao_remote_port := p\<rparr>) (cb_pending_queue cb)\<rparr>"
proof (cases "try_dequeue (\<lambda>q. pick (length q)) (cb_free_queue cb)")
  case None
  then show ?thesis using assms
    by (simp add: rdma_reader_async_def get_next_available_async_rdma_op_def default_async_rdma_op_def)
next
  case (Some opq)
  obtain op q where opq: "opq = (op, q)" by (cases opq)
  have "cb' = cb\<lparr>cb_free_queue := q, cb_pending_queue := enqueue (op\<lparr>ao_offset := offset, ao_remoteIndex := i, ao_remote_port := p\<rparr>) (cb_pending_queue cb)\<rparr>"
    using assms Some opq
    by (simp add: rdma_reader_async_def get_next_available_async_rdma_op_def enqueue_async_rdma_op_def split: if_splits)
  then show ?thesis using try_dequeue_mset [OF Some [unfolded opq]] by blast
qed

lemma background_work_cases:
  assumes "background_work pick completed mem (cb, s) = Inr (cb', s')"
  obtains (idle) "cb_pending_queue cb = []" "cb' = cb" "s' = s"
  | (requeued) op q where "mset (cb_pending_queue cb) = add_mset op (mset q)" "cb' = cb\<lparr>cb_pending_queue := enqueue op q\<rparr>" "s' = s"
  | (finished) op q v where "mset (cb_pending_queue cb) = add_mset op (mset q)"
      "v = text_of (take (nat (cb_value_size cb)) (read_bytes (unat (ao_offset op)) BLKSZ mem))"
      "cb' = cb\<lparr>cb_pending_queue := q, cb_free_queue := enqueue (op\<lparr>ao_data := read_bytes (unat (ao_offset op)) BLKSZ mem\<rparr>) (cb_free_queue cb)\<rparr>"
      "s' = append_to_rdma_get_response_queue (ao_remoteIndex op) (ao_remote_port op) OK v s"
proof (cases "try_dequeue (\<lambda>q. pick (length q)) (cb_pending_queue cb)")
  case None
  then have "cb_pending_queue cb = []" by (simp add: try_dequeue_def Let_def split: if_splits)
  then show thesis using idle assms None by (simp add: background_work_def)
next
  case (Some opq)
  obtain op q where opq: "opq = (op, q)" by (cases opq)
  note m = try_dequeue_mset [OF Some [unfolded opq]]
  show thesis
  proof (cases "completed op")
    case True
    then show thesis using finished [OF m refl] assms Some opq
      by (simp add: background_work_def Let_def view_value_def split: if_splits)
  next
    case False
    then show thesis using requeued [OF m] assms Some opq by (simp add: background_work_def Let_def)
  qed
qed

lemma async_step_inv:
  assumes "async_step pick st st'" "async_inv n vs mem st"
  shows "async_inv n vs mem st'"
  using assms(1)
proof (cases rule: async_step.cases)
  case (post_read offset i p cb cb' s mem' posted)
  from rdma_reader_async_returns [OF post_read(3)] obtain op q where
    "mset (cb_free_queue cb) = add_mset op (mset q)"
    "cb' = cb\<lparr>cb_free_queue := q, cb_pending_queue := enqueue (op\<lparr>ao_offset := offset, ao_remoteIndex := i, ao_remote_port := p\<rparr>) (cb_pending_queue cb)\<rparr>"
    by blast
  with assms(2) post_read(1,2) show ?thesis by (simp add: async_inv_def slots_of_def requester_def)
next
  case (poll completed mem' cb s cb' s' posted)
  have i: "async_inv n vs mem (cb, s, mem, posted)" "mem' = mem" using assms(2) poll(1) by (simp_all add: async_inv_def)
  from poll(3) have "async_inv n vs mem (cb', s', mem, posted)"
  proof (cases rule: background_work_cases)
    case idle
    then show ?thesis using i by simp
  next
    case (requeued op q)
    then show ?thesis using i by (simp add: async_inv_def slots_of_def)
  next
    case (finished op q v)
    then show ?thesis using i
      by (simp add: async_inv_def slots_of_def requester_def response_for_def append_to_rdma_get_response_queue_def)
  qed
  then show ?thesis using poll(2) i(2) by simp
qed

lemma async_reachable_inv:
  assumes "(async_step pick)\<^sup>*\<^sup>* (make_circular_buffer fresh n vs, s0, mem, {#}) st" "rdma_get_response_queue s0 = []"
  shows "async_inv n vs mem st"
  using assms(1) by (induction rule: rtranclp_induct) (blast intro: async_inv_initial [OF assms(2)] async_step_inv)+

text \<open>
  Property C13: in every run of the server thread and the polling thread, in any interleaving and
  with reads completing in any order, each posted read is pending or has exactly one response
  queued, for the machine and port that asked, holding the first bytes of the block it read; and
  the read operations are neither lost nor duplicated.
\<close>

theorem async_reads_answered_once:
  assumes "(async_step pick)\<^sup>*\<^sup>* (make_circular_buffer fresh n vs, s0, mem, {#}) (cb, s, mem', posted)"
    and "rdma_get_response_queue s0 = []"
  shows "image_mset (response_for vs mem) posted
      = image_mset (response_for vs mem \<circ> requester) (mset (cb_pending_queue cb)) + mset (rdma_get_response_queue s)
    \<and> slots_of (cb_free_queue cb) + slots_of (cb_pending_queue cb) = image_mset Some (mset [0..<n])"
  using async_reachable_inv [OF assms] by (simp add: async_inv_def)

text \<open>
  In any reachable state with as many pending reads as there are operations, the
  next read is posted with the null buffer of a default-constructed operation: nothing waits
  until an operation is free.
\<close>

theorem read_beyond_capacity_undefined:
  assumes "(async_step pick)\<^sup>*\<^sup>* (make_circular_buffer fresh n vs, s0, mem, {#}) (cb, s, mem', posted)"
    and "rdma_get_response_queue s0 = []" "length (cb_pending_queue cb) = n"
  shows "rdma_reader_async pick offset i p cb = Inl (Undefined ''read into a null buffer'')"
proof -
  have "slots_of (cb_free_queue cb) + slots_of (cb_pending_queue cb) = image_mset Some (mset [0..<n])"
    using async_reachable_inv [OF assms(1,2)] by (simp add: async_inv_def)
  from arg_cong [OF this, of size] have "cb_free_queue cb = []" using assms(3) by (simp add: slots_of_def)
  then show ?thesis
    by (simp add: rdma_reader_async_def get_next_available_async_rdma_op_def try_dequeue_def default_async_rdma_op_def)
qed

section \<open>Samples\<close>

definition sample_buffer :: circular_buffer where
  "sample_buffer = make_circular_buffer (\<lambda>_. []) 1 2"

definition sample_pending :: circular_buffer where
  "sample_pending = \<lparr>cb_size = 1, cb_value_size = 2, cb_free_queue = [],
     cb_pending_queue = [\<lparr>ao_slot = Some 0, ao_data = [], ao_offset = 7, ao_remoteIndex = 1, ao_remote_port = 9, ao_isAvailable = True\<rparr>],
     cb_free_disk_queue = [\<lparr>ad_index = 0, ad_port = 0, ad_key = []\<rparr>], cb_pending_disk_queue = []\<rparr>"

definition idle_server :: server where
  "idle_server = sample_server\<lparr>rdma_get_response_queue := []\<rparr>"

lemma sample_post: "rdma_reader_async (\<lambda>_. 0) 7 1 9 sample_buffer = Inr sample_pending"
  by (simp add: sample_buffer_def make_circular_buffer_def sample_pending_def rdma_reader_async_def
      get_next_available_async_rdma_op_def try_dequeue_def enqueue_def enqueue_async_rdma_op_def default_async_rdma_op_def
      registered_def registered_bytes_def GB_TO_BYTES_def BLKSZ_def)

lemma sample_async_run:
  "(async_step (\<lambda>_. 0))\<^sup>*\<^sup>* (make_circular_buffer (\<lambda>_. []) 1 2, idle_server, (\<lambda>_. 65), {#}) (sample_pending, idle_server, (\<lambda>_. 65), {#(1, 9, 7)#})"
  using async_step.post_read [OF sample_post, of idle_server "\<lambda>_. 65" "{#}"] by (simp add: sample_buffer_def r_into_rtranclp)

theorem async_reads_answered_once_witness:
  "image_mset (response_for 2 (\<lambda>_. 65)) {#(1, 9, 7)#}
    = image_mset (response_for 2 (\<lambda>_. 65) \<circ> requester) (mset (cb_pending_queue sample_pending)) + mset (rdma_get_response_queue idle_server)"
  using async_reads_answered_once [OF sample_async_run] by (simp add: idle_server_def)

theorem read_beyond_capacity_undefined_witness:
  "rdma_reader_async (\<lambda>_. 0) 8 1 9 sample_pending = Inl (Undefined ''read into a null buffer'')"
  by (rule read_beyond_capacity_undefined [OF sample_async_run]) (simp_all add: idle_server_def sample_pending_def)

end
