(* ===== verification/Server_Worker.thy ===== *)
theory Server_Worker
  imports Async_Rdma Kv_Cache
begin

text \<open>
  The server thread \<open>server_worker\<close> (\<open>src/src/ldc.cpp\<close>): what a server does with each packet,
  the three ways a read is served (own cache, another server's memory, disk), and the two
  callbacks that finish a read later, when the remote read or the disk read has completed.

  The block cache and its database are third-party: a record of functions on an abstract state.
  Disk reads that were issued asynchronously wait in \<open>pending_disk\<close> until \<open>complete_disk\<close>
  delivers their value; remote reads wait in the queues of \<open>Kv_Cache\<close> and \<open>Async_Rdma\<close>. While
  it stores or evicts a key, the cache writes the index of this machine and calls the callbacks of
  the key-value cache. These events do not use the connection of the worker; they are
  steps of their own in \<open>worker_step\<close>, free to come at any moment, and a call of the cache in a
  handler is only its effect on the cache. A callback that faults is a run that goes no further. The
  clock is a function of the number of packets handled. The unused local
  \<open>remote_machine_index_to_rdma\<close> and the callback under \<open>if (false)\<close> are left out.
\<close>

section \<open>What the worker depends on\<close>

record eviction_data =
  ev_key :: string
  ev_value :: string
  ev_singleton :: bool
  ev_forward_count :: u64

record 'b block_cache_api =
  exists_in_cache :: "string \<Rightarrow> 'b \<Rightarrow> bool"
  update_frequency :: "string \<Rightarrow> 'b \<Rightarrow> 'b"
  block_cache_put :: "string \<Rightarrow> string \<Rightarrow> 'b \<Rightarrow> 'b"
  block_cache_get :: "string \<Rightarrow> 'b \<Rightarrow> string \<times> 'b"
  increment_cache_miss :: "'b \<Rightarrow> 'b"
  reset_cache_info :: "'b \<Rightarrow> 'b"
  cache_freq_addition :: "'b \<Rightarrow> 'b"
  db_get :: "string \<Rightarrow> 'b \<Rightarrow> string option"
  cache_put :: "string \<Rightarrow> string \<Rightarrow> 'b \<Rightarrow> 'b"
  put_nchance :: "string \<Rightarrow> string \<Rightarrow> 'b \<Rightarrow> eviction_data option \<times> 'b"
  put_access_rate_match :: "string \<Rightarrow> string \<Rightarrow> 'b \<Rightarrow> bool \<times> 'b"
  put_singleton :: "string \<Rightarrow> string \<Rightarrow> bool \<Rightarrow> u64 \<Rightarrow> 'b \<Rightarrow> 'b"
  delete_key :: "string \<Rightarrow> 'b \<Rightarrow> 'b"

text \<open>What the callback of a remote read captures.\<close>

record rdma_context =
  rx_remote_index :: int
  rx_remote_port :: int
  rx_expected_key :: int
  rx_key :: string

datatype fill = Always | In_range | Never

record disk_read =
  dk_index :: int
  dk_port :: int
  dk_key :: string
  dk_fill :: fill

record ('b, 'e, 'd) worker_params =
  wp_net :: network
  wp_cache :: "'b block_cache_api"
  wp_kv :: "('e, 'd, rdma_context) kv_params"
  wp_config :: configuration
  policy_type :: string
  one_sided_rdma_enabled :: bool
  use_cache_indexing :: bool
  ingest_block_index :: bool
  key_min :: u64
  key_max :: u64
  data_key_index :: "'d \<Rightarrow> u64"
  data_bytes :: "'d \<Rightarrow> byte list"
  wp_pick :: "nat \<Rightarrow> nat"
  wp_elapsed_seconds :: "nat \<Rightarrow> int"

record ('b, 'e, 'd) worker = server +
  block_cache :: 'b
  rdma_key_value_cache :: "('e, 'd, rdma_context) kv_cache"
  circular_buffers :: "u64 \<rightharpoonup> circular_buffer"
  rdma_regions :: rdma_nodes
  read_buffer :: "byte list"
  worker_snapshot :: Snapshot
  pending_disk :: "disk_read mpmc"
  packets_handled :: nat
  ops_executed :: u64
  rdma_executed :: u64
  disk_ops_executed :: u64
  remote_disk_accesses :: u64
  local_disk_accesses :: u64

text \<open>The index of the first server, uninitialised when there is none, and the number of servers.\<close>

definition server_start_index :: "'a connection_scheme \<Rightarrow> int res" where
  "server_start_index w =
     (case filter rm_server (remote_machine_configs w) of
        [] \<Rightarrow> Inl (Undefined ''server_start_index'') | r # _ \<Rightarrow> Inr (int (rm_index r)))"

definition num_servers :: "'a connection_scheme \<Rightarrow> int" where
  "num_servers w = int (length (filter rm_server (remote_machine_configs w)))"

section \<open>Reading from disk\<close>

text \<open>
  \<open>fetch_from_disk(add_to_cache)\<close>, with the key and the requester that it captures. Synchronous
  reads answer at once; asynchronous ones are issued and answered by their callback.
\<close>

definition issue_disk_read :: "int \<Rightarrow> int \<Rightarrow> string \<Rightarrow> fill \<Rightarrow> ('b, 'e, 'd, 'z) worker_scheme \<Rightarrow> ('b, 'e, 'd, 'z) worker_scheme" where
  "issue_disk_read i p key fill w =
     w\<lparr>pending_disk := enqueue \<lparr>dk_index = i, dk_port = p, dk_key = key, dk_fill = fill\<rparr> (pending_disk w)\<rparr>"

definition fetch_from_disk ::
    "('b, 'e, 'd) worker_params \<Rightarrow> int \<Rightarrow> string \<Rightarrow> int \<Rightarrow> int \<Rightarrow> bool \<Rightarrow> ('b, 'e, 'd, 'z) worker_scheme \<Rightarrow> ('b, 'e, 'd, 'z) worker_scheme res" where
  "fetch_from_disk P kx key i p add_to_cache w =
     (let cfg = wp_config P; api = wp_cache P in
      bindR (update_disk_access (of_int kx) (worker_snapshot w)) (\<lambda>sn.
      let w = w\<lparr>worker_snapshot := sn\<rparr> in
      bindR (if operations_pollute_cache cfg \<and> add_to_cache then
               if DISK_ASYNC cfg then Inr ([], issue_disk_read i p key Always w)
               else let (v, b) = block_cache_get api key (block_cache w) in Inr (v, w\<lparr>block_cache := b\<rparr>)
             else if DISK_ASYNC cfg then Inr ([], issue_disk_read i p key (if add_to_cache then In_range else Never) w)
             else case db_get api key (block_cache w) of
                    Some v \<Rightarrow> Inr (v, w) | None \<Rightarrow> Inl (Panic ''Failed to get value from db'')) (\<lambda>(value, w).
      let w = w\<lparr>disk_ops_executed := disk_ops_executed w + 1\<rparr> in
      if DISK_ASYNC cfg then Inr w else get_response (wp_net P) i p OK value w)))"

definition complete_disk ::
    "('b, 'e, 'd) worker_params \<Rightarrow> string \<Rightarrow> disk_read \<Rightarrow> ('b, 'e, 'd, 'z) worker_scheme \<Rightarrow> ('b, 'e, 'd, 'z) worker_scheme res" where
  "complete_disk P value dk w =
     bindR (case dk_fill dk of
              Always \<Rightarrow> Inr True
            | In_range \<Rightarrow> bindR (stoull (dk_key dk)) (\<lambda>k. Inr (key_min P \<le> k \<and> k < key_max P))
            | Never \<Rightarrow> Inr False) (\<lambda>fill.
     let w = (if fill then w\<lparr>block_cache := cache_put (wp_cache P) (dk_key dk) value (block_cache w)\<rparr> else w) in
     Inr (append_to_rdma_block_cache_request_queue (dk_index dk) (dk_port dk) OK (dk_key dk) value w))"

text \<open>The database completes one of the reads issued: \<open>j\<close> is its position in \<open>pending_disk\<close>.\<close>

definition disk_completion ::
    "('b, 'e, 'd) worker_params \<Rightarrow> nat \<Rightarrow> string \<Rightarrow> ('b, 'e, 'd, 'z) worker_scheme \<Rightarrow> ('b, 'e, 'd, 'z) worker_scheme res" where
  "disk_completion P j value w =
     (case try_dequeue (\<lambda>_. j) (pending_disk w) of
        None \<Rightarrow> Inr w
      | Some (dk, q) \<Rightarrow> complete_disk P value dk (w\<lparr>pending_disk := q\<rparr>))"

section \<open>The callback of a remote read\<close>

definition forward_singleton ::
    "('b, 'e, 'd) worker_params \<Rightarrow> string \<Rightarrow> string \<Rightarrow> ('b, 'e, 'd, 'z) worker_scheme \<Rightarrow> ('b, 'e, 'd, 'z) worker_scheme res" where
  "forward_singleton P key value w =
     bindR (server_start_index w) (\<lambda>start.
     bindR (int_mod (cn_machine_index w - start + 1) (num_servers w)) (\<lambda>next.
     let (evicted, b) = put_nchance (wp_cache P) key value (block_cache w); w = w\<lparr>block_cache := b\<rparr> in
     case evicted of
       None \<Rightarrow> Inr w
     | Some e \<Rightarrow>
         bindR (vec_at_int (remote_machine_configs w) (cn_machine_index w)) (\<lambda>mine.
         Inr (append_singleton_put_request (next + start) (rm_port mine + thread_index w)
           (ev_key e) (ev_value e) (ev_singleton e) (ev_forward_count e) w))))"

definition match_access_rate ::
    "('b, 'e, 'd) worker_params \<Rightarrow> u64 \<Rightarrow> string \<Rightarrow> ('b, 'e, 'd, 'z) worker_scheme \<Rightarrow> ('b, 'e, 'd, 'z) worker_scheme res" where
  "match_access_rate P kx value w =
     (let (added, b) = put_access_rate_match (wp_cache P) (to_string_nat (unat kx)) value (block_cache w) in
      if added then mapR (\<lambda>sn. w\<lparr>block_cache := cache_freq_addition (wp_cache P) b, worker_snapshot := sn\<rparr>)
        (update_access_rate kx (worker_snapshot w))
      else Inr (w\<lparr>block_cache := b\<rparr>))"

definition rdma_callback ::
    "('b, 'e, 'd) worker_params \<Rightarrow> rdma_context \<Rightarrow> 'd \<Rightarrow> ('b, 'e, 'd, 'z) worker_scheme \<Rightarrow> ('b, 'e, 'd, 'z) worker_scheme res" where
  "rdma_callback P cx kv w =
     (let w = w\<lparr>rdma_executed := rdma_executed w + 1\<rparr>; kx = data_key_index P kv; expected_key = rx_expected_key cx in
      bindR (view_value (VALUE_SIZE (wp_config P)) (data_bytes P kv)) (\<lambda>value.
      if kx = of_int expected_key then
        bindR (if policy_type P = ''nchance'' then forward_singleton P (to_string_nat (unat kx)) value w else Inr w) (\<lambda>w.
        bindR (if policy_type P = ''access_rate'' \<or> policy_type P = ''access_rate_dynamic''
               then match_access_rate P kx value w else Inr w) (\<lambda>w.
        Inr (append_to_rdma_get_response_queue (rx_remote_index cx) (rx_remote_port cx) OK value w)))
      else
        let w = w\<lparr>remote_disk_accesses := remote_disk_accesses w + 1\<rparr> in
        bindR (update_remote_disk_access (of_int expected_key) (worker_snapshot w)) (\<lambda>sn.
        bindR (kv_update_local_key (wp_kv P) (of_int expected_key) kx (rdma_key_value_cache w)) (\<lambda>kvc.
        fetch_from_disk P expected_key (rx_key cx) (rx_remote_index cx) (rx_remote_port cx) False
          (w\<lparr>worker_snapshot := sn, rdma_key_value_cache := kvc\<rparr>)))))"

text \<open>
  The threads started by \<open>main\<close> that execute the pending operations of the key-value cache:
  the writes are collected, then every pending read runs its callback on the worker. \<open>arrive\<close>
  is what a read brings.
\<close>

definition storage_pending_done ::
    "('d, rdma_context) rdma_queue \<Rightarrow> ('b, 'e, 'd, 'z) worker_scheme \<Rightarrow> ('b, 'e, 'd, 'z) worker_scheme" where
  "storage_pending_done q w = w\<lparr>rdma_key_value_cache := (rdma_key_value_cache w)\<lparr>key_value_storage := q\<rparr>\<rparr>"

definition execute_pending_rdma ::
    "('b, 'e, 'd) worker_params \<Rightarrow> (post \<Rightarrow> 'd) \<Rightarrow> ('b, 'e, 'd, 'z) worker_scheme \<Rightarrow> ('b, 'e, 'd, 'z) worker_scheme res" where
  "execute_pending_rdma P arrive w =
     (let kv = rdma_key_value_cache w in
      bindR (logs_execute_pending (pick_token (wp_kv P)) Inr (cache_index_logs kv, ())) (\<lambda>(cl, _).
      bindR (indexes_execute_pending (pick_token (wp_kv P)) Inr (cache_indexes kv, ())) (\<lambda>(ci, _).
      let q = key_value_storage kv in
      bindR (queue_execute_pending (pick_slot (wp_kv P)) arrive (\<lambda>_. Inr) (rdma_callback P)
        (q, w\<lparr>rdma_key_value_cache := kv\<lparr>cache_index_logs := cl, cache_indexes := ci,
              key_value_storage := q\<lparr>pending_read_queue := []\<rparr>\<rparr>\<rparr>)) (\<lambda>(q, w).
      Inr (storage_pending_done q w)))))"

section \<open>Serving a packet\<close>

text \<open>Without cache indexing the block of the key is read from its node.\<close>

definition read_correct_node ::
    "('b, 'e, 'd) worker_params \<Rightarrow> u64 \<Rightarrow> int \<Rightarrow> int \<Rightarrow> ('b, 'e, 'd, 'z) worker_scheme \<Rightarrow> ('b, 'e, 'd, 'z) worker_scheme res" where
  "read_correct_node P kx i p w =
     bindR (server_start_index w) (\<lambda>start.
     bindR (calculateNodeAndOffset (wp_config P) kx) (\<lambda>(nd, offset).
     bindR (node_at nd start (rdma_regions w)) (\<lambda>(n, mem).
     if RDMA_ASYNC (wp_config P) then
       case circular_buffers w n of
         None \<Rightarrow> Inl (Undefined ''null circular buffer'')
       | Some cb \<Rightarrow> mapR (\<lambda>cb. w\<lparr>circular_buffers := (circular_buffers w)(n \<mapsto> cb)\<rparr>) (rdma_reader_async (wp_pick P) offset i p cb)
     else mapR (\<lambda>data. w\<lparr>read_buffer := data\<rparr>) (rdma_reader_sync offset mem))))"

definition reset_at_warmup :: "('b, 'e, 'd) worker_params \<Rightarrow> ('b, 'e, 'd, 'z) worker_scheme \<Rightarrow> ('b, 'e, 'd, 'z) worker_scheme" where
  "reset_at_warmup P w =
     (if wp_elapsed_seconds P (packets_handled w) = 60
      then w\<lparr>block_cache := reset_cache_info (wp_cache P) (block_cache w), local_disk_accesses := 0, remote_disk_accesses := 0,
             disk_ops_executed := 0, ops_executed := 0, rdma_executed := 0\<rparr>
      else w)"

definition serve_remotely ::
    "('b, 'e, 'd) worker_params \<Rightarrow> int \<Rightarrow> string \<Rightarrow> int \<Rightarrow> int \<Rightarrow> ('b, 'e, 'd, 'z) worker_scheme \<Rightarrow> (bool \<times> ('b, 'e, 'd, 'z) worker_scheme) res" where
  "serve_remotely P kx key i p w =
     (if \<not> ingest_block_index P then Inl (Panic ''Supports only ingest_block_index being enabled!'')
      else
        bindR (if use_cache_indexing P
               then mapR (\<lambda>(found, _, kvc). (found, w\<lparr>rdma_key_value_cache := kvc\<rparr>))
                 (read_callback (wp_kv P) (of_int kx) \<lparr>rx_remote_index = i, rx_remote_port = p, rx_expected_key = kx, rx_key = key\<rparr>
                   (rdma_key_value_cache w))
               else mapR (Pair True) (read_correct_node P (of_int kx) i p (w\<lparr>rdma_executed := rdma_executed w + 1\<rparr>))) (\<lambda>(found, w).
        if RDMA_ASYNC (wp_config P) then Inr (found, w)
        else bindR (view_value (VALUE_SIZE (wp_config P)) (read_buffer w)) (\<lambda>buffer.
             mapR (Pair found) (get_response (wp_net P) i p OK buffer w))))"

definition serve_hit ::
    "('b, 'e, 'd) worker_params \<Rightarrow> int \<Rightarrow> string \<Rightarrow> int \<Rightarrow> int \<Rightarrow> ('b, 'e, 'd, 'z) worker_scheme \<Rightarrow> ('b, 'e, 'd, 'z) worker_scheme res" where
  "serve_hit P kx key i p w =
     bindR (update_cache_hits (of_int kx) (worker_snapshot w)) (\<lambda>sn.
     let (value, b) = block_cache_get (wp_cache P) key (block_cache w) in
     get_response (wp_net P) i p OK value (w\<lparr>worker_snapshot := sn, block_cache := b\<rparr>))"

definition serve_miss ::
    "('b, 'e, 'd) worker_params \<Rightarrow> int \<Rightarrow> string \<Rightarrow> int \<Rightarrow> int \<Rightarrow> ('b, 'e, 'd, 'z) worker_scheme \<Rightarrow> ('b, 'e, 'd, 'z) worker_scheme res" where
  "serve_miss P kx key i p w =
     (let w = w\<lparr>block_cache := increment_cache_miss (wp_cache P) (block_cache w)\<rparr> in
      bindR (update_cache_miss (of_int kx) (worker_snapshot w)) (\<lambda>sn.
      let w = w\<lparr>worker_snapshot := sn\<rparr> in
      bindR (if one_sided_rdma_enabled P then serve_remotely P kx key i p w else Inr (False, w)) (\<lambda>(found_in_rdma, w).
      if found_in_rdma then Inr w
      else
        let w = w\<lparr>local_disk_accesses := local_disk_accesses w + 1\<rparr> in
        bindR (update_local_disk_access (of_int kx) (worker_snapshot w)) (\<lambda>sn.
        fetch_from_disk P kx key i p True (w\<lparr>worker_snapshot := sn\<rparr>)))))"

definition handle_get ::
    "('b, 'e, 'd) worker_params \<Rightarrow> int \<Rightarrow> int \<Rightarrow> string \<Rightarrow> ('b, 'e, 'd, 'z) worker_scheme \<Rightarrow> ('b, 'e, 'd, 'z) worker_scheme res" where
  "handle_get P i p key w =
     (let w = reset_at_warmup P w; w = w\<lparr>packets_handled := packets_handled w + 1, ops_executed := ops_executed w + 1\<rparr>;
          key = c_str key in
      bindR (stoi key) (\<lambda>kx.
      let hit = exists_in_cache (wp_cache P) key (block_cache w);
          w = w\<lparr>block_cache := update_frequency (wp_cache P) key (block_cache w)\<rparr> in
      bindR (if hit then serve_hit P kx key i p w else serve_miss P kx key i p w) (\<lambda>w.
      mapR (\<lambda>sn. w\<lparr>worker_snapshot := sn\<rparr>) (update_total_access (of_int kx) (worker_snapshot w)))))"

definition handle_put ::
    "('b, 'e, 'd) worker_params \<Rightarrow> int \<Rightarrow> string \<Rightarrow> string \<Rightarrow> ('b, 'e, 'd, 'z) worker_scheme \<Rightarrow> ('b, 'e, 'd, 'z) worker_scheme res" where
  "handle_put P i key value w =
     put_response_default (wp_net P) i OK
       (w\<lparr>block_cache := update_frequency (wp_cache P) (c_str key) (block_cache_put (wp_cache P) (c_str key) (c_str value) (block_cache w))\<rparr>)"

text \<open>
  A setup request is acknowledged to its machine whatever it announces. A pushed singleton goes to the
  cache, without an acknowledgement; a key that is deleted must be a number, though only its text is used.
\<close>

definition handle_rdma_setup ::
    "int \<Rightarrow> u64 \<Rightarrow> u64 \<Rightarrow> u64 \<Rightarrow> ('b, 'e, 'd, 'z) worker_scheme \<Rightarrow> ('b, 'e, 'd, 'z) worker_scheme res" where
  "handle_rdma_setup i machine start_address sz w = rdma_setup_response i OK w"

definition handle_singleton_put ::
    "('b, 'e, 'd) worker_params \<Rightarrow> string \<Rightarrow> string \<Rightarrow> bool \<Rightarrow> u64 \<Rightarrow> ('b, 'e, 'd, 'z) worker_scheme \<Rightarrow> ('b, 'e, 'd, 'z) worker_scheme" where
  "handle_singleton_put P key value singleton forward_count w =
     w\<lparr>block_cache := put_singleton (wp_cache P) (c_str key) (c_str value) singleton forward_count (block_cache w)\<rparr>"

definition handle_delete ::
    "('b, 'e, 'd) worker_params \<Rightarrow> string \<Rightarrow> ('b, 'e, 'd, 'z) worker_scheme \<Rightarrow> ('b, 'e, 'd, 'z) worker_scheme res" where
  "handle_delete P key w =
     (let key = c_str key in
      bindR (stoi key) (\<lambda>key_index.
      Inr (w\<lparr>block_cache := delete_key (wp_cache P) key (block_cache w)\<rparr>)))"

definition worker_handler ::
    "('b, 'e, 'd) worker_params \<Rightarrow> (('b, 'e, 'd, 'z) worker_scheme \<times> unit) handler" where
  "worker_handler P i p tx_flow data = (\<lambda>(w, _).
     mapR (\<lambda>w. (w, ()))
      (case data of
         PutRequest key value \<Rightarrow> handle_put P i key value w
       | GetRequest key \<Rightarrow> handle_get P i p key w
       | RdmaSetupRequest machine start_address sz \<Rightarrow> handle_rdma_setup i machine start_address sz w
       | RdmaSetupResponse _ \<Rightarrow> Inr w
       | SingletonPutRequest key value singleton forward_count \<Rightarrow>
           Inr (handle_singleton_put P key value singleton forward_count w)
       | DeleteRequest key \<Rightarrow> handle_delete P key w
       | _ \<Rightarrow> Inr w))"

text \<open>
  The loop of the thread: rounds of \<open>loop\<close>, each of which ends with a message or a stop, as
  long as \<open>g_stop\<close> is not set. The flag is read again after each round; its value is the one that
  comes with the last reception that the round took. The thread returns what it has not received.
\<close>

lemma receive_nothing: "receive handler Recv_nothing st = Inr (False, st)"
  by (simp add: receive_def)

lemma loop_shorter: "loop pending handler evs st = Inr (evs', st') \<Longrightarrow> length evs' < length evs"
  by (induction pending handler evs st rule: loop.induct)
    (auto simp: bindR_Inr_iff less_Suc_eq split: if_splits)

definition worker_pending ::
    "('b, 'e, 'd) worker_params \<Rightarrow> ('b, 'e, 'd, 'z) worker_scheme \<times> unit \<Rightarrow> (('b, 'e, 'd, 'z) worker_scheme \<times> unit) res" where
  "worker_pending P st = mapR (\<lambda>w. (w, ())) (execute_pending_operations (wp_net P) (wp_pick P) (fst st))"

definition stop_seen :: "(recv_result \<times> bool) list \<Rightarrow> (recv_result \<times> bool) list \<Rightarrow> bool" where
  "stop_seen evs evs' = snd (last (take (length evs - length evs') evs))"

function server_worker ::
    "('b, 'e, 'd) worker_params \<Rightarrow> bool \<Rightarrow> (recv_result \<times> bool) list \<Rightarrow> ('b, 'e, 'd, 'z) worker_scheme
     \<Rightarrow> ((recv_result \<times> bool) list \<times> ('b, 'e, 'd, 'z) worker_scheme) res" where
  "server_worker P g_stop evs w =
     (if g_stop then Inr (evs, w)
      else case loop (worker_pending P) (worker_handler P) evs (w, ()) of
             Inl e \<Rightarrow> Inl e
           | Inr (evs', w', _) \<Rightarrow> server_worker P (stop_seen evs evs') evs' w')"
  by pat_completeness auto
termination
  by (relation "measure (\<lambda>(_, _, evs, _). length evs)") (auto dest!: loop_shorter)

declare server_worker.simps [simp del]

section \<open>Who still waits for an answer\<close>

definition contexts :: "('d, rdma_context) slot mpmc \<Rightarrow> rdma_context list" where
  "contexts q = concat (map (\<lambda>s. case slot_callback s of None \<Rightarrow> [] | Some cx \<Rightarrow> [cx]) q)"

text \<open>
  The machines and ports whose reads are under way: responses in the two queues of the server,
  disk reads that were issued, and the callbacks of pending remote reads.
\<close>

definition outstanding :: "('b, 'e, 'd, 'z) worker_scheme \<Rightarrow> (int \<times> int) multiset" where
  "outstanding w =
     mset (map (\<lambda>r. (gr_index r, gr_port r)) (rdma_get_response_queue w))
     + mset (map (\<lambda>r. (bc_index r, bc_port r)) (block_cache_request_queue w))
     + mset (map (\<lambda>d. (dk_index d, dk_port d)) (pending_disk w))
     + mset (map (\<lambda>cx. (rx_remote_index cx, rx_remote_port cx)) (contexts (pending_read_queue (key_value_storage (rdma_key_value_cache w)))))"

definition answered :: "int \<Rightarrow> int \<Rightarrow> ('b, 'e, 'd, 'z) worker_scheme \<Rightarrow> ('b, 'e, 'd, 'z) worker_scheme \<Rightarrow> bool" where
  "answered i p w w' \<longleftrightarrow> outstanding w' = outstanding w
     \<and> (\<exists>v. sent w' = sent w @ [(flow_to w (i, p), [GetResponse OK v])])"

definition postponed :: "int \<Rightarrow> int \<Rightarrow> ('b, 'e, 'd, 'z) worker_scheme \<Rightarrow> ('b, 'e, 'd, 'z) worker_scheme \<Rightarrow> bool" where
  "postponed i p w w' \<longleftrightarrow> outstanding w' = add_mset (i, p) (outstanding w) \<and> sent w' = sent w"

text \<open>Where answers go: the flow of each machine and port, and the machine of each address.\<close>

definition routes :: "'a connection_scheme \<Rightarrow> (int \<times> int \<Rightarrow> flow) \<times> (32 word \<Rightarrow> int)" where
  "routes c = (flow_to c, \<lambda>ip. map_at (dst_ip_to_machine_index c) ip 0)"

lemma routes_flow_to: "routes w' = routes w \<Longrightarrow> flow_to w' = flow_to w"
  by (simp add: routes_def)

lemma routes_simps [simp]:
  "routes (sent_to i p data c) = routes c"
  by (simp add: routes_def fun_eq_iff)

lemma routes_queues [simp]:
  "routes (s\<lparr>rdma_get_response_queue := q1\<rparr>) = routes s"
  "routes (s\<lparr>block_cache_request_queue := q2\<rparr>) = routes s"
  "routes (s\<lparr>singleton_put_request_queue := q3\<rparr>) = routes s"
  "routes (s\<lparr>delete_request_queue := q4\<rparr>) = routes s"
  "routes (append_to_rdma_get_response_queue i p rt v s) = routes s"
  "routes (append_to_rdma_block_cache_request_queue i p rt key v s) = routes s"
  by (simp_all add: routes_def flow_to_def fun_eq_iff append_to_rdma_get_response_queue_def append_to_rdma_block_cache_request_queue_def)

lemma routes_worker [simp]:
  "routes (w\<lparr>rdma_key_value_cache := kv\<rparr>) = routes w"
  "routes (w\<lparr>pending_disk := pd\<rparr>) = routes w"
  "routes (w\<lparr>block_cache := b\<rparr>) = routes w"
  "routes (issue_disk_read i p key fill w) = routes w"
  by (simp_all add: routes_def flow_to_def fun_eq_iff issue_disk_read_def)

definition served :: "int \<Rightarrow> int \<Rightarrow> ('b, 'e, 'd, 'z) worker_scheme \<Rightarrow> ('b, 'e, 'd, 'z) worker_scheme \<Rightarrow> bool" where
  "served i p w w' \<longleftrightarrow> (answered i p w w' \<or> postponed i p w w') \<and> routes w' = routes w"

text \<open>Two workers that differ only in what neither predicate looks at.\<close>

definition same_waiting :: "('b, 'e, 'd, 'z) worker_scheme \<Rightarrow> ('b, 'e, 'd, 'z) worker_scheme \<Rightarrow> bool" where
  "same_waiting w w' \<longleftrightarrow> outstanding w' = outstanding w \<and> sent w' = sent w \<and> routes w' = routes w"

lemma served_cong: "same_waiting w1 w2 \<Longrightarrow> served i p w2 w3 \<Longrightarrow> served i p w1 w3"
  using routes_flow_to [of w2 w1] by (simp add: same_waiting_def served_def answered_def postponed_def)

lemma served_update: "served i p w1 w2 \<Longrightarrow> same_waiting w2 w3 \<Longrightarrow> served i p w1 w3"
  by (simp add: same_waiting_def served_def answered_def postponed_def)

lemma same_waiting_refl [simp]: "same_waiting w w"
  by (simp add: same_waiting_def)

lemma same_waiting_trans: "same_waiting a b \<Longrightarrow> same_waiting b c \<Longrightarrow> same_waiting a c"
  by (simp add: same_waiting_def)

lemma same_waiting_updates [simp]:
  "same_waiting w (w\<lparr>worker_snapshot := sn\<rparr>)" "same_waiting w (w\<lparr>block_cache := b\<rparr>)"
  "same_waiting w (w\<lparr>packets_handled := n\<rparr>)" "same_waiting w (w\<lparr>ops_executed := c1\<rparr>)"
  "same_waiting w (w\<lparr>rdma_executed := c2\<rparr>)" "same_waiting w (w\<lparr>disk_ops_executed := c3\<rparr>)"
  "same_waiting w (w\<lparr>remote_disk_accesses := c4\<rparr>)" "same_waiting w (w\<lparr>local_disk_accesses := c5\<rparr>)"
  "same_waiting w (w\<lparr>read_buffer := rb\<rparr>)" "same_waiting w (w\<lparr>circular_buffers := cbs\<rparr>)"
  by (simp_all add: same_waiting_def outstanding_def routes_def flow_to_def fun_eq_iff)

lemma sent_to_worker_simps [simp]:
  "pending_disk (sent_to i p data w) = pending_disk w"
  "rdma_key_value_cache (sent_to i p data w) = rdma_key_value_cache w"
  "worker_snapshot (sent_to i p data w) = worker_snapshot w"
  "outstanding (sent_to i p data w) = outstanding w"
proof -
  show 1: "pending_disk (sent_to i p data w) = pending_disk w"
    "rdma_key_value_cache (sent_to i p data w) = rdma_key_value_cache w"
    "worker_snapshot (sent_to i p data w) = worker_snapshot w"
    by (simp_all add: sent_to_def)
  then show "outstanding (sent_to i p data w) = outstanding w" by (simp add: outstanding_def)
qed

lemma send_returns: "send net i p data c = Inr c' \<Longrightarrow> c' = sent_to i p data c"
  by (simp add: send_def Let_def sent_to_def flow_to_def split: if_splits)

lemma get_response_answers: "get_response net i p OK v w = Inr w' \<Longrightarrow> answered i p w w'"
  unfolding get_response_def by (drule send_returns) (simp add: answered_def)

lemma get_response_reliable: "reliable net \<Longrightarrow> get_response net i p rt v w = Inr (sent_to i p [GetResponse rt v] w)"
  by (simp add: get_response_def send_reliable)

section \<open>Statistics of a key in range\<close>

definition snapshot_covers :: "Snapshot \<Rightarrow> nat \<Rightarrow> bool" where
  "snapshot_covers s k \<longleftrightarrow> \<not> enabled (sn_config s) \<or> snapshot_ok s \<and> k < length (sn_entries s)"

lemma update_counter_covers:
  assumes "snapshot_covers s k" "unat key = k"
  shows "\<exists>s'. update_counter c key s = Inr s' \<and> snapshot_covers s' k"
proof (cases "enabled (sn_config s)")
  case True
  then have s: "snapshot_ok s" "unat key < length (sn_entries s)" using assms by (simp_all add: snapshot_covers_def)
  from update_counter_in [OF s, of c] show ?thesis using s(2) assms(2) by (auto simp: snapshot_covers_def)
next
  case False
  then have "update_counter c key s = Inr s"
    using update_counter_bump [of c] by (auto simp: update_entry_def)
  then show ?thesis using assms(1) by blast
qed

lemma update_covers:
  assumes "snapshot_covers s k" "unat key = k"
  shows "\<exists>s'. update_total_access key s = Inr s' \<and> snapshot_covers s' k"
    "\<exists>s'. update_cache_hits key s = Inr s' \<and> snapshot_covers s' k"
    "\<exists>s'. update_cache_miss key s = Inr s' \<and> snapshot_covers s' k"
    "\<exists>s'. update_disk_access key s = Inr s' \<and> snapshot_covers s' k"
    "\<exists>s'. update_local_disk_access key s = Inr s' \<and> snapshot_covers s' k"
    "\<exists>s'. update_remote_disk_access key s = Inr s' \<and> snapshot_covers s' k"
    "\<exists>s'. update_access_rate key s = Inr s' \<and> snapshot_covers s' k"
  using update_counter_covers [OF assms, of Total] update_counter_covers [OF assms, of Hit]
    update_counter_covers [OF assms, of Miss] update_counter_covers [OF assms, of Disk]
    update_counter_covers [OF assms, of Local_Disk] update_counter_covers [OF assms, of Remote_Disk]
    update_counter_covers [OF assms, of Rate]
  by simp_all

section \<open>What each way of serving a read does to the waiting requesters\<close>

lemma issue_disk_read_postpones: "postponed i p w (issue_disk_read i p key fill w)"
  by (simp add: postponed_def issue_disk_read_def outstanding_def enqueue_def)

lemma get_response_serves: "get_response net i p OK v w = Inr w' \<Longrightarrow> served i p w w'"
  using get_response_answers [of net i p v w w'] by (auto simp: served_def get_response_def dest!: send_returns)

lemma fetch_from_disk_serves:
  assumes "fetch_from_disk P kx key i p add_to_cache w = Inr w'"
  shows "served i p w w'"
proof -
  let ?cfg = "wp_config P"
  obtain sn where sn: "update_disk_access (of_int kx) (worker_snapshot w) = Inr sn"
    using assms unfolding fetch_from_disk_def Let_def bindR_Inr_iff by blast
  let ?w1 = "w\<lparr>worker_snapshot := sn\<rparr>"
  show ?thesis
  proof (cases "DISK_ASYNC ?cfg")
    case True
    define fill where "fill = (if operations_pollute_cache ?cfg \<and> add_to_cache then Always else if add_to_cache then In_range else Never)"
    let ?w2 = "issue_disk_read i p key fill ?w1"
    have "w' = ?w2\<lparr>disk_ops_executed := disk_ops_executed ?w2 + 1\<rparr>"
      using assms True sn by (auto simp: fetch_from_disk_def Let_def fill_def split: if_splits)
    moreover have "served i p ?w1 ?w2" by (simp add: served_def issue_disk_read_postpones)
    ultimately show ?thesis by (metis served_cong served_update same_waiting_updates(1,6))
  next
    case False
    then obtain v w2 where m: "(if operations_pollute_cache ?cfg \<and> add_to_cache
        then case block_cache_get (wp_cache P) key (block_cache ?w1) of (v, b) \<Rightarrow> Inr (v, ?w1\<lparr>block_cache := b\<rparr>)
        else case db_get (wp_cache P) key (block_cache ?w1) of Some v \<Rightarrow> Inr (v, ?w1) | None \<Rightarrow> Inl (Panic ''Failed to get value from db'')) = Inr (v, w2)"
      and g: "get_response (wp_net P) i p OK v (w2\<lparr>disk_ops_executed := disk_ops_executed w2 + 1\<rparr>) = Inr w'"
      using assms by (simp only: fetch_from_disk_def Let_def sn bindR_simps False if_False bindR_Inr_iff) auto
    have "same_waiting ?w1 w2" using m by (auto split: if_splits prod.splits option.splits)
    then have "same_waiting w (w2\<lparr>disk_ops_executed := disk_ops_executed w2 + 1\<rparr>)"
      by (metis same_waiting_trans same_waiting_updates(1,6))
    then show ?thesis by (rule served_cong [OF _ get_response_serves [OF g]])
  qed
qed

lemma contexts_append [simp]: "contexts (q @ [s]) = contexts q @ (case slot_callback s of None \<Rightarrow> [] | Some cx \<Rightarrow> [cx])"
  by (simp add: contexts_def)

lemma storage_read_pending:
  assumes "storage_read K i (Some cx) e kv = Inr (ps, kv')"
  shows "contexts (pending_read_queue (key_value_storage kv')) = contexts (pending_read_queue (key_value_storage kv)) @ [cx]"
proof -
  have "contexts (pending_read_queue q') = contexts (pending_read_queue q) @ [cx]"
    if "queue_read a b sz i (Some cx) d loff roff len q = Inr (p, q')" for a b sz d loff roff len q p q'
    using that by (auto simp: queue_read_def bindR_Inr_iff enqueue_def split: option.splits)
  then show ?thesis using assms by (auto simp: storage_read_def Let_def mapR_Inr_iff)
qed

lemma read_callback_effect:
  assumes "read_callback K k cx kv = Inr (found, ps, kv')"
  shows "if found then contexts (pending_read_queue (key_value_storage kv')) = contexts (pending_read_queue (key_value_storage kv)) @ [cx]
    else kv' = kv"
  using assms
  by (auto simp: read_callback_def bindR_Inr_iff mapR_Inr_iff dest!: storage_read_pending split: option.splits)

text \<open>With cache indexing the remote path answers later or not at all, if reads are asynchronous.\<close>

definition remote_mode :: "('b, 'e, 'd) worker_params \<Rightarrow> bool" where
  "remote_mode P \<longleftrightarrow> one_sided_rdma_enabled P \<longrightarrow> use_cache_indexing P \<and> RDMA_ASYNC (wp_config P)"

lemma outstanding_kv:
  "contexts (pending_read_queue (key_value_storage kv)) = contexts (pending_read_queue (key_value_storage (rdma_key_value_cache w))) @ cxs
   \<Longrightarrow> outstanding (w\<lparr>rdma_key_value_cache := kv\<rparr>) = outstanding w + mset (map (\<lambda>cx. (rx_remote_index cx, rx_remote_port cx)) cxs)"
  by (simp add: outstanding_def)

lemma flow_to_kv [simp]: "flow_to (w\<lparr>rdma_key_value_cache := kv\<rparr>) = flow_to w"
  by (simp add: routes_def flow_to_def fun_eq_iff)

lemma read_callback_waits:
  assumes "read_callback K k \<lparr>rx_remote_index = i, rx_remote_port = p, rx_expected_key = kx, rx_key = key\<rparr> (rdma_key_value_cache w) = Inr (found, ps, kv)"
  shows "if found then postponed i p w (w\<lparr>rdma_key_value_cache := kv\<rparr>) else kv = rdma_key_value_cache w"
proof (cases found)
  case True
  then have "contexts (pending_read_queue (key_value_storage kv)) = contexts (pending_read_queue (key_value_storage (rdma_key_value_cache w)))
      @ [\<lparr>rx_remote_index = i, rx_remote_port = p, rx_expected_key = kx, rx_key = key\<rparr>]"
    using read_callback_effect [OF assms] by simp
  from outstanding_kv [OF this] show ?thesis using True by (simp add: postponed_def)
next
  case False
  then show ?thesis using read_callback_effect [OF assms] by simp
qed

lemma serve_remotely_effect:
  assumes "serve_remotely P kx key i p w = Inr (found, w')" "use_cache_indexing P" "RDMA_ASYNC (wp_config P)"
  shows "if found then served i p w w' else same_waiting w w'"
proof -
  obtain ps kv where r: "read_callback (wp_kv P) (of_int kx)
      \<lparr>rx_remote_index = i, rx_remote_port = p, rx_expected_key = kx, rx_key = key\<rparr> (rdma_key_value_cache w) = Inr (found, ps, kv)"
    "w' = w\<lparr>rdma_key_value_cache := kv\<rparr>"
    using assms by (auto simp: serve_remotely_def bindR_Inr_iff mapR_Inr_iff split: if_splits)
  show ?thesis using read_callback_waits [OF r(1)] by (auto simp: r(2) served_def)
qed

lemma serve_hit_serves:
  assumes "serve_hit P kx key i p w = Inr w'"
  shows "served i p w w'"
proof -
  obtain v b where g: "block_cache_get (wp_cache P) key (block_cache w) = (v, b)" by (cases "block_cache_get (wp_cache P) key (block_cache w)")
  obtain sn where "get_response (wp_net P) i p OK v (w\<lparr>worker_snapshot := sn, block_cache := b\<rparr>) = Inr w'"
    using assms by (auto simp: serve_hit_def bindR_Inr_iff g)
  from get_response_serves [OF this] show ?thesis
    by (rule served_cong [OF same_waiting_trans [OF same_waiting_updates(1,2)]])
qed

lemma serve_miss_serves:
  assumes "serve_miss P kx key i p w = Inr w'" "remote_mode P"
  shows "served i p w w'"
proof -
  let ?w0 = "w\<lparr>block_cache := increment_cache_miss (wp_cache P) (block_cache w)\<rparr>"
  obtain sn where sn: "update_cache_miss (of_int kx) (worker_snapshot ?w0) = Inr sn"
    using assms(1) unfolding serve_miss_def Let_def bindR_Inr_iff by blast
  let ?w1 = "?w0\<lparr>worker_snapshot := sn\<rparr>"
  have w1: "same_waiting w ?w1" by (rule same_waiting_trans [OF same_waiting_updates(2,1)])
  obtain found w2 where r: "(if one_sided_rdma_enabled P then serve_remotely P kx key i p ?w1 else Inr (False, ?w1)) = Inr (found, w2)"
    "(if found then Inr w2 else bindR (update_local_disk_access (of_int kx) (worker_snapshot (w2\<lparr>local_disk_accesses := local_disk_accesses w2 + 1\<rparr>))) (\<lambda>sn.
        fetch_from_disk P kx key i p True (w2\<lparr>local_disk_accesses := local_disk_accesses w2 + 1, worker_snapshot := sn\<rparr>))) = Inr w'"
    using assms(1) unfolding serve_miss_def Let_def sn by (auto simp: bindR_Inr_iff)
  have e: "if found then served i p ?w1 w2 else same_waiting ?w1 w2"
    using r(1) assms(2) serve_remotely_effect [of P kx key i p ?w1 found w2] by (auto simp: remote_mode_def split: if_splits)
  show ?thesis
  proof (cases found)
    case True
    then show ?thesis using e r(2) served_cong [OF w1] by simp
  next
    case False
    then obtain sn' where "fetch_from_disk P kx key i p True (w2\<lparr>local_disk_accesses := local_disk_accesses w2 + 1, worker_snapshot := sn'\<rparr>) = Inr w'"
      using r(2) by (auto simp: bindR_Inr_iff)
    from fetch_from_disk_serves [OF this]
    have "served i p w2 w'" by (rule served_cong [OF same_waiting_trans [OF same_waiting_updates(8,1)]])
    then show ?thesis using e False served_cong [OF same_waiting_trans [OF w1]] by simp
  qed
qed

lemma reset_at_warmup_waiting: "same_waiting w (reset_at_warmup P w)"
  by (simp add: reset_at_warmup_def same_waiting_def outstanding_def routes_def flow_to_def fun_eq_iff)

lemma handle_get_serves:
  assumes "handle_get P i p key w = Inr w'" "remote_mode P"
  shows "served i p w w'"
proof -
  let ?w1 = "(reset_at_warmup P w)\<lparr>packets_handled := packets_handled (reset_at_warmup P w) + 1, ops_executed := ops_executed (reset_at_warmup P w) + 1\<rparr>"
  let ?w2 = "?w1\<lparr>block_cache := update_frequency (wp_cache P) (c_str key) (block_cache ?w1)\<rparr>"
  have w2: "same_waiting w ?w2"
    by (rule same_waiting_trans [OF reset_at_warmup_waiting [of w P]]) (simp add: same_waiting_def outstanding_def routes_def flow_to_def fun_eq_iff)
  obtain kx w3 sn where "serve_hit P kx (c_str key) i p ?w2 = Inr w3 \<or> serve_miss P kx (c_str key) i p ?w2 = Inr w3"
    "w' = w3\<lparr>worker_snapshot := sn\<rparr>"
    using assms(1) unfolding handle_get_def Let_def by (auto simp: bindR_Inr_iff mapR_Inr_iff split: if_splits)
  then have "served i p ?w2 w'" using serve_hit_serves serve_miss_serves [OF _ assms(2)] served_update same_waiting_updates(1) by blast
  then show ?thesis by (rule served_cong [OF w2])
qed

section \<open>Every read of a key of the dataset is served\<close>

lemma unat_of_int_u64: "0 \<le> k \<Longrightarrow> k < 2 ^ 31 \<Longrightarrow> unat (of_int k :: u64) = nat k"
proof -
  assume k: "0 \<le> k" "k < 2 ^ 31"
  then have "(of_int k :: u64) = of_nat (nat k)" by simp
  moreover have "nat k < 2 ^ 64" using k by (simp add: nat_less_iff)
  ultimately show ?thesis by (simp only: unat_of_nat_u64)
qed

text \<open>
  When a read of the key \<open>kx\<close> can be served without waiting or fault: remote reads are set up
  for cache indexing and have a free slot, and a synchronous database holds the key.
\<close>

definition can_serve :: "('b, 'e, 'd) worker_params \<Rightarrow> nat \<Rightarrow> nat \<Rightarrow> nat \<Rightarrow> nat \<Rightarrow> int \<Rightarrow> string \<Rightarrow> ('b, 'e, 'd, 'z) worker_scheme \<Rightarrow> bool" where
  "can_serve P n len slots m kx key w \<longleftrightarrow> reliable (wp_net P) \<and> 0 \<le> kx \<and> kx < 2 ^ 31
     \<and> snapshot_covers (worker_snapshot w) (nat kx)
     \<and> (one_sided_rdma_enabled P \<longrightarrow> ingest_block_index P \<and> use_cache_indexing P \<and> RDMA_ASYNC (wp_config P)
          \<and> kv_ok (wp_kv P) n len slots m (rdma_key_value_cache w) \<and> nat kx < len
          \<and> free_queue (key_value_storage (rdma_key_value_cache w)) \<noteq> [])
     \<and> (DISK_ASYNC (wp_config P) \<or> operations_pollute_cache (wp_config P) \<or> (\<forall>b. db_get (wp_cache P) key b \<noteq> None))"

lemma can_serve_cong:
  assumes "can_serve P n len slots m kx key w" "rdma_key_value_cache w' = rdma_key_value_cache w" "snapshot_covers (worker_snapshot w') (nat kx)"
  shows "can_serve P n len slots m kx key w'"
  using assms by (simp add: can_serve_def)

lemma can_serve_updates:
  "can_serve P n len slots m kx key (w\<lparr>block_cache := b\<rparr>) = can_serve P n len slots m kx key w"
  "can_serve P n len slots m kx key (w\<lparr>local_disk_accesses := c\<rparr>) = can_serve P n len slots m kx key w"
  "can_serve P n len slots m kx key (w\<lparr>packets_handled := j, ops_executed := d\<rparr>) = can_serve P n len slots m kx key w"
  "can_serve P n len slots m kx key (reset_at_warmup P w) = can_serve P n len slots m kx key w"
  by (simp_all add: can_serve_def reset_at_warmup_def)

lemma fetch_from_disk_returns:
  assumes "can_serve P n len slots m kx key w"
  shows "\<exists>w'. fetch_from_disk P kx key i p True w = Inr w' \<and> snapshot_covers (worker_snapshot w') (nat kx)"
proof -
  have c: "reliable (wp_net P)" "snapshot_covers (worker_snapshot w) (nat kx)" "unat (of_int kx :: u64) = nat kx"
    "DISK_ASYNC (wp_config P) \<or> operations_pollute_cache (wp_config P) \<or> (\<forall>b. db_get (wp_cache P) key b \<noteq> None)"
    using assms by (simp_all add: can_serve_def unat_of_int_u64)
  obtain sn where "update_disk_access (of_int kx) (worker_snapshot w) = Inr sn" "snapshot_covers sn (nat kx)"
    using update_covers(4) [OF c(2,3)] by blast
  moreover have "DISK_ASYNC (wp_config P) \<or> operations_pollute_cache (wp_config P) \<or> db_get (wp_cache P) key (block_cache w) \<noteq> None"
    using c(4) by blast
  ultimately show ?thesis
    by (cases "db_get (wp_cache P) key (block_cache w)")
      (auto simp: fetch_from_disk_def Let_def issue_disk_read_def get_response_reliable [OF c(1)] split: prod.splits)
qed

lemma serve_remotely_returns:
  assumes "can_serve P n len slots m kx key w" "one_sided_rdma_enabled P"
  shows "\<exists>found w'. serve_remotely P kx key i p w = Inr (found, w') \<and> worker_snapshot w' = worker_snapshot w \<and> (\<not> found \<longrightarrow> w' = w)"
proof -
  let ?cx = "\<lparr>rx_remote_index = i, rx_remote_port = p, rx_expected_key = kx, rx_key = key\<rparr>" and ?kv = "rdma_key_value_cache w"
  have c: "ingest_block_index P" "use_cache_indexing P" "RDMA_ASYNC (wp_config P)" "kv_ok (wp_kv P) n len slots m ?kv"
    "unat (of_int kx :: u64) < len" "free_queue (key_value_storage ?kv) \<noteq> []"
    using assms by (simp_all add: can_serve_def unat_of_int_u64)
  from read_callback_cases [OF c(4,5), of ?cx] c(6)
  obtain found ps kv' where r: "read_callback (wp_kv P) (of_int kx) ?cx ?kv = Inr (found, ps, kv')" "\<not> found \<longrightarrow> kv' = ?kv"
    by (auto split: list.splits)
  have "serve_remotely P kx key i p w = Inr (found, w\<lparr>rdma_key_value_cache := kv'\<rparr>)"
    using c(1-3) r(1) by (simp add: serve_remotely_def)
  then show ?thesis using r(2) by (auto intro!: exI)
qed

lemma serve_hit_returns:
  assumes "can_serve P n len slots m kx key w"
  shows "\<exists>w'. serve_hit P kx key i p w = Inr w' \<and> snapshot_covers (worker_snapshot w') (nat kx)"
proof -
  have c: "reliable (wp_net P)" "snapshot_covers (worker_snapshot w) (nat kx)" "unat (of_int kx :: u64) = nat kx"
    using assms by (simp_all add: can_serve_def unat_of_int_u64)
  obtain sn where "update_cache_hits (of_int kx) (worker_snapshot w) = Inr sn" "snapshot_covers sn (nat kx)"
    using update_covers(2) [OF c(2,3)] by blast
  then show ?thesis by (auto simp: serve_hit_def get_response_reliable [OF c(1)] split: prod.splits)
qed

lemma serve_miss_returns:
  assumes "can_serve P n len slots m kx key w"
  shows "\<exists>w'. serve_miss P kx key i p w = Inr w' \<and> snapshot_covers (worker_snapshot w') (nat kx)"
proof -
  have k: "unat (of_int kx :: u64) = nat kx" using assms by (simp add: can_serve_def unat_of_int_u64)
  let ?w0 = "w\<lparr>block_cache := increment_cache_miss (wp_cache P) (block_cache w)\<rparr>"
  have c0: "snapshot_covers (worker_snapshot ?w0) (nat kx)" using assms by (simp add: can_serve_def)
  obtain sn where sn: "update_cache_miss (of_int kx) (worker_snapshot ?w0) = Inr sn" "snapshot_covers sn (nat kx)"
    using update_covers(3) [OF c0 k] by blast
  let ?w1 = "?w0\<lparr>worker_snapshot := sn\<rparr>"
  have c1: "can_serve P n len slots m kx key ?w1" by (rule can_serve_cong [OF assms]) (simp_all add: sn(2))
  obtain found w2 where r: "(if one_sided_rdma_enabled P then serve_remotely P kx key i p ?w1 else Inr (False, ?w1)) = Inr (found, w2)"
    "worker_snapshot w2 = sn" "\<not> found \<longrightarrow> w2 = ?w1"
  proof (cases "one_sided_rdma_enabled P")
    case True
    obtain found w2 where "serve_remotely P kx key i p ?w1 = Inr (found, w2)" "worker_snapshot w2 = worker_snapshot ?w1" "\<not> found \<longrightarrow> w2 = ?w1"
      using serve_remotely_returns [OF c1 True] by blast
    with True show thesis by (intro that) simp_all
  next
    case False
    show thesis by (rule that [of False ?w1]) (simp_all add: False)
  qed
  show ?thesis
  proof (cases found)
    case True
    have "serve_miss P kx key i p w = Inr w2"
      unfolding serve_miss_def Let_def sn(1) bindR_simps r(1) prod.case using True by simp
    then show ?thesis using r(2) sn(2) by simp
  next
    case False
    let ?w3 = "?w1\<lparr>local_disk_accesses := local_disk_accesses ?w1 + 1\<rparr>"
    obtain sn' where sn': "update_local_disk_access (of_int kx) (worker_snapshot ?w3) = Inr sn'" "snapshot_covers sn' (nat kx)"
      using update_covers(5) [OF _ k, of "worker_snapshot ?w3"] sn(2) by auto
    have "can_serve P n len slots m kx key (?w3\<lparr>worker_snapshot := sn'\<rparr>)" by (rule can_serve_cong [OF assms]) (simp_all add: sn'(2))
    moreover have "serve_miss P kx key i p w = fetch_from_disk P kx key i p True (?w3\<lparr>worker_snapshot := sn'\<rparr>)"
      unfolding serve_miss_def Let_def sn(1) bindR_simps r(1) prod.case using False sn'(1) r(3) by simp
    ultimately show ?thesis using fetch_from_disk_returns by metis
  qed
qed

lemma handle_get_returns:
  assumes "stoi (c_str key) = Inr kx" "can_serve P n len slots m kx (c_str key) w"
  shows "\<exists>w'. handle_get P i p key w = Inr w'"
proof -
  have k: "unat (of_int kx :: u64) = nat kx"
    using assms(2) by (simp add: can_serve_def unat_of_int_u64)
  let ?w1 = "(reset_at_warmup P w)\<lparr>packets_handled := packets_handled (reset_at_warmup P w) + 1, ops_executed := ops_executed (reset_at_warmup P w) + 1\<rparr>"
  let ?w2 = "?w1\<lparr>block_cache := update_frequency (wp_cache P) (c_str key) (block_cache ?w1)\<rparr>"
  have c: "can_serve P n len slots m kx (c_str key) ?w2" using assms(2) by (simp only: can_serve_updates)
  obtain w3 where w3: "(if exists_in_cache (wp_cache P) (c_str key) (block_cache ?w1) then serve_hit P kx (c_str key) i p ?w2
      else serve_miss P kx (c_str key) i p ?w2) = Inr w3" "snapshot_covers (worker_snapshot w3) (nat kx)"
    using serve_hit_returns [OF c, of i p] serve_miss_returns [OF c, of i p] by (cases "exists_in_cache (wp_cache P) (c_str key) (block_cache ?w1)") auto
  obtain sn where "update_total_access (of_int kx) (worker_snapshot w3) = Inr sn" using update_covers(1) [OF w3(2) k] by blast
  then have h: "handle_get P i p key w = Inr (w3\<lparr>worker_snapshot := sn\<rparr>)"
    using w3(1) unfolding handle_get_def Let_def assms(1) by (simp only: bindR_simps mapR_simps)
  then show ?thesis by blast
qed

text \<open>
  Property C6: a request for a key of the dataset that a server can serve is handled without
  fault, and in exactly one of two ways: one response is sent at once, over the flow of the
  requester, and nothing else is left to do, or nothing is sent and exactly one answer to the
  requester becomes due, from another server's memory or from disk.
\<close>

theorem handle_get_serves_once:
  assumes "stoi (c_str key) = Inr kx" "can_serve P n len slots m kx (c_str key) w"
  shows "\<exists>w'. handle_get P i p key w = Inr w' \<and> (answered i p w w' \<or> postponed i p w w')"
proof -
  obtain w' where h: "handle_get P i p key w = Inr w'" using handle_get_returns [OF assms] by blast
  moreover have "remote_mode P" using assms(2) by (simp add: can_serve_def remote_mode_def)
  ultimately show ?thesis using handle_get_serves [of P i p key w w'] unfolding served_def by blast
qed

section \<open>The callbacks serve the requester they captured\<close>

lemma forward_singleton_waiting:
  assumes "forward_singleton P key v w = Inr w'" shows "same_waiting w w'"
proof -
  obtain e b where "put_nchance (wp_cache P) key v (block_cache w) = (e, b)" by (metis surj_pair)
  then show ?thesis using assms
    by (auto simp: forward_singleton_def Let_def bindR_Inr_iff append_singleton_put_request_def same_waiting_def outstanding_def
        routes_def flow_to_def fun_eq_iff split: option.splits)
qed

lemma match_access_rate_waiting:
  assumes "match_access_rate P kx v w = Inr w'" shows "same_waiting w w'"
proof -
  obtain a b where "put_access_rate_match (wp_cache P) (to_string_nat (unat kx)) v (block_cache w) = (a, b)" by (metis surj_pair)
  then show ?thesis using assms
    by (auto simp: match_access_rate_def Let_def mapR_Inr_iff same_waiting_def outstanding_def routes_def flow_to_def fun_eq_iff
        split: if_splits)
qed

lemma append_response_postpones: "postponed i p w (append_to_rdma_get_response_queue i p OK v w)"
  by (simp add: postponed_def append_to_rdma_get_response_queue_def outstanding_def enqueue_def)

lemma kv_update_local_key_waiting:
  assumes "kv_update_local_key K e k (rdma_key_value_cache w) = Inr kvc"
  shows "same_waiting w (w\<lparr>rdma_key_value_cache := kvc\<rparr>)"
  using assms by (auto simp: kv_update_local_key_def mapR_Inr_iff same_waiting_def outstanding_def)

lemma rdma_callback_serves:
  assumes "rdma_callback P cx d w = Inr w'"
  shows "served (rx_remote_index cx) (rx_remote_port cx) w w'"
proof -
  let ?i = "rx_remote_index cx" and ?p = "rx_remote_port cx"
  let ?w1 = "w\<lparr>rdma_executed := rdma_executed w + 1\<rparr>"
  obtain v where v: "view_value (VALUE_SIZE (wp_config P)) (data_bytes P d) = Inr v"
    using assms unfolding rdma_callback_def Let_def bindR_Inr_iff by blast
  show ?thesis
  proof (cases "data_key_index P d = of_int (rx_expected_key cx)")
    case True
    then obtain w2 w3 where w2: "(if policy_type P = ''nchance'' then forward_singleton P (to_string_nat (unat (data_key_index P d))) v ?w1 else Inr ?w1) = Inr w2"
      and w3: "(if policy_type P = ''access_rate'' \<or> policy_type P = ''access_rate_dynamic'' then match_access_rate P (data_key_index P d) v w2 else Inr w2) = Inr w3"
      and w': "w' = append_to_rdma_get_response_queue ?i ?p OK v w3"
      using assms unfolding rdma_callback_def Let_def v bindR_simps by (simp only: if_True) (auto simp: bindR_Inr_iff)
    have "same_waiting ?w1 w2" using w2 forward_singleton_waiting by (auto split: if_splits)
    moreover have "same_waiting w2 w3" using w3 match_access_rate_waiting by (auto split: if_splits)
    ultimately have "same_waiting w w3" by (metis same_waiting_trans same_waiting_updates(5))
    moreover have "served ?i ?p w3 w'" unfolding w' using append_response_postpones [of ?i ?p w3 v] by (simp add: served_def)
    ultimately show ?thesis by (rule served_cong)
  next
    case False
    let ?w2 = "?w1\<lparr>remote_disk_accesses := remote_disk_accesses ?w1 + 1\<rparr>"
    obtain sn kvc where k: "kv_update_local_key (wp_kv P) (of_int (rx_expected_key cx)) (data_key_index P d) (rdma_key_value_cache ?w2) = Inr kvc"
      and f: "fetch_from_disk P (rx_expected_key cx) (rx_key cx) ?i ?p False (?w2\<lparr>worker_snapshot := sn, rdma_key_value_cache := kvc\<rparr>) = Inr w'"
      using assms False unfolding rdma_callback_def Let_def v bindR_simps by (simp only: if_False) (auto simp: bindR_Inr_iff)
    have "same_waiting (?w2\<lparr>worker_snapshot := sn\<rparr>) (?w2\<lparr>worker_snapshot := sn, rdma_key_value_cache := kvc\<rparr>)"
      using kv_update_local_key_waiting [of "wp_kv P" _ _ "?w2\<lparr>worker_snapshot := sn\<rparr>"] k by simp
    moreover have "same_waiting w (?w2\<lparr>worker_snapshot := sn\<rparr>)"
      by (rule same_waiting_trans [OF same_waiting_updates(5) same_waiting_trans [OF same_waiting_updates(7,1)]])
    ultimately have "same_waiting w (?w2\<lparr>worker_snapshot := sn, rdma_key_value_cache := kvc\<rparr>)" by (rule same_waiting_trans [rotated])
    then show ?thesis by (rule served_cong [OF _ fetch_from_disk_serves [OF f]])
  qed
qed

section \<open>The account of a run\<close>

definition is_get_response :: "flow \<times> packet list \<Rightarrow> bool" where
  "is_get_response m = (case snd m of [GetResponse _ _] \<Rightarrow> True | _ \<Rightarrow> False)"

definition answers :: "'a connection_scheme \<Rightarrow> nat" where
  "answers c = length (filter is_get_response (sent c))"

definition account :: "('b, 'e, 'd, 'z) worker_scheme \<Rightarrow> nat" where
  "account w = answers w + size (outstanding w)"

lemma account_served: "served i p w w' \<Longrightarrow> account w' = account w + 1"
  by (auto simp: served_def answered_def postponed_def account_def answers_def is_get_response_def)

lemma account_same: "same_waiting w w' \<Longrightarrow> account w' = account w"
  by (simp add: same_waiting_def account_def answers_def)

text \<open>
  The flows that answers went over, and with them the flows of the answers still due. A step settles
  the requests of a multiset of machines and ports if the due flows grow by exactly theirs, and
  nobody else becomes a waiting requester.
\<close>

definition answer_flows :: "'a connection_scheme \<Rightarrow> flow multiset" where
  "answer_flows c = mset (map fst (filter is_get_response (sent c)))"

definition due :: "('b, 'e, 'd, 'z) worker_scheme \<Rightarrow> flow multiset" where
  "due w = answer_flows w + image_mset (flow_to w) (outstanding w)"

definition settles :: "(int \<times> int) multiset \<Rightarrow> ('b, 'e, 'd, 'z) worker_scheme \<Rightarrow> ('b, 'e, 'd, 'z) worker_scheme \<Rightarrow> bool" where
  "settles R w w' \<longleftrightarrow> routes w' = routes w \<and> due w' = due w + image_mset (flow_to w) R
     \<and> set_mset (outstanding w') \<subseteq> set_mset (outstanding w + R)"

lemma settles_served: "served i p w w' \<Longrightarrow> settles {#(i, p)#} w w'"
  by (auto simp: served_def answered_def postponed_def settles_def due_def answer_flows_def is_get_response_def dest: routes_flow_to)

lemma settles_same: "same_waiting w w' \<Longrightarrow> settles {#} w w'"
  by (auto simp: same_waiting_def settles_def due_def answer_flows_def dest: routes_flow_to)

lemma settles_refl [simp]: "settles {#} w w"
  by (simp add: settles_def)

lemma settles_trans: "settles R w w1 \<Longrightarrow> settles R' w1 w2 \<Longrightarrow> settles (R + R') w w2"
  by (auto simp: settles_def dest: routes_flow_to)

lemma settles_trans0: "settles {#} w w1 \<Longrightarrow> settles {#} w1 w2 \<Longrightarrow> settles {#} w w2"
  using settles_trans by fastforce

lemma settles_sent_to: "settles (if is_get_response (f, data) then {#(i, p)#} else {#}) w (sent_to i p data w)"
proof -
  have "is_get_response (flow_to w (i, p), data) = is_get_response (f, data)" by (simp add: is_get_response_def)
  moreover have "flow_to (sent_to i p data w) = flow_to w" by (simp add: fun_eq_iff)
  ultimately show ?thesis by (simp add: settles_def due_def answer_flows_def)
qed

text \<open>Collecting requests that wait: the due flows shrink by theirs, and grow again as they are settled.\<close>

lemma settles_collected:
  assumes "routes w0 = routes w" "sent w0 = sent w" "outstanding w = outstanding w0 + R" "settles R w0 w'"
  shows "settles {#} w w'"
  using assms routes_flow_to [OF assms(1)] by (simp add: settles_def due_def answer_flows_def)

lemma foldR_settles:
  assumes "foldR body xs w = Inr w'" and "\<And>x w w'. body x w = Inr w' \<Longrightarrow> settles (f x) w w'"
  shows "settles (sum_list (map f xs)) w w'"
  using assms(1)
proof (induction xs arbitrary: w)
  case (Cons x xs)
  then obtain w1 where "body x w = Inr w1" "foldR body xs w1 = Inr w'" by (auto simp: bindR_Inr_iff)
  then show ?case using settles_trans [OF assms(2) Cons.IH] by simp
qed simp

lemma drain_settles:
  assumes "drainR pick body q w = Inr w'" and "\<And>x w w'. body x w = Inr w' \<Longrightarrow> settles {#g x#} w w'"
  shows "settles (mset (map g q)) w w'"
proof -
  have "sum_list (map (\<lambda>x. {#g x#}) xs) = image_mset g (mset xs)" for xs by (induction xs) simp_all
  with foldR_settles [OF assms(1) [unfolded drainR_eq_foldR], of "\<lambda>x. {#g x#}"] assms(2)
  show ?thesis by (simp add: mset_drain_order)
qed

lemma drain_settles_none:
  assumes "drainR pick body q w = Inr w'" and "\<And>x w w'. body x w = Inr w' \<Longrightarrow> settles {#} w w'"
  shows "settles {#} w w'"
  using foldR_settles [OF assms(1) [unfolded drainR_eq_foldR], of "\<lambda>_. {#}"] assms(2) by (simp add: sum_list_0)

lemma disk_completion_settles:
  assumes "disk_completion P j v w = Inr w'" shows "settles {#} w w'"
proof (cases "try_dequeue (\<lambda>_. j) (pending_disk w)")
  case None
  then show ?thesis using assms by (simp add: disk_completion_def)
next
  case (Some dq)
  obtain dk q where dq: "dq = (dk, q)" by (cases dq)
  have m: "mset (pending_disk w) = add_mset dk (mset q)" by (rule try_dequeue_mset [OF Some [unfolded dq]])
  obtain b where "w' = append_to_rdma_block_cache_request_queue (dk_index dk) (dk_port dk) OK (dk_key dk) v (w\<lparr>pending_disk := q, block_cache := b\<rparr>)
      \<or> w' = append_to_rdma_block_cache_request_queue (dk_index dk) (dk_port dk) OK (dk_key dk) v (w\<lparr>pending_disk := q\<rparr>)"
    using assms Some dq by (auto simp: disk_completion_def complete_disk_def Let_def bindR_Inr_iff split: if_splits)
  then show ?thesis
  proof (intro settles_same, unfold same_waiting_def, intro conjI)
  qed (use m in \<open>auto simp: outstanding_def append_to_rdma_block_cache_request_queue_def enqueue_def routes_def flow_to_def fun_eq_iff\<close>)
qed

lemma run_settles:
  "run_get_response net r w = Inr w' \<Longrightarrow> settles {#(gr_index r, gr_port r)#} w w'"
  "run_block_cache_request net b w = Inr w' \<Longrightarrow> settles {#(bc_index b, bc_port b)#} w w'"
  "run_singleton_put net sp w = Inr w' \<Longrightarrow> settles {#} w w'"
  "run_delete net dr w = Inr w' \<Longrightarrow> settles {#} w w'"
  using settles_sent_to [of no_flow "[GetResponse OK (gr_value r)]" "gr_index r" "gr_port r" w]
    settles_sent_to [of no_flow "[GetResponse OK (bc_value b)]" "bc_index b" "bc_port b" w]
    settles_sent_to [of no_flow "[SingletonPutRequest (sp_key sp) (sp_value sp) (sp_singleton sp) (sp_forward_count sp)]" "sp_index sp" "sp_port sp" w]
    settles_sent_to [of no_flow "[DeleteRequest (dr_key dr)]" "dr_index dr" "dr_port dr" w]
  by (auto simp: run_get_response_def run_block_cache_request_def run_singleton_put_def run_delete_def get_response_def
      singleton_put_request_def delete_request_def is_get_response_def dest!: send_returns split: if_splits)

lemma execute_pending_settles:
  assumes "execute_pending_operations net pick w = Inr w'" shows "settles {#} w w'"
proof -
  let ?d = "\<lambda>q. pick (length q)"
  obtain w1 w2 w3 where
    1: "drainR ?d (run_get_response net) (rdma_get_response_queue w) (w\<lparr>rdma_get_response_queue := []\<rparr>) = Inr w1" and
    2: "(if block_db_async w1 then drainR ?d (run_block_cache_request net) (block_cache_request_queue w1) (w1\<lparr>block_cache_request_queue := []\<rparr>)
       else Inr w1) = Inr w2" and
    3: "drainR ?d (run_singleton_put net) (singleton_put_request_queue w2) (w2\<lparr>singleton_put_request_queue := []\<rparr>) = Inr w3" and
    4: "drainR ?d (run_delete net) (delete_request_queue w3) (w3\<lparr>delete_request_queue := []\<rparr>) = Inr w'"
    using assms unfolding execute_pending_operations_def bindR_Inr_iff by blast
  have "settles {#} w w1"
    by (rule settles_collected [OF _ _ _ drain_settles [OF 1 run_settles(1)]]) (simp_all add: outstanding_def)
  moreover have "settles {#} w1 w2"
  proof (cases "block_db_async w1")
    case True
    then have "drainR ?d (run_block_cache_request net) (block_cache_request_queue w1) (w1\<lparr>block_cache_request_queue := []\<rparr>) = Inr w2"
      using 2 by simp
    then show ?thesis
      by (intro settles_collected [OF _ _ _ drain_settles [OF _ run_settles(2)]]) (simp_all add: outstanding_def)
  qed (use 2 in simp)
  moreover have "settles {#} w2 w3"
    by (rule settles_collected [OF _ _ _ drain_settles_none [OF 3 run_settles(3)]]) (simp_all add: outstanding_def)
  moreover have "settles {#} w3 w'"
    by (rule settles_collected [OF _ _ _ drain_settles_none [OF 4 run_settles(4)]]) (simp_all add: outstanding_def)
  ultimately show ?thesis by (blast intro: settles_trans0)
qed

section \<open>The pending remote reads\<close>

lemma fetch_from_disk_storage:
  assumes "fetch_from_disk P kx key i p add_to_cache w = Inr w'"
  shows "rdma_key_value_cache w' = rdma_key_value_cache w"
proof -
  obtain v b where g: "block_cache_get (wp_cache P) key (block_cache w) = (v, b)" by (metis surj_pair)
  obtain sn where sn: "update_disk_access (of_int kx) (worker_snapshot w) = Inr sn"
    using assms unfolding fetch_from_disk_def Let_def bindR_Inr_iff by blast
  have 1: "rdma_key_value_cache c' = rdma_key_value_cache c" if "get_response (wp_net P) i p OK u c = Inr c'"
    for u and c c' :: "('a, 'b, 'c, 'd) worker_scheme"
    using that send_returns unfolding get_response_def by fastforce
  show ?thesis
    using assms g by (cases "DISK_ASYNC (wp_config P)"; cases "operations_pollute_cache (wp_config P) \<and> add_to_cache";
        cases "db_get (wp_cache P) key (block_cache w)") (auto simp: fetch_from_disk_def Let_def sn issue_disk_read_def dest!: 1)
qed

lemma rdma_callback_storage:
  assumes "rdma_callback P cx d w = Inr w'"
  shows "key_value_storage (rdma_key_value_cache w') = key_value_storage (rdma_key_value_cache w)"
proof -
  have 1: "rdma_key_value_cache w2 = rdma_key_value_cache w1" if "forward_singleton P key v w1 = Inr w2" for key v w1 w2
  proof -
    obtain e b where "put_nchance (wp_cache P) key v (block_cache w1) = (e, b)" by (metis surj_pair)
    then show ?thesis using that
      by (auto simp: forward_singleton_def Let_def bindR_Inr_iff append_singleton_put_request_def split: option.splits)
  qed
  have 2: "rdma_key_value_cache w2 = rdma_key_value_cache w1" if "match_access_rate P k v w1 = Inr w2" for k v w1 w2
  proof -
    obtain a b where "put_access_rate_match (wp_cache P) (to_string_nat (unat k)) v (block_cache w1) = (a, b)" by (metis surj_pair)
    then show ?thesis using that by (auto simp: match_access_rate_def Let_def mapR_Inr_iff split: if_splits)
  qed
  have 3: "key_value_storage kv' = key_value_storage kv" if "kv_update_local_key K e k kv = Inr kv'" for K e k kv and kv' :: "('b, 'c, rdma_context) kv_cache"
    using that by (auto simp: kv_update_local_key_def mapR_Inr_iff)
  show ?thesis
  proof (cases "data_key_index P d = of_int (rx_expected_key cx)")
    case True
    then show ?thesis using assms
      by (auto simp: rdma_callback_def Let_def bindR_Inr_iff append_to_rdma_get_response_queue_def simp del: One_nat_def
        split: if_splits dest!: 1 2)
  next
    case False
    then show ?thesis using assms
      by (auto simp: rdma_callback_def Let_def bindR_Inr_iff dest!: fetch_from_disk_storage 3)
  qed
qed

text \<open>The machine and port that a pending remote read is for, if it has a callback.\<close>

definition waiting_for :: "('d, rdma_context) slot \<Rightarrow> (int \<times> int) multiset" where
  "waiting_for s = (case slot_callback s of None \<Rightarrow> {#} | Some cx \<Rightarrow> {#(rx_remote_index cx, rx_remote_port cx)#})"

lemma waiting_for_arrived: "waiting_for (arrived arrive s) = waiting_for s"
  by (simp add: waiting_for_def)

lemma complete_read_settles:
  assumes "complete_read (\<lambda>_. Inr) (rdma_callback P) s w = Inr w'"
  shows "settles (waiting_for s) w w'"
  using assms by (auto simp: complete_read_def waiting_for_def intro!: settles_served dest!: rdma_callback_serves split: option.splits)

lemma complete_reads_storage:
  assumes "foldR (complete_read (\<lambda>_. Inr) (rdma_callback P)) order w = Inr w'"
  shows "key_value_storage (rdma_key_value_cache w') = key_value_storage (rdma_key_value_cache w)"
  using assms by (induction order arbitrary: w)
    (auto simp: bindR_Inr_iff complete_read_def dest: rdma_callback_storage split: option.splits)

lemma waiting_contexts:
  "mset (map (\<lambda>cx. (rx_remote_index cx, rx_remote_port cx)) (contexts q)) = sum_list (map waiting_for q)"
  by (induction q) (auto simp: contexts_def waiting_for_def split: option.splits)

lemma execute_pending_rdma_settles:
  assumes "execute_pending_rdma P arrive w = Inr w'" shows "settles {#} w w'"
proof -
  let ?kv = "rdma_key_value_cache w" let ?q = "key_value_storage ?kv"
  obtain cl ci q w1 where r: "queue_execute_pending (pick_slot (wp_kv P)) arrive (\<lambda>_. Inr) (rdma_callback P)
      (?q, w\<lparr>rdma_key_value_cache := ?kv\<lparr>cache_index_logs := cl, cache_indexes := ci, key_value_storage := ?q\<lparr>pending_read_queue := []\<rparr>\<rparr>\<rparr>) = Inr (q, w1)"
    and w': "w' = storage_pending_done q w1"
    using assms unfolding execute_pending_rdma_def Let_def by (auto simp: bindR_Inr_iff)
  define w0 where "w0 = w\<lparr>rdma_key_value_cache := ?kv\<lparr>cache_index_logs := cl, cache_indexes := ci, key_value_storage := ?q\<lparr>pending_read_queue := []\<rparr>\<rparr>\<rparr>"
  obtain order q' where o: "mset order = mset (pending_read_queue ?q)" "pending_read_queue q' = []"
    "queue_execute_pending (pick_slot (wp_kv P)) arrive (\<lambda>_. Inr) (rdma_callback P) (?q, w0)
      = mapR (\<lambda>st. (q', st)) (foldR (complete_read (\<lambda>_. Inr) (rdma_callback P)) (map (arrived arrive) order) w0)"
    using queue_execute_pending_eq [of ?q "pick_slot (wp_kv P)" arrive "\<lambda>_. Inr" "rdma_callback P" w0] by (elim exE conjE)
  have f: "foldR (complete_read (\<lambda>_. Inr) (rdma_callback P)) (map (arrived arrive) order) w0 = Inr w1" and q: "q = q'"
    using r o(3) by (auto simp: w0_def [symmetric] mapR_Inr_iff)
  have "sum_list (map waiting_for (map (arrived arrive) order)) = sum_list (map waiting_for (pending_read_queue ?q))"
    using sum_list_mset_eq [of "map waiting_for order" "map waiting_for (pending_read_queue ?q)"] o(1)
    by (simp add: waiting_for_arrived comp_def)
  then have "settles (mset (map (\<lambda>cx. (rx_remote_index cx, rx_remote_port cx)) (contexts (pending_read_queue ?q)))) w0 w1"
    using foldR_settles [where f = waiting_for, OF f complete_read_settles] unfolding waiting_contexts by simp
  then have "settles {#} w w1"
    by (rule settles_collected [rotated 3]) (simp_all add: w0_def outstanding_def contexts_def)
  moreover have "settles {#} w1 w'"
    using complete_reads_storage [OF f] o(2)
    by (intro settles_same) (simp add: same_waiting_def w' q storage_pending_done_def outstanding_def w0_def contexts_def)
  ultimately show ?thesis by (rule settles_trans0)
qed

section \<open>Runs of a server\<close>

definition is_get_request :: "packet \<Rightarrow> bool" where
  "is_get_request m = (case m of GetRequest _ \<Rightarrow> True | _ \<Rightarrow> False)"

definition get_requests :: "packet list \<Rightarrow> nat" where
  "get_requests ms = length (filter is_get_request ms)"

text \<open>
  What a server does, one step at a time, with what the step receives: messages, each with its flow
  and its packets. \<open>requests\<close> are the reads among them, each as the flow back to its sender.
\<close>

type_synonym receipt = "flow \<times> packet list"

definition requests :: "receipt list \<Rightarrow> flow multiset" where
  "requests rs = sum_list (map (\<lambda>(rx, ms). replicate_mset (get_requests ms) (reply_flow rx)) rs)"

lemma requests_simps [simp]:
  "requests [] = {#}" "requests (rs @ rs') = requests rs + requests rs'"
  "requests [(rx, ms)] = replicate_mset (get_requests ms) (reply_flow rx)"
  by (simp_all add: requests_def)

inductive worker_step ::
    "('b, 'e, 'd) worker_params \<Rightarrow> ('b, 'e, 'd) worker \<Rightarrow> receipt list \<Rightarrow> ('b, 'e, 'd) worker \<Rightarrow> bool"
  for P where
  Receive: "receive (worker_handler P) (Recv rx packets) (w, ()) = Inr (r, w', ()) \<Longrightarrow> worker_step P w [(rx, packets)] w'"
| Pending: "execute_pending_operations (wp_net P) (wp_pick P) w = Inr w' \<Longrightarrow> worker_step P w [] w'"
| Remote_reads: "execute_pending_rdma P arrive w = Inr w' \<Longrightarrow> worker_step P w [] w'"
| Disk_read: "disk_completion P j v w = Inr w' \<Longrightarrow> worker_step P w [] w'"
| Cache_event: "run_cache_event (wp_kv P) ev (rdma_key_value_cache w, worker_snapshot w) = Inr (kv, sn)
    \<Longrightarrow> worker_step P w [] (w\<lparr>rdma_key_value_cache := kv, worker_snapshot := sn\<rparr>)"

inductive worker_run ::
    "('b, 'e, 'd) worker_params \<Rightarrow> ('b, 'e, 'd) worker \<Rightarrow> receipt list \<Rightarrow> ('b, 'e, 'd) worker \<Rightarrow> bool"
  for P where
  Idle: "worker_run P w [] w"
| Then_step: "worker_run P w rs w1 \<Longrightarrow> worker_step P w1 rs' w2 \<Longrightarrow> worker_run P w (rs @ rs') w2"

text \<open>The machine (by its index, 0 if its address is unknown) and port that a message comes from.\<close>

definition requester :: "'a connection_scheme \<Rightarrow> flow \<Rightarrow> int \<times> int" where
  "requester w rx = (map_at (dst_ip_to_machine_index w) (src_ip rx) 0, src_port rx)"

lemma requester_routes: "routes w' = routes w \<Longrightarrow> requester w' = requester w"
  by (simp add: routes_def requester_def fun_eq_iff)

text \<open>\<open>F\<close> gives the flow of every requester that is owed an answer.\<close>

definition owed_over :: "(int \<times> int \<Rightarrow> flow) \<Rightarrow> ('b, 'e, 'd, 'z) worker_scheme \<Rightarrow> bool" where
  "owed_over F w \<longleftrightarrow> (\<forall>r. r \<in># outstanding w \<longrightarrow> flow_to w r = F r)"

lemma worker_handler_settles:
  assumes "worker_handler P i p tx m (w, ()) = Inr (w', ())" "remote_mode P"
  shows "settles (replicate_mset (get_requests [m]) (i, p)) w w'"
proof (cases m)
  case (GetRequest key)
  then show ?thesis using assms
    by (auto simp: worker_handler_def mapR_Inr_iff get_requests_def is_get_request_def intro!: settles_served [OF handle_get_serves])
next
  case (PutRequest key v)
  let ?w1 = "w\<lparr>block_cache := update_frequency (wp_cache P) (c_str key) (block_cache_put (wp_cache P) (c_str key) (c_str v) (block_cache w))\<rparr>"
  obtain port where "w' = sent_to i port [PutResponse OK] ?w1" using PutRequest assms(1)
    by (auto simp: worker_handler_def mapR_Inr_iff handle_put_def put_response_default_def put_response_def bindR_Inr_iff dest!: send_returns)
  then have "settles {#} ?w1 w'" using settles_sent_to [of no_flow "[PutResponse OK]" i port ?w1] by (simp add: is_get_response_def)
  moreover have "settles {#} w ?w1" by (rule settles_same [OF same_waiting_updates(2)])
  ultimately show ?thesis using settles_trans0 by (auto simp: PutRequest get_requests_def is_get_request_def)
qed (use assms(1) in \<open>auto simp: worker_handler_def handle_rdma_setup_def handle_singleton_put_def handle_delete_def Let_def bindR_Inr_iff mapR_Inr_iff get_requests_def is_get_request_def
      rdma_setup_response_def intro!: settles_same [OF same_waiting_updates(2)]\<close>)

lemma note_sender_routes:
  assumes "reply_flow rx = F (requester w rx)" "owed_over F w"
  shows "fst (note_sender rx w) = fst (requester w rx)" "requester (snd (note_sender rx w)) = requester w"
    "owed_over F (snd (note_sender rx w))" "due (snd (note_sender rx w)) = due w"
    "flow_to (snd (note_sender rx w)) (requester w rx) = reply_flow rx"
    "outstanding (snd (note_sender rx w)) = outstanding w"
proof -
  let ?w = "snd (note_sender rx w)"
  show 1: "fst (note_sender rx w) = fst (requester w rx)" "requester ?w = requester w"
    by (auto simp: note_sender_def Let_def requester_def fun_eq_iff map_at_def map_touch_def)
  have f: "flow_to ?w = (flow_to w)(requester w rx := reply_flow rx)"
    by (auto simp: note_sender_def Let_def requester_def flow_to_def map_at_def fun_eq_iff)
  show 2: "outstanding ?w = outstanding w" by (simp add: note_sender_def Let_def outstanding_def)
  show "flow_to ?w (requester w rx) = reply_flow rx" by (simp add: f)
  have e: "flow_to ?w r = flow_to w r" if "r \<in># outstanding w" for r
  proof (cases "r = requester w rx")
    case True
    then show ?thesis using that assms by (simp add: f owed_over_def del: split_paired_All)
  qed (simp add: f)
  then show "owed_over F ?w" using assms(2) by (simp add: owed_over_def 2)
  have "image_mset (flow_to ?w) (outstanding w) = image_mset (flow_to w) (outstanding w)"
    by (rule image_mset_cong) (rule e)
  then show "due ?w = due w" by (simp add: due_def 2 answer_flows_def)
qed

lemma owed_over_settles:
  assumes "owed_over F w" "settles R w w'" "\<And>r. r \<in># R \<Longrightarrow> flow_to w r = F r"
  shows "owed_over F w'"
  using assms by (auto simp: owed_over_def settles_def dest!: routes_flow_to)

lemma receive_accounts:
  assumes "receive (worker_handler P) (Recv rx packets) (w, ()) = Inr (r, w', ())" "remote_mode P"
    and "reply_flow rx = F (requester w rx)" "owed_over F w"
  shows "due w' = due w + replicate_mset (get_requests packets) (reply_flow rx) \<and> owed_over F w' \<and> requester w' = requester w"
proof -
  let ?body = "\<lambda>data (c, l). let (i, c) = note_sender rx c in worker_handler P i (src_port rx) (reply_flow rx) data (c, l)"
  have "foldR ?body packets (w, ()) = Inr (w', ())" using assms(1) by (auto simp: receive_def bindR_Inr_iff)
  then show ?thesis using assms(3,4)
  proof (induction packets arbitrary: w)
    case (Cons m ms)
    obtain w1 where w1: "?body m (w, ()) = Inr (w1, ())" "foldR ?body ms (w1, ()) = Inr (w', ())"
      using Cons.prems(1) by (auto simp: bindR_Inr_iff)
    let ?w0 = "snd (note_sender rx w)"
    note n = note_sender_routes [where F = F, OF Cons.prems(2,3)]
    have "worker_handler P (fst (note_sender rx w)) (src_port rx) (reply_flow rx) m (?w0, ()) = Inr (w1, ())"
      using w1(1) by (simp add: case_prod_unfold Let_def)
    from worker_handler_settles [OF this assms(2)]
    have h: "settles (replicate_mset (get_requests [m]) (requester w rx)) ?w0 w1" by (simp add: n(1) requester_def)
    have d: "due w1 = due w + replicate_mset (get_requests [m]) (reply_flow rx)" and q: "requester w1 = requester w"
      using h n requester_routes [of w1 ?w0] by (simp_all add: settles_def image_replicate_mset)
    have o: "owed_over F w1"
      by (rule owed_over_settles [OF n(3) h]) (use n(5) Cons.prems(2) in \<open>auto split: if_splits\<close>)
    have "get_requests (m # ms) = get_requests [m] + get_requests ms" by (simp add: get_requests_def)
    then show ?case using Cons.IH [OF w1(2)] Cons.prems(2) o by (simp add: d q repeat_mset_def flip: mset_replicate) (simp add: replicate_add)
  qed (simp add: get_requests_def)
qed

lemma cache_event_settles:
  assumes "run_cache_event (wp_kv P) ev (rdma_key_value_cache w, worker_snapshot w) = Inr (kv, sn)"
  shows "settles {#} w (w\<lparr>rdma_key_value_cache := kv, worker_snapshot := sn\<rparr>)"
  by (rule settles_same) (simp add: same_waiting_def outstanding_def routes_def flow_to_def fun_eq_iff run_cache_event_storage [OF assms])

lemma worker_step_accounts:
  assumes "worker_step P w rs w'" "remote_mode P" "\<forall>(rx, ms) \<in> set rs. reply_flow rx = F (requester w rx)" "owed_over F w"
  shows "due w' = due w + requests rs \<and> owed_over F w' \<and> requester w' = requester w"
proof -
  have 1: "due w' = due w \<and> owed_over F w' \<and> requester w' = requester w" if "settles {#} w w'"
    using that owed_over_settles [OF assms(4) that] requester_routes by (auto simp: settles_def)
  show ?thesis using assms(1)
  proof cases
    case (Receive rx packets r)
    then show ?thesis using receive_accounts [OF Receive(2) assms(2) _ assms(4)] assms(3) by simp
  next
    case (Cache_event ev kv sn)
    then have "settles {#} w w'" using cache_event_settles by simp
    from 1 [OF this] show ?thesis by (simp add: Cache_event(1))
  qed (auto dest!: execute_pending_settles execute_pending_rdma_settles disk_completion_settles intro!: 1 [simplified])
qed

lemma worker_run_accounts:
  assumes "worker_run P w rs w'" "remote_mode P" "\<forall>(rx, ms) \<in> set rs. reply_flow rx = F (requester w rx)" "owed_over F w"
  shows "due w' = due w + requests rs \<and> owed_over F w' \<and> requester w' = requester w"
  using assms(1,3,4)
proof induction
  case (Then_step w rs w1 rs' w2)
  then show ?case using worker_step_accounts [OF Then_step(2) assms(2), of F] by auto
qed simp

text \<open>
  Property C5: on a server with asynchronous remote reads and cache indexing, every read of a run is
  accounted for, flow by flow, whatever the order of messages, queue work, remote reads, disk
  reads and callbacks of the cache: the flows that answers were sent over, with the flows of the requesters that still wait,
  grow by exactly the flows back to the senders of the reads received. So no sender gets more answers
  than it sent reads, and when nobody waits each has got exactly that many. Assumed is that the
  messages of one machine and port always come over one flow (\<open>F\<close>), which is also the one recorded
  for those that already wait; a message of an unknown address counts as one of machine 0.
\<close>

theorem every_read_accounted:
  assumes "worker_run P w rs w'" "remote_mode P"
    and "\<forall>(rx, ms) \<in> set rs. reply_flow rx = F (requester w rx)" "\<forall>r. r \<in># outstanding w \<longrightarrow> flow_to w r = F r"
  shows "answer_flows w' + image_mset F (outstanding w') = answer_flows w + image_mset F (outstanding w) + requests rs"
proof -
  have *: "due v = answer_flows v + image_mset F (outstanding v)" if "owed_over F v" for v :: "('a, 'b, 'c) worker"
    unfolding due_def by (subst image_mset_cong [of _ "flow_to v" F]) (use that in \<open>auto simp: owed_over_def simp del: split_paired_All\<close>)
  have o: "owed_over F w" using assms(4) unfolding owed_over_def .
  from worker_run_accounts [OF assms(1-3) o] have "due w' = due w + requests rs" "owed_over F w'" by blast+
  then show ?thesis by (simp only: * [OF o] * [of w'])
qed

section \<open>The thread is a run of these steps\<close>

text \<open>The messages among the outcomes of polls.\<close>

definition receipts :: "(recv_result \<times> bool) list \<Rightarrow> receipt list" where
  "receipts evs = concat (map (\<lambda>(r, _). case r of Recv rx ms \<Rightarrow> [(rx, ms)] | _ \<Rightarrow> []) evs)"

lemma receipts_simps [simp]:
  "receipts [] = []" "receipts ((Recv rx ms, g) # evs) = (rx, ms) # receipts evs"
  "receipts ((Recv_nothing, g) # evs) = receipts evs" "receipts ((Recv_error, g) # evs) = receipts evs"
  "receipts (evs @ evs') = receipts evs @ receipts evs'"
  by (simp_all add: receipts_def)

lemma worker_run_trans: "worker_run P w1 rs' w2 \<Longrightarrow> worker_run P w rs w1 \<Longrightarrow> worker_run P w (rs @ rs') w2"
  by (induction rule: worker_run.induct) (auto simp flip: append_assoc intro: worker_run.Then_step)

lemma worker_run_step: "worker_step P w rs w' \<Longrightarrow> worker_run P w rs w'"
  using worker_run.Then_step [OF worker_run.Idle] by fastforce

lemma worker_pending_Inr:
  "worker_pending P (w, u) = Inr st \<longleftrightarrow> (\<exists>w'. execute_pending_operations (wp_net P) (wp_pick P) w = Inr w' \<and> st = (w', ()))"
  by (auto simp: worker_pending_def mapR_Inr_iff)

text \<open>A round takes receptions up to one with a message or a stop; the others had neither.\<close>

lemma loop_runs:
  assumes "loop (worker_pending P) (worker_handler P) evs (w, ()) = Inr (evs', w', ())"
  shows "\<exists>pre e. evs = pre @ e # evs' \<and> \<not> (\<exists>x \<in> set pre. snd x) \<and> worker_run P w (receipts (pre @ [e])) w'"
  using assms
proof (induction evs arbitrary: w)
  case (Cons eg evs)
  obtain ev g where eg: "eg = (ev, g)" by (cases eg)
  obtain w1 got w2 where p: "execute_pending_operations (wp_net P) (wp_pick P) w = Inr w1"
    and r: "receive (worker_handler P) ev (w1, ()) = Inr (got, w2, ())"
    and l: "(if got \<or> g then Inr (evs, w2, ()) else loop (worker_pending P) (worker_handler P) evs (w2, ())) = Inr (evs', w', ())"
    using Cons.prems unfolding eg loop.simps bindR_Inr_iff worker_pending_Inr by (auto cong: if_cong)
  have 1: "worker_run P w (receipts [eg]) w2"
  proof (cases ev)
    case (Recv rx packets)
    then have "worker_step P w1 [(rx, packets)] w2" using r by (auto intro: worker_step.Receive)
    then show ?thesis
      using worker_run_trans [OF worker_run_step worker_run_step [OF worker_step.Pending [OF p]]] by (fastforce simp: eg Recv)
  next
    case Recv_nothing
    then have "w2 = w1" using r by (simp add: receive_def)
    then show ?thesis using worker_run_step [OF worker_step.Pending [OF p]] by (simp add: eg Recv_nothing)
  next
    case Recv_error
    then show ?thesis using r by (simp add: receive_def)
  qed
  show ?case
  proof (cases "got \<or> g")
    case True
    then show ?thesis using 1 l by (intro exI [of _ "[]"] exI [of _ eg]) auto
  next
    case False
    then obtain pre e where "evs = pre @ e # evs'" "\<not> (\<exists>x \<in> set pre. snd x)" "worker_run P w2 (receipts (pre @ [e])) w'"
      using l Cons.IH [of w2] by auto
    moreover from this(3) have "worker_run P w (receipts ((eg # pre) @ [e])) w'"
      using worker_run_trans [OF _ 1] receipts_simps(5) [of "[eg]" "pre @ [e]"] by simp
    moreover have "\<not> snd eg" using False by (simp add: eg)
    ultimately have "eg # evs = (eg # pre) @ e # evs' \<and> \<not> (\<exists>x \<in> set (eg # pre). snd x) \<and> worker_run P w (receipts ((eg # pre) @ [e])) w'"
      by simp
    then show ?thesis by blast
  qed
qed simp

text \<open>A run that takes the receptions up to the first at which the flag is set.\<close>

definition run_to_stop ::
    "('b, 'e, 'd) worker_params \<Rightarrow> (recv_result \<times> bool) list \<Rightarrow> ('b, 'e, 'd) worker \<Rightarrow> (recv_result \<times> bool) list \<Rightarrow> ('b, 'e, 'd) worker \<Rightarrow> bool" where
  "run_to_stop P evs w evs' w' \<longleftrightarrow>
     (\<exists>pre e. evs = pre @ e # evs' \<and> \<not> (\<exists>x \<in> set pre. snd x) \<and> snd e \<and> worker_run P w (receipts (pre @ [e])) w')"

lemma run_to_stop_append:
  assumes "\<not> (\<exists>x \<in> set pre. snd x)" "worker_run P w (receipts pre) w1" "run_to_stop P evs w1 evs' w'"
  shows "run_to_stop P (pre @ evs) w evs' w'"
proof -
  obtain pre' e where e: "evs = pre' @ e # evs'" "\<not> (\<exists>x \<in> set pre'. snd x)" "snd e" "worker_run P w1 (receipts (pre' @ [e])) w'"
    using assms(3) unfolding run_to_stop_def by blast
  have "worker_run P w (receipts ((pre @ pre') @ [e])) w'" using worker_run_trans [OF e(4) assms(2)] by simp
  moreover have "\<not> (\<exists>x \<in> set (pre @ pre'). snd x)" using assms(1) e(2) by (simp add: ball_Un)
  ultimately show ?thesis using e(1,3) unfolding run_to_stop_def by (intro exI [of _ "pre @ pre'"] exI [of _ e]) simp
qed

lemma server_worker_runs:
  "server_worker P stop evs w = Inr (evs', w') \<Longrightarrow> if stop then evs' = evs \<and> w' = w else run_to_stop P evs w evs' w'"
proof (induction P stop evs w rule: server_worker.induct)
  case (1 P stop evs w)
  show ?case
  proof (cases stop)
    case True
    then show ?thesis using "1.prems" by (simp add: server_worker.simps)
  next
    case False
    obtain evs1 w1 where l: "loop (worker_pending P) (worker_handler P) evs (w, ()) = Inr (evs1, w1, ())"
      and s: "server_worker P (stop_seen evs evs1) evs1 w1 = Inr (evs', w')"
      using "1.prems" False by (subst (asm) server_worker.simps) (auto split: sum.splits)
    obtain pre e where e: "evs = pre @ e # evs1" "\<not> (\<exists>x \<in> set pre. snd x)" "worker_run P w (receipts (pre @ [e])) w1"
      using loop_runs [OF l] by blast
    have st: "stop_seen evs evs1 = snd e" by (simp add: stop_seen_def e(1))
    note IH = "1.IH" [OF False l _ _ s, unfolded st, OF refl refl]
    show ?thesis
    proof (cases "snd e")
      case True
      with IH have "evs' = evs1" "w' = w1" by simp_all
      with e True have "run_to_stop P evs w evs' w'" unfolding run_to_stop_def by blast
      with False show ?thesis by simp
    next
      case no_stop: False
      with IH have "run_to_stop P evs1 w1 evs' w'" by simp
      moreover have "\<not> (\<exists>x \<in> set (pre @ [e]). snd x)" using e(2) no_stop by simp
      ultimately have "run_to_stop P ((pre @ [e]) @ evs1) w evs' w'" using run_to_stop_append e(3) by blast
      with False e(1) show ?thesis by simp
    qed
  qed
qed

text \<open>
  Property C7: the thread of a server that finds \<open>g_stop\<close> not set returns exactly after the first
  reception at which the flag is set; up to there it is a run of the step relation that takes the
  messages received until then, in order, and what comes later is left alone. (A prefix of a run
  that is not stopped is the run that is stopped at its end, so this is about every prefix.)
\<close>

theorem server_worker_refines_steps:
  assumes "server_worker P False evs w = Inr (evs', w')"
  shows "\<exists>pre e. evs = pre @ e # evs' \<and> \<not> (\<exists>x \<in> set pre. snd x) \<and> snd e \<and> worker_run P w (receipts (pre @ [e])) w'"
  using server_worker_runs [OF assms] by (simp only: run_to_stop_def if_False)

section \<open>Writes, and synchronous remote reads\<close>

text \<open>
  A write that a server receives puts the value into the block cache and counts the
  use of the key, but the confirmation goes to the machine's configured port: it takes the flow
  that is recorded for this port (the null flow if there is none), and the flow of the sender is
  used only if the sender happens to use that port.
\<close>

theorem put_confirmed_on_configured_port:
  assumes "reliable (wp_net P)" "map_at (dst_ip_to_machine_index w) (src_ip rx) 0 = i"
    and "0 \<le> i" "nat i < length (remote_machine_configs w)" "port = rm_port (remote_machine_configs w ! nat i)"
  shows "\<exists>w'. receive (worker_handler P) (Recv rx [PutRequest key value]) (w, ()) = Inr (True, w', ())
    \<and> sent w' = sent w @ [(if port = src_port rx then reply_flow rx else flow_to w (i, port), [PutResponse OK])]
    \<and> block_cache w' = update_frequency (wp_cache P) (c_str key) (block_cache_put (wp_cache P) (c_str key) (c_str value) (block_cache w))"
proof -
  obtain w1 where n: "note_sender rx w = (i, w1)" using assms(2) by (simp add: note_sender_def Let_def)
  then have w1: "sent w1 = sent w" "remote_machine_configs w1 = remote_machine_configs w" "block_cache w1 = block_cache w"
    "machine_index_to_connection w1 = (machine_index_to_connection w)((i, src_port rx) \<mapsto> reply_flow rx)"
    by (auto simp: note_sender_def Let_def)
  have r: "vec_at_int (remote_machine_configs w) i = Inr (remote_machine_configs w ! nat i)"
    using assms(3,4) by (intro vec_at_int_in) linarith+
  have "flow_to w1 (i, port) = (if port = src_port rx then reply_flow rx else flow_to w (i, port))"
    by (simp add: flow_to_def w1 map_at_def)
  then show ?thesis
    using assms(1,5) r w1 by (simp add: receive_one n worker_handler_def handle_put_def put_response_default_def put_response_def
        send_reliable flow_to_def sent_to_def)
qed


section \<open>Samples\<close>

definition sample_cache :: "(string \<rightharpoonup> string) block_cache_api" where
  "sample_cache = \<lparr>exists_in_cache = (\<lambda>k b. b k \<noteq> None), update_frequency = (\<lambda>_ b. b), block_cache_put = (\<lambda>k v b. b(k \<mapsto> v)),
     block_cache_get = (\<lambda>k b. (case b k of Some v \<Rightarrow> v | None \<Rightarrow> ''disk'', b)), increment_cache_miss = id, reset_cache_info = id,
     cache_freq_addition = id, db_get = (\<lambda>_ _. Some ''disk''), cache_put = (\<lambda>k v b. b(k \<mapsto> v)), put_nchance = (\<lambda>k v b. (None, b(k \<mapsto> v))),
     put_access_rate_match = (\<lambda>_ _ b. (False, b)), put_singleton = (\<lambda>k v _ _ b. b(k \<mapsto> v)), delete_key = (\<lambda>k b. b(k := None))\<rparr>"

definition sample_worker_params :: "bool \<Rightarrow> (string \<rightharpoonup> string, u64, u64) worker_params" where
  "sample_worker_params async = \<lparr>wp_net = sample_net, wp_cache = sample_cache, wp_kv = sample_params,
     wp_config = sample_config\<lparr>RDMA_ASYNC := async\<rparr>, policy_type = ''nchance'', one_sided_rdma_enabled = True,
     use_cache_indexing = True, ingest_block_index = True, key_min = 0, key_max = 6, data_key_index = id,
     data_bytes = (\<lambda>_. replicate 4 65), wp_pick = (\<lambda>_. 0), wp_elapsed_seconds = (\<lambda>_. 0)\<rparr>"

definition sample_worker :: "Snapshot \<Rightarrow> (string \<rightharpoonup> string, u64, u64) worker" where
  "sample_worker sn = server.extend sample_server
     \<lparr>block_cache = [''0'' \<mapsto> ''here''], rdma_key_value_cache = sample_kv mirrored_indexes, circular_buffers = Map.empty,
      rdma_regions = Map.empty, read_buffer = replicate 4 0, worker_snapshot = sn, pending_disk = [], packets_handled = 0,
      ops_executed = 0, rdma_executed = 0, disk_ops_executed = 0, remote_disk_accesses = 0, local_disk_accesses = 0\<rparr>"

lemma sample_worker_simps [simp]:
  "rdma_key_value_cache (sample_worker sn) = sample_kv mirrored_indexes" "worker_snapshot (sample_worker sn) = sn"
  "block_cache (sample_worker sn) = [''0'' \<mapsto> ''here'']" "read_buffer (sample_worker sn) = replicate 4 0"
  "remote_machine_configs (sample_worker sn) = sample_machines" "dst_ip_to_machine_index (sample_worker sn) = Map.empty"
  "sent (sample_worker sn) = []" "pending_disk (sample_worker sn) = []"
  by (simp_all add: sample_worker_def sample_connection_defs server.defs)

lemma sample_worker_params_simps [simp]:
  "wp_net (sample_worker_params a) = sample_net" "wp_cache (sample_worker_params a) = sample_cache" "wp_kv (sample_worker_params a) = sample_params"
  "wp_config (sample_worker_params a) = sample_config\<lparr>RDMA_ASYNC := a\<rparr>" "one_sided_rdma_enabled (sample_worker_params a)"
  "use_cache_indexing (sample_worker_params a)" "ingest_block_index (sample_worker_params a)" "wp_elapsed_seconds (sample_worker_params a) n = 0"
  by (simp_all add: sample_worker_params_def)

lemma sample_can_serve:
  "\<exists>sn. can_serve (sample_worker_params True) 2 4 1 0 1 ''1'' (sample_worker sn)"
proof -
  obtain sn where "make_Snapshot sample_config = Inr sn" "snapshot_ok sn" "length (sn_entries sn) = 6"
    using make_Snapshot_ok [of sample_config] by (auto simp: enabled_def sample_config_def snapshot_ok_def)
  moreover have "kv_ok (sample_params :: (u64, u64, rdma_context) kv_params) 2 4 1 0 (sample_kv mirrored_indexes)"
    by (rule sample_kv_ok [OF mirrored_indexes_ok(1)])
  ultimately have "can_serve (sample_worker_params True) 2 4 1 0 1 ''1'' (sample_worker sn)"
    by (simp add: can_serve_def sample_net_reliable snapshot_covers_def) (simp add: sample_config_def)
  then show ?thesis ..
qed

lemma c_str_sample [simp]: "c_str ''1'' = ''1''" "c_str ''0'' = ''0''" "stoi ''1'' = Inr 1"
  by code_simp+

theorem handle_get_serves_once_witness:
  "\<exists>sn w'. handle_get (sample_worker_params True) 0 7 ''1'' (sample_worker sn) = Inr w'
     \<and> (answered 0 7 (sample_worker sn) w' \<or> postponed 0 7 (sample_worker sn) w')"
proof -
  obtain sn where "can_serve (sample_worker_params True) 2 4 1 0 1 ''1'' (sample_worker sn)" using sample_can_serve by blast
  from handle_get_serves_once [of "''1''" 1, unfolded c_str_sample, OF refl this, of 0 7] show ?thesis by blast
qed

lemma sample_remote_mode: "remote_mode (sample_worker_params True)"
  by (simp add: remote_mode_def)

definition sample_rx :: flow where
  "sample_rx = no_flow\<lparr>src_ip := 3, src_port := 5\<rparr>"

theorem every_read_accounted_witness:
  "\<exists>sn w'. worker_run (sample_worker_params True) (sample_worker sn) [(sample_rx, [GetRequest ''1''])] w'
     \<and> answer_flows w' + image_mset ((\<lambda>_. no_flow)((0, 5) := reply_flow sample_rx)) (outstanding w')
        = {#no_flow, no_flow, no_flow\<lparr>dst_ip := 3, dst_port := 5\<rparr>#}"
proof -
  let ?P = "sample_worker_params True" and ?F = "(\<lambda>_. no_flow)((0, 5) := reply_flow sample_rx) :: int \<times> int \<Rightarrow> flow"
  obtain sn where c: "can_serve ?P 2 4 1 0 1 ''1'' (sample_worker sn)" using sample_can_serve by blast
  obtain i w1 where n: "note_sender sample_rx (sample_worker sn) = (i, w1)" by (metis surj_pair)
  have "rdma_key_value_cache w1 = rdma_key_value_cache (sample_worker sn)" "worker_snapshot w1 = worker_snapshot (sample_worker sn)"
    using n by (auto simp: note_sender_def Let_def)
  then have "can_serve ?P 2 4 1 0 1 (c_str ''1'') w1" using c unfolding c_str_sample by (simp add: can_serve_def)
  then obtain w' where "handle_get ?P i (src_port sample_rx) ''1'' w1 = Inr w'"
    using handle_get_returns [OF _ _] by (metis c_str_sample(1,3))
  then have "receive (worker_handler ?P) (Recv sample_rx [GetRequest ''1'']) (sample_worker sn, ()) = Inr (True, w', ())"
    by (simp add: receive_one n worker_handler_def)
  then have r: "worker_run ?P (sample_worker sn) [(sample_rx, [GetRequest ''1''])] w'" by (intro worker_run_step worker_step.Receive)
  have o: "outstanding (sample_worker sn) = {#(0, 7), (1, 9)#}" "answer_flows (sample_worker sn) = {#}"
    by (simp_all add: outstanding_def answer_flows_def contexts_def sample_kv_def sample_storage_def make_RDMADataWithQueue_def Let_def case_prod_unfold sample_worker_def sample_connection_defs server.defs add_mset_commute)
  have f: "\<forall>r. r \<in># outstanding (sample_worker sn) \<longrightarrow> flow_to (sample_worker sn) r = ?F r"
    unfolding o by (auto simp: flow_to_def map_at_def sample_worker_def sample_connection_defs server.defs)
  have q: "\<forall>(rx, ms) \<in> set [(sample_rx, [GetRequest ''1''])]. reply_flow rx = ?F (requester (sample_worker sn) rx)"
    by (simp add: requester_def map_at_def sample_rx_def)
  have "answer_flows w' + image_mset ?F (outstanding w') = {#} + image_mset ?F {#(0, 7), (1, 9)#} + requests [(sample_rx, [GetRequest ''1''])]"
    using every_read_accounted [OF r sample_remote_mode q f] unfolding o .
  also have "\<dots> = {#no_flow, no_flow, no_flow\<lparr>dst_ip := 3, dst_port := 5\<rparr>#}"
    by (simp add: get_requests_def is_get_request_def sample_rx_def reply_flow_def no_flow_def add_mset_commute)
  finally show ?thesis using r by blast
qed

definition sample_snapshot :: Snapshot where
  "sample_snapshot = \<lparr>sn_config = sample_config\<lparr>dump_snapshot_period_ms := 0\<rparr>, sn_entries = [], sn_index = 0\<rparr>"

theorem put_confirmed_on_configured_port_witness:
  "\<exists>w'. receive (worker_handler (sample_worker_params True)) (Recv (no_flow\<lparr>src_port := 150\<rparr>) [PutRequest ''2'' ''BBBB'']) (sample_worker sample_snapshot, ()) = Inr (True, w', ())
     \<and> sent w' = [(no_flow, [PutResponse OK])]"
proof -
  have p: "rm_port (remote_machine_configs (sample_worker sample_snapshot) ! nat 0) = 100" by (simp add: sample_machines_def)
  show ?thesis
    using put_confirmed_on_configured_port [of "sample_worker_params True" "sample_worker sample_snapshot" "no_flow\<lparr>src_port := 150\<rparr>" 0 100 "''2''" "''BBBB''"]
    by (auto simp: p sample_net_reliable flow_to_def map_at_def) (auto simp: sample_machines_def sample_worker_def sample_connection_defs server.defs)
qed

theorem server_worker_refines_steps_witness:
  "\<exists>w'. server_worker (sample_worker_params True) False
       [(Recv_nothing, False), (Recv no_flow [SingletonPutRequest ''2'' ''BBBB'' True 1], True), (Recv no_flow [GetRequest ''2''], True)]
       (sample_worker sample_snapshot) = Inr ([(Recv no_flow [GetRequest ''2''], True)], w')
     \<and> worker_run (sample_worker_params True) (sample_worker sample_snapshot) [(no_flow, [SingletonPutRequest ''2'' ''BBBB'' True 1])] w'"
proof -
  let ?P = "sample_worker_params True" and ?m = "SingletonPutRequest ''2'' ''BBBB'' True 1"
  let ?rest = "[(Recv no_flow [GetRequest ''2''], True)]"
  let ?evs = "(Recv_nothing, False) # (Recv no_flow [?m], True) # ?rest"
  have "queues_ok (sample_worker sample_snapshot)" by (simp add: queues_ok_def sample_worker_def sample_connection_defs server.defs)
  moreover have "block_db_async (sample_worker sample_snapshot)" by (simp add: sample_worker_def sample_connection_defs server.defs)
  ultimately obtain w1 where 1: "execute_pending_operations (wp_net ?P) (wp_pick ?P) (sample_worker sample_snapshot) = Inr w1"
    and q: "rdma_get_response_queue w1 = [] \<and> block_cache_request_queue w1 = [] \<and> singleton_put_request_queue w1 = [] \<and> delete_request_queue w1 = []"
    using drained_all [OF sample_net_reliable, of "sample_worker sample_snapshot" "wp_pick ?P"] by auto
  then obtain w1' where 2: "execute_pending_operations (wp_net ?P) (wp_pick ?P) w1 = Inr w1'"
    using drained_all [OF sample_net_reliable, of w1 "wp_pick ?P"] by (auto simp: queues_ok_def)
  obtain i w2 where n: "note_sender no_flow w1' = (i, w2)" by (metis surj_pair)
  let ?w' = "w2\<lparr>block_cache := put_singleton sample_cache (c_str ''2'') (c_str ''BBBB'') True 1 (block_cache w2)\<rparr>"
  have "loop (worker_pending ?P) (worker_handler ?P) ?evs (sample_worker sample_snapshot, ()) = Inr (?rest, ?w', ())"
    using 1 2 by (simp add: worker_pending_def receive_one n worker_handler_def handle_singleton_put_def receive_nothing)
  then have s: "server_worker ?P False ?evs (sample_worker sample_snapshot) = Inr (?rest, ?w')"
    by (simp add: server_worker.simps stop_seen_def)
  from server_worker_refines_steps [OF s]
  obtain pre e where e: "?evs = pre @ e # ?rest" "worker_run ?P (sample_worker sample_snapshot) (receipts (pre @ [e])) ?w'" by blast
  have "[(Recv_nothing, False), (Recv no_flow [?m], True)] @ ?rest = (pre @ [e]) @ ?rest" using e(1) by simp
  then have "pre @ [e] = [(Recv_nothing, False), (Recv no_flow [?m], True)]" by (simp only: append_same_eq)
  with e(2) have "worker_run ?P (sample_worker sample_snapshot) [(no_flow, [?m])] ?w'" by (simp only: receipts_simps)
  with s show ?thesis by blast
qed


end
