(* ===== verification/Access_Climb.thy ===== *)
theory Access_Climb
  imports Access_Rate
begin

text \<open>
  The alternative search for the split of the cache, \<open>get_best_access_rates\<close>
  (\<open>src/src/access_rate_calculations.cpp\<close>): starting from the current water marks it climbs in
  steps of a hundredth of a percent of the keys, and in steps of one percent when that does not
  help, and then configures the cache.

  Its loops have no bound in the code, so they are partial functions into \<open>option\<close>: \<open>None\<close> means
  that the loop does not end. The comparisons of performance values are made in \<open>float\<close>; the
  threshold that scales them is the constant 0. The flags of the first loop that nothing reads,
  the messages and the dump of the distribution by \<open>print_cdf\<close> are left out.
\<close>

section \<open>Comparing performance values\<close>

definition performance_delta_threshold :: rat where "performance_delta_threshold = 0"

definition improves :: "u64 \<Rightarrow> u64 \<Rightarrow> bool" where
  "improves new_performance best_performance \<longleftrightarrow>
     f32 (f32 (of_nat (unat best_performance)) * f32 (1 + performance_delta_threshold)) < f32 (of_nat (unat new_performance))"

definition worsens :: "u64 \<Rightarrow> u64 \<Rightarrow> bool" where
  "worsens new_performance best_performance \<longleftrightarrow>
     f32 (of_nat (unat new_performance)) < f32 (f32 (of_nat (unat best_performance)) * f32 (1 - performance_delta_threshold))"

section \<open>The loops\<close>

text \<open>A split is the triple of its performance, the local and the remote water mark.\<close>

type_synonym split = "u64 \<times> u64 \<times> u64"
type_synonym perf = "u64 \<Rightarrow> u64 \<Rightarrow> u64 res"

definition hundredth :: "nat \<Rightarrow> rat" where
  "hundredth i = f32 (f64 (f64 (1 / 100) * of_nat i))"

fun increase_loop :: "perf \<Rightarrow> u64 \<Rightarrow> u64 \<Rightarrow> nat list \<Rightarrow> split \<times> bool \<Rightarrow> (split \<times> bool) res" where
  "increase_loop perf cache_size n [] st = Inr st"
| "increase_loop perf cache_size n (i # is) (best, improved_increasing) =
     bindR (percentage_to_index n (hundredth i)) (\<lambda>d.
     let new_local = int_of_u64 (fst (snd best) + d) in
     bindR (ck_int (new_local * 3)) (\<lambda>l3.
     let new_remote = int_of_u64 (cache_size - of_int l3) in
     if new_remote < 0 \<or> cache_size div 3 < of_int new_local \<or> cache_size \<le> of_int new_remote
     then Inr (best, improved_increasing)
     else bindR (perf (of_int new_local) (of_int new_remote)) (\<lambda>new_performance.
       increase_loop perf cache_size n is
         (if improves new_performance (fst best) then ((new_performance, of_int new_local, of_int new_remote), True)
          else (best, improved_increasing)))))"

text \<open>One trial of the loop that decreases the local water mark; \<open>None\<close> is a \<open>break\<close>.\<close>

definition decrease_trial :: "perf \<Rightarrow> u64 \<Rightarrow> u64 \<Rightarrow> int \<Rightarrow> (int \<times> split) option res" where
  "decrease_trial perf cache_size n new_local =
     bindR (percentage_to_index n (hundredth 1)) (\<lambda>d.
     let new_local = int_of_u64 (of_int new_local - d) in
     bindR (ck_int (new_local * 3)) (\<lambda>l3.
     let new_remote = int_of_u64 (cache_size - of_int l3) in
     if new_local < 0 \<or> cache_size \<le> of_int new_remote then Inr None
     else mapR (\<lambda>p. Some (new_local, p, of_int new_local, of_int new_remote)) (perf (of_int new_local) (of_int new_remote))))"

partial_function (option) decrease_loop ::
    "perf \<Rightarrow> u64 \<Rightarrow> u64 \<Rightarrow> int \<Rightarrow> split \<Rightarrow> bool \<Rightarrow> bool \<Rightarrow> (split \<times> bool) res option" where
  "decrease_loop perf cache_size n new_local best improved_decreasing reduced_perf_decreasing =
     (if 0 < new_local \<and> \<not> reduced_perf_decreasing then
        (case decrease_trial perf cache_size n new_local of
           Inl e \<Rightarrow> Some (Inl e)
         | Inr t \<Rightarrow> (case t of
             None \<Rightarrow> Some (Inr (best, improved_decreasing))
           | Some (new_local', trial) \<Rightarrow>
               if improves (fst trial) (fst best) then decrease_loop perf cache_size n new_local' trial True reduced_perf_decreasing
               else decrease_loop perf cache_size n new_local' best improved_decreasing (worsens (fst trial) (fst best))))
      else Some (Inr (best, improved_decreasing)))"

partial_function (option) climb :: "perf \<Rightarrow> u64 \<Rightarrow> u64 \<Rightarrow> split \<Rightarrow> bool \<Rightarrow> (split \<times> bool) res option" where
  "climb perf cache_size n best improved =
     (case increase_loop perf cache_size n [1, 2, 3] (best, False) of
        Inl e \<Rightarrow> Some (Inl e)
      | Inr (best, improved_increasing) \<Rightarrow>
          Option.bind
            (if improved_increasing then Some (Inr (best, False))
             else decrease_loop perf cache_size n (int_of_u64 (fst (snd best))) best False False)
            (\<lambda>r. case r of
               Inl e \<Rightarrow> Some (Inl e)
             | Inr (best, improved_decreasing) \<Rightarrow>
                 if improved_increasing \<or> improved_decreasing then climb perf cache_size n best True
                 else Some (Inr (best, improved))))"

partial_function (option) step_up :: "perf \<Rightarrow> u64 \<Rightarrow> u64 \<Rightarrow> u64 \<Rightarrow> u64 \<Rightarrow> split \<Rightarrow> bool \<Rightarrow> split res option" where
  "step_up perf cache_size n new_local new_remote best reduced_perf_increasing =
     (if new_remote < cache_size \<and> \<not> reduced_perf_increasing then
        (case percentage_to_index n 1 of
           Inl e \<Rightarrow> Some (Inl e)
         | Inr d \<Rightarrow>
             let new_local = new_local + d; new_remote = cache_size - new_local * 3 in
             if cache_size \<le> new_remote then Some (Inr best)
             else (case perf new_local new_remote of
                     Inl e \<Rightarrow> Some (Inl e)
                   | Inr p \<Rightarrow>
                       if improves p (fst best)
                       then step_up perf cache_size n new_local new_remote (p, new_local, new_remote) reduced_perf_increasing
                       else step_up perf cache_size n new_local new_remote best (worsens p (fst best))))
      else Some (Inr best))"

partial_function (option) step_down :: "perf \<Rightarrow> u64 \<Rightarrow> u64 \<Rightarrow> u64 \<Rightarrow> split \<Rightarrow> bool \<Rightarrow> split res option" where
  "step_down perf cache_size n new_local best reduced_perf_decreasing =
     (if 0 < new_local \<and> reduced_perf_decreasing then
        (let new_remote = cache_size - new_local * 3 in
         case perf new_local new_remote of
           Inl e \<Rightarrow> Some (Inl e)
         | Inr p \<Rightarrow>
             if improves p (fst best) then Some (Inr (p, new_local, new_remote))
             else (case percentage_to_index n 1 of
                     Inl e \<Rightarrow> Some (Inl e)
                   | Inr d \<Rightarrow> step_down perf cache_size n (new_local - d) best
                       (reduced_perf_decreasing \<or> worsens p (fst best))))
      else Some (Inr best))"

text \<open>The steps of one percent; the flag that guards the loop downwards is false when it is reached.\<close>

definition one_percent_steps :: "perf \<Rightarrow> u64 \<Rightarrow> u64 \<Rightarrow> u64 \<Rightarrow> split \<Rightarrow> split res option" where
  "one_percent_steps perf cache_size n initial_local best =
     (case percentage_to_index n 1 of
        Inl e \<Rightarrow> Some (Inl e)
      | Inr d \<Rightarrow>
          Option.bind (step_up perf cache_size n (fst (snd best) + d) (cache_size - fst (snd best) * 3) best False) (\<lambda>r.
          case r of
            Inl e \<Rightarrow> Some (Inl e)
          | Inr best \<Rightarrow>
              if fst (snd best) = initial_local then step_down perf cache_size n (fst (snd best) - d) best False
              else Some (Inr best)))"

section \<open>The whole search\<close>

definition climb_settings :: "cdf \<Rightarrow> split \<Rightarrow> cache_call list res" where
  "climb_settings cdf = (\<lambda>(best_performance, best_local, best_remote).
     bindR (best_cutoffs cdf best_local) (\<lambda>(best_access_rate, best_bucket, cutoff_key_id).
     Inr [Set_water_marks best_local best_remote, Check_and_set_total_cache_duplication, Set_access_rate best_access_rate,
          Set_bucket_id best_bucket, Set_key_id_cutoff cutoff_key_id, Set_perf_stats best_local best_remote best_performance,
          Set_keys_from_past (fst cdf), Print_all_stats]))"

definition get_best_access_rates ::
    "u64 \<times> u64 \<Rightarrow> u64 \<Rightarrow> cdf \<Rightarrow> u64 \<Rightarrow> u64 \<Rightarrow> u64 \<Rightarrow> cache_call list res option" where
  "get_best_access_rates water_marks cache_size cdf cache_ns_avg disk_ns_avg rdma_ns_avg =
     (let perf = (\<lambda>local remote. calculate_performance cdf local remote cache_ns_avg disk_ns_avg rdma_ns_avg);
          n = of_nat (length (fst cdf)); (initial_local, initial_remote) = water_marks in
      case perf initial_local initial_remote of
        Inl e \<Rightarrow> Some (Inl e)
      | Inr p \<Rightarrow>
          Option.bind (climb perf cache_size n (p, initial_local, initial_remote) False) (\<lambda>r.
          case r of
            Inl e \<Rightarrow> Some (Inl e)
          | Inr (best, improved) \<Rightarrow>
              Option.bind (if improved then Some (Inr best) else one_percent_steps perf cache_size n initial_local best) (\<lambda>r.
              Some (bindR r (climb_settings cdf)))))"

section \<open>Comparisons in float respect the order\<close>

lemma threshold_simps:
  "f32 (f32 x * f32 (1 + performance_delta_threshold)) = f32 x" "f32 (f32 x * f32 (1 - performance_delta_threshold)) = f32 x"
proof -
  have "f32 1 = 1" using fl_int [of 1 24] by simp
  then show "f32 (f32 x * f32 (1 + performance_delta_threshold)) = f32 x"
    "f32 (f32 x * f32 (1 - performance_delta_threshold)) = f32 x" by (simp_all add: performance_delta_threshold_def fl_idem)
qed

lemma improves_less: "improves p q \<Longrightarrow> q < p"
proof (rule ccontr)
  assume i: "improves p q" and "\<not> q < p"
  then have "unat p \<le> unat q" by (simp only: not_less word_le_nat_alt)
  then have "(of_nat (unat p) :: rat) \<le> of_nat (unat q)" by (rule of_nat_mono)
  then have le: "f32 (of_nat (unat p)) \<le> f32 (of_nat (unat q))" by (rule fl_mono) simp
  then show False using i unfolding improves_def threshold_simps by simp
qed

lemma improves_irrefl [simp]: "\<not> improves p p"
  using improves_less by blast

lemma worsens_irrefl [simp]: "\<not> worsens p p"
  unfolding worsens_def threshold_simps by simp

section \<open>A share of the number of keys\<close>

lemma percentage_to_index_eq:
  assumes "0 \<le> f64 (percent / 100)" "f64 (percent / 100) \<le> 1" "n \<le> 2 ^ 53"
  shows "\<exists>d. percentage_to_index (of_nat n) percent = Inr d \<and> unat d \<le> n \<and> int (unat d) = \<lfloor>f64 (of_nat n * f64 (percent / 100))\<rfloor>"
proof -
  let ?q = "f64 (percent / 100)" let ?x = "f64 (of_nat n * ?q)"
  have n: "f64 (of_nat n) = of_nat n" using fl_int [of "int n" 53] assms(3) by simp
  have 0: "0 \<le> ?x" using assms(1) by (intro fl_nonneg) simp_all
  have le: "of_nat n * ?q \<le> of_int (int n)" using assms(1,2) by (simp add: mult_left_le)
  have "?x \<le> of_int (int n)" by (rule fl_le_int [OF le]) (use assms(3) in simp_all)
  then have f: "\<lfloor>?x\<rfloor> \<le> int n" using floor_mono by fastforce
  moreover have f0: "0 \<le> \<lfloor>?x\<rfloor>" using 0 by simp
  moreover have lt: "\<lfloor>?x\<rfloor> < 2 ^ 64" by (rule le_less_trans [OF f]) (use assms(3) in simp)
  moreover have u: "unat (of_nat n :: u64) = n" using assms(3) by (simp add: unat_of_nat_u64)
  ultimately have p: "percentage_to_index (of_nat n) percent = Inr (of_int \<lfloor>?x\<rfloor>)"
    using 0 by (simp add: percentage_to_index_def trunc_def u n)
  have "uint (of_int \<lfloor>?x\<rfloor> :: u64) = \<lfloor>?x\<rfloor>" using f0 lt by (simp add: uint_word_of_int)
  then have i: "int (unat (of_int \<lfloor>?x\<rfloor> :: u64)) = \<lfloor>?x\<rfloor>" by simp
  then have "unat (of_int \<lfloor>?x\<rfloor> :: u64) \<le> n" using f by linarith
  with p i show ?thesis by blast
qed

text \<open>
  The first percentage is the float nearest to the double 0.01, which is smaller than 0.01: a
  set of at most 10000 keys has a share of 0.
\<close>

definition first_share :: rat where "first_share = f64 (hundredth 1 / 100)"

lemma first_share_bounds: "0 \<le> first_share" "first_share \<le> 1" "10000 * first_share < 1" "1 \<le> 10001 * first_share"
  by code_simp+

lemma hundredth_shares:
  assumes "i \<in> {1, 2, 3}" shows "0 \<le> f64 (hundredth i / 100)" "f64 (hundredth i / 100) \<le> 1 / 1024"
proof -
  have "0 \<le> f64 (hundredth 1 / 100) \<and> f64 (hundredth 1 / 100) \<le> 1 / 1024" "0 \<le> f64 (hundredth 2 / 100) \<and> f64 (hundredth 2 / 100) \<le> 1 / 1024"
    "0 \<le> f64 (hundredth 3 / 100) \<and> f64 (hundredth 3 / 100) \<le> 1 / 1024" by code_simp+
  then show "0 \<le> f64 (hundredth i / 100)" "f64 (hundredth i / 100) \<le> 1 / 1024" using assms by auto
qed

lemma one_percent: "0 \<le> f64 (1 / 100)" "f64 (1 / 100) \<le> 1" "1 \<le> 100 * f64 (1 / 100)"
  by code_simp+

lemma small_step_zero:
  assumes "n \<le> 10000" shows "percentage_to_index (of_nat n) (hundredth 1) = Inr 0"
proof -
  obtain d where d: "percentage_to_index (of_nat n) (hundredth 1) = Inr d" "int (unat d) = \<lfloor>f64 (of_nat n * first_share)\<rfloor>"
    using percentage_to_index_eq [of "hundredth 1" n] first_share_bounds(1,2) assms unfolding first_share_def by auto
  have "of_nat n * first_share \<le> 10000 * first_share" using assms first_share_bounds(1) by (intro mult_right_mono) simp_all
  then have "f64 (of_nat n * first_share) \<le> f64 (10000 * first_share)" by (rule fl_mono) simp
  moreover have "f64 (10000 * first_share) < 1" by code_simp
  ultimately have "\<lfloor>f64 (of_nat n * first_share)\<rfloor> \<le> 0" by (simp add: floor_le_zero)
  then have "unat d = 0" using d(2) by linarith
  then show ?thesis using d(1) by (simp add: unat_eq_0)
qed

lemma small_step_pos:
  assumes "10000 < n" "n \<le> 2 ^ 53"
  shows "\<exists>d. percentage_to_index (of_nat n) (hundredth 1) = Inr d \<and> 0 < unat d \<and> unat d \<le> n"
proof -
  obtain d where d: "percentage_to_index (of_nat n) (hundredth 1) = Inr d" "int (unat d) = \<lfloor>f64 (of_nat n * first_share)\<rfloor>" "unat d \<le> n"
    using percentage_to_index_eq [of "hundredth 1" n] first_share_bounds(1,2) assms(2) unfolding first_share_def by auto
  have "10001 * first_share \<le> of_nat n * first_share" using assms first_share_bounds(1) by (intro mult_right_mono) simp_all
  then have "of_int 1 \<le> of_nat n * first_share" using first_share_bounds(4) by linarith
  then have "of_int 1 \<le> f64 (of_nat n * first_share)" by (rule fl_ge_int) simp_all
  then have "1 \<le> \<lfloor>f64 (of_nat n * first_share)\<rfloor>" by (simp add: le_floor_iff)
  then have "0 < unat d" using d(2) by linarith
  then show ?thesis using d(1,3) by blast
qed

section \<open>Water marks as integers\<close>

lemma in_intI: "- 2147483648 \<le> x \<Longrightarrow> x < 2147483648 \<Longrightarrow> in_int x"
  by (simp add: in_int_def int_min_def int_max_def)

lemma int_of_u64_of_int: "in_int x \<Longrightarrow> int_of_u64 (of_int x) = x"
proof -
  assume "in_int x"
  then have "- (2 ^ 31) \<le> x" "x < 2 ^ 31" by (simp_all add: in_int_def int_min_def int_max_def)
  then have "signed_take_bit 31 x = x" by (intro signed_take_bit_int_eq_self) simp_all
  then show ?thesis by (simp add: int_of_u64_def sint_uint unsigned_ucast_eq uint_word_of_int_eq signed_take_bit_take_bit)
qed

lemma of_int_u64_le:
  assumes "0 \<le> a" "a < 18446744073709551616" "0 \<le> b" "b < 18446744073709551616"
  shows "(of_int a :: u64) \<le> of_int b \<longleftrightarrow> a \<le> b" "(of_int a :: u64) < of_int b \<longleftrightarrow> a < b"
proof -
  have "uint (of_int a :: u64) = a" "uint (of_int b :: u64) = b"
    using assms by (simp_all add: uint_word_of_int)
  then show "(of_int a :: u64) \<le> of_int b \<longleftrightarrow> a \<le> b" "(of_int a :: u64) < of_int b \<longleftrightarrow> a < b"
    by (simp_all add: word_le_def word_less_def)
qed

text \<open>The remote water mark that goes with a local one, when three times the local one fits.\<close>

definition remote_of :: "u64 \<Rightarrow> int \<Rightarrow> u64" where
  "remote_of cache_size l = of_int (uint cache_size - 3 * l)"

lemma remote_of_u64: "cache_size - 3 * l = remote_of cache_size (uint l)"
  by (simp add: remote_of_def)

lemma decrease_trial_eq:
  assumes "percentage_to_index n (hundredth 1) = Inr d" "uint d < 2 ^ 29" "uint cache_size < 2 ^ 29" "0 \<le> l" "3 * l \<le> uint cache_size"
  shows "decrease_trial perf cache_size n l = (let l' = l - uint d in
    if l' \<le> 0 then Inr None else mapR (\<lambda>p. Some (l', p, of_int l', remote_of cache_size l')) (perf (of_int l') (remote_of cache_size l')))"
proof -
  let ?l = "l - uint d"
  have u: "0 \<le> uint d" "0 \<le> uint cache_size" "uint d < 536870912" "uint cache_size < 536870912" using assms(2,3) by simp_all
  have r: "in_int ?l" "in_int (?l * 3)" "in_int (uint cache_size - ?l * 3)"
  proof -
    show "in_int ?l" by (rule in_intI) (use assms(4,5) u in linarith)+
    have m: "?l * 3 = l * 3 - uint d * 3" by simp
    show "in_int (?l * 3)" unfolding m by (rule in_intI) (use assms(4,5) u in linarith)+
    show "in_int (uint cache_size - ?l * 3)" unfolding m by (rule in_intI) (use assms(4,5) u in linarith)+
  qed
  have l: "int_of_u64 (of_int l - d) = ?l" using int_of_u64_of_int [OF r(1)] by simp
  have rem: "int_of_u64 (cache_size - of_int (?l * 3)) = uint cache_size - ?l * 3" using int_of_u64_of_int [OF r(3)] by simp
  have ge: "?l < 0 \<or> cache_size \<le> of_int (uint cache_size - ?l * 3) \<longleftrightarrow> ?l \<le> 0"
  proof (cases "?l < 0")
    case False
    have "cache_size \<le> of_int (uint cache_size - ?l * 3) \<longleftrightarrow> uint cache_size \<le> uint cache_size - ?l * 3"
      using of_int_u64_le(1) [of "uint cache_size" "uint cache_size - ?l * 3"] False assms(3-5) uint_ge_0 [of d] by simp
    then show ?thesis using False by auto
  qed simp
  show ?thesis unfolding decrease_trial_def assms(1) bindR_simps Let_def l ck_int_in [OF r(2)] rem ge
    by (simp add: remote_of_def mult.commute)
qed

section \<open>The loops end\<close>

text \<open>
  What the loops keep of the best split: its local water mark fits the cache, its performance is
  that of the split, and it is not below a given one.
\<close>

definition split_ok :: "perf \<Rightarrow> u64 \<Rightarrow> u64 \<Rightarrow> split \<Rightarrow> bool" where
  "split_ok perf cache_size p0 best \<longleftrightarrow> 3 * uint (fst (snd best)) \<le> uint cache_size
     \<and> perf (fst (snd best)) (snd (snd best)) = Inr (fst best) \<and> p0 \<le> fst best"

lemma split_ok_trial:
  assumes "0 \<le> l" "3 * l \<le> uint cache_size" "perf (of_int l) r = Inr p"
  shows "split_ok perf cache_size p (p, of_int l, r)"
proof -
  have "l < 2 ^ 64" using assms(1,2) uint_bounded [of cache_size] by simp
  then have "uint (of_int l :: u64) = l" using assms(1) by (simp add: uint_word_of_int)
  then show ?thesis using assms(2,3) by (simp add: split_ok_def)
qed

lemma split_ok_weaken: "split_ok perf cache_size p best \<Longrightarrow> p0 \<le> p \<Longrightarrow> split_ok perf cache_size p0 best"
  by (auto simp: split_ok_def)

lemma split_ok_improved:
  assumes "split_ok perf cache_size p best'" "improves p (fst best)" "split_ok perf cache_size p0 best"
  shows "split_ok perf cache_size p0 best'" "fst best < fst best'"
  using assms improves_less [OF assms(2)] by (auto simp: split_ok_def)

lemma decrease_loop_ends:
  assumes d: "percentage_to_index n (hundredth 1) = Inr d" "0 < uint d" "uint d < 2 ^ 29" and cs: "uint cache_size < 2 ^ 29"
    and perf: "\<And>l r. \<exists>p. perf l r = Inr p"
    and start: "split_ok perf cache_size p0 best" "0 \<le> l" "3 * l \<le> uint cache_size"
  shows "\<exists>best' down. decrease_loop perf cache_size n l best improved reduced = Some (Inr (best', down))
    \<and> split_ok perf cache_size p0 best' \<and> (down \<longrightarrow> improved \<or> fst best < fst best')"
  using start
proof (induction "nat l" arbitrary: l best improved reduced p0 rule: less_induct)
  case less
  let ?loop = "decrease_loop perf cache_size n"
  let ?l = "l - uint d"
  show ?case
  proof (cases "0 < l \<and> \<not> reduced \<and> 0 < ?l")
    case False
    then have "?loop l best improved reduced = Some (Inr (best, improved))"
      by (subst decrease_loop.simps) (auto simp: decrease_trial_eq [OF d(1,3) cs less.prems(2,3)] Let_def)
    then show ?thesis using less.prems(1) by blast
  next
    case True
    obtain p where p: "perf (of_int ?l) (remote_of cache_size ?l) = Inr p" using perf by blast
    have t: "decrease_trial perf cache_size n l = Inr (Some (?l, p, of_int ?l, remote_of cache_size ?l))"
      using True p by (simp add: decrease_trial_eq [OF d(1,3) cs less.prems(2,3)] Let_def)
    have l: "nat ?l < nat l" "0 \<le> ?l" "3 * ?l \<le> uint cache_size" using True d(2) less.prems(3) by auto
    show ?thesis
    proof (cases "improves p (fst best)")
      case imp: True
      let ?best = "(p, of_int ?l, remote_of cache_size ?l)"
      have "?loop l best improved reduced = ?loop ?l ?best True reduced"
        using True t imp by (subst decrease_loop.simps) simp
      moreover obtain best' down where "?loop ?l ?best True reduced = Some (Inr (best', down))" "split_ok perf cache_size p best'"
        using less.hyps [OF l(1) split_ok_trial [where perf = perf, OF l(2,3) p] l(2,3)] by blast
      ultimately show ?thesis using split_ok_improved [OF _ imp less.prems(1)] by auto
    next
      case False
      have "?loop l best improved reduced = ?loop ?l best improved (worsens p (fst best))"
        using True t False by (subst decrease_loop.simps) simp
      then show ?thesis using less.hyps [OF l(1) less.prems(1) l(2,3)] by auto
    qed
  qed
qed

definition tight :: "u64 \<Rightarrow> split \<Rightarrow> bool" where
  "tight cache_size best \<longleftrightarrow> (\<exists>l. 0 < l \<and> 3 * l \<le> uint cache_size \<and> snd best = (of_int l, remote_of cache_size l))"

lemma increase_loop_ends:
  assumes pct: "\<And>i. i \<in> set is \<Longrightarrow> \<exists>d. percentage_to_index n (hundredth i) = Inr d \<and> uint d < 2 ^ 29"
    and cs: "uint cache_size < 2 ^ 29" and perf: "\<And>l r. \<exists>p. perf l r = Inr p"
    and start: "split_ok perf cache_size p0 best"
  shows "\<exists>best' up. increase_loop perf cache_size n is (best, improved) = Inr (best', up)
    \<and> split_ok perf cache_size p0 best' \<and> fst best \<le> fst best' \<and> (up \<longrightarrow> improved \<or> fst best < fst best')
    \<and> (best' = best \<or> tight cache_size best')"
  using pct start
proof (induction "is" arbitrary: best improved p0)
  case (Cons i "is")
  obtain d where d: "percentage_to_index n (hundredth i) = Inr d" "uint d < 2 ^ 29" using Cons.prems(1) by force
  let ?l = "uint (fst (snd best)) + uint d"
  have u: "0 \<le> uint d" "0 \<le> uint cache_size" "0 \<le> uint (fst (snd best))" "uint d < 536870912" "uint cache_size < 536870912"
    "3 * uint (fst (snd best)) \<le> uint cache_size" using d(2) cs Cons.prems(2) by (simp_all add: split_ok_def)
  have r: "in_int ?l" "in_int (?l * 3)" "in_int (uint cache_size - ?l * 3)"
  proof -
    show "in_int ?l" by (rule in_intI) (use u in linarith)+
    have m: "?l * 3 = uint (fst (snd best)) * 3 + uint d * 3" by simp
    show "in_int (?l * 3)" unfolding m by (rule in_intI) (use u in linarith)+
    show "in_int (uint cache_size - ?l * 3)" unfolding m by (rule in_intI) (use u in linarith)+
  qed
  have l: "int_of_u64 (fst (snd best) + d) = ?l" using int_of_u64_of_int [OF r(1)] by simp
  have rem: "int_of_u64 (cache_size - of_int (?l * 3)) = uint cache_size - ?l * 3" using int_of_u64_of_int [OF r(3)] by simp
  let ?stop = "uint cache_size - ?l * 3 < 0 \<or> cache_size div 3 < of_int ?l \<or> cache_size \<le> of_int (uint cache_size - ?l * 3)"
  have step: "increase_loop perf cache_size n (i # is) (best, improved)
      = (if ?stop then Inr (best, improved) else bindR (perf (of_int ?l) (remote_of cache_size ?l)) (\<lambda>p.
          increase_loop perf cache_size n is (if improves p (fst best) then ((p, of_int ?l, remote_of cache_size ?l), True) else (best, improved))))"
    unfolding increase_loop.simps d(1) bindR_simps Let_def l ck_int_in [OF r(2)] rem remote_of_def by (simp only: mult.commute)
  have pct: "\<And>i. i \<in> set is \<Longrightarrow> \<exists>d. percentage_to_index n (hundredth i) = Inr d \<and> uint d < 2 ^ 29" using Cons.prems(1) by simp
  show ?case
  proof (cases ?stop)
    case True
    then show ?thesis using Cons.prems(2) unfolding step by auto
  next
    case False
    obtain p where p: "perf (of_int ?l) (remote_of cache_size ?l) = Inr p" using perf by blast
    have l3: "0 \<le> ?l" "3 * ?l \<le> uint cache_size" using False u by linarith+
    have "?l \<noteq> 0"
    proof
      assume z: "?l = 0"
      have "cache_size \<le> of_int (uint cache_size - ?l * 3)" unfolding z by simp
      then show False using False by blast
    qed
    then have "0 < ?l" using l3(1) by linarith
    then have t: "tight cache_size (p, of_int ?l, remote_of cache_size ?l)" unfolding tight_def using l3(2) by (intro exI [of _ ?l]) simp
    show ?thesis
    proof (cases "improves p (fst best)")
      case imp: True
      obtain best' up where b: "increase_loop perf cache_size n is ((p, of_int ?l, remote_of cache_size ?l), True) = Inr (best', up)"
        "split_ok perf cache_size p best'" "tight cache_size best'"
        using Cons.IH [OF pct split_ok_trial [where perf = perf, OF l3 p]] t by blast
      have "increase_loop perf cache_size n (i # is) (best, improved) = Inr (best', up)"
        unfolding step p bindR_simps using False imp b(1) by (simp only: if_True if_False)
      then show ?thesis using split_ok_improved [OF b(2) imp Cons.prems(2)] b(3) by auto
    next
      case noimp: False
      have "increase_loop perf cache_size n (i # is) (best, improved) = increase_loop perf cache_size n is (best, improved)"
        unfolding step p bindR_simps using False noimp by (simp only: if_False)
      then show ?thesis using Cons.IH [OF pct Cons.prems(2), of improved] by simp
    qed
  qed
qed simp

lemma climb_ends:
  assumes d: "percentage_to_index n (hundredth 1) = Inr d" "0 < uint d"
    and pct: "\<And>i. i \<in> {1, 2, 3} \<Longrightarrow> \<exists>d. percentage_to_index n (hundredth i) = Inr d \<and> uint d < 2 ^ 29"
    and cs: "uint cache_size < 2 ^ 29" and perf: "\<And>l r. \<exists>p. perf l r = Inr p"
    and start: "split_ok perf cache_size p0 best"
  shows "\<exists>best' improved'. climb perf cache_size n best improved = Some (Inr (best', improved')) \<and> split_ok perf cache_size p0 best'"
  using start
proof (induction "2 ^ 64 - unat (fst best)" arbitrary: best improved rule: less_induct)
  case less
  have d29: "uint d < 2 ^ 29" using pct [of 1] d(1) by auto
  obtain best1 up where i: "increase_loop perf cache_size n [1, 2, 3] (best, False) = Inr (best1, up)"
    "split_ok perf cache_size p0 best1" "fst best \<le> fst best1" "up \<longrightarrow> fst best < fst best1"
    using increase_loop_ends [of "[1, 2, 3]" n cache_size perf p0 best False, OF _ cs perf less.prems] pct by auto
  have l: "3 * uint (fst (snd best1)) \<le> uint cache_size" using i(2) by (simp add: split_ok_def)
  have "uint cache_size < 536870912" using cs by simp
  then have small: "in_int (uint (fst (snd best1)))" using l uint_ge_0 [of "fst (snd best1)"] by (intro in_intI) linarith+
  then have local: "int_of_u64 (fst (snd best1)) = uint (fst (snd best1))" using int_of_u64_of_int by fastforce
  obtain best2 down where b2: "(if up then Some (Inr (best1, False)) else decrease_loop perf cache_size n (uint (fst (snd best1))) best1 False False)
      = Some (Inr (best2, down))" "split_ok perf cache_size p0 best2" "up \<or> down \<longrightarrow> fst best < fst best2"
  proof (cases up)
    case True
    then show thesis using i by (intro that [of best1 False]) auto
  next
    case False
    from decrease_loop_ends [OF d d29 cs perf i(2) uint_ge_0 l] i(3) False show thesis
      by (fastforce intro: that)
  qed
  have step: "climb perf cache_size n best improved = (if up \<or> down then climb perf cache_size n best2 True else Some (Inr (best2, improved)))"
    by (subst climb.simps) (simp only: i(1) sum.case prod.case local b2(1) Option.bind.simps)
  show ?case
  proof (cases "up \<or> down")
    case True
    then have "fst best < fst best2" using b2(3) by blast
    then have "2 ^ 64 - unat (fst best2) < 2 ^ 64 - unat (fst best)"
      using unat_below_u64 [of "fst best2"] by (simp add: word_less_nat_alt)
    from less.hyps [OF this b2(2)] True show ?thesis by (simp add: step)
  qed (simp add: step b2(2))
qed

lemma remote_wraps:
  fixes cache_size l :: u64
  assumes "uint cache_size < 2 ^ 29" "0 < uint l" "uint l < 2 ^ 31"
  shows "cache_size \<le> cache_size - l * 3 \<longleftrightarrow> uint cache_size < 3 * uint l"
proof -
  let ?x = "uint cache_size - 3 * uint l"
  have r: "cache_size - l * 3 = of_int ?x" by (simp add: mult.commute)
  have b: "uint cache_size < 536870912" "uint l < 2147483648" "0 \<le> uint cache_size" "0 \<le> uint l" using assms(1,3) by simp_all
  show ?thesis
  proof (cases "0 \<le> ?x")
    case True
    have "of_int (uint cache_size) \<le> (of_int ?x :: u64) \<longleftrightarrow> uint cache_size \<le> ?x"
      by (rule of_int_u64_le(1)) (use True b in linarith)+
    then show ?thesis using True assms(2) by (simp add: r)
  next
    case False
    have "of_int (uint cache_size) \<le> (of_int (18446744073709551616 + ?x) :: u64) \<longleftrightarrow> uint cache_size \<le> 18446744073709551616 + ?x"
      by (rule of_int_u64_le(1)) (use False b in linarith)+
    moreover have "uint cache_size \<le> 18446744073709551616 + ?x" using b by linarith
    ultimately have le: "of_int (uint cache_size) \<le> (of_int (18446744073709551616 + ?x) :: u64)" by (rule iffD2)
    have eq: "(of_int (18446744073709551616 + ?x) :: u64) = of_int ?x" by simp
    have "cache_size \<le> of_int ?x" using le unfolding eq by simp
    then show ?thesis using False by (simp add: r)
  qed
qed

lemma step_up_ends:
  assumes d: "percentage_to_index n 1 = Inr d" "0 < uint d" "uint d < 2 ^ 29" and cs: "uint cache_size < 2 ^ 29"
    and perf: "\<And>l r. \<exists>p. perf l r = Inr p"
    and start: "split_ok perf cache_size p0 best" "uint l < 2 ^ 30"
  shows "\<exists>best'. step_up perf cache_size n l r best reduced = Some (Inr best') \<and> split_ok perf cache_size p0 best'"
  using start
proof (induction "nat (uint cache_size - uint l)" arbitrary: l r best reduced rule: less_induct)
  case less
  let ?l = "l + d" let ?r = "cache_size - ?l * 3"
  have "uint l + uint d < 2 ^ 64" using less.prems(2) d(3) by simp
  then have ul: "uint ?l = uint l + uint d" by (simp add: uint_plus_simple_iff [THEN iffD1] uint_word_ariths)
  have "uint ?l < 2 ^ 31" using ul d(3) less.prems(2) by simp
  moreover have "0 < uint ?l" using ul d(2) uint_ge_0 [of l] by linarith
  ultimately have stop: "cache_size \<le> ?r \<longleftrightarrow> uint cache_size < 3 * uint ?l" by (intro remote_wraps [OF cs])
  show ?case
  proof (cases "r < cache_size \<and> \<not> reduced \<and> \<not> cache_size \<le> ?r")
    case False
    then have "step_up perf cache_size n l r best reduced = Some (Inr best)"
      by (subst step_up.simps) (auto simp: d(1) Let_def)
    then show ?thesis using less.prems(1) by blast
  next
    case True
    obtain p where p: "perf ?l ?r = Inr p" using perf by blast
    let ?next = "if improves p (fst best) then step_up perf cache_size n ?l ?r (p, ?l, ?r) reduced
      else step_up perf cache_size n ?l ?r best (worsens p (fst best))"
    have eq: "step_up perf cache_size n l r best reduced = ?next"
      using True p by (subst step_up.simps) (simp add: d(1) Let_def)
    have l3: "3 * uint ?l \<le> uint cache_size" using True stop by simp
    then have lt: "uint ?l < 2 ^ 30" using cs uint_ge_0 [of ?l] by simp
    have "uint l < uint cache_size" using l3 ul d(2) uint_ge_0 [of l] by linarith
    then have m: "nat (uint cache_size - uint ?l) < nat (uint cache_size - uint l)" using ul d(2) by simp
    show ?thesis
    proof (cases "improves p (fst best)")
      case imp: True
      have "split_ok perf cache_size p (p, ?l, ?r)"
        using split_ok_trial [of "uint ?l" cache_size perf ?r p] l3 p by simp
      then have "split_ok perf cache_size p0 (p, ?l, ?r)"
        using split_ok_weaken less.prems(1) improves_less [OF imp] by (auto simp: split_ok_def)
      from less.hyps [OF m this lt] show ?thesis using imp by (simp add: eq)
    next
      case False
      then show ?thesis using less.hyps [OF m less.prems(1) lt] by (simp add: eq)
    qed
  qed
qed

lemma one_percent_steps_ends:
  assumes d: "percentage_to_index n 1 = Inr d" "0 < uint d" "uint d < 2 ^ 29" and cs: "uint cache_size < 2 ^ 29"
    and perf: "\<And>l r. \<exists>p. perf l r = Inr p" and start: "split_ok perf cache_size p0 best"
  shows "\<exists>best'. one_percent_steps perf cache_size n l best = Some (Inr best') \<and> split_ok perf cache_size p0 best'"
proof -
  let ?l = "fst (snd best)"
  have "3 * uint ?l \<le> uint cache_size" using start by (simp add: split_ok_def)
  then have b: "uint ?l + uint d < 2 ^ 30" using cs d(3) uint_ge_0 [of ?l] by simp
  then have "uint (?l + d) < 2 ^ 30" using uint_add_le [of ?l d] by linarith
  from step_up_ends [OF d cs perf start this, of "cache_size - ?l * 3" False]
  obtain best' where "step_up perf cache_size n (?l + d) (cache_size - ?l * 3) best False = Some (Inr best')" "split_ok perf cache_size p0 best'"
    by blast
  then show ?thesis by (cases best') (auto simp: one_percent_steps_def d(1) step_down.simps)
qed

section \<open>Properties\<close>

lemma uint_of_small:
  assumes "n < 2 ^ 29" "unat (d :: u64) \<le> n" shows "uint d < 2 ^ 29"
proof -
  have "unat d < 2 ^ 29" using assms by linarith
  then have "int (unat d) < int (2 ^ 29)" by (rule of_nat_less_iff [THEN iffD2])
  then show ?thesis unfolding uint_nat [symmetric] by simp
qed

lemma uint_pos: "0 < unat (d :: u64) \<Longrightarrow> 0 < uint d"
  by (simp only: uint_nat of_nat_0_less_iff)


section \<open>The climb need not end\<close>

lemma decrease_loop_stuck:
  assumes ret: "decrease_loop perf cache_size n l best improved reduced = Some r"
  shows "\<not> (percentage_to_index n (hundredth 1) = Inr 0 \<and> uint cache_size < 2 ^ 29 \<and> 0 < l \<and> 3 * l \<le> uint cache_size \<and> \<not> reduced
    \<and> perf (of_int l) (remote_of cache_size l) = Inr (fst best))"
proof (rule decrease_loop.raw_induct [where P = "\<lambda>perf cache_size n l best improved reduced r. \<not> (percentage_to_index n (hundredth 1) = Inr 0
    \<and> uint cache_size < 2 ^ 29 \<and> 0 < l \<and> 3 * l \<le> uint cache_size \<and> \<not> reduced \<and> perf (of_int l) (remote_of cache_size l) = Inr (fst best))", OF _ ret])
  fix loop :: "perf \<Rightarrow> u64 \<Rightarrow> u64 \<Rightarrow> int \<Rightarrow> split \<Rightarrow> bool \<Rightarrow> bool \<Rightarrow> (split \<times> bool) res option"
    and perf :: perf and cache_size n l best improved reduced r
  assume IH: "\<And>perf cache_size n l best improved reduced r. loop perf cache_size n l best improved reduced = Some r \<Longrightarrow>
      \<not> (percentage_to_index n (hundredth 1) = Inr 0 \<and> uint cache_size < 2 ^ 29 \<and> 0 < l \<and> 3 * l \<le> uint cache_size \<and> \<not> reduced
        \<and> perf (of_int l) (remote_of cache_size l) = Inr (fst best))"
    and eq: "(if 0 < l \<and> \<not> reduced then
        (case decrease_trial perf cache_size n l of
           Inl e \<Rightarrow> Some (Inl e)
         | Inr t \<Rightarrow> (case t of
             None \<Rightarrow> Some (Inr (best, improved))
           | Some (new_local', trial) \<Rightarrow>
               if improves (fst trial) (fst best) then loop perf cache_size n new_local' trial True reduced
               else loop perf cache_size n new_local' best improved (worsens (fst trial) (fst best))))
      else Some (Inr (best, improved))) = Some r"
  show "\<not> (percentage_to_index n (hundredth 1) = Inr 0 \<and> uint cache_size < 2 ^ 29 \<and> 0 < l \<and> 3 * l \<le> uint cache_size \<and> \<not> reduced
    \<and> perf (of_int l) (remote_of cache_size l) = Inr (fst best))"
  proof
    assume a: "percentage_to_index n (hundredth 1) = Inr 0 \<and> uint cache_size < 2 ^ 29 \<and> 0 < l \<and> 3 * l \<le> uint cache_size \<and> \<not> reduced
      \<and> perf (of_int l) (remote_of cache_size l) = Inr (fst best)"
    then have "decrease_trial perf cache_size n l = Inr (Some (l, fst best, of_int l, remote_of cache_size l))"
      using decrease_trial_eq [of n 0 cache_size l perf] by (simp add: Let_def)
    with eq a have "loop perf cache_size n l best improved False = Some r" by simp
    from IH [OF this] a show False by simp
  qed
qed

lemma climb_stuck:
  assumes ret: "climb perf cache_size n best improved = Some r"
  shows "\<not> ((\<forall>i \<in> {1, 2, 3}. \<exists>d. percentage_to_index n (hundredth i) = Inr d \<and> uint d < 2 ^ 29) \<and> percentage_to_index n (hundredth 1) = Inr 0
    \<and> uint cache_size < 2 ^ 29 \<and> (\<forall>l r. \<exists>p. perf l r = Inr p) \<and> split_ok perf cache_size 0 best \<and> tight cache_size best)"
proof (rule climb.raw_induct [where P = "\<lambda>perf cache_size n best improved r. \<not> ((\<forall>i \<in> {1, 2, 3}. \<exists>d. percentage_to_index n (hundredth i) = Inr d
    \<and> uint d < 2 ^ 29) \<and> percentage_to_index n (hundredth 1) = Inr 0
    \<and> uint cache_size < 2 ^ 29 \<and> (\<forall>l r. \<exists>p. perf l r = Inr p) \<and> split_ok perf cache_size 0 best \<and> tight cache_size best)", OF _ ret])
  fix loop :: "perf \<Rightarrow> u64 \<Rightarrow> u64 \<Rightarrow> split \<Rightarrow> bool \<Rightarrow> (split \<times> bool) res option" and perf :: perf and cache_size n best improved r
  let ?inv = "\<lambda>perf cache_size n best. (\<forall>i \<in> {1, 2, 3}. \<exists>d. percentage_to_index n (hundredth i) = Inr d \<and> uint d < 2 ^ 29)
    \<and> percentage_to_index n (hundredth 1) = Inr 0 \<and> uint cache_size < 2 ^ 29 \<and> (\<forall>l r. \<exists>p. perf l r = Inr p)
    \<and> split_ok perf cache_size 0 best \<and> tight cache_size best"
  assume IH: "\<And>perf cache_size n best improved r. loop perf cache_size n best improved = Some r \<Longrightarrow> \<not> ?inv perf cache_size n best"
    and eq: "(case increase_loop perf cache_size n [1, 2, 3] (best, False) of
        Inl e \<Rightarrow> Some (Inl e)
      | Inr (best, improved_increasing) \<Rightarrow>
          Option.bind
            (if improved_increasing then Some (Inr (best, False))
             else decrease_loop perf cache_size n (int_of_u64 (fst (snd best))) best False False)
            (\<lambda>r. case r of
               Inl e \<Rightarrow> Some (Inl e)
             | Inr (best, improved_decreasing) \<Rightarrow>
                 if improved_increasing \<or> improved_decreasing then loop perf cache_size n best True
                 else Some (Inr (best, improved)))) = Some r"
  show "\<not> ?inv perf cache_size n best"
  proof
    assume a: "?inv perf cache_size n best"
    obtain best1 up where i: "increase_loop perf cache_size n [1, 2, 3] (best, False) = Inr (best1, up)"
      "split_ok perf cache_size 0 best1" "best1 = best \<or> tight cache_size best1"
      using increase_loop_ends [of "[1, 2, 3]" n cache_size perf 0 best False] a by auto
    then have t: "tight cache_size best1" using a by auto
    then obtain l where l: "0 < l" "3 * l \<le> uint cache_size" "snd best1 = (of_int l, remote_of cache_size l)" by (auto simp: tight_def)
    show False
    proof (cases up)
      case True
      then have "loop perf cache_size n best1 True = Some r" using eq by (simp add: i(1) del: increase_loop.simps One_nat_def)
      from IH [OF this] show False using a i(2) t by blast
    next
      case False
      have "uint cache_size < 536870912" using a by simp
      then have "in_int l" using l by (intro in_intI) linarith+
      then have "int_of_u64 (fst (snd best1)) = l" using l(3) int_of_u64_of_int by simp
      then obtain r' where "decrease_loop perf cache_size n l best1 False False = Some r'"
        using eq False by (auto simp: i(1) bind_eq_Some_conv simp del: increase_loop.simps One_nat_def)
      from decrease_loop_stuck [OF this] show False using a l i(2) by (simp add: split_ok_def)
    qed
  qed
qed

text \<open>
  Property C30: with at most 10000 keys one hundredth of a percent of them is no key at all, and
  the search never ends when it starts from a split that fills the cache and has a local part.
\<close>

theorem get_best_access_rates_diverges:
  assumes "cdf_ok cdf" "fst cdf \<noteq> []" "length (fst cdf) \<le> 10000" "uint cache_size < 2 ^ 29"
    and "0 < uint initial_local" "3 * uint initial_local \<le> uint cache_size"
  shows "get_best_access_rates (initial_local, cache_size - 3 * initial_local) cache_size cdf c d r = None"
proof -
  let ?n = "length (fst cdf)" let ?perf = "\<lambda>l r'. calculate_performance cdf l r' c d r" let ?rem = "cache_size - 3 * initial_local"
  have perf: "\<exists>p. ?perf l r' = Inr p" for l r' using calculate_performance_returns [OF assms(1,2)] by fastforce
  then obtain p where p: "?perf initial_local ?rem = Inr p" by blast
  have pct: "\<exists>d. percentage_to_index (of_nat ?n) (hundredth i) = Inr d \<and> uint d < 2 ^ 29" if "i \<in> {1, 2, 3}" for i
  proof -
    have "f64 (hundredth i / 100) \<le> 1" using hundredth_shares(2) [OF that] by linarith
    from percentage_to_index_eq [OF hundredth_shares(1) [OF that] this, of ?n] show ?thesis
      using uint_of_small [of ?n] assms(3) by fastforce
  qed
  have inv: "split_ok ?perf cache_size 0 (p, initial_local, ?rem)" "tight cache_size (p, initial_local, ?rem)"
    using p assms(5,6) by (auto simp: split_ok_def tight_def remote_of_u64 intro: exI [of _ "uint initial_local"])
  have "climb ?perf cache_size (of_nat ?n) (p, initial_local, ?rem) False = None"
    using climb_stuck [of ?perf cache_size "of_nat ?n" "(p, initial_local, ?rem)" False] pct small_step_zero [OF assms(3)] assms(4) perf inv
    by (cases "climb ?perf cache_size (of_nat ?n) (p, initial_local, ?rem) False") blast+
  then show ?thesis by (simp add: get_best_access_rates_def Let_def p)
qed

theorem get_best_access_rates_diverges_witness:
  "get_best_access_rates (1, 3) 6 sample_cdf 1 100 10 = None"
  using get_best_access_rates_diverges [OF sample_cdf_ok, of 6 1 1 100 10] by (simp add: sample_cdf_def)

text \<open>A distribution of \<open>n\<close> keys that are all accessed once.\<close>

definition uniform_cdf :: "nat \<Rightarrow> cdf" where
  "uniform_cdf n = (map (\<lambda>i. (1, to_string_nat i, 1)) [0..<n], map_of (map (\<lambda>i. (to_string_nat i, (of_nat (Suc i), 1))) [0..<n]))"

lemma uniform_cdf_ok:
  assumes "n < 2 ^ 31"
  shows "cdf_ok (uniform_cdf n)" "length (fst (uniform_cdf n)) = n" "\<forall>e \<in> set (fst (uniform_cdf n)). returns (stoi (fst (snd e)))"
proof -
  have "sum_list (take (Suc i) (map fst (fst (uniform_cdf n)))) = of_nat (Suc i)" if "i < n" for i
  proof -
    have "take (Suc i) (map fst (fst (uniform_cdf n))) = replicate (Suc i) 1"
      using that by (intro nth_equalityI) (simp_all add: uniform_cdf_def del: replicate_Suc)
    then show ?thesis by (simp add: sum_list_replicate del: replicate_Suc)
  qed
  moreover have "map_of (map (\<lambda>i. (to_string_nat i, (of_nat (Suc i), 1))) [0..<n]) (to_string_nat i) = Some (of_nat (Suc i) :: u64, 1 :: u64)"
    if "i < n" for i
    by (rule map_of_is_SomeI) (use that in \<open>auto simp: distinct_map inj_on_def to_string_nat_inj comp_def\<close>)
  ultimately show "cdf_ok (uniform_cdf n)" using assms by (simp add: cdf_ok_def freqs_of_def) (simp add: uniform_cdf_def)
  show "length (fst (uniform_cdf n)) = n" by (simp add: uniform_cdf_def)
  show "\<forall>e \<in> set (fst (uniform_cdf n)). returns (stoi (fst (snd e)))"
    using assms by (auto simp: uniform_cdf_def stoi_to_string)
qed


end
