(* ===== verification/Max_Heap.thy ===== *)
theory Max_Heap
  imports Prelude
begin

text \<open>
  The heap of nodes by free blocks (\<open>src/src/heap.h\<close>). \<open>std::priority_queue\<close> promises that
  \<open>top\<close> is an element that no other exceeds and that \<open>pop\<close> removes it; which of several equal
  elements it is, is left open. The locale states this promise; the model keeps the elements in a
  list and lets \<open>pick\<close> choose among the greatest, so what is proved holds for every choice.
\<close>

section \<open>Priority queues\<close>

locale priority_queue =
  fixes bag :: "'q \<Rightarrow> 'a multiset" and less :: "'a \<Rightarrow> 'a \<Rightarrow> bool"
    and push :: "'a \<Rightarrow> 'q \<Rightarrow> 'q" and top :: "'q \<Rightarrow> 'a" and pop :: "'q \<Rightarrow> 'q"
  assumes bag_push: "bag (push x q) = add_mset x (bag q)"
    and top_in: "bag q \<noteq> {#} \<Longrightarrow> top q \<in># bag q"
    and top_greatest: "bag q \<noteq> {#} \<Longrightarrow> y \<in># bag q \<Longrightarrow> \<not> less (top q) y"
    and bag_pop: "bag q \<noteq> {#} \<Longrightarrow> bag (pop q) = bag q - {#top q#}"
begin

lemma bag_top_pop: "bag q \<noteq> {#} \<Longrightarrow> bag q = add_mset (top q) (bag (pop q))"
  by (simp add: bag_pop top_in)

lemma size_pop: "bag q \<noteq> {#} \<Longrightarrow> size (bag (pop q)) < size (bag q)"
  using bag_top_pop [of q] by (metis lessI size_add_mset)

text \<open>Replacing the greatest element keeps the sum of a weight up to the change of that element.\<close>

lemma replace_top_weight:
  fixes weight :: "'a \<Rightarrow> nat"
  assumes "bag q \<noteq> {#}"
  shows "sum_mset (image_mset weight (bag (push x (pop q)))) + weight (top q) = sum_mset (image_mset weight (bag q)) + weight x"
proof -
  have "image_mset weight (bag q) = add_mset (weight (top q)) (image_mset weight (bag (pop q)))"
    by (subst bag_top_pop [OF assms]) simp
  then show ?thesis by (simp add: bag_push)
qed

end

section \<open>Nodes and the heap\<close>

record Node =
  free_nodes :: u64
  node_index :: u64

text \<open>\<open>operator<\<close>\<close>

definition node_less :: "Node \<Rightarrow> Node \<Rightarrow> bool" where
  "node_less a b \<longleftrightarrow> free_nodes a < free_nodes b"

type_synonym max_heap = "Node list"

definition greatest :: "max_heap \<Rightarrow> Node list" where
  "greatest pq = filter (\<lambda>a. \<forall>b \<in> set pq. \<not> node_less a b) pq"

definition pq_push :: "Node \<Rightarrow> max_heap \<Rightarrow> max_heap" where "pq_push x pq = pq @ [x]"

definition pq_top :: "(nat \<Rightarrow> nat) \<Rightarrow> max_heap \<Rightarrow> Node" where
  "pq_top pick pq = (let gs = greatest pq in gs ! (pick (length gs) mod length gs))"

definition pq_pop :: "(nat \<Rightarrow> nat) \<Rightarrow> max_heap \<Rightarrow> max_heap" where
  "pq_pop pick pq = remove1 (pq_top pick pq) pq"

lemma greatest_exists: "pq \<noteq> [] \<Longrightarrow> greatest pq \<noteq> []"
proof -
  assume "pq \<noteq> []"
  then have "Max (set (map free_nodes pq)) \<in> set (map free_nodes pq)" by (intro Max_in) simp_all
  then obtain a where a: "a \<in> set pq" "free_nodes a = Max (set (map free_nodes pq))" by auto
  then have "a \<in> set (greatest pq)" by (simp add: greatest_def node_less_def not_less)
  then show ?thesis by auto
qed

lemma pq_top_greatest: "pq \<noteq> [] \<Longrightarrow> pq_top pick pq \<in> set (greatest pq)"
  using greatest_exists [of pq] by (simp add: pq_top_def Let_def)

interpretation heap: priority_queue mset node_less pq_push "pq_top pick" "pq_pop pick" for pick
proof
  fix q and y :: Node
  show "mset (pq_push y q) = add_mset y (mset q)" by (simp add: pq_push_def)
  assume "mset q \<noteq> {#}"
  then have t: "pq_top pick q \<in> set (greatest q)" using pq_top_greatest by simp
  then show "pq_top pick q \<in># mset q" by (simp add: greatest_def)
  show "mset (pq_pop pick q) = mset q - {#pq_top pick q#}" by (simp add: pq_pop_def)
  assume "y \<in># mset q"
  then show "\<not> node_less (pq_top pick q) y" using t by (simp add: greatest_def)
qed

definition heap_add :: "u64 \<Rightarrow> u64 \<Rightarrow> max_heap \<Rightarrow> max_heap" where
  "heap_add free idx pq = pq_push \<lparr>free_nodes = free, node_index = idx\<rparr> pq"

definition getNode :: "(nat \<Rightarrow> nat) \<Rightarrow> max_heap \<Rightarrow> (u64 \<times> max_heap) res" where
  "getNode pick pq =
     (if pq = [] then Inl (Throw ''Heap is empty'')
      else
        let maxNode = pq_top pick pq; pq = pq_pop pick pq in
        Inr (node_index maxNode,
          if 0 < free_nodes maxNode - 1 then pq_push (maxNode\<lparr>free_nodes := free_nodes maxNode - 1\<rparr>) pq else pq))"

definition isEmpty :: "max_heap \<Rightarrow> bool" where "isEmpty pq \<longleftrightarrow> pq = []"

section \<open>Taking blocks\<close>

text \<open>The blocks that a heap hands out, per node: as many as the node has free.\<close>

definition blocks :: "max_heap \<Rightarrow> u64 multiset" where
  "blocks pq = sum_mset (image_mset (\<lambda>a. replicate_mset (unat (free_nodes a)) (node_index a)) (mset pq))"

definition no_empty_node :: "max_heap \<Rightarrow> bool" where
  "no_empty_node pq \<longleftrightarrow> (\<forall>a \<in> set pq. free_nodes a \<noteq> 0)"

fun get_nodes :: "(nat \<Rightarrow> nat) \<Rightarrow> nat \<Rightarrow> max_heap \<Rightarrow> (u64 list \<times> max_heap) res" where
  "get_nodes pick 0 pq = Inr ([], pq)"
| "get_nodes pick (Suc n) pq =
     bindR (getNode pick pq) (\<lambda>(i, pq). bindR (get_nodes pick n pq) (\<lambda>(is, pq). Inr (i # is, pq)))"

lemma blocks_push: "blocks (pq_push x pq) = replicate_mset (unat (free_nodes x)) (node_index x) + blocks pq"
  by (simp add: blocks_def heap.bag_push)

lemma blocks_top_pop:
  assumes "pq \<noteq> []"
  shows "blocks pq = replicate_mset (unat (free_nodes (pq_top pick pq))) (node_index (pq_top pick pq)) + blocks (pq_pop pick pq)"
proof -
  have "mset pq = add_mset (pq_top pick pq) (mset (pq_pop pick pq))" using assms by (intro heap.bag_top_pop) simp
  then show ?thesis by (simp add: blocks_def)
qed

lemma pop_subset: "set (pq_pop pick pq) \<subseteq> set pq"
  by (simp add: pq_pop_def set_remove1_subset)

lemma getNode_takes_block:
  assumes "pq \<noteq> []" "no_empty_node pq"
  shows "\<exists>i pq'. getNode pick pq = Inr (i, pq') \<and> blocks pq = add_mset i (blocks pq') \<and> no_empty_node pq'
    \<and> (\<exists>a \<in> set pq. node_index a = i \<and> (\<forall>b \<in> set pq. free_nodes b \<le> free_nodes a))"
proof -
  let ?m = "pq_top pick pq" let ?q = "pq_pop pick pq"
  have m: "?m \<in> set pq" "\<forall>b \<in> set pq. free_nodes b \<le> free_nodes ?m"
    using pq_top_greatest [OF assms(1), of pick] by (auto simp: greatest_def node_less_def not_less)
  then have nz: "free_nodes ?m \<noteq> 0" using assms(2) by (simp add: no_empty_node_def)
  then have u: "unat (free_nodes ?m) = Suc (unat (free_nodes ?m - 1))" by (simp add: unat_minus_one unat_gt_0)
  have q: "no_empty_node ?q" using assms(2) pop_subset [of pick pq] by (auto simp: no_empty_node_def)
  let ?m' = "?m\<lparr>free_nodes := free_nodes ?m - 1\<rparr>"
  have "blocks pq = add_mset (node_index ?m) (blocks (if 0 < free_nodes ?m - 1 then pq_push ?m' ?q else ?q))"
    unfolding blocks_top_pop [OF assms(1), of pick] u by (auto simp: blocks_push word_gt_0)
  moreover have "no_empty_node (if 0 < free_nodes ?m - 1 then pq_push ?m' ?q else ?q)"
    using q by (auto simp: no_empty_node_def pq_push_def)
  moreover have "getNode pick pq = Inr (node_index ?m, if 0 < free_nodes ?m - 1 then pq_push ?m' ?q else ?q)"
    using assms(1) by (simp add: getNode_def Let_def)
  ultimately show ?thesis using m by blast
qed

text \<open>
  Property C37: a heap whose nodes all have free blocks hands out exactly its blocks: it can be
  asked as often as it has blocks in total, it names each node as often as that node has free
  blocks, whatever it does between nodes with equally many, and then it is empty and throws.
\<close>

theorem heap_hands_out_its_blocks:
  assumes "no_empty_node pq"
  shows "\<exists>is. get_nodes pick (size (blocks pq)) pq = Inr (is, []) \<and> mset is = blocks pq
    \<and> getNode pick [] = Inl (Throw ''Heap is empty'')"
  using assms
proof (induction "size (blocks pq)" arbitrary: pq)
  case 0
  have "pq = []"
  proof (rule ccontr)
    assume "pq \<noteq> []"
    from getNode_takes_block [OF this "0.prems", of pick] "0.hyps" show False by auto
  qed
  then show ?case by (simp add: blocks_def getNode_def)
next
  case (Suc n)
  then have "pq \<noteq> []" by (auto simp: blocks_def)
  from getNode_takes_block [OF this Suc.prems, of pick] obtain i pq' where
    g: "getNode pick pq = Inr (i, pq')" "blocks pq = add_mset i (blocks pq')" "no_empty_node pq'" by blast
  then have n: "n = size (blocks pq')" using Suc.hyps(2) by simp
  from Suc.hyps(1) [OF n g(3)] g n show ?case by auto
qed

definition sample_heap :: max_heap where
  "sample_heap = heap_add 2 7 (heap_add 1 8 [])"

theorem heap_hands_out_its_blocks_witness:
  "\<exists>is. get_nodes (\<lambda>_. 0) 3 sample_heap = Inr (is, []) \<and> mset is = {#7, 7, 8#}"
proof -
  have two: "replicate_mset 2 (7 :: u64) = {#7, 7#}" by (simp add: numeral_2_eq_2)
  have b: "blocks sample_heap = {#7, 7, 8#}" by (simp add: sample_heap_def heap_add_def blocks_push two) (simp add: blocks_def)
  have "no_empty_node sample_heap" by (simp add: sample_heap_def heap_add_def no_empty_node_def pq_push_def)
  moreover have "size (blocks sample_heap) = 3" by (simp add: b)
  ultimately show ?thesis using heap_hands_out_its_blocks [of sample_heap "\<lambda>_. 0"] unfolding b by metis
qed

text \<open>A node that was added without free blocks is handed out all the same and then has them all.\<close>

lemma empty_node_wraps:
  "getNode pick (heap_add 0 i []) = Inr (i, [\<lparr>free_nodes = - 1, node_index = i\<rparr>])"
  by (simp add: getNode_def heap_add_def pq_push_def pq_pop_def pq_top_def greatest_def node_less_def word_gt_0)

end
