(* ===== verification/Kv_Types.thy ===== *)
theory Kv_Types
  imports Kv_Cache
begin

text \<open>
  The operations of \<open>RDMAKeyValueCache\<close> as one interface: the state they work on, its
  well-formedness, and that every operation, called with keys and servers in range, keeps it or
  ends in one of the faults that the code raises itself.
\<close>

section \<open>The operations\<close>

text \<open>A call of each public operation, with its arguments.\<close>

datatype 'c kv_call =
    Cache_write string
  | Cache_eviction string
  | Remote_read nat u64
  | Remote_read_callback u64 'c
  | Repair u64 u64
  | Execute_pending

record ('d, 'c, 's) kv_callbacks =
  arrive_data :: "post \<Rightarrow> 'd"
  on_storage_read :: "('d, 'c) slot \<Rightarrow> 's \<Rightarrow> 's res"
  run_cb :: "'c \<Rightarrow> 'd \<Rightarrow> 's \<Rightarrow> 's res"
  on_index_write :: "'s \<Rightarrow> 's res"

fun kv_do ::
    "('e, 'd, 'c) kv_params \<Rightarrow> ('d, 'c, 's) kv_callbacks \<Rightarrow> 'c kv_call \<Rightarrow> ('e, 'd, 'c) kv_cache \<times> Snapshot \<times> 's
     \<Rightarrow> (post list \<times> ('e, 'd, 'c) kv_cache \<times> Snapshot \<times> 's) res" where
  "kv_do P F (Cache_write key) (kv, sn, st) = mapR (\<lambda>(ps, kv). (ps, kv, sn, st)) (on_write P key kv)"
| "kv_do P F (Cache_eviction key) (kv, sn, st) = mapR (\<lambda>(ps, kv, sn). (ps, kv, sn, st)) (on_eviction P key (kv, sn))"
| "kv_do P F (Remote_read i k) (kv, sn, st) = mapR (\<lambda>(p, kv). ([p], kv, sn, st)) (kv_read P i k kv)"
| "kv_do P F (Remote_read_callback k cb) (kv, sn, st) = mapR (\<lambda>(_, ps, kv). (ps, kv, sn, st)) (read_callback P k cb kv)"
| "kv_do P F (Repair expected_key key) (kv, sn, st) = mapR (\<lambda>kv. ([], kv, sn, st)) (kv_update_local_key P expected_key key kv)"
| "kv_do P F Execute_pending (kv, sn, st) =
     mapR (\<lambda>(kv, st). ([], kv, sn, st))
       (kv_execute_pending P (arrive_data F) (on_storage_read F) (run_cb F) (on_index_write F) (kv, st))"

section \<open>Well-formed states and calls\<close>

definition kv_wf :: "('e, 'd, 'c) kv_params \<Rightarrow> nat \<Rightarrow> nat \<Rightarrow> nat \<Rightarrow> nat \<Rightarrow> ('e, 'd, 'c) kv_cache \<times> Snapshot \<Rightarrow> bool" where
  "kv_wf P n len slots m = (\<lambda>(kv, sn). kv_ok P n len slots m kv
     \<and> (use_cache_logs (kv_config kv) \<longrightarrow> log_ok n m (cache_index_logs kv))
     \<and> (enabled (sn_config sn) \<longrightarrow> snapshot_ok sn \<and> len \<le> length (sn_entries sn)))"

fun call_ok :: "nat \<Rightarrow> nat \<Rightarrow> 'c kv_call \<Rightarrow> bool" where
  "call_ok n len (Cache_write key) \<longleftrightarrow> (\<exists>k < len. k < 2 ^ 31 \<and> stoi key = Inr (int k))"
| "call_ok n len (Cache_eviction key) \<longleftrightarrow> (\<exists>k < len. k < 2 ^ 31 \<and> stoi key = Inr (int k))"
| "call_ok n len (Remote_read i k) \<longleftrightarrow> i < n \<and> unat k < len"
| "call_ok n len (Remote_read_callback k cb) \<longleftrightarrow> unat k < len"
| "call_ok n len (Repair expected_key key) \<longleftrightarrow> unat expected_key < len \<and> unat key < len"
| "call_ok n len Execute_pending \<longleftrightarrow> True"

text \<open>The faults that the operations raise themselves.\<close>

definition kv_faults :: "fault set" where
  "kv_faults = {out_of_tokens, Panic ''Invalid key value ptr offset'', Blocked ''free_queue'',
     Blocked ''Unable to sync! Other nodes are not ready''}"

definition well_typed ::
    "('e, 'd, 'c) kv_params \<Rightarrow> nat \<Rightarrow> nat \<Rightarrow> nat \<Rightarrow> nat \<Rightarrow> (post list \<times> ('e, 'd, 'c) kv_cache \<times> Snapshot \<times> 's) res \<Rightarrow> bool" where
  "well_typed P n len slots m r = (case r of
     Inl e \<Rightarrow> e \<in> kv_faults
   | Inr (ps, kv, sn, st) \<Rightarrow> kv_wf P n len slots m (kv, sn) \<and> (\<forall>p \<in> set ps. fst (post_qp p) < n))"

section \<open>Each operation keeps well-formedness\<close>

lemma append_entry_k_typed:
  assumes "log_ok n m cl" "ci_ok api n len m ci" "stoi key = Inr (int k)" "k < len"
  shows "case append_entry_k se pick first key (cl, ci) of
    Inl e \<Rightarrow> e \<in> kv_faults | Inr (ps, cl') \<Rightarrow> log_ok n m cl' \<and> (\<forall>p \<in> set ps. fst (post_qp p) < n)"
proof -
  have c: "cl_me cl = m" "m < length (rdma_cache_indexes ci)" "k < length (rdma_cache_indexes ci ! m)"
    using assms by (simp_all add: log_ok_def ci_ok_def)
  let ?e = "\<lparr>le_key = of_int (int k), le_index = rdma_cache_indexes ci ! m ! k, le_filled = True\<rparr>"
  have a: "append_entry_k se pick first key (cl, ci) = append_entry se pick first ?e cl"
    using c assms(3) by (simp add: append_entry_k_def get_cache_index_def)
  from append_put [OF assms(1), of se pick ?e] obtain c1 where
    c1: "append_entry se pick first ?e cl = (if next_index cl mod max_cache_log_index cl = 0 then sync_logs se pick first c1 else Inr ([], c1))"
    "log_ok n m c1" by blast
  show ?thesis
  proof (cases "next_index cl mod max_cache_log_index cl = 0")
    case False
    then show ?thesis using a c1 by simp
  next
    case True
    have s: "append_entry_k se pick first key (cl, ci) = sync_logs se pick first c1" using a c1(1) True by simp
    show ?thesis
    proof (cases "\<forall>i < n. i \<noteq> m \<longrightarrow> \<not> le_filled (first (m, CACHE_INDEX_LOG_PORT + i))")
      case False
      then show ?thesis using sync_logs_cases [OF c1(2), of first se pick] unfolding s by (auto simp: kv_faults_def)
    next
      case True
      then obtain ps cl' where r: "sync_logs se pick first c1 = Inr (ps, cl')" "log_ok n m cl'"
        "map post_qp ps = map (\<lambda>i. (i, CACHE_INDEX_LOG_PORT + m)) (others m [0..<n])"
        using sync_logs_cases [OF c1(2), of first se pick] by auto
      have "fst (post_qp p) < n" if "p \<in> set ps" for p
      proof -
        have "post_qp p \<in> set (map post_qp ps)" using that by simp
        then show ?thesis unfolding r(3) by (auto simp: others_def)
      qed
      then show ?thesis unfolding s using r(1,2) by simp
    qed
  qed
qed

lemma list_all2_set2: "list_all2 R xs ys \<Longrightarrow> y \<in> set ys \<Longrightarrow> \<exists>x \<in> set xs. R x y"
  by (induction rule: list_all2_induct) auto

lemma pushed_typed:
  assumes "pushed api n len m k arrays ci ps ci'"
  shows "ci_ok api n len m ci'" "p \<in> set ps \<Longrightarrow> fst (post_qp p) < n"
proof -
  show "ci_ok api n len m ci'" using assms by (simp add: pushed_def)
  have "list_all2 (push_to api m k) (others m [0..<n]) ps" using assms by (simp add: pushed_def)
  then show "p \<in> set ps \<Longrightarrow> fst (post_qp p) < n" by (auto simp: push_to_def others_def dest: list_all2_set2)
qed

lemma write_remote_typed:
  assumes "ci_ok api n len m ci" "stoi key = Inr (int k)" "k < len" "1 < n"
  shows "case write_remote api pick key ci of
    Inl e \<Rightarrow> e \<in> kv_faults | Inr (ps, ci') \<Rightarrow> ci_ok api n len m ci' \<and> (\<forall>p \<in> set ps. fst (post_qp p) < n)"
proof (cases "valid_entry api (rdma_cache_indexes ci ! m ! k)")
  case False
  then show ?thesis using write_remote_invalid [OF assms] by (simp add: kv_faults_def)
next
  case True
  from write_remote_cases [OF assms True, of pick] show ?thesis
    by (auto simp: kv_faults_def intro: pushed_typed split: if_splits)
qed

lemma dealloc_remote_typed:
  assumes "ci_ok api n len m ci" "stoi key = Inr (int k)" "k < len" "1 < n"
  shows "case dealloc_remote api pick key ci of
    Inl e \<Rightarrow> e \<in> kv_faults | Inr (ps, ci') \<Rightarrow> ci_ok api n len m ci' \<and> (\<forall>p \<in> set ps. fst (post_qp p) < n)"
  using dealloc_remote_cases [OF assms, of pick] by (auto simp: kv_faults_def intro: pushed_typed split: if_splits)

lemma storage_read_typed:
  assumes "kv_ok P n len slots m kv" "i < n"
  shows "case storage_read P i cb e kv of Inl x \<Rightarrow> x \<in> kv_faults
    | Inr (p, kv') \<Rightarrow> kv_ok P n len slots m kv' \<and> fst (post_qp p) < n \<and> kv_config kv' = kv_config kv \<and> cache_index_logs kv' = cache_index_logs kv"
proof (cases "free_queue (key_value_storage kv) = []")
  case True
  then show ?thesis by (simp add: storage_read_def queue_read_def try_dequeue_def Let_def kv_faults_def)
next
  case False
  from storage_read_ok [OF assms False, of cb e] obtain p kv' where s: "storage_read P i cb e kv = Inr (p, kv')"
    "post_qp p = (i, KEY_VALUE_STORAGE_PORT)" "kv_ok P n len slots m kv'" by blast
  moreover have "kv_config kv' = kv_config kv" "cache_index_logs kv' = cache_index_logs kv"
    using s(1) by (auto simp: storage_read_def Let_def mapR_Inr_iff)
  ultimately show ?thesis using assms(2) by simp
qed

lemma drain_writes_typed:
  assumes "\<And>x. \<exists>y. f x = Inr y"
  shows "\<exists>d' st'. drain_writes pick f q (d, st) = Inr (d', st') \<and> connect_qps d' = connect_qps d
    \<and> server_configs d' = server_configs d \<and> machine_index d' = machine_index d
    \<and> (free_request_token_queue d \<noteq> [] \<longrightarrow> free_request_token_queue d' \<noteq> [])"
proof -
  let ?ok = "\<lambda>(d', st'). connect_qps d' = connect_qps d \<and> server_configs d' = server_configs d \<and> machine_index d' = machine_index d
    \<and> (free_request_token_queue d \<noteq> [] \<longrightarrow> free_request_token_queue d' \<noteq> [])"
  have "\<exists>t. drain_writes pick f q (d, st) = Inr t \<and> ?ok t"
    unfolding drain_writes_def
  proof (rule drainR_total)
    fix x and s :: "rdma_data \<times> 'a"
    assume "?ok s"
    obtain d1 st1 where s: "s = (d1, st1)" by fastforce
    obtain y where "f st1 = Inr y" using assms by blast
    with s \<open>?ok s\<close> show "\<exists>t. (case s of (d, st) \<Rightarrow> bindR (f st) (\<lambda>st. Inr (free_request_token x d, st))) = Inr t \<and> ?ok t"
      by (simp add: free_request_token_def enqueue_def)
  qed simp
  then show ?thesis by auto
qed

lemma fold_release_qps: "connect_qps (rdma (fold release_slot xs q)) = connect_qps (rdma q)"
  by (induction xs arbitrary: q) (simp_all add: release_slot_def free_request_token_def split: option.splits)

lemma queue_execute_typed:
  assumes "queue_ok slots q" "\<And>s x. \<exists>y. f s x = Inr y" "\<And>cb d x. \<exists>y. rc cb d x = Inr y"
  shows "\<exists>q' st'. queue_execute_pending pick arrive f rc (q, st) = Inr (q', st') \<and> queue_ok slots q'
    \<and> connect_qps (rdma q') = connect_qps (rdma q)"
proof -
  from queue_execute_pending_eq [of q pick arrive f rc st] obtain order q' where o: "queue_execute_pending pick arrive f rc (q, st)
      = mapR (\<lambda>st. (q', st)) (foldR (complete_read f rc) (map (arrived arrive) order) st)"
    "pending_read_queue q' = []" "slot_bag q' = slot_bag q" "token_bag q' = token_bag q" by (elim exE conjE)
  have "\<exists>y. complete_read f rc s x = Inr y" for s x
  proof -
    obtain y where "f s x = Inr y" using assms(2) by blast
    then show ?thesis using assms(3) by (simp add: complete_read_def split: option.split)
  qed
  then obtain st' where "foldR (complete_read f rc) (map (arrived arrive) order) st = Inr st'"
    using foldR_total [of "\<lambda>_. True" st "map (arrived arrive) order" "complete_read f rc"] by auto
  with o(1) have e: "queue_execute_pending pick arrive f rc (q, st) = Inr (q', st')" by simp
  have "connect_qps (rdma q') = connect_qps (rdma q)"
  proof -
    let ?order = "drain_order pick (pending_read_queue q)"
    have "queue_execute_pending pick arrive f rc (q, st) = mapR (\<lambda>st. (fold release_slot (map (arrived arrive) ?order) (q\<lparr>pending_read_queue := []\<rparr>), st))
        (foldR (complete_read f rc) (map (arrived arrive) ?order) st)"
      by (simp add: queue_execute_pending_def drainR_eq_foldR execute_fold)
    with e have "q' = fold release_slot (map (arrived arrive) ?order) (q\<lparr>pending_read_queue := []\<rparr>)" by (auto simp: mapR_Inr_iff)
    then show ?thesis by (simp add: fold_release_qps)
  qed
  with e o assms(1) show ?thesis by (simp add: queue_ok_def)
qed

lemma evicted_typed:
  assumes "enabled (sn_config sn) \<longrightarrow> snapshot_ok sn \<and> len \<le> length (sn_entries sn)" "k < len" "k < 2 ^ 31"
  shows "\<exists>sn'. update_evicted (of_int (int k)) sn = Inr sn' \<and> (enabled (sn_config sn') \<longrightarrow> snapshot_ok sn' \<and> len \<le> length (sn_entries sn'))"
proof (cases "enabled (sn_config sn)")
  case False
  then show ?thesis by (simp add: update_evicted_def update_entry_def)
next
  case True
  have "unat (of_int (int k) :: u64) = k" using assms(3) unat_of_nat_u64 [of k] by simp
  then show ?thesis using True assms update_counter_in [of sn "of_int (int k)" Evict] by auto
qed

text \<open>What a cache change does to the logs or to the indexes.\<close>

lemma cache_change_typed:
  assumes "kv_wf P n len slots m (kv, sn)"
    and "use_cache_logs (kv_config kv) \<Longrightarrow> case r1 of Inl e \<Rightarrow> e \<in> kv_faults | Inr (ps, cl) \<Rightarrow> log_ok n m cl \<and> (\<forall>p \<in> set ps. fst (post_qp p) < n)"
    and "case r2 of Inl e \<Rightarrow> e \<in> kv_faults | Inr (ps, ci) \<Rightarrow> ci_ok (kv_api P) n len m ci \<and> (\<forall>p \<in> set ps. fst (post_qp p) < n)"
    and "enabled (sn_config sn') \<longrightarrow> snapshot_ok sn' \<and> len \<le> length (sn_entries sn')"
  shows "well_typed P n len slots m
    (mapR (\<lambda>(ps, kv). (ps, kv\<lparr>writes := writes kv + 1\<rparr>, sn', st))
      (if use_cache_logs (kv_config kv) then mapR (\<lambda>(ps, cl). (ps, kv\<lparr>cache_index_logs := cl\<rparr>)) r1
       else mapR (\<lambda>(ps, ci). (ps, kv\<lparr>cache_indexes := ci\<rparr>)) r2))"
  using assms by (cases r1; cases r2) (auto simp: well_typed_def kv_wf_def kv_ok_def split: if_splits)

lemma mapR_mapR: "mapR f (mapR g r) = mapR (\<lambda>x. f (g x)) r"
  by (cases r) simp_all

text \<open>What well-formedness gives to each operation.\<close>

lemma kv_wfD:
  assumes "kv_wf P n len slots m (kv, sn)"
  shows "kv_ok P n len slots m kv" "ci_ok (kv_api P) n len m (cache_indexes kv)" "queue_ok slots (key_value_storage kv)"
    "use_cache_logs (kv_config kv) \<Longrightarrow> log_ok n m (cache_index_logs kv)"
    "enabled (sn_config sn) \<longrightarrow> snapshot_ok sn \<and> len \<le> length (sn_entries sn)"
  using assms by (simp_all add: kv_wf_def kv_ok_def)

lemma cache_write_typed:
  assumes "kv_wf P n len slots m (kv, sn)" "call_ok n len (Cache_write key)" "1 < n"
  shows "well_typed P n len slots m (kv_do P F (Cache_write key) (kv, sn, st))"
proof -
  note wf = kv_wfD [OF assms(1)]
  obtain k where k: "stoi key = Inr (int k)" "k < len" using assms(2) by auto
  have eq: "kv_do P F (Cache_write key) (kv, sn, st) = mapR (\<lambda>(ps, kv). (ps, kv\<lparr>writes := writes kv + 1\<rparr>, sn, st))
      (if use_cache_logs (kv_config kv)
       then mapR (\<lambda>(ps, cl). (ps, kv\<lparr>cache_index_logs := cl\<rparr>))
         (append_entry_k (sizeof_log_entry P) (pick_token P) (first_remote_entry P) key (cache_index_logs kv, cache_indexes kv))
       else mapR (\<lambda>(ps, ci). (ps, kv\<lparr>cache_indexes := ci\<rparr>)) (write_remote (kv_api P) (pick_token P) key (cache_indexes kv)))"
    by (simp add: on_write_def mapR_mapR case_prod_beta)
  show ?thesis unfolding eq
    by (rule cache_change_typed [OF assms(1) append_entry_k_typed [OF wf(4,2) k] write_remote_typed [OF wf(2) k assms(3)] wf(5)])
qed

lemma cache_eviction_typed:
  assumes "kv_wf P n len slots m (kv, sn)" "call_ok n len (Cache_eviction key)" "1 < n"
  shows "well_typed P n len slots m (kv_do P F (Cache_eviction key) (kv, sn, st))"
proof -
  note wf = kv_wfD [OF assms(1)]
  obtain k where k: "stoi key = Inr (int k)" "k < len" "k < 2 ^ 31" using assms(2) by auto
  from evicted_typed [OF wf(5) k(2,3)] obtain sn' where sn': "update_evicted (of_int (int k)) sn = Inr sn'"
    "enabled (sn_config sn') \<longrightarrow> snapshot_ok sn' \<and> len \<le> length (sn_entries sn')" by blast
  have eq: "kv_do P F (Cache_eviction key) (kv, sn, st) = mapR (\<lambda>(ps, kv). (ps, kv\<lparr>writes := writes kv + 1\<rparr>, sn', st))
      (if use_cache_logs (kv_config kv)
       then mapR (\<lambda>(ps, cl). (ps, kv\<lparr>cache_index_logs := cl\<rparr>))
         (append_entry_k (sizeof_log_entry P) (pick_token P) (first_remote_entry P) key (cache_index_logs kv, cache_indexes kv))
       else mapR (\<lambda>(ps, ci). (ps, kv\<lparr>cache_indexes := ci\<rparr>)) (dealloc_remote (kv_api P) (pick_token P) key (cache_indexes kv)))"
    using sn'(1) k(1) by (simp add: on_eviction_def mapR_mapR case_prod_beta)
  show ?thesis unfolding eq
    by (rule cache_change_typed [OF assms(1) append_entry_k_typed [OF wf(4,2) k(1,2)] dealloc_remote_typed [OF wf(2) k(1,2) assms(3)] sn'(2)])
qed

lemma remote_read_typed:
  assumes "kv_wf P n len slots m (kv, sn)" "call_ok n len (Remote_read i k)"
  shows "well_typed P n len slots m (kv_do P F (Remote_read i k) (kv, sn, st))"
proof -
  note wf = kv_wfD [OF assms(1)]
  let ?e = "rdma_cache_indexes (cache_indexes kv) ! i ! unat k"
  have i: "i < n" "unat k < len" using assms(2) by simp_all
  then have "kv_read P i k kv = storage_read P i None ?e kv" using wf(2) by (simp add: kv_read_def get_cache_index_def ci_ok_def)
  then show ?thesis using storage_read_typed [OF wf(1) i(1), of None ?e] wf(4,5)
    by (cases "storage_read P i None ?e kv") (auto simp: well_typed_def kv_wf_def)
qed

lemma remote_read_callback_typed:
  assumes "kv_wf P n len slots m (kv, sn)" "call_ok n len (Remote_read_callback k cb)"
  shows "well_typed P n len slots m (kv_do P F (Remote_read_callback k cb) (kv, sn, st))"
proof -
  note wf = kv_wfD [OF assms(1)]
  have k: "unat k < len" using assms(2) by simp
  have c: "kv_servers kv = n" using wf(2) by (simp add: ci_ok_def)
  let ?hs = "filter (\<lambda>i. i \<noteq> kv_me kv \<and> valid_entry (kv_api P) (rdma_cache_indexes (cache_indexes kv) ! i ! unat k)) [0..<n]"
  have f: "find_holder (kv_api P) (cache_indexes kv) k [0..<kv_servers kv]
      = Inr (case ?hs of [] \<Rightarrow> None | i # _ \<Rightarrow> Some (i, rdma_cache_indexes (cache_indexes kv) ! i ! unat k))"
    unfolding c by (rule find_holder_eq [OF wf(2) k upt_below])
  show ?thesis
  proof (cases ?hs)
    case Nil
    then show ?thesis using f assms(1) by (simp add: read_callback_def well_typed_def)
  next
    case (Cons i "is")
    let ?e = "rdma_cache_indexes (cache_indexes kv) ! i ! unat k"
    have "i \<in> set ?hs" unfolding Cons by simp
    then have i: "i < n" by simp
    have "read_callback P k cb kv = mapR (\<lambda>(p, kv). (True, [p], kv)) (storage_read P i (Some cb) ?e kv)"
      using f by (simp add: Cons read_callback_def)
    then show ?thesis using storage_read_typed [OF wf(1) i, of "Some cb" ?e] wf(4,5)
      by (cases "storage_read P i (Some cb) ?e kv") (auto simp: well_typed_def kv_wf_def)
  qed
qed

lemma repair_typed:
  assumes "kv_wf P n len slots m (kv, sn)" "call_ok n len (Repair expected_key key)"
  shows "well_typed P n len slots m (kv_do P F (Repair expected_key key) (kv, sn, st))"
proof -
  note wf = kv_wfD [OF assms(1)]
  have k: "unat expected_key < len" "unat key < len" using assms(2) by simp_all
  have n: "servers (cache_indexes kv) = n" using wf(2) by (simp add: ci_ok_def)
  have "\<exists>ci'. update_local_key (kv_api P) expected_key key (cache_indexes kv) = Inr ci' \<and> ci_ok (kv_api P) n len m ci'"
    using update_local_loop [OF wf(2) k upt_below] wf(2) unfolding update_local_key_def n by auto
  then show ?thesis using assms(1) by (auto simp: kv_update_local_key_def well_typed_def kv_wf_def kv_ok_def)
qed

text \<open>The callbacks of \<open>execute_pending\<close> belong to the caller; they have to return.\<close>

definition callbacks_return :: "('d, 'c, 's) kv_callbacks \<Rightarrow> bool" where
  "callbacks_return F \<longleftrightarrow> (\<forall>s x. \<exists>y. on_storage_read F s x = Inr y) \<and> (\<forall>cb d x. \<exists>y. run_cb F cb d x = Inr y)
     \<and> (\<forall>x. \<exists>y. on_index_write F x = Inr y)"

lemma execute_pending_typed:
  assumes "kv_wf P n len slots m (kv, sn)" "callbacks_return F"
  shows "well_typed P n len slots m (kv_do P F Execute_pending (kv, sn, st))"
proof -
  note wf = kv_wfD [OF assms(1)]
  have cb: "\<And>s x. \<exists>y. on_storage_read F s x = Inr y" "\<And>cb d x. \<exists>y. run_cb F cb d x = Inr y" "\<And>x. \<exists>y. on_index_write F x = Inr y"
    using assms(2) by (simp_all add: callbacks_return_def)
  let ?cl = "cache_index_logs kv" let ?ci = "cache_indexes kv"
  obtain d1 st1 where 1: "drain_writes (pick_token P) (on_index_write F) (cl_pending_write_queue ?cl) (cl_rdma ?cl, st) = Inr (d1, st1)"
    "connect_qps d1 = connect_qps (cl_rdma ?cl)" "server_configs d1 = server_configs (cl_rdma ?cl)" "machine_index d1 = machine_index (cl_rdma ?cl)"
    "free_request_token_queue (cl_rdma ?cl) \<noteq> [] \<longrightarrow> free_request_token_queue d1 \<noteq> []"
    using drain_writes_typed [of "on_index_write F", OF cb(3)] by blast
  obtain d2 st2 where 2: "drain_writes (pick_token P) (on_index_write F) (pending_write_queue ?ci) (ci_rdma ?ci, st1) = Inr (d2, st2)"
    "connect_qps d2 = connect_qps (ci_rdma ?ci)" "server_configs d2 = server_configs (ci_rdma ?ci)" "machine_index d2 = machine_index (ci_rdma ?ci)"
    using drain_writes_typed [of "on_index_write F", OF cb(3)] by blast
  obtain q st3 where 3: "queue_execute_pending (pick_slot P) (arrive_data F) (on_storage_read F) (run_cb F) (key_value_storage kv, st2) = Inr (q, st3)"
    "queue_ok slots q" "connect_qps (rdma q) = connect_qps (rdma (key_value_storage kv))"
    using queue_execute_typed [OF wf(3), of "on_storage_read F" "run_cb F", OF cb(1,2)] by blast
  have "ci_ok (kv_api P) n len m (?ci\<lparr>ci_rdma := d2, pending_write_queue := []\<rparr>)" using wf(2) 2 by (simp add: ci_ok_def)
  moreover have "use_cache_logs (kv_config kv) \<Longrightarrow> log_ok n m (?cl\<lparr>cl_rdma := d1, cl_pending_write_queue := []\<rparr>)"
    using wf(4) 1 by (simp add: log_ok_def)
  ultimately show ?thesis using 1(1) 2(1) 3 wf(1,5)
    by (simp add: kv_execute_pending_def logs_execute_pending_def indexes_execute_pending_def well_typed_def kv_wf_def kv_ok_def)
qed

section \<open>Properties\<close>

text \<open>
  Every call of a public operation with keys and servers in range is well typed: it never uses
  anything out of range, undefined or uninitialised, and ends only in a fault that the code raises.
\<close>

lemma kv_operations_well_typed:
  assumes "kv_wf P n len slots m (kv, sn)" "call_ok n len call" "1 < n" "callbacks_return F"
  shows "well_typed P n len slots m (kv_do P F call (kv, sn, st))"
  using assms cache_write_typed cache_eviction_typed remote_read_typed remote_read_callback_typed repair_typed execute_pending_typed
  by (cases call) (simp_all only:)

section \<open>From the start of a server on\<close>

text \<open>
  The constructor: the arrays of the index, the logs and the storage of values are built one after
  the other, each with its own connections. \<open>own\<close> and \<open>allocate\<close> are the third-party arrays.
\<close>

definition make_RDMAKeyValueCache ::
    "('e, 'd, 'c) kv_params \<Rightarrow> 'e list \<Rightarrow> (nat \<Rightarrow> 'e list) \<Rightarrow> (nat \<Rightarrow> nat) \<Rightarrow> nat \<Rightarrow> u64 \<Rightarrow> remote_machine list \<Rightarrow> configuration \<Rightarrow> nat
      \<Rightarrow> ('e, 'd, 'c) kv_cache res" where
  "make_RDMAKeyValueCache P own allocate alloc key_value_buffer key_value_buffer_size configs config m =
     (let ci = make_CacheIndexes (kv_api P) own allocate configs m in
      bindR (make_CacheIndexLogs (kv_api P) (sizeof_log_entry P) configs config m) (\<lambda>cl.
      Inr \<lparr>kv_config = config, cache_indexes = ci, cache_index_logs = cl,
           key_value_storage = make_KeyValueStorage alloc (sizeof_key_value P) (empty_key_value P) key_value_buffer key_value_buffer_size configs m,
           writes = 0\<rparr>))"

lemma add_slots_frame:
  "connect_qps (rdma (add_slots alloc sz d0 k q)) = connect_qps (rdma q)"
  "server_configs (rdma (add_slots alloc sz d0 k q)) = server_configs (rdma q)"
  by (induction k) (auto simp: Let_def get_buffer_frameD split: prod.splits)

lemma rdma_listen_frame:
  "connect_qps (rdma_listen port b sz d) = connect_qps d" "server_configs (rdma_listen port b sz d) = server_configs d"
  "free_request_token_queue (rdma_listen port b sz d) = free_request_token_queue d"
  by (auto simp: rdma_listen_def get_buffer_frameD split: prod.splits)

lemma make_KeyValueStorage_ok:
  fixes configs
  defines "n \<equiv> length (filter rm_server configs)"
  shows "queue_ok CacheIndexValueQueueSize (make_KeyValueStorage alloc sz d0 kvb kvs configs m)"
    "connect_qps (rdma (make_KeyValueStorage alloc sz d0 kvb kvs configs m)) = map (\<lambda>i. (i, KEY_VALUE_STORAGE_PORT)) [0..<n]"
proof -
  have "queue_ok CacheIndexValueQueueSize (make_RDMADataWithQueue alloc sz d0 configs m CacheIndexValueQueueSize)"
    by (rule make_queue_ok) (simp add: CacheIndexValueQueueSize_def FreeRequestTokenQueueSize_def)
  then show "queue_ok CacheIndexValueQueueSize (make_KeyValueStorage alloc sz d0 kvb kvs configs m)"
    by (simp add: make_KeyValueStorage_def Let_def queue_ok_def slot_bag_def token_bag_def rdma_listen_frame rdma_connect_def)
  show "connect_qps (rdma (make_KeyValueStorage alloc sz d0 kvb kvs configs m)) = map (\<lambda>i. (i, KEY_VALUE_STORAGE_PORT)) [0..<n]"
    by (simp add: make_KeyValueStorage_def Let_def rdma_listen_frame rdma_connect_def make_RDMADataWithQueue_def add_slots_frame
        make_RDMAData_def n_def)
qed

lemma make_RDMAKeyValueCache_ok:
  fixes configs
  defines "n \<equiv> length (filter rm_server configs)"
  assumes "m < n" "length own = len" "\<forall>i < n. length (allocate i) = len"
    and "use_cache_logs config \<longrightarrow> 0 < cache_log_sync_every_x_operations config \<and> cache_log_sync_every_x_operations config < 2 ^ 31"
  shows "\<exists>kv. make_RDMAKeyValueCache P own allocate alloc kvb kvs configs config m = Inr kv
    \<and> kv_ok P n len CacheIndexValueQueueSize m kv \<and> kv_config kv = config
    \<and> (use_cache_logs config \<longrightarrow> log_ok n m (cache_index_logs kv))"
proof -
  have "\<exists>cl. make_CacheIndexLogs (kv_api P) (sizeof_log_entry P) configs config m = Inr cl \<and> (use_cache_logs config \<longrightarrow> log_ok n m cl)"
  proof (cases "use_cache_logs config")
    case True
    then show ?thesis using make_CacheIndexLogs_ok [OF True _ _ assms(2) n_def [THEN meta_eq_to_obj_eq], of "kv_api P" "sizeof_log_entry P"] assms(5) by blast
  qed (simp add: make_CacheIndexLogs_def Let_def)
  then obtain cl where cl: "make_CacheIndexLogs (kv_api P) (sizeof_log_entry P) configs config m = Inr cl" "use_cache_logs config \<longrightarrow> log_ok n m cl"
    by blast
  show ?thesis
    using cl(2) make_CacheIndexes_ok(1) [of m configs own len allocate "kv_api P"] assms(2-4)
    by (simp add: make_RDMAKeyValueCache_def Let_def cl(1) kv_ok_def n_def make_KeyValueStorage_ok)
qed

text \<open>A session: calls one after the other, up to the first fault.\<close>

definition kv_session ::
    "('e, 'd, 'c) kv_params \<Rightarrow> ('d, 'c, 's) kv_callbacks \<Rightarrow> 'c kv_call list \<Rightarrow> ('e, 'd, 'c) kv_cache \<times> Snapshot \<times> 's
     \<Rightarrow> (('e, 'd, 'c) kv_cache \<times> Snapshot \<times> 's) res" where
  "kv_session P F = foldR (\<lambda>call st. mapR snd (kv_do P F call st))"

lemma kv_session_typed:
  assumes "kv_wf P n len slots m (kv, sn)" "\<forall>call \<in> set calls. call_ok n len call" "1 < n" "callbacks_return F"
  shows "case kv_session P F calls (kv, sn, st) of Inl e \<Rightarrow> e \<in> kv_faults | Inr (kv, sn, st) \<Rightarrow> kv_wf P n len slots m (kv, sn)"
  using assms(1,2)
proof (induction calls arbitrary: kv sn st)
  case (Cons call calls)
  have w: "well_typed P n len slots m (kv_do P F call (kv, sn, st))"
    using Cons.prems assms(3,4) by (intro kv_operations_well_typed) simp_all
  show ?case
  proof (cases "kv_do P F call (kv, sn, st)")
    case (Inl e)
    then show ?thesis using w by (simp add: kv_session_def well_typed_def)
  next
    case (Inr r)
    obtain ps kv1 sn1 st1 where r: "r = (ps, kv1, sn1, st1)" by (metis prod_cases4)
    from w have "kv_wf P n len slots m (kv1, sn1)" by (simp add: Inr r well_typed_def)
    then show ?thesis using Cons.IH [of kv1 sn1 st1] Cons.prems(2) by (simp add: kv_session_def Inr r)
  qed
qed (simp add: kv_session_def)

text \<open>The events of the cache that owns the index are typed in the same way.\<close>

fun event_ok :: "nat \<Rightarrow> 'e cache_event \<Rightarrow> bool" where
  "event_ok len (Entry_stored k e) \<longleftrightarrow> k < len"
| "event_ok len (Key_written key) \<longleftrightarrow> (\<exists>k < len. k < 2 ^ 31 \<and> stoi key = Inr (int k))"
| "event_ok len (Key_evicted key) \<longleftrightarrow> (\<exists>k < len. k < 2 ^ 31 \<and> stoi key = Inr (int k))"

lemma cache_event_typed:
  assumes "kv_wf P n len slots m (kv, sn)" "event_ok len ev" "1 < n"
  shows "case run_cache_event P ev (kv, sn) of Inl e \<Rightarrow> e \<in> kv_faults | Inr s \<Rightarrow> kv_wf P n len slots m s"
proof (cases ev)
  case (Entry_stored k e)
  have "ci_ok (kv_api P) n len m (set_entry m k e (cache_indexes kv))" "kv_me kv = m" using kv_wfD(2) [OF assms(1)]
    by (auto simp: ci_ok_def set_entry_def nth_list_update)
  then show ?thesis using assms(1) by (simp add: Entry_stored kv_wf_def kv_ok_def)
next
  case (Key_written key)
  have "well_typed P n len slots m (kv_do P undefined (Cache_write key) (kv, sn, ()))"
    using assms by (intro cache_write_typed) (simp_all add: Key_written)
  then show ?thesis by (cases "on_write P key kv") (auto simp: Key_written well_typed_def)
next
  case (Key_evicted key)
  have "well_typed P n len slots m (kv_do P undefined (Cache_eviction key) (kv, sn, ()))"
    using assms by (intro cache_eviction_typed) (simp_all add: Key_evicted)
  then show ?thesis by (cases "on_eviction P key (kv, sn)") (auto simp: Key_evicted well_typed_def)
qed

lemma cache_events_typed:
  assumes "kv_wf P n len slots m s" "\<forall>ev \<in> set evs. event_ok len ev" "1 < n" "foldR (run_cache_event P) evs s = Inr s'"
  shows "kv_wf P n len slots m s'"
  using assms(1,2,4)
proof (induction evs arbitrary: s)
  case (Cons ev evs)
  then obtain s1 where s1: "run_cache_event P ev s = Inr s1" "foldR (run_cache_event P) evs s1 = Inr s'" by (auto simp: bindR_Inr_iff)
  have "kv_wf P n len slots m s1"
    using cache_event_typed [of P n len slots m "fst s" "snd s" ev] Cons.prems assms(3) s1(1) by simp
  then show ?case using Cons.IH [OF _ _ s1(2)] Cons.prems(2) by simp
qed simp

lemma fresh_Snapshot_ok:
  assumes "make_Snapshot config = Inr sn" "NUM_KEY_VALUE_PAIRS config < 2 ^ 31"
  shows "enabled (sn_config sn) \<longrightarrow> snapshot_ok sn \<and> length (sn_entries sn) = nat (NUM_KEY_VALUE_PAIRS config)"
  using assms by (auto simp: make_Snapshot_def snapshot_ok_def split: if_splits)


definition sample_callbacks :: "(u64, string, nat) kv_callbacks" where
  "sample_callbacks = \<lparr>arrive_data = (\<lambda>_. 0), on_storage_read = (\<lambda>_ n. Inr n), run_cb = (\<lambda>_ _ n. Inr (Suc n)), on_index_write = Inr\<rparr>"


end
