(* ===== verification/Startup.thy ===== *)
theory Startup
  imports Placement Dataset Client_Worker Server_Worker Access_Climb
begin

text \<open>
  What \<open>main\<close> (\<open>src/src/ldc.cpp\<close>) and \<open>src/src/rdma_server.cpp\<close> do to bring a machine up: the
  connections to the memory of the servers, the range of keys a server loads, the loading of the
  cache, the database and the registered memory, the servers and clients with their threads, and
  the monitoring loops.

  A region of registered memory is what \<open>Placement\<close> writes to and reads from. The block cache is
  the record of functions of \<open>Server_Worker\<close>; \<open>db_put\<close> stands for \<open>get_db()->put\<close>. Waiting for
  threads, timing and log messages are left out; the local count of expected keys is not read.
\<close>

section \<open>The key range of a server\<close>

text \<open>\<open>server_index * (static_cast<float>(NUM_KEY_VALUE_PAIRS) / NUM_NODES)\<close>\<close>

definition key_bound :: "configuration \<Rightarrow> int \<Rightarrow> rat" where
  "key_bound config server_index =
     f32 (f32 (of_int server_index)
       * f32 (f32 (of_int (NUM_KEY_VALUE_PAIRS config)) / f32 (of_int (NUM_NODES config))))"

definition key_range :: "configuration \<Rightarrow> int \<Rightarrow> rat \<times> rat" where
  "key_range config server_index = (key_bound config server_index, key_bound config (server_index + 1))"

definition u64_of_float :: "rat \<Rightarrow> u64 res" where
  "u64_of_float x =
     (if - 1 < x \<and> x < 2 ^ 64 then Inr (of_int (trunc x)) else Inl (Undefined ''float out of range of uint64_t''))"

text \<open>\<open>key_min\<close> and \<open>key_max\<close>; with no nodes the bounds are infinite or not a number.\<close>

definition key_limits :: "configuration \<Rightarrow> int \<Rightarrow> (u64 \<times> u64) res" where
  "key_limits config server_index =
     (if NUM_NODES config = 0 then Inl (Undefined ''float out of range of uint64_t'')
      else bindR (u64_of_float (fst (key_range config server_index))) (\<lambda>key_min.
           bindR (u64_of_float (snd (key_range config server_index))) (\<lambda>key_max. Inr (key_min, key_max))))"

text \<open>\<open>key_index >= start_keys && key_index < end_keys\<close>\<close>

definition owned :: "rat \<times> rat \<Rightarrow> int \<Rightarrow> bool" where
  "owned r kx \<longleftrightarrow> fst r \<le> f32 (of_int kx) \<and> f32 (of_int kx) < snd r"

section \<open>Loading the keys\<close>

record ('b, 'e, 'd, 'c) startup_params =
  sp_cache :: "'b block_cache_api"
  sp_db_put :: "string \<Rightarrow> string \<Rightarrow> 'b \<Rightarrow> 'b"
  sp_config :: configuration
  sp_machines :: "remote_machine list"
  sp_policy_type :: string
  sp_one_sided :: bool
  sp_cache_indexing :: bool
  sp_kv_params :: "('e, 'd, 'c) kv_params"
  sp_put_events :: "string \<Rightarrow> string \<Rightarrow> 'b \<Rightarrow> 'e cache_event list"

definition default_value :: "configuration \<Rightarrow> string res" where
  "default_value config =
     (if VALUE_SIZE config < 0 then Inl (Throw ''length_error'') else Inr (replicate (nat (VALUE_SIZE config)) CHR ''A''))"

text \<open>
  A put into the cache that the key-value cache has registered its callbacks with: the events of
  the put run on the key-value cache and the statistics, and a callback that faults ends the loading.
\<close>

type_synonym ('b, 'e, 'd, 'c) indexed_cache = "'b \<times> ('e, 'd, 'c) kv_cache \<times> Snapshot"

definition put_with_callbacks ::
    "('b, 'e, 'd, 'c) startup_params \<Rightarrow> string \<Rightarrow> string \<Rightarrow> ('b, 'e, 'd, 'c) indexed_cache \<Rightarrow> ('b, 'e, 'd, 'c) indexed_cache res" where
  "put_with_callbacks P k v = (\<lambda>(b, s).
     mapR (Pair (block_cache_put (sp_cache P) k v b)) (foldR (run_cache_event (sp_kv_params P)) (sp_put_events P k v b) s))"

definition add_key_indexed ::
    "('b, 'e, 'd, 'c) startup_params \<Rightarrow> rat \<times> rat \<Rightarrow> string \<Rightarrow> string \<Rightarrow> ('b, 'e, 'd, 'c) indexed_cache \<Rightarrow> ('b, 'e, 'd, 'c) indexed_cache res" where
  "add_key_indexed P r v k b =
     bindR (stoi k) (\<lambda>kx.
     if owned r kx \<and> sp_policy_type P = ''thread_safe_lru'' then put_with_callbacks P k v b else Inr b)"

definition add_key_plain :: "('b, 'e, 'd, 'c) startup_params \<Rightarrow> rat \<times> rat \<Rightarrow> string \<Rightarrow> string \<Rightarrow> 'b \<Rightarrow> 'b res" where
  "add_key_plain P r v k b =
     bindR (stoi k) (\<lambda>kx.
     Inr (if owned r kx \<and> sp_policy_type P = ''thread_safe_lru'' then block_cache_put (sp_cache P) k v b
          else sp_db_put P k v b))"

text \<open>The buffer of \<open>BLKSZ\<close> bytes: zeros, then the value copied to its front.\<close>

definition value_bytes :: "string \<Rightarrow> byte list" where
  "value_bytes v = map of_char v"

definition value_block :: "string \<Rightarrow> byte list res" where
  "value_block v =
     (if length v \<le> BLKSZ then Inr (value_bytes v @ replicate (BLKSZ - length v) 0)
      else Inl (Undefined ''copy past the end of write_buffer''))"

text \<open>The index of the first server, uninitialised when there is none.\<close>

definition first_server_index :: "remote_machine list \<Rightarrow> int res" where
  "first_server_index configs =
     (case filter rm_server configs of [] \<Rightarrow> Inl (Undefined ''server_start_index'') | r # _ \<Rightarrow> Inr (int (rm_index r)))"

definition write_key :: "('b, 'e, 'd, 'c) startup_params \<Rightarrow> rat \<times> rat \<Rightarrow> byte list \<Rightarrow> string \<Rightarrow> rdma_nodes \<Rightarrow> rdma_nodes res" where
  "write_key P r block k nodes =
     bindR (stoi k) (\<lambda>kx.
     if owned r kx
     then bindR (first_server_index (sp_machines P)) (\<lambda>server_start_index.
          write_correct_node (sp_config P) server_start_index (of_int kx) block nodes)
     else Inr nodes)"

text \<open>
  \<open>remote_nodes\<close> is the outcome of connecting to the memory of the servers, which happens before
  any key is loaded and only with one-sided access, \<open>key_value_cache\<close> that of the constructor of the
  key-value cache, which with the index comes next and registers its callbacks.
\<close>

definition preload ::
    "('b, 'e, 'd, 'c) startup_params \<Rightarrow> int \<Rightarrow> files \<Rightarrow> 'b \<Rightarrow> Snapshot \<Rightarrow> rdma_nodes res \<Rightarrow> ('e, 'd, 'c) kv_cache res
      \<Rightarrow> ((u64 \<times> u64) \<times> 'b \<times> rdma_nodes \<times> ('e, 'd, 'c) kv_cache option \<times> Snapshot) res" where
  "preload P m fs b sn remote_nodes key_value_cache =
     (let config = sp_config P; server_index = m - int (first_server (sp_machines P));
          r = key_range config server_index in
      bindR (key_limits config server_index) (\<lambda>limits.
      let keys = readKeysFromFile fs (DATASET_FILE config) in
      if keys = [] then Inl (Panic ''Dataset keys are empty'')
      else
        bindR (default_value config) (\<lambda>v.
        if \<not> sp_one_sided P then Inr (limits, b, Map.empty, None, sn)
        else
          bindR remote_nodes (\<lambda>nodes.
          if sp_cache_indexing P then
            bindR key_value_cache (\<lambda>kv.
            bindR (foldR (add_key_indexed P r v) keys (b, kv, sn)) (\<lambda>(b, kv, sn).
            bindR (value_block v) (\<lambda>write_buffer.
            Inr (limits, b, nodes, Some kv, sn))))
          else
            bindR (foldR (add_key_plain P r v) keys b) (\<lambda>b.
            bindR (value_block v) (\<lambda>write_buffer.
            mapR (\<lambda>nodes. (limits, b, nodes, None, sn)) (foldR (write_key P r write_buffer) keys nodes)))))))"

section \<open>Connecting to the servers\<close>

record rdma_node =
  nd_ip :: string
  nd_index :: u64
  nd_circular_buffer :: "circular_buffer option"
  nd_free_blocks :: u64
  nd_is_local :: bool
  nd_local_memory :: "nat option"

text \<open>
  The settings of the third-party cache that the connections use: the selected baseline, the size
  of each cache and the size of a block. The device is looked up by \<open>find_nic_containing\<close>.
\<close>

record cache_settings =
  baseline_selected :: string
  configured_cache_size :: "string \<Rightarrow> rat"
  block_size :: int

definition selected_cache_size :: "cache_settings \<Rightarrow> rat" where
  "selected_cache_size cs =
     (if baseline_selected cs \<in> {''random'', ''lru'', ''split'', ''thread_safe_lru''}
      then f32 (configured_cache_size cs (baseline_selected cs)) else 1)"

definition free_blocks_of :: "cache_settings \<Rightarrow> u64 res" where
  "free_blocks_of cs =
     (if block_size cs = 0 then Inl (Undefined ''float out of range of uint64_t'')
      else u64_of_float (f32 (f32 (selected_cache_size cs * f32 (of_int GB_TO_BYTES)) / f32 (of_int (block_size cs)))))"

definition connect_server ::
    "cache_settings \<Rightarrow> bool \<Rightarrow> (nat \<Rightarrow> byte list) \<Rightarrow> int \<Rightarrow> int \<Rightarrow> remote_machine
      \<Rightarrow> (u64 \<rightharpoonup> rdma_node) \<Rightarrow> (u64 \<rightharpoonup> rdma_node) res" where
  "connect_server cs cache_indexing fresh m value_size t nodes =
     (if rm_server t
      then bindR (free_blocks_of cs) (\<lambda>free_blocks.
        Inr (nodes(of_nat (rm_index t) \<mapsto>
          \<lparr>nd_ip = rm_ip t, nd_index = of_nat (rm_index t),
           nd_circular_buffer =
             (if cache_indexing then None else Some (make_circular_buffer fresh RDMA_ASYNC_BUFFER_SIZE value_size)),
           nd_free_blocks = free_blocks, nd_is_local = (int (rm_index t) = m), nd_local_memory = None\<rparr>)))
      else Inr nodes)"

definition connect_to_servers ::
    "(string \<Rightarrow> string option) \<Rightarrow> cache_settings \<Rightarrow> bool \<Rightarrow> (nat \<Rightarrow> byte list) \<Rightarrow> remote_machine list \<Rightarrow> int \<Rightarrow> configuration
      \<Rightarrow> (u64 \<rightharpoonup> rdma_node) res" where
  "connect_to_servers find_nic_containing cs cache_indexing fresh configs m ops_config =
     (if find_nic_containing (infinity_bound_nic ops_config) = None then Inl (Panic ''No device found with name'')
      else foldR (connect_server cs cache_indexing fresh m (VALUE_SIZE ops_config)) configs Map.empty)"

text \<open>
  \<open>RDMA_Server_Init\<close> registers the memory and accepts one connection per node; it returns when
  that many have come in. The result is the memory, of which the size is kept; all servers are
  started with the same size, which is the bound of every remote read and write.
\<close>

definition RDMA_Server_Init :: "nat \<Rightarrow> (string \<Rightarrow> string option) \<Rightarrow> nat \<Rightarrow> configuration \<Rightarrow> nat res" where
  "RDMA_Server_Init buffer_size find_nic_containing incoming ops_config =
     (if find_nic_containing (infinity_bound_nic ops_config) = None then Inl (Panic ''No device found with name'')
      else if NUM_NODES ops_config \<le> 0 then Inl (Undefined ''array of queue pairs'')
      else if int incoming < NUM_NODES ops_config then Inl (Blocked ''acceptIncomingConnection'')
      else Inr buffer_size)"

text \<open>The two run side by side; then the entry of this machine gets its own memory.\<close>

definition connect_memory ::
    "(string \<Rightarrow> string option) \<Rightarrow> cache_settings \<Rightarrow> bool \<Rightarrow> (nat \<Rightarrow> byte list) \<Rightarrow> nat \<Rightarrow> remote_machine list \<Rightarrow> int \<Rightarrow> configuration
      \<Rightarrow> (u64 \<rightharpoonup> rdma_node) res" where
  "connect_memory find_nic_containing cs cache_indexing fresh incoming configs m ops_config =
     bindR (connect_to_servers find_nic_containing cs cache_indexing fresh configs m ops_config) (\<lambda>rdma_nodes.
     bindR (RDMA_Server_Init registered_bytes find_nic_containing incoming ops_config) (\<lambda>local_memory.
     case rdma_nodes (of_int m) of
       None \<Rightarrow> Inl (Undefined ''default RDMA_connect'')
     | Some nd \<Rightarrow> Inr (rdma_nodes(of_int m \<mapsto> nd\<lparr>nd_local_memory := Some local_memory\<rparr>))))"

text \<open>
  The start of a server up to the loaded memory; \<open>memory\<close> is the memory that each server has
  registered, which the connections reach.
\<close>

definition region_table :: "(u64 \<Rightarrow> region) \<Rightarrow> (u64 \<rightharpoonup> rdma_node) \<Rightarrow> rdma_nodes" where
  "region_table memory table = (\<lambda>i. map_option (\<lambda>_. memory i) (table i))"

definition start_server ::
    "('b, 'e, 'd, 'c) startup_params \<Rightarrow> (string \<Rightarrow> string option) \<Rightarrow> cache_settings \<Rightarrow> (nat \<Rightarrow> byte list) \<Rightarrow> nat \<Rightarrow> (u64 \<Rightarrow> region)
      \<Rightarrow> int \<Rightarrow> files \<Rightarrow> 'b \<Rightarrow> Snapshot \<Rightarrow> ('e, 'd, 'c) kv_cache res
      \<Rightarrow> ((u64 \<times> u64) \<times> 'b \<times> rdma_nodes \<times> ('e, 'd, 'c) kv_cache option \<times> Snapshot) res" where
  "start_server P find_nic_containing cs fresh incoming memory m fs b sn key_value_cache =
     preload P m fs b sn (mapR (region_table memory)
       (connect_memory find_nic_containing cs (sp_cache_indexing P) fresh incoming (sp_machines P) m (sp_config P))) key_value_cache"

section \<open>Servers, clients and their threads\<close>

definition make_servers :: "network \<Rightarrow> bool \<Rightarrow> remote_machine list \<Rightarrow> int \<Rightarrow> nat \<Rightarrow> server list res" where
  "make_servers net db_async configs m threads = mapMR (\<lambda>i. make_Server net db_async configs m (int i)) [0..<threads]"

definition make_clients :: "network \<Rightarrow> remote_machine list \<Rightarrow> int \<Rightarrow> nat \<Rightarrow> nat \<Rightarrow> connection list res" where
  "make_clients net configs m threads clients_per_threads =
     mapMR (\<lambda>(i, j). make_Client net configs m (int i)) (List.product [0..<threads] [0..<clients_per_threads])"

text \<open>
  The vectors hold shared pointers. What a thread gets is an object with its identity: the place in
  the vector under which it was made.
\<close>

definition allocated :: "'c list \<Rightarrow> (nat \<times> 'c) list" where
  "allocated objects = zip [0..<length objects] objects"

text \<open>What a client thread is started with: its client, its thread and its number in the thread.\<close>

definition client_threads :: "nat \<Rightarrow> nat \<Rightarrow> 'c list \<Rightarrow> ('c \<times> nat \<times> nat) list res" where
  "client_threads threads clients_per_threads clients =
     mapMR (\<lambda>(i, j). mapR (\<lambda>client. (client, i, j)) (vec_at clients (i * clients_per_threads + j)))
       (List.product [0..<threads] [0..<clients_per_threads])"

section \<open>Monitoring\<close>

text \<open>One second of the client monitor: the last count and for how long it has not changed.\<close>

definition client_monitor :: "u64 \<Rightarrow> u64 \<times> int \<Rightarrow> (u64 \<times> int) res" where
  "client_monitor current_ops_executed = (\<lambda>(last_ops_executed, ops_executed_same_time).
     if last_ops_executed = current_ops_executed \<and> last_ops_executed \<noteq> 0 \<and> current_ops_executed \<noteq> 0
     then bindR (ck_int (ops_executed_same_time + 1)) (\<lambda>ops_executed_same_time.
          if 10 < ops_executed_same_time \<and> current_ops_executed < 100000
          then Inl (Panic ''Program must be stuck'') else Inr (current_ops_executed, ops_executed_same_time))
     else Inr (current_ops_executed, 0))"

text \<open>
  One second of the server monitor: what it prints for each of the eight counters (the five of the
  program, then the three of the cache), and the values it remembers. The cache's own counters are looked up in its statistics by name.
\<close>

definition server_monitor :: "(string \<Rightarrow> u64 res) \<Rightarrow> u64 list \<Rightarrow> u64 list \<Rightarrow> ((u64 \<times> u64) list \<times> u64 list) res" where
  "server_monitor cache_info counters previous =
     bindR (mapMR cache_info [''reads'', ''cache_hit'', ''cache_miss'']) (\<lambda>cache_counters.
     let current = counters @ cache_counters in
     Inr (map (\<lambda>(c, l). (c, c - l)) (zip current previous), current))"

text \<open>
  One round of the access-rate thread: nothing until the cache is ready; then the frequencies are
  cleared, read and searched for a split, and the latencies used so far are written to a file. The
  wait until the next round is what is left of 240 seconds.
\<close>

definition write_latency_to_file :: "env \<Rightarrow> (u64 \<times> u64 \<times> u64) list \<Rightarrow> files \<Rightarrow> files" where
  "write_latency_to_file e latencies fs =
     (if env_can_open e ''latencies.txt''
      then fs(''latencies.txt'' \<mapsto> concat (map (\<lambda>(a, b, c). to_string_nat (unat a) @ '' '' @ to_string_nat (unat b) @ '' ''
          @ to_string_nat (unat c) @ [newline]) latencies))
      else fs)"

record 'b access_rate_api =
  ar_is_ready :: "'b \<Rightarrow> bool"
  ar_clear_frequency :: "'b \<Rightarrow> 'b"
  ar_key_freq_map :: "'b \<Rightarrow> (string \<times> u64) list"
  ar_block_db_num_entries :: "'b \<Rightarrow> u64"
  ar_cache_size :: "'b \<Rightarrow> u64"
  ar_apply :: "cache_call \<Rightarrow> 'b \<Rightarrow> 'b"

definition access_rate_round ::
    "'b access_rate_api \<Rightarrow> env \<Rightarrow> u64 \<times> u64 \<times> u64 \<Rightarrow> int
      \<Rightarrow> 'b \<times> (u64 \<times> u64 \<times> u64) list \<times> files \<Rightarrow> (int \<times> 'b \<times> (u64 \<times> u64 \<times> u64) list \<times> files) res" where
  "access_rate_round api e ns elapsed_seconds = (\<lambda>(b, latencies, fs).
     let (cache_ns, disk_ns, rdma_ns) = ns in
     if ar_is_ready api b
     then
       let b = ar_clear_frequency api b in
       bindR (get_and_sort_freq (ar_key_freq_map api b) (ar_block_db_num_entries api b)) (\<lambda>freq.
       let latencies = latencies @ [(cache_ns, rdma_ns, disk_ns)] in
       bindR (itr_through_all_the_perf_values_to_find_optimal (ar_cache_size api b) freq cache_ns disk_ns rdma_ns) (\<lambda>calls.
       Inr (max 0 (240 - elapsed_seconds), fold (ar_apply api) calls b, latencies, write_latency_to_file e latencies fs)))
     else Inr (1, b, latencies, fs))"

section \<open>The key ranges\<close>

definition machine_sizes :: "configuration \<Rightarrow> bool" where
  "machine_sizes config \<longleftrightarrow> 0 < NUM_NODES config \<and> NUM_NODES config < 2 ^ 30
     \<and> 0 \<le> NUM_KEY_VALUE_PAIRS config \<and> NUM_KEY_VALUE_PAIRS config < 2 ^ 31"

lemma share_nonneg: "machine_sizes config \<Longrightarrow>
    0 \<le> f32 (f32 (of_int (NUM_KEY_VALUE_PAIRS config)) / f32 (of_int (NUM_NODES config)))"
  by (intro fl_nonneg divide_nonneg_nonneg) (simp_all add: machine_sizes_def)

lemma key_bound_mono: "machine_sizes config \<Longrightarrow> s \<le> t \<Longrightarrow> key_bound config s \<le> key_bound config t"
  unfolding key_bound_def by (intro fl_mono mult_right_mono share_nonneg) simp_all

lemma key_bound_0 [simp]: "key_bound config 0 = 0"
  by (simp add: key_bound_def fl_def)

lemma f32_le_pow: "x \<le> 2 ^ k \<Longrightarrow> f32 x \<le> 2 ^ k"
  using fl_mono [of x "2 ^ k" 24] fl_exact [of 1 24 "int k"] by (simp add: power_int_def)

lemma f32_ge_1: "1 \<le> x \<Longrightarrow> 1 \<le> f32 x"
  using fl_ge_int [of 1 x 24] by simp

lemma key_bound_range:
  assumes "machine_sizes config" "0 \<le> s" "s < 2 ^ 31"
  shows "0 \<le> key_bound config s" "key_bound config s \<le> 2 ^ 62"
proof -
  show "0 \<le> key_bound config s" using key_bound_mono [OF assms(1,2)] by simp
  have n: "1 \<le> f32 (of_int (NUM_NODES config))" using assms(1) by (intro f32_ge_1) (simp add: machine_sizes_def)
  have a: "0 \<le> f32 (of_int (NUM_KEY_VALUE_PAIRS config))" "f32 (of_int (NUM_KEY_VALUE_PAIRS config)) \<le> 2 ^ 31"
    using assms(1) f32_le_pow [of "of_int (NUM_KEY_VALUE_PAIRS config)" 31] by (auto intro!: fl_nonneg simp: machine_sizes_def)
  then have "f32 (of_int (NUM_KEY_VALUE_PAIRS config)) / f32 (of_int (NUM_NODES config)) \<le> 2 ^ 31 / 1"
    using n by (intro frac_le) simp_all
  then have q: "f32 (f32 (of_int (NUM_KEY_VALUE_PAIRS config)) / f32 (of_int (NUM_NODES config))) \<le> 2 ^ 31"
    by (intro f32_le_pow) simp
  have s: "0 \<le> f32 (of_int s)" "f32 (of_int s) \<le> 2 ^ 31" using assms(2,3) f32_le_pow [of "of_int s" 31] by (auto intro!: fl_nonneg)
  have "f32 (of_int s) * f32 (f32 (of_int (NUM_KEY_VALUE_PAIRS config)) / f32 (of_int (NUM_NODES config))) \<le> 2 ^ 31 * 2 ^ 31"
    using s q share_nonneg [OF assms(1)] by (intro mult_mono) simp_all
  then show "key_bound config s \<le> 2 ^ 62" unfolding key_bound_def by (intro f32_le_pow) simp
qed

lemma key_limits_return:
  assumes "machine_sizes config" "0 \<le> s" "s < NUM_NODES config"
  shows "\<exists>limits. key_limits config s = Inr limits"
proof -
  have "s < 2 ^ 31" "s + 1 < 2 ^ 31" using assms by (simp_all add: machine_sizes_def)
  with key_bound_range [OF assms(1,2)] key_bound_range [of config "s + 1"] assms show ?thesis
    by (auto simp: key_limits_def key_range_def u64_of_float_def machine_sizes_def)
qed

text \<open>When the keys divide evenly and a \<open>float\<close> holds them exactly, so are the bounds.\<close>

definition even_split :: "configuration \<Rightarrow> bool" where
  "even_split config \<longleftrightarrow> 0 < NUM_NODES config \<and> 0 < NUM_KEY_VALUE_PAIRS config \<and> NUM_KEY_VALUE_PAIRS config \<le> 2 ^ 24
     \<and> NUM_NODES config dvd NUM_KEY_VALUE_PAIRS config"

definition keys_each :: "configuration \<Rightarrow> int" where
  "keys_each config = NUM_KEY_VALUE_PAIRS config div NUM_NODES config"

lemma even_split_sizes:
  assumes "even_split config"
  shows "NUM_KEY_VALUE_PAIRS config = keys_each config * NUM_NODES config" "0 < keys_each config"
    "NUM_NODES config \<le> NUM_KEY_VALUE_PAIRS config" "place_ok config" "machine_sizes config"
proof -
  show e: "NUM_KEY_VALUE_PAIRS config = keys_each config * NUM_NODES config"
    using assms by (simp add: even_split_def keys_each_def)
  then show p: "0 < keys_each config" using assms by (auto simp: even_split_def zero_less_mult_iff)
  show l: "NUM_NODES config \<le> NUM_KEY_VALUE_PAIRS config" using assms by (simp add: even_split_def zdvd_imp_le)
  with assms show "place_ok config" "machine_sizes config" by (simp_all add: even_split_def place_ok_def machine_sizes_def)
qed

lemma key_bound_exact:
  assumes "even_split config" "0 \<le> s" "s \<le> NUM_NODES config"
  shows "key_bound config s = of_int (s * keys_each config)"
proof -
  note e = even_split_sizes [OF assms(1)]
  have N: "NUM_KEY_VALUE_PAIRS config \<le> 2 ^ 24" using assms(1) by (simp add: even_split_def)
  have sb: "s * keys_each config \<le> NUM_KEY_VALUE_PAIRS config" "0 \<le> s * keys_each config"
    using assms(2,3) e(1,2) by (simp_all add: mult.commute mult_left_mono)
  have q: "keys_each config \<le> 2 ^ 24" using div_le_self_int [of "NUM_KEY_VALUE_PAIRS config" "NUM_NODES config"] assms(1) N
    by (simp add: keys_each_def even_split_def)
  have f: "f32 (of_int i) = of_int i" if "0 \<le> i" "i \<le> 2 ^ 24" for i using fl_int [of i 24] that by simp
  have n0: "NUM_NODES config \<noteq> 0" using assms(1) by (simp add: even_split_def)
  have "f32 (of_int (NUM_KEY_VALUE_PAIRS config)) / f32 (of_int (NUM_NODES config)) = (of_int (keys_each config) :: rat)"
  proof -
    have "f32 (of_int (NUM_KEY_VALUE_PAIRS config)) = of_int (keys_each config * NUM_NODES config)"
      using f [of "NUM_KEY_VALUE_PAIRS config"] N assms(1) e(1) by (simp add: even_split_def)
    moreover have "f32 (of_int (NUM_NODES config)) = of_int (NUM_NODES config)"
      using f [of "NUM_NODES config"] N e(3) assms(1) by (simp add: even_split_def)
    ultimately show ?thesis using n0 by simp
  qed
  then have "key_bound config s = f32 (f32 (of_int s) * f32 (of_int (keys_each config)))" by (simp add: key_bound_def)
  also have "\<dots> = f32 (of_int (s * keys_each config))"
    using f [of s] f [of "keys_each config"] assms(2,3) e(2,3) N q by simp
  also have "\<dots> = of_int (s * keys_each config)" using f sb N by force
  finally show ?thesis .
qed

lemma owned_exact:
  assumes "even_split config" "0 \<le> s" "s < NUM_NODES config" "0 \<le> k" "k \<le> 2 ^ 24"
  shows "owned (key_range config s) k \<longleftrightarrow> s * keys_each config \<le> k \<and> k < (s + 1) * keys_each config"
  using key_bound_exact [OF assms(1), of s] key_bound_exact [OF assms(1), of "s + 1"] assms(2-5) fl_int [of k 24]
  by (simp add: owned_def key_range_def del: of_int_mult)

text \<open>Ranges between the values of a monotone function do not overlap and leave no gap.\<close>

lemma ranges_partition:
  fixes b :: "int \<Rightarrow> rat"
  assumes mono: "\<And>s t. s \<le> t \<Longrightarrow> b s \<le> b t" and "0 < n" "b 0 \<le> x" "x < b n"
  shows "\<exists>!s. 0 \<le> s \<and> s < n \<and> b s \<le> x \<and> x < b (s + 1)"
proof -
  let ?S = "{s \<in> {0..<n}. b s \<le> x}" let ?m = "Max ?S"
  have "finite ?S" by (rule finite_subset [of _ "{0..<n}"]) auto
  then have fin: "finite ?S" "0 \<in> ?S" using assms by simp_all
  then have m: "?m \<in> ?S" by (metis (no_types, lifting) Max_in empty_iff)
  have "x < b (?m + 1)"
  proof (cases "?m + 1 = n")
    case False
    then have "?m + 1 \<notin> ?S" using Max_ge [OF fin(1), of "?m + 1"] by linarith
    then show ?thesis using m False by auto
  qed (use assms in simp)
  moreover have "t = ?m" if "0 \<le> t" "t < n" "b t \<le> x" "x < b (t + 1)" for t
    using that m \<open>x < b (?m + 1)\<close> mono [of "t + 1" ?m] mono [of "?m + 1" t] by (cases t ?m rule: linorder_cases) auto
  ultimately show ?thesis using m by (intro ex1I [of _ ?m]) auto
qed

lemma owned_by_one:
  assumes "machine_sizes config" "0 \<le> k" "f32 (of_int k) < key_bound config (NUM_NODES config)"
  shows "\<exists>!s. 0 \<le> s \<and> s < NUM_NODES config \<and> owned (key_range config s) k"
  using ranges_partition [of "key_bound config" "NUM_NODES config" "f32 (of_int k)"] key_bound_mono [OF assms(1)] assms
    fl_nonneg [of "of_int k" 24]
  by (simp add: owned_def key_range_def machine_sizes_def)

section \<open>Loading in ascending order\<close>

lemma place_ascending:
  assumes "place_ok config" "0 < j" "j < k" "int k \<le> NUM_KEY_VALUE_PAIRS config"
    and "fst (place config j) = fst (place config k)"
  shows "snd (place config j) < snd (place config k)"
proof -
  obtain n N where n: "NUM_NODES config = int n" "NUM_KEY_VALUE_PAIRS config = int N"
    using assms(1) by (metis place_ok_def less_imp_le order.trans zero_le_imp_eq_int)
  let ?q = "N div n"
  have q: "0 < ?q" using assms(1) n by (simp add: place_ok_def div_greater_zero_iff)
  consider "?q * n < j" | "\<not> ?q * n < j" "?q * n < k" | "\<not> ?q * n < k" "\<not> ?q * n < j" using assms(3) by linarith
  then show ?thesis
  proof cases
    case 2
    have "(j - 1) mod ?q < ?q" using q by simp
    then show ?thesis using 2 by (simp add: place_def n Let_def)
  next
    case 3
    then have d: "(j - 1) div ?q = (k - 1) div ?q" using assms(5) by (simp add: place_def n Let_def)
    have "(j - 1) mod ?q < (k - 1) mod ?q"
      using div_mult_mod_eq [of "j - 1" ?q, unfolded d] div_mult_mod_eq [of "k - 1" ?q] assms(2,3) by linarith
    then show ?thesis using 3 by (simp add: place_def n Let_def)
  qed (use assms(3) in \<open>simp add: place_def n Let_def\<close>)
qed

text \<open>The region of a key's node, and that all nodes have one.\<close>

definition region_at :: "int \<Rightarrow> nat \<Rightarrow> rdma_nodes \<Rightarrow> region option" where
  "region_at start d nodes = nodes (of_int (int d + start))"

definition nodes_ok :: "configuration \<Rightarrow> int \<Rightarrow> rdma_nodes \<Rightarrow> bool" where
  "nodes_ok config start nodes \<longleftrightarrow> 0 \<le> start \<and> start < 2 ^ 30 \<and> (\<forall>d < nat (NUM_NODES config). region_at start d nodes \<noteq> None)"

lemma unat_key: "k < 2 ^ 31 \<Longrightarrow> unat (of_int (int k) :: u64) = k"
  using unat_of_nat_u64 [of k] by simp

lemma node_index_inj:
  assumes "0 \<le> start" "start < 2 ^ 30" "d < 2 ^ 30" "d' < 2 ^ 30"
  shows "(of_int (int d + start) :: u64) = of_int (int d' + start) \<longleftrightarrow> d = d'"
proof -
  have w: "(of_int (int c + start) :: u64) = of_nat (c + nat start)" for c using assms(1) by simp
  have "unat (of_nat (c + nat start) :: u64) = c + nat start" if "c < 2 ^ 30" for c
    using that assms(1,2) by (intro unat_of_nat_u64) (simp add: nat_less_iff)
  from this [OF assms(3)] this [OF assms(4)] show ?thesis unfolding w by (metis add_right_cancel)
qed

text \<open>Writing a key's block changes the region of its node, at its offset.\<close>

lemma write_one:
  assumes "place_ok config" "NUM_NODES config < 2 ^ 30" "nodes_ok config start nodes"
    and "0 < k" "int k \<le> NUM_KEY_VALUE_PAIRS config" "fits_memory config" "length block = BLKSZ"
  shows "\<exists>nodes'. write_correct_node config start (of_int (int k)) block nodes = Inr nodes' \<and> nodes_ok config start nodes'
    \<and> (\<forall>d < nat (NUM_NODES config). region_at start d nodes' =
        (if d = fst (place config k) then map_option (write_bytes (snd (place config k)) block) (region_at start d nodes)
         else region_at start d nodes))"
proof -
  let ?d = "fst (place config k)" let ?o = "snd (place config k)"
  let ?i = "of_int (int ?d + start) :: u64" let ?nodes = "nodes(?i := map_option (write_bytes ?o block) (nodes ?i))"
  note b = place_bounds [OF assms(1,4,5)]
  have k: "k < 2 ^ 31" using assms(1,5) by (simp add: place_ok_def)
  then have ko: "key_ok config (of_int (int k))" using assms(4,5) unat_key [OF k] by (simp add: key_ok_def)
  have st: "0 \<le> start" "start < 2 ^ 30" using assms(3) by (simp_all add: nodes_ok_def)
  note f = fits_memoryD [OF assms(6,1,4,5)]
  obtain mem where mem: "nodes (of_int (int ?d + start)) = Some mem"
    using assms(3) b(1) by (auto simp: nodes_ok_def region_at_def)
  have "node_at (int ?d) start nodes = Inr (of_int (int ?d + start), mem)"
    using node_at_ok [OF assms(1,4) _ st assms(2), of nodes] assms(5) mem by (simp add: le_nat_iff)
  then have w: "write_correct_node config start (of_int (int k)) block nodes = Inr ?nodes"
    using calculate_eq_place [OF assms(1) ko] unat_key [OF k] f assms(7) by (simp add: write_correct_node_def rdma_writer_thread_def)
  have r: "region_at start d ?nodes = (if d = ?d then map_option (write_bytes ?o block) (region_at start d nodes) else region_at start d nodes)"
    if "d < nat (NUM_NODES config)" for d
    using node_index_inj [OF st, of d ?d] that b(1) assms(2) by (auto simp: region_at_def)
  have "nodes_ok config start ?nodes" using assms(3) r by (auto simp: nodes_ok_def)
  with w r show ?thesis by blast
qed

text \<open>The value of a key: the first bytes at its offset.\<close>

definition holds_value :: "configuration \<Rightarrow> int \<Rightarrow> byte list \<Rightarrow> nat \<Rightarrow> rdma_nodes \<Rightarrow> bool" where
  "holds_value config start v k nodes \<longleftrightarrow>
     (\<exists>mem. region_at start (fst (place config k)) nodes = Some mem
        \<and> (\<forall>i < length v. mem (snd (place config k) + i) = v ! i))"

lemma write_bytes_at:
  "write_bytes off (replicate m c @ zs) mem a = c" if "off \<le> a" "a < off + m"
  using that by (simp add: write_bytes_def nth_append less_diff_conv2)

lemma write_bytes_before: "a < off \<Longrightarrow> write_bytes off bs mem a = mem a"
  by (simp add: write_bytes_def)

lemma load_keys:
  assumes "place_ok (sp_config P)" "NUM_NODES (sp_config P) < 2 ^ 30" "nodes_ok (sp_config P) start nodes"
    and "first_server_index (sp_machines P) = Inr start" "int m \<le> NUM_KEY_VALUE_PAIRS (sp_config P)"
    and "fits_memory (sp_config P)" "length (replicate s c @ zs) = BLKSZ"
  shows "\<exists>nodes'. foldR (write_key P r (replicate s c @ zs)) (map to_string_nat [1..<Suc m]) nodes = Inr nodes'
    \<and> nodes_ok (sp_config P) start nodes'
    \<and> (\<forall>j \<in> {1..m}. owned r (int j) \<longrightarrow> holds_value (sp_config P) start (replicate s c) j nodes')"
  using assms(5)
proof (induction m)
  case 0
  then show ?case using assms(3) by simp
next
  case (Suc m)
  let ?config = "sp_config P" let ?k = "Suc m" let ?block = "replicate s c @ zs"
  obtain nodes1 where n1: "foldR (write_key P r ?block) (map to_string_nat [1..<?k]) nodes = Inr nodes1"
    "nodes_ok ?config start nodes1" "\<forall>j \<in> {1..m}. owned r (int j) \<longrightarrow> holds_value ?config start (replicate s c) j nodes1"
    using Suc by auto
  have k: "?k < 2 ^ 31" "stoi (to_string_nat ?k) = Inr (int ?k)"
    using Suc.prems assms(1) stoi_to_string [of ?k] by (simp_all add: place_ok_def)
  have split: "foldR (write_key P r ?block) (map to_string_nat [1..<Suc ?k]) nodes = write_key P r ?block (to_string_nat ?k) nodes1"
    using n1(1) by (simp add: foldR_append bindR_Inr_iff del: upt_Suc add: upt_Suc_append) (cases "write_key P r ?block (to_string_nat ?k) nodes1"; simp)
  show ?case
  proof (cases "owned r (int ?k)")
    case False
    then have "write_key P r ?block (to_string_nat ?k) nodes1 = Inr nodes1" using k(2) by (simp add: write_key_def)
    moreover have "\<forall>j \<in> {1..?k}. owned r (int j) \<longrightarrow> holds_value ?config start (replicate s c) j nodes1"
      using n1(3) False by (metis atLeastAtMost_iff le_Suc_eq)
    ultimately show ?thesis using split n1(2) by simp
  next
    case True
    from write_one [OF assms(1,2) n1(2), of ?k ?block] Suc.prems assms(6,7) obtain nodes2 where
      n2: "write_correct_node ?config start (of_int (int ?k)) ?block nodes1 = Inr nodes2" "nodes_ok ?config start nodes2"
      "\<forall>d < nat (NUM_NODES ?config). region_at start d nodes2 = (if d = fst (place ?config ?k)
        then map_option (write_bytes (snd (place ?config ?k)) ?block) (region_at start d nodes1) else region_at start d nodes1)" by blast
    have w: "write_key P r ?block (to_string_nat ?k) nodes1 = Inr nodes2"
      using True k(2) n2(1) assms(4) by (simp add: write_key_def)
    have "holds_value ?config start (replicate s c) j nodes2" if j: "1 \<le> j" "j \<le> ?k" "owned r (int j)" for j
    proof -
      have jN: "int j \<le> NUM_KEY_VALUE_PAIRS ?config" "0 < j" using j Suc.prems by simp_all
      have dj: "fst (place ?config j) < nat (NUM_NODES ?config)" by (rule place_bounds(1) [OF assms(1) jN(2,1)])
      show ?thesis
      proof (cases "j = ?k")
        case True
        obtain mem where "region_at start (fst (place ?config j)) nodes1 = Some mem"
          using n1(2) dj by (auto simp: nodes_ok_def)
        then show ?thesis using n2(3) dj True by (auto simp: holds_value_def write_bytes_at)
      next
        case False
        then obtain mem where mem: "region_at start (fst (place ?config j)) nodes1 = Some mem"
          "\<forall>i < s. mem (snd (place ?config j) + i) = c"
          using n1(3) j by (auto simp: holds_value_def)
        show ?thesis
        proof (cases "fst (place ?config j) = fst (place ?config ?k)")
          case True
          then have o: "snd (place ?config j) < snd (place ?config ?k)"
            using place_ascending [OF assms(1) jN(2) _ Suc.prems] j False by simp
          have "write_bytes (snd (place ?config ?k)) ?block mem (snd (place ?config j) + i) = c" if "i < s" for i
          proof (cases "snd (place ?config j) + i < snd (place ?config ?k)")
            case True
            then show ?thesis using mem(2) that by (simp add: write_bytes_before)
          next
            case False
            then show ?thesis using o that by (intro write_bytes_at) simp_all
          qed
          then show ?thesis using True mem(1) n2(3) dj by (auto simp: holds_value_def)
        next
          case False
          then show ?thesis using mem n2(3) dj by (auto simp: holds_value_def)
        qed
      qed
    qed
    then show ?thesis using split w n2(2) by auto
  qed
qed

section \<open>Connections, threads and counters\<close>

text \<open>One node per server of the configuration, and only the machine's own entry is local.\<close>

definition node_of :: "bool \<Rightarrow> int \<Rightarrow> remote_machine \<Rightarrow> rdma_node \<Rightarrow> bool" where
  "node_of cache_indexing m r nd \<longleftrightarrow> nd_index nd = of_nat (rm_index r) \<and> nd_ip nd = rm_ip r
     \<and> nd_is_local nd = (int (rm_index r) = m) \<and> (nd_circular_buffer nd = None \<longleftrightarrow> cache_indexing)"

lemma connect_server_Inr:
  assumes "connect_server cs ci fresh m v r nodes = Inr nodes'"
  shows "\<not> rm_server r \<and> nodes' = nodes \<or> rm_server r \<and> (\<exists>nd. nodes' = nodes(of_nat (rm_index r) \<mapsto> nd) \<and> node_of ci m r nd)"
  using assms by (auto simp: connect_server_def node_of_def bindR_Inr_iff split: if_splits)

lemma connect_loop_nodes:
  assumes "foldR (connect_server cs ci fresh m v) configs nodes = Inr nodes'"
  shows "dom nodes' = dom nodes \<union> (\<lambda>r. of_nat (rm_index r)) ` {r \<in> set configs. rm_server r}"
    and "nodes' i = Some nd \<Longrightarrow> nodes i = Some nd \<or> (\<exists>r \<in> set configs. rm_server r \<and> i = of_nat (rm_index r) \<and> node_of ci m r nd)"
  using assms
proof (induction configs arbitrary: nodes)
  case (Cons r rs)
  {
    case 1
    then obtain nodes1 where n1: "connect_server cs ci fresh m v r nodes = Inr nodes1" "foldR (connect_server cs ci fresh m v) rs nodes1 = Inr nodes'"
      by (auto simp: bindR_Inr_iff)
    have "dom nodes1 = dom nodes \<union> (if rm_server r then {of_nat (rm_index r)} else {})" using connect_server_Inr [OF n1(1)] by auto
    then show ?case unfolding Cons.IH(1) [OF n1(2)] by auto
  next
    case 2
    then obtain nodes1 where n1: "connect_server cs ci fresh m v r nodes = Inr nodes1" "foldR (connect_server cs ci fresh m v) rs nodes1 = Inr nodes'"
      by (auto simp: bindR_Inr_iff)
    show ?case using Cons.IH(2) [OF 2(1) n1(2)] connect_server_Inr [OF n1(1)] by (auto split: if_splits)
  }
qed simp_all

lemma connect_to_servers_nodes:
  assumes "connect_to_servers find_nic cs ci fresh configs m ops_config = Inr nodes"
  shows "dom nodes = (\<lambda>r. of_nat (rm_index r)) ` {r \<in> set configs. rm_server r}"
    and "nodes i = Some nd \<Longrightarrow> \<exists>r \<in> set configs. rm_server r \<and> i = of_nat (rm_index r) \<and> node_of ci m r nd"
proof -
  have "foldR (connect_server cs ci fresh m (VALUE_SIZE ops_config)) configs Map.empty = Inr nodes"
    using assms by (simp add: connect_to_servers_def split: if_splits)
  from connect_loop_nodes [OF this] show "dom nodes = (\<lambda>r. of_nat (rm_index r)) ` {r \<in> set configs. rm_server r}"
    and "nodes i = Some nd \<Longrightarrow> \<exists>r \<in> set configs. rm_server r \<and> i = of_nat (rm_index r) \<and> node_of ci m r nd" by simp_all
qed

text \<open>Every client and server is given to one thread, the one whose number it was made with.\<close>

lemma product_nth:
  assumes "i < a" "j < b"
  shows "i * b + j < a * b" "List.product [0..<a] [0..<b] ! (i * b + j) = (i, j)"
proof -
  have "i * b + j < Suc i * b" using assms by simp
  also have "\<dots> \<le> a * b" using assms by (intro mult_le_mono1) simp
  finally show l: "i * b + j < a * b" .
  show "List.product [0..<a] [0..<b] ! (i * b + j) = (i, j)" using assms l by (subst product_nth) simp_all
qed

lemma connect_loop_thread:
  assumes "foldR (connect_to_remote_machine net) is (c :: 'a connection_scheme) = Inr c'"
  shows "thread_index c' = thread_index c"
  by (rule foldR_invariant [OF assms, where P = "\<lambda>x. thread_index x = thread_index c"])
    (auto simp: connect_to_remote_machine_def bindR_Inr_iff Let_def split: option.splits)

lemma make_Client_thread: "make_Client net configs m t = Inr c \<Longrightarrow> thread_index c = t"
  by (auto simp: make_Client_def make_Connection_def bindR_Inr_iff dest: connect_loop_thread)

lemma cn_listen_thread: "cn_listen net c = Inr c' \<Longrightarrow> thread_index c' = thread_index c"
  by (auto simp: cn_listen_def bindR_Inr_iff Let_def split: if_splits)

lemma make_Server_thread: "make_Server net db configs m t = Inr c \<Longrightarrow> thread_index c = t"
  by (auto simp: make_Server_def make_Connection_def bindR_Inr_iff connection.defs dest!: connect_loop_thread cn_listen_thread)

lemma product_at:
  assumes "x < a * b"
  shows "x div b < a" "x mod b < b" "List.product [0..<a] [0..<b] ! x = (x div b, x mod b)"
proof -
  have "0 < b" using assms by (cases b) simp_all
  then show b: "x div b < a" "x mod b < b" using assms by (simp_all add: less_mult_imp_div_less)
  show "List.product [0..<a] [0..<b] ! x = (x div b, x mod b)" using product_nth(2) [OF b] by simp
qed

lemma client_threads_all:
  assumes "length xs = threads * cpt"
  shows "client_threads threads cpt xs = Inr (zip xs (List.product [0..<threads] [0..<cpt]))"
  unfolding client_threads_def mapMR_Inr_iff using assms by (auto simp: case_prod_beta product_at)

lemma make_clients_match:
  assumes "make_clients net configs m threads cpt = Inr clients"
  shows "length clients = threads * cpt" "x < threads * cpt \<Longrightarrow> thread_index (clients ! x) = int (x div cpt)"
  using assms by (auto simp: make_clients_def mapMR_Inr_iff case_prod_beta product_at dest!: make_Client_thread)

lemma make_servers_match:
  assumes "make_servers net db configs m threads = Inr made"
  shows "length made = threads" "i < threads \<Longrightarrow> thread_index (made ! i) = int i"
  using assms by (auto simp: make_servers_def mapMR_Inr_iff dest!: make_Server_thread)

lemma foldR_single: "foldR f [x] s = f x s"
  by (cases "f x s") simp_all

text \<open>What the server monitor prints as increments adds up to what it prints as totals.\<close>

lemma server_monitor_increments:
  assumes "server_monitor cache_info counters previous = Inr (printed, current)" "length previous = length counters + 3"
  shows "map fst printed = current" "map2 (+) previous (map snd printed) = current"
proof -
  have l: "length current = length previous" "printed = map (\<lambda>(c, l). (c, c - l)) (zip current previous)"
    using assms by (auto simp: server_monitor_def bindR_Inr_iff Let_def)
  show "map fst printed = current" "map2 (+) previous (map snd printed) = current"
    using l(1) unfolding l(2) by (auto intro!: nth_equalityI simp: case_prod_beta)
qed

section \<open>Properties of the preloading\<close>

lemma value_bytes_default: "value_bytes (replicate n CHR ''A'') = replicate n 65"
  by (simp add: value_bytes_def)

lemma value_block_default:
  "n \<le> BLKSZ \<Longrightarrow> value_block (replicate n CHR ''A'') = Inr (replicate n 65 @ replicate (BLKSZ - n) 0)"
  by (simp add: value_block_def value_bytes_default)

lemma read_block_value:
  assumes "place_ok config" "NUM_NODES config < 2 ^ 30" "nodes_ok config start nodes" "0 < k" "int k \<le> NUM_KEY_VALUE_PAIRS config"
    and "region_at start (fst (place config k)) nodes = Some mem" "fits_memory config"
  shows "read_block_of config start (of_nat k) nodes = Inr (read_bytes (snd (place config k)) BLKSZ mem)"
proof -
  have k: "k < 2 ^ 31" using assms(1,5) by (simp add: place_ok_def)
  then have u: "unat (of_nat k :: u64) = k" by simp
  have ko: "key_ok config (of_nat k)" using assms(4,5) u by (simp add: key_ok_def)
  note f = fits_memoryD [OF assms(7,1,4,5)]
  have "node_at (int (fst (place config k))) start nodes = Inr (of_int (int (fst (place config k)) + start), mem)"
    using node_at_ok [OF assms(1,4), of start nodes] assms by (simp add: nodes_ok_def region_at_def le_nat_iff)
  then show ?thesis using calculate_eq_place [OF assms(1) ko] u f by (simp add: read_block_of_def rdma_reader_sync_def)
qed

lemma take_read_bytes: "n \<le> m \<Longrightarrow> take n (read_bytes off m mem) = map (\<lambda>i. mem (off + i)) [0..<n]"
  by (rule nth_equalityI) (simp_all add: read_bytes_def)

text \<open>What the memory part of \<open>preload\<close> runs: on a machine whose files hold a written dataset.\<close>

lemma preload_plain:
  assumes "sp_one_sided P" "\<not> sp_cache_indexing P" "env_can_open e (DATASET_FILE (sp_config P))"
    and "machine_sizes (sp_config P)" "0 < NUM_KEY_VALUE_PAIRS (sp_config P)" "0 \<le> VALUE_SIZE (sp_config P)" "VALUE_SIZE (sp_config P) \<le> int BLKSZ"
    and "s = m - int (first_server (sp_machines P))" "0 \<le> s" "s < NUM_NODES (sp_config P)"
    and "foldR (write_key P (key_range (sp_config P) s)
        (replicate (nat (VALUE_SIZE (sp_config P))) 65 @ replicate (BLKSZ - nat (VALUE_SIZE (sp_config P))) 0))
      (map to_string_nat [1..<Suc (nat (NUM_KEY_VALUE_PAIRS (sp_config P)))]) nodes = Inr nodes'"
  shows "\<exists>limits b'. preload P m (createAndWriteDataset e (DATASET_FILE (sp_config P)) (NUM_KEY_VALUE_PAIRS (sp_config P)) z fs) b sn (Inr nodes) kv
    = Inr (limits, b', nodes', None, sn)"
proof -
  let ?config = "sp_config P" let ?keys = "map to_string_nat [1..<Suc (nat (NUM_KEY_VALUE_PAIRS ?config))]"
  let ?v = "replicate (nat (VALUE_SIZE ?config)) CHR ''A''"
  obtain limits where l: "key_limits ?config s = Inr limits" using key_limits_return [OF assms(4,9,10)] by blast
  have "\<exists>b'. foldR (add_key_plain P (key_range ?config s) ?v) ?keys b = Inr b' \<and> True"
  proof (rule foldR_total)
    fix k and b :: 'a
    assume "k \<in> set ?keys"
    then obtain i where "k = to_string_nat i" "i < 2 ^ 31" using assms(4) by (auto simp: machine_sizes_def)
    then show "\<exists>t. add_key_plain P (key_range ?config s) ?v k b = Inr t \<and> True" by (simp add: add_key_plain_def stoi_to_string)
  qed simp
  then obtain b' where b': "foldR (add_key_plain P (key_range ?config s) ?v) ?keys b = Inr b'" by blast
  have v: "default_value ?config = Inr ?v" using assms(6) by (simp add: default_value_def)
  have blk: "value_block ?v = Inr (replicate (nat (VALUE_SIZE ?config)) 65 @ replicate (BLKSZ - nat (VALUE_SIZE ?config)) 0)"
    using assms(7) by (intro value_block_default) simp
  have keys: "readKeysFromFile (createAndWriteDataset e (DATASET_FILE ?config) (NUM_KEY_VALUE_PAIRS ?config) z fs) (DATASET_FILE ?config) = ?keys"
    by (rule readKeys_createDataset [OF assms(3)])
  have "?keys \<noteq> []" using assms(5) by simp
  then show ?thesis using assms(1,2) l v b' blk keys assms(11)
    by (simp add: preload_def Let_def assms(8) [symmetric] del: upt_Suc)
qed


text \<open>Connecting gives every node its region when the servers are numbered without gaps.\<close>

lemma connected_nodes_ok:
  assumes "connect_memory find_nic cs ci fresh incoming configs m config = Inr table"
    and "rm_index ` {r \<in> set configs. rm_server r} = {nat start ..< nat start + nat (NUM_NODES config)}" "0 \<le> start" "start < 2 ^ 30"
  shows "nodes_ok config start (region_table memory table)"
proof -
  obtain table0 nd where t: "connect_to_servers find_nic cs ci fresh configs m config = Inr table0" "table0 (of_int m) = Some nd"
    "table = table0(of_int m \<mapsto> nd\<lparr>nd_local_memory := Some registered_bytes\<rparr>)"
    using assms(1) by (auto simp: connect_memory_def RDMA_Server_Init_def bindR_Inr_iff split: option.splits if_splits)
  have d: "dom table = (\<lambda>r. of_nat (rm_index r)) ` {r \<in> set configs. rm_server r}"
    using connect_to_servers_nodes(1) [OF t(1)] domI [of table0 "of_int m" nd, OF t(2)] unfolding t(3) by (simp only: dom_fun_upd option.distinct if_False insert_absorb)
  have "of_int (int i + start) \<in> dom table" if "i < nat (NUM_NODES config)" for i
  proof -
    have "nat start + i \<in> rm_index ` {r \<in> set configs. rm_server r}" unfolding assms(2) using that by simp
    moreover have "(of_int (int i + start) :: u64) = of_nat (nat start + i)" using assms(3) by simp
    ultimately show ?thesis unfolding d by (metis (no_types, lifting) image_iff)
  qed
  then show ?thesis using assms(3,4) by (auto simp: nodes_ok_def region_at_def region_table_def)
qed

text \<open>
  When the keys divide evenly over the servers (and a \<open>float\<close> holds their number),
  the key ranges of the servers assign each of the keys 0 to \<open>NUM_KEY_VALUE_PAIRS - 1\<close> to exactly
  one server; but the dataset holds the keys 1 to \<open>NUM_KEY_VALUE_PAIRS\<close>, and its last key belongs
  to no server.
\<close>

theorem key_ranges_miss_last_key:
  assumes "even_split config"
  shows "(\<forall>k. 0 \<le> k \<and> k < NUM_KEY_VALUE_PAIRS config \<longrightarrow>
      (\<exists>!s. 0 \<le> s \<and> s < NUM_NODES config \<and> owned (key_range config s) k))
    \<and> (\<forall>s. 0 \<le> s \<and> s < NUM_NODES config \<longrightarrow> \<not> owned (key_range config s) (NUM_KEY_VALUE_PAIRS config))"
proof (rule conjI)
  note e = even_split_sizes [OF assms]
  have N: "NUM_KEY_VALUE_PAIRS config \<le> 2 ^ 24" "0 < NUM_NODES config" using assms by (simp_all add: even_split_def)
  have top: "key_bound config (NUM_NODES config) = of_int (NUM_KEY_VALUE_PAIRS config)"
    using key_bound_exact [OF assms, of "NUM_NODES config"] N(2) e(1) by (simp add: mult.commute)
  show "\<forall>k. 0 \<le> k \<and> k < NUM_KEY_VALUE_PAIRS config \<longrightarrow>
      (\<exists>!s. 0 \<le> s \<and> s < NUM_NODES config \<and> owned (key_range config s) k)"
  proof (intro allI impI)
    fix k
    assume k: "0 \<le> k \<and> k < NUM_KEY_VALUE_PAIRS config"
    then have "f32 (of_int k) = of_int k" using fl_int [of k 24] N by simp
    with k show "\<exists>!s. 0 \<le> s \<and> s < NUM_NODES config \<and> owned (key_range config s) k"
      by (intro owned_by_one [OF e(5)]) (simp_all add: top)
  qed
  have "f32 (of_int (NUM_KEY_VALUE_PAIRS config)) = of_int (NUM_KEY_VALUE_PAIRS config)"
    using fl_int [of "NUM_KEY_VALUE_PAIRS config" 24] N e(3) by simp
  then show "\<forall>s. 0 \<le> s \<and> s < NUM_NODES config \<longrightarrow> \<not> owned (key_range config s) (NUM_KEY_VALUE_PAIRS config)"
    using key_bound_mono [OF e(5), of "s + 1" "NUM_NODES config" for s] top by (auto simp: owned_def key_range_def not_less)
qed

theorem key_ranges_miss_last_key_witness:
  "(\<exists>!s. 0 \<le> s \<and> s < 3 \<and> owned (key_range sample_config s) 5) \<and> \<not> owned (key_range sample_config 2) 6"
proof -
  have e: "even_split sample_config" by (simp add: even_split_def sample_config_def)
  have n: "NUM_NODES sample_config = 3" "NUM_KEY_VALUE_PAIRS sample_config = 6" by (simp_all add: sample_config_def)
  show ?thesis using key_ranges_miss_last_key [OF e] unfolding n by simp
qed

text \<open>A server that has written its keys leaves the block of its greatest key as it wrote it.\<close>

lemma load_keys_last:
  assumes "place_ok (sp_config P)" "NUM_NODES (sp_config P) < 2 ^ 30" "nodes_ok (sp_config P) start nodes"
    and "first_server_index (sp_machines P) = Inr start" "int m \<le> NUM_KEY_VALUE_PAIRS (sp_config P)"
    and "1 \<le> k" "k \<le> m" "owned r (int k)" "\<And>j. k < j \<Longrightarrow> j \<le> m \<Longrightarrow> \<not> owned r (int j)"
    and "fits_memory (sp_config P)" "length (replicate s c @ zs) = BLKSZ"
  shows "\<exists>nodes' mem. foldR (write_key P r (replicate s c @ zs)) (map to_string_nat [1..<Suc m]) nodes = Inr nodes'
    \<and> nodes_ok (sp_config P) start nodes'
    \<and> region_at start (fst (place (sp_config P) k)) nodes' = Some (write_bytes (snd (place (sp_config P) k)) (replicate s c @ zs) mem)"
proof -
  let ?config = "sp_config P" let ?block = "replicate s c @ zs"
  have N: "m < 2 ^ 31" "int k \<le> NUM_KEY_VALUE_PAIRS ?config" using assms(1,5,7) by (simp_all add: place_ok_def)
  from load_keys [OF assms(1-4), of "k - 1" s c zs r] N(2) assms(6,10,11) obtain nodes1 where
    n1: "foldR (write_key P r ?block) (map to_string_nat [1..<k]) nodes = Inr nodes1" "nodes_ok ?config start nodes1" by auto
  from write_one [OF assms(1,2) n1(2), of k ?block] N(2) assms(6,10,11) obtain nodes2 where
    n2: "write_correct_node ?config start (of_int (int k)) ?block nodes1 = Inr nodes2" "nodes_ok ?config start nodes2"
    "region_at start (fst (place ?config k)) nodes2
      = map_option (write_bytes (snd (place ?config k)) ?block) (region_at start (fst (place ?config k)) nodes1)"
    using place_bounds(1) [OF assms(1), of k] by fastforce
  have w: "write_key P r ?block (to_string_nat k) nodes1 = Inr nodes2"
    using n2(1) assms(4,7,8) N(1) by (simp add: write_key_def stoi_to_string)
  have rest: "foldR (write_key P r ?block) (map to_string_nat [Suc k..<Suc m]) nodes2 = Inr (fold (\<lambda>_ x. x) (map to_string_nat [Suc k..<Suc m]) nodes2)"
    by (rule foldR_cong_pure) (use assms(9) N(1) in \<open>auto simp: write_key_def stoi_to_string\<close>)
  have id: "fold (\<lambda>_ x. x) xs y = y" for xs :: "string list" and y :: rdma_nodes by (induction xs) simp_all
  have "[1..<Suc m] = [1..<k] @ [k] @ [Suc k..<Suc m]"
    using assms(6,7) upt_add_eq_append [of 1 k "Suc m - k"] upt_conv_Cons [of k "Suc m"] by simp
  then have "foldR (write_key P r ?block) (map to_string_nat [1..<Suc m]) nodes = Inr nodes2"
    using n1(1) w rest by (simp add: foldR_append id del: upt_Suc)
  moreover obtain mem where "region_at start (fst (place ?config k)) nodes1 = Some mem"
    using n1(2) place_bounds(1) [OF assms(1) _ N(2)] assms(6) by (fastforce simp: nodes_ok_def)
  ultimately show ?thesis using n2 by auto
qed

lemma place_in_slot:
  assumes "even_split config" "s < nat (NUM_NODES config)" "o' < nat (keys_each config)"
  shows "place config (s * nat (keys_each config) + o' + 1) = (s, o')"
    "int (s * nat (keys_each config) + o' + 1) \<le> NUM_KEY_VALUE_PAIRS config"
proof -
  note e = even_split_sizes [OF assms(1)]
  obtain n q where n: "NUM_NODES config = int n" "keys_each config = int q"
    using e(2) assms(1) by (metis even_split_def less_imp_le zero_le_imp_eq_int)
  then have N: "NUM_KEY_VALUE_PAIRS config = int (q * n)" using e(1) by simp
  have o: "o' < q" "s < n" "0 < n" using assms n by (simp_all add: even_split_def)
  have "s * q + o' + 1 \<le> Suc s * q" using o by simp
  also have "\<dots> \<le> n * q" using o(2) by (intro mult_le_mono1) simp
  finally have le: "s * q + o' + 1 \<le> q * n" by (simp add: mult.commute)
  then show "int (s * nat (keys_each config) + o' + 1) \<le> NUM_KEY_VALUE_PAIRS config" unfolding N n by (simp only: nat_int of_nat_le_iff)
  have "nat (int (q * n)) div n = q" using o(3) by (simp only: nat_int nonzero_mult_div_cancel_right)
  then show "place config (s * nat (keys_each config) + o' + 1) = (s, o')"
    using le o unfolding place_def N n nat_int Let_def by simp
qed

text \<open>
  The first key of the range of server \<open>s + 1\<close> is placed on the node of server \<open>s\<close>,
  next to the last key of server \<open>s\<close>. Whenever server \<open>s\<close> finishes loading after server \<open>s + 1\<close>
  has written that key, the last byte of its value is zero.
\<close>

theorem late_preload_spoils_neighbour:
  assumes "sp_one_sided P" "\<not> sp_cache_indexing P" "env_can_open e (DATASET_FILE (sp_config P))"
    and "even_split (sp_config P)" "2 \<le> keys_each (sp_config P)" "1 \<le> VALUE_SIZE (sp_config P)" "VALUE_SIZE (sp_config P) < int BLKSZ"
    and "first_server_index (sp_machines P) = Inr start" "nodes_ok (sp_config P) start nodes"
    and "m = int (first_server (sp_machines P)) + int s" "int s + 1 < NUM_NODES (sp_config P)"
    and "k = Suc s * nat (keys_each (sp_config P))"
  shows "owned (key_range (sp_config P) (int s + 1)) (int k)
    \<and> (\<exists>limits b' nodes' block. preload P m (createAndWriteDataset e (DATASET_FILE (sp_config P)) (NUM_KEY_VALUE_PAIRS (sp_config P)) z fs) b sn (Inr nodes) kv
          = Inr (limits, b', nodes', None, sn)
        \<and> read_block_of (sp_config P) start (of_nat k) nodes' = Inr block
        \<and> take (nat (VALUE_SIZE (sp_config P))) block = replicate (nat (VALUE_SIZE (sp_config P)) - 1) 65 @ [0])"
proof -
  let ?config = "sp_config P" let ?N = "nat (NUM_KEY_VALUE_PAIRS ?config)" let ?V = "nat (VALUE_SIZE ?config)"
  note e = even_split_sizes [OF assms(4)]
  have small: "NUM_NODES ?config < 2 ^ 30" "NUM_KEY_VALUE_PAIRS ?config \<le> 2 ^ 24" "0 < NUM_KEY_VALUE_PAIRS ?config"
    using assms(4) e(3) by (simp_all add: even_split_def)
  obtain q where q: "keys_each ?config = int (Suc (Suc q))"
    using assms(5) by (metis Suc_eq_plus1 add_2_eq_Suc le_add_diff_inverse nat_le_iff_add nonneg_int_cases of_nat_le_iff of_nat_numeral order_trans zero_le_numeral)
  have sn: "s < nat (NUM_NODES ?config)" using assms(11) by simp
  let ?l = "s * nat (keys_each ?config) + q + 1"
  have k: "k = s * nat (keys_each ?config) + Suc q + 1" using assms(12) q by simp
  have pl: "place ?config ?l = (s, q)" "int ?l \<le> NUM_KEY_VALUE_PAIRS ?config"
    by (rule place_in_slot [OF assms(4) sn]; simp add: q)+
  have pk: "place ?config k = (s, Suc q)" "int k \<le> NUM_KEY_VALUE_PAIRS ?config"
    unfolding k by (rule place_in_slot [OF assms(4) sn]; simp add: q)+
  have ik: "int k = (int s + 1) * keys_each ?config" using k q by (simp add: algebra_simps)
  have ow: "owned (key_range ?config (int s + 1)) (int k)"
    using owned_exact [OF assms(4), of "int s + 1" "int k"] assms(11) pk(2) small e(2) ik by (simp add: algebra_simps)
  have ol: "owned (key_range ?config (int s)) (int j) \<longleftrightarrow> int s * keys_each ?config \<le> int j \<and> j < k" if "int j \<le> NUM_KEY_VALUE_PAIRS ?config" for j
    using owned_exact [OF assms(4), of "int s" "int j"] assms(11) that small by (simp add: ik [symmetric])
  have ol1: "owned (key_range ?config (int s)) (int ?l)" unfolding ol [OF pl(2)] using k q by simp
  have l: "int ?N \<le> NUM_KEY_VALUE_PAIRS ?config" "1 \<le> ?l" "?l \<le> ?N" using small(3) pl(2) by (simp_all only: le_nat_iff less_imp_le int_nat_eq if_True le_add2 order_refl)
  have ol2: "\<not> owned (key_range ?config (int s)) (int j)" if "?l < j" "j \<le> ?N" for j using ol [of j] that k small by simp
  have fit: "fits_memory ?config" using small(2)
    by (intro fits_memory_small [OF e(4)]) (simp add: registered_bytes_def GB_TO_BYTES_def BLKSZ_def)
  have blk: "length (replicate ?V 65 @ replicate (BLKSZ - ?V) 0) = BLKSZ" using assms(7) by simp
  from load_keys_last [OF e(4) small(1) assms(9,8) l ol1 ol2 fit blk] obtain nodes' mem where
    n: "foldR (write_key P (key_range ?config (int s)) (replicate ?V 65 @ replicate (BLKSZ - ?V) 0)) (map to_string_nat [1..<Suc ?N]) nodes = Inr nodes'"
    "nodes_ok ?config start nodes'" "region_at start s nodes' = Some (write_bytes q (replicate ?V 65 @ replicate (BLKSZ - ?V) 0) mem)"
    unfolding pl(1) by auto
  have r: "read_block_of ?config start (of_nat k) nodes' = Inr (read_bytes (Suc q) BLKSZ (write_bytes q (replicate ?V 65 @ replicate (BLKSZ - ?V) 0) mem))"
    using read_block_value [OF e(4) small(1) n(2) _ pk(2) _ fit, unfolded pk(1) fst_conv snd_conv, OF _ n(3)] k by simp
  have t: "take ?V (read_bytes (Suc q) BLKSZ (write_bytes q (replicate ?V 65 @ replicate (BLKSZ - ?V) 0) mem)) = replicate (?V - 1) 65 @ [0]"
    using assms(6,7) by (subst take_read_bytes) (auto intro!: nth_equalityI simp: write_bytes_def nth_append)
  have lim: "0 \<le> VALUE_SIZE ?config" "VALUE_SIZE ?config \<le> int BLKSZ" "int s = m - int (first_server (sp_machines P))"
    "0 \<le> int s" "int s < NUM_NODES ?config" using assms(6,7,10,11) by simp_all
  from preload_plain [OF assms(1-3) e(5) small(3) lim n(1), of z fs b sn kv] ow r t show ?thesis by auto
qed

text \<open>One server that loads a two-byte value into three nodes of two keys each.\<close>

definition sample_startup :: "(unit, u64, u64, unit) startup_params" where
  "sample_startup = \<lparr>
     sp_cache = \<lparr>exists_in_cache = (\<lambda>_ _. False), update_frequency = (\<lambda>_ b. b), block_cache_put = (\<lambda>_ _ b. b),
       block_cache_get = (\<lambda>_ b. ([], b)), increment_cache_miss = (\<lambda>b. b), reset_cache_info = (\<lambda>b. b),
       cache_freq_addition = (\<lambda>b. b), db_get = (\<lambda>_ _. None), cache_put = (\<lambda>_ _ b. b),
       put_nchance = (\<lambda>_ _ b. (None, b)), put_access_rate_match = (\<lambda>_ _ b. (False, b)),
       put_singleton = (\<lambda>_ _ _ _ b. b), delete_key = (\<lambda>_ b. b)\<rparr>,
     sp_db_put = (\<lambda>_ _ b. b), sp_config = sample_config,
     sp_machines = [\<lparr>rm_index = 0, rm_ip = ''a'', rm_port = 1, rm_server = True\<rparr>, \<lparr>rm_index = 1, rm_ip = ''b'', rm_port = 1, rm_server = True\<rparr>,
       \<lparr>rm_index = 2, rm_ip = ''c'', rm_port = 1, rm_server = True\<rparr>],
     sp_policy_type = ''thread_safe_lru'', sp_one_sided = True, sp_cache_indexing = False,
     sp_kv_params = sample_params, sp_put_events = (\<lambda>_ _ _. [])\<rparr>"

lemma sample_startup:
  "sp_one_sided sample_startup" "\<not> sp_cache_indexing sample_startup" "sp_config sample_startup = sample_config"
  "first_server_index (sp_machines sample_startup) = Inr 0" "first_server (sp_machines sample_startup) = 0"
  by (simp_all add: sample_startup_def first_server_index_def first_server_def)

lemma sample_nodes_ok: "nodes_ok sample_config 0 sample_nodes"
proof -
  have "(\<forall>d < 3. P d) \<longleftrightarrow> P 0 \<and> P 1 \<and> P (2 :: nat)" for P by (auto simp: less_Suc_eq numeral_eq_Suc)
  then show ?thesis by (simp add: nodes_ok_def sample_config_def region_at_def sample_nodes_def)
qed

lemma sample_even: "even_split sample_config" "keys_each sample_config = 2" "place_ok sample_config"
  "NUM_NODES sample_config = 3" "NUM_KEY_VALUE_PAIRS sample_config = 6" "VALUE_SIZE sample_config = 4"
  by (simp_all add: even_split_def keys_each_def place_ok_def sample_config_def)

lemma sample_dataset: "DATASET_FILE sample_config = ''dataset.txt''" "nat 4 = 4" "nat 2 = 2"
  by (simp_all add: sample_config_def)

lemma sample_fits: "fits_memory sample_config"
  by (rule fits_memory_small) (simp_all add: sample_even registered_bytes_def GB_TO_BYTES_def BLKSZ_def)

lemma sample_side:
  "fits_memory sample_config \<longleftrightarrow> True" "env_can_open sample_env p" "nodes_ok sample_config 0 sample_nodes \<longleftrightarrow> True" "place_ok sample_config \<longleftrightarrow> True" "even_split sample_config \<longleftrightarrow> True"
  "(3 :: int) < 2 ^ 30" "(0 :: int) \<le> 4" "(4 :: int) \<le> int BLKSZ" "(4 :: int) < int BLKSZ" "(1 :: int) \<le> 4" "(2 :: int) \<le> 2"
  "(1 :: int) = 1 - int 0 \<longleftrightarrow> True" "(0 :: int) \<le> 1" "(1 :: int) < 3" "(0 :: int) = int 0 + int 0 \<longleftrightarrow> True" "int 0 + 1 < (3 :: int)" "(2 :: nat) = Suc 0 * 2 \<longleftrightarrow> True"
  by (simp_all add: sample_env_def sample_nodes_ok sample_even sample_fits BLKSZ_def)


theorem late_preload_spoils_neighbour_witness:
  "\<exists>limits b' nodes' block. preload sample_startup 0 (createAndWriteDataset sample_env ''dataset.txt'' 6 4 Map.empty) () sample_snapshot (Inr sample_nodes) (Inl out_of_tokens)
      = Inr (limits, b', nodes', None, sample_snapshot)
    \<and> read_block_of sample_config 0 2 nodes' = Inr block \<and> take 4 block = [65, 65, 65, 0]"
proof -
  have r: "replicate (4 - 1) (65 :: byte) @ [0] = [65, 65, 65, 0]" by (simp add: numeral_eq_Suc)
  have "owned (key_range sample_config (int 0 + 1)) (int 2) \<and> (\<exists>limits b' nodes' block. preload sample_startup 0 (createAndWriteDataset sample_env ''dataset.txt'' 6 4 Map.empty) () sample_snapshot (Inr sample_nodes) (Inl out_of_tokens)
      = Inr (limits, b', nodes', None, sample_snapshot)
    \<and> read_block_of sample_config 0 (of_nat 2) nodes' = Inr block \<and> take 4 block = replicate (4 - 1) 65 @ [0])"
    using late_preload_spoils_neighbour [where P = sample_startup and m = 0 and s = 0 and start = 0 and e = sample_env and nodes = sample_nodes
        and k = 2 and z = 4 and fs = Map.empty and b = "()" and sn = sample_snapshot and kv = "Inl out_of_tokens", OF sample_startup(1,2)]
    unfolding sample_startup sample_even sample_dataset by (simp only: sample_side simp_thms)
  then show ?thesis unfolding r by simp
qed

section \<open>The client monitor\<close>

text \<open>For how many samples, ending with the latest, the count has been what it is.\<close>

definition run :: "u64 list \<Rightarrow> nat" where
  "run xs = length (takeWhile (\<lambda>y. y = last xs) (rev xs))"

definition stuck :: "u64 list \<Rightarrow> bool" where
  "stuck xs \<longleftrightarrow> (\<exists>pre c post. xs = pre @ replicate 12 c @ post \<and> 0 < c \<and> c < 100000)"

definition same_time :: "u64 list \<Rightarrow> nat" where
  "same_time xs = (if xs = [] \<or> last xs = 0 then 0 else run xs - 1)"

lemma run_snoc: "run (xs @ [x]) = (if xs \<noteq> [] \<and> last xs = x then Suc (run xs) else 1)"
  by (cases xs rule: rev_cases) (auto simp: run_def)

lemma run_le: "run xs \<le> length xs"
  using length_takeWhile_le [of "\<lambda>y. y = last xs" "rev xs"] by (simp add: run_def)

lemma le_takeWhile: "n \<le> length (takeWhile P ys) \<longleftrightarrow> n \<le> length ys \<and> (\<forall>y \<in> set (take n ys). P y)"
proof (induction ys arbitrary: n)
  case (Cons y ys)
  show ?case by (cases n) (auto simp: Cons)
qed simp

lemma run_suffix: "n \<le> run xs \<longleftrightarrow> (\<exists>pre. xs = pre @ replicate n (last xs))"
proof -
  have "n \<le> run xs \<longleftrightarrow> n \<le> length xs \<and> take n (rev xs) = replicate n (last xs)"
    by (auto simp: run_def le_takeWhile replicate_length_same intro!: replicate_eqI)
  also have "\<dots> \<longleftrightarrow> (\<exists>pre. xs = pre @ replicate n (last xs))"
  proof
    assume "n \<le> length xs \<and> take n (rev xs) = replicate n (last xs)"
    then have "rev xs = replicate n (last xs) @ drop n (rev xs)" by (metis append_take_drop_id)
    then have "xs = rev (drop n (rev xs)) @ replicate n (last xs)" by (metis rev_append rev_replicate rev_rev_ident)
    then show "\<exists>pre. xs = pre @ replicate n (last xs)" ..
  next
    assume "\<exists>pre. xs = pre @ replicate n (last xs)"
    then obtain pre where p: "xs = pre @ replicate n (last xs)" ..
    then have "rev xs = replicate n (last xs) @ rev pre" by (metis rev_append rev_replicate)
    moreover have "n \<le> length xs" using p by (metis length_append length_replicate le_add2)
    ultimately show "n \<le> length xs \<and> take n (rev xs) = replicate n (last xs)" by simp
  qed
  finally show ?thesis .
qed

lemma stuck_snoc:
  "stuck (xs @ [x]) \<longleftrightarrow> stuck xs \<or> (12 \<le> run (xs @ [x]) \<and> 0 < x \<and> x < 100000)"
proof
  assume "stuck (xs @ [x])"
  then obtain pre c post where p: "xs @ [x] = pre @ replicate 12 c @ post" "0 < c" "c < 100000" by (auto simp: stuck_def)
  show "stuck xs \<or> (12 \<le> run (xs @ [x]) \<and> 0 < x \<and> x < 100000)"
  proof (cases post rule: rev_cases)
    case Nil
    then have "xs @ [x] = pre @ replicate 12 c" using p(1) by simp
    moreover from this have "c = x" by (metis last_appendR last_replicate last_snoc replicate_empty zero_neq_numeral)
    ultimately show ?thesis using p(2,3) run_suffix [of 12 "xs @ [x]"] by auto
  next
    case (snoc post' y)
    then have "xs = pre @ replicate 12 c @ post'" using p(1) by (metis append_assoc butlast_snoc)
    then show ?thesis using p(2,3) by (auto simp: stuck_def)
  qed
next
  assume "stuck xs \<or> (12 \<le> run (xs @ [x]) \<and> 0 < x \<and> x < 100000)"
  then show "stuck (xs @ [x])"
  proof
    assume "stuck xs"
    then show ?thesis unfolding stuck_def by (metis append_assoc)
  next
    assume a: "12 \<le> run (xs @ [x]) \<and> 0 < x \<and> x < 100000"
    then obtain pre where "xs @ [x] = pre @ replicate 12 x" using run_suffix [of 12 "xs @ [x]"] by auto
    then show ?thesis unfolding stuck_def using a by (metis append_Nil2)
  qed
qed

lemma client_monitor_run:
  assumes "length xs < 2 ^ 31"
  shows "foldR client_monitor xs (0, 0) =
    (if stuck xs then Inl (Panic ''Program must be stuck'') else Inr (if xs = [] then 0 else last xs, int (same_time xs)))"
  using assms
proof (induction xs rule: rev_induct)
  case Nil
  show ?case by (simp add: stuck_def same_time_def)
next
  case (snoc x xs)
  show ?case
  proof (cases "stuck xs")
    case True
    then show ?thesis using snoc by (simp add: foldR_append stuck_snoc)
  next
    case False
    have "same_time xs < 2 ^ 31 - 1" using snoc.prems run_le [of xs] by (auto simp: same_time_def)
    then have i: "in_int (int (same_time xs) + 1)" by (simp add: in_int_def int_min_def int_max_def)
    have step: "foldR client_monitor (xs @ [x]) (0, 0) = client_monitor x (if xs = [] then 0 else last xs, int (same_time xs))"
      using snoc False by (simp add: foldR_append foldR_single del: foldR.simps(2))
    show ?thesis
    proof (cases "xs \<noteq> [] \<and> last xs = x \<and> x \<noteq> 0")
      case True
      have r: "1 \<le> run xs" using True run_suffix [of 1 xs] by (metis append_butlast_last_id replicate_0 replicate_Suc One_nat_def)
      then have e: "run (xs @ [x]) = Suc (run xs)" "same_time (xs @ [x]) = Suc (same_time xs)" "same_time xs = run xs - 1"
        using True by (simp_all add: run_snoc same_time_def)
      have c: "12 \<le> run (xs @ [x]) \<longleftrightarrow> 10 < int (same_time xs) + 1" using r e by linarith
      have "client_monitor x (x, int (same_time xs)) = (if 12 \<le> run (xs @ [x]) \<and> x < 100000
          then Inl (Panic ''Program must be stuck'') else Inr (x, int (same_time xs) + 1))"
        unfolding c using True i by (simp add: client_monitor_def)
      then show ?thesis unfolding step using True False e(2) by (simp add: stuck_snoc word_gt_0)
    next
      case no: False
      then have "run (xs @ [x]) = 1 \<or> x = 0" "same_time (xs @ [x]) = 0" by (auto simp: run_snoc same_time_def)
      moreover have "client_monitor x (if xs = [] then 0 else last xs, int (same_time xs)) = Inr (x, 0)"
        using no by (auto simp: client_monitor_def)
      ultimately show ?thesis unfolding step using False by (auto simp: stuck_snoc)
    qed
  qed
qed

text \<open>
  The monitor of a client machine panics exactly when it has seen the same count of
  executed operations twelve times in a row and the count is neither 0 nor at least 100000; a
  client that has not executed anything yet, or has executed many, is never taken to be stuck.
\<close>

theorem client_monitor_panics_iff:
  assumes "length xs < 2 ^ 31"
  shows "foldR client_monitor xs (0, 0) = Inl (Panic ''Program must be stuck'')
    \<longleftrightarrow> (\<exists>pre c post. xs = pre @ replicate 12 c @ post \<and> 0 < c \<and> c < 100000)"
  using client_monitor_run [OF assms] by (simp add: stuck_def)

theorem client_monitor_panics_iff_witness:
  "foldR client_monitor (3 # replicate 12 7) (0, 0) = Inl (Panic ''Program must be stuck'')"
proof -
  have "\<exists>pre c post. (3 :: u64) # replicate 12 7 = pre @ replicate 12 c @ post \<and> 0 < c \<and> c < 100000"
    by (intro exI [of _ "[3]"] exI [of _ 7] exI [of _ "[]"]) simp
  then show ?thesis using client_monitor_panics_iff [of "3 # replicate 12 7"] by simp
qed

end
