(* ===== verification/Exchange.thy ===== *)
theory Exchange
  imports Server_Worker
begin

text \<open>
  A client and a server together: the request methods of \<open>Client\<close> (\<open>src/src/connection.cpp\<close>)
  composed with the handler of \<open>server_worker\<close> (\<open>src/src/ldc.cpp\<close>) through the flows that both
  record. What the client sends over a flow reaches the server as that flow, and the messages the
  server hands to the reversed flow are what the client polls next. No definition here models
  code: the theory composes the models of the two sides.
\<close>

section \<open>A request and its answers\<close>

text \<open>The messages sent since \<open>w\<close> that the network delivers to the sender at the other end of \<open>rx\<close>.\<close>

definition replies :: "flow \<Rightarrow> 'a connection_scheme \<Rightarrow> 'a connection_scheme \<Rightarrow> (recv_result \<times> bool) list" where
  "replies rx w w' =
     map (\<lambda>(f, data). (Recv f data, False)) (filter (\<lambda>(f, _). f = reply_flow rx) (drop (length (sent w)) (sent w')))"

definition remote_put ::
    "('b, 'e, 'd) worker_params \<Rightarrow> int \<Rightarrow> int \<Rightarrow> string \<Rightarrow> string \<Rightarrow> 'a connection_scheme \<times> ('b, 'e, 'd, 'z) worker_scheme
     \<Rightarrow> ('a connection_scheme \<times> ('b, 'e, 'd, 'z) worker_scheme) res" where
  "remote_put P i t key value = (\<lambda>(c, w).
     bindR (vec_at_int (remote_machine_configs c) i) (\<lambda>r.
     let rx = flow_to c (i, rm_port r + t) in
     bindR (receive (worker_handler P) (Recv rx [PutRequest key value]) (w, ())) (\<lambda>(_, w', _).
     mapR (\<lambda>(_, c'). (c', w')) (connection_put (wp_net P) i t key value (replies rx w w') c))))"

definition remote_get ::
    "('b, 'e, 'd) worker_params \<Rightarrow> int \<Rightarrow> int \<Rightarrow> string \<Rightarrow> 'a connection_scheme \<times> ('b, 'e, 'd, 'z) worker_scheme
     \<Rightarrow> (string \<times> 'a connection_scheme \<times> ('b, 'e, 'd, 'z) worker_scheme) res" where
  "remote_get P i t key = (\<lambda>(c, w).
     bindR (vec_at_int (remote_machine_configs c) i) (\<lambda>r.
     let rx = flow_to c (i, rm_port r + t) in
     bindR (receive (worker_handler P) (Recv rx [GetRequest key]) (w, ())) (\<lambda>(_, w', _).
     mapR (\<lambda>(v, _, c'). (v, c', w')) (connection_get (wp_net P) i t key (replies rx w w') c))))"

fun remote_gets ::
    "nat \<Rightarrow> ('b, 'e, 'd) worker_params \<Rightarrow> int \<Rightarrow> int \<Rightarrow> string \<Rightarrow> 'a connection_scheme \<times> ('b, 'e, 'd, 'z) worker_scheme
     \<Rightarrow> (string list \<times> 'a connection_scheme \<times> ('b, 'e, 'd, 'z) worker_scheme) res" where
  "remote_gets 0 P i t key st = Inr ([], st)"
| "remote_gets (Suc n) P i t key st =
     bindR (remote_get P i t key st) (\<lambda>(v, st). mapR (\<lambda>(vs, st). (v # vs, st)) (remote_gets n P i t key st))"

section \<open>What is asked of the block cache\<close>

definition cached :: "'b block_cache_api \<Rightarrow> string \<Rightarrow> string \<Rightarrow> 'b \<Rightarrow> bool" where
  "cached api key value b \<longleftrightarrow> exists_in_cache api key b \<and> fst (block_cache_get api key b) = value"

definition keeps_entries :: "'b block_cache_api \<Rightarrow> bool" where
  "keeps_entries api \<longleftrightarrow>
     (\<forall>key value b. cached api key value (block_cache_put api key value b))
     \<and> (\<forall>key value b. cached api key value b \<longrightarrow>
          cached api key value (update_frequency api key b)
          \<and> cached api key value (snd (block_cache_get api key b))
          \<and> cached api key value (reset_cache_info api b))"

lemma keeps_entries_dests:
  assumes "keeps_entries api"
  shows "cached api key value (block_cache_put api key value b)"
    and "cached api key value b \<Longrightarrow> cached api key value (update_frequency api key b)"
    and "cached api key value b \<Longrightarrow> cached api key value (snd (block_cache_get api key b))"
    and "cached api key value b \<Longrightarrow> cached api key value (reset_cache_info api b)"
  using assms by (auto simp: keeps_entries_def)

lemma c_str_idem [simp]: "c_str (c_str s) = c_str s"
  by (simp add: c_str_def takeWhile_takeWhile)

lemma reply_flow_reply_flow [simp]: "reply_flow (reply_flow f) = f"
  by (simp add: reply_flow_def)

section \<open>The server's part\<close>

text \<open>A worker that has the key, and whose statistics have an entry for it.\<close>

definition holds :: "('b, 'e, 'd) worker_params \<Rightarrow> string \<Rightarrow> string \<Rightarrow> nat \<Rightarrow> ('b, 'e, 'd, 'z) worker_scheme \<Rightarrow> bool" where
  "holds P key value k w \<longleftrightarrow> cached (wp_cache P) key value (block_cache w) \<and> snapshot_covers (worker_snapshot w) k"

lemma holds_updates [simp]:
  "holds P key value k (w\<lparr>packets_handled := n, ops_executed := c\<rparr>) = holds P key value k w"
  "holds P key value k (snd (note_sender rx w)) = holds P key value k w"
  "holds P key value k (sent_to i p data w) = holds P key value k w"
  by (simp_all add: holds_def note_sender_def Let_def sent_to_def)

lemma holds_reset: "keeps_entries (wp_cache P) \<Longrightarrow> holds P key value k w \<Longrightarrow> holds P key value k (reset_at_warmup P w)"
  by (simp add: holds_def reset_at_warmup_def keeps_entries_dests)

lemma reset_keeps [simp]:
  "sent (reset_at_warmup P w) = sent w" "flow_to (reset_at_warmup P w) ip = flow_to w ip"
  by (simp_all add: reset_at_warmup_def flow_to_def)

lemma handle_get_hit:
  assumes "reliable (wp_net P)" "keeps_entries (wp_cache P)"
    and "stoi (c_str key) = Inr kx" "0 \<le> kx" "kx < 2 ^ 31" "holds P (c_str key) value (nat kx) w"
  shows "\<exists>w'. handle_get P i p key w = Inr w' \<and> sent w' = sent w @ [(flow_to w (i, p), [GetResponse OK value])]
    \<and> holds P (c_str key) value (nat kx) w'"
proof -
  have k: "unat (of_int kx :: u64) = nat kx" using assms(4,5) by (simp add: unat_of_int_u64)
  let ?api = "wp_cache P" and ?r = "reset_at_warmup P w"
  let ?b = "update_frequency ?api (c_str key) (block_cache ?r)"
  have r: "cached ?api (c_str key) value (block_cache ?r)" "snapshot_covers (worker_snapshot ?r) (nat kx)"
    using holds_reset [OF assms(2,6)] by (simp_all add: holds_def)
  obtain sn where sn: "update_cache_hits (of_int kx) (worker_snapshot ?r) = Inr sn" "snapshot_covers sn (nat kx)"
    using update_covers(2) [OF r(2) k] by blast
  obtain sn' where sn': "update_total_access (of_int kx) sn = Inr sn'" "snapshot_covers sn' (nat kx)"
    using update_covers(1) [OF sn(2) k] by blast
  have b: "cached ?api (c_str key) value ?b" by (rule keeps_entries_dests(2) [OF assms(2) r(1)])
  obtain b' where g: "block_cache_get ?api (c_str key) ?b = (value, b')" "cached ?api (c_str key) value b'"
    using b keeps_entries_dests(3) [OF assms(2) b] by (cases "block_cache_get ?api (c_str key) ?b") (simp add: cached_def)
  let ?w1 = "?r\<lparr>packets_handled := packets_handled ?r + 1, ops_executed := ops_executed ?r + 1, worker_snapshot := sn, block_cache := b'\<rparr>"
  have "handle_get P i p key w = Inr ((sent_to i p [GetResponse OK value] ?w1)\<lparr>worker_snapshot := sn'\<rparr>)"
    using r(1) by (simp add: handle_get_def Let_def assms(3) serve_hit_def sn sn' g get_response_reliable [OF assms(1)] cached_def)
  moreover have "flow_to ?w1 (i, p) = flow_to w (i, p)" "sent ?w1 = sent w"
    by (simp_all add: flow_to_def) (simp_all add: reset_at_warmup_def)
  ultimately show ?thesis using g(2) sn'(2) by (simp add: holds_def sent_to_def)
qed

lemma handle_put_holds:
  assumes "reliable (wp_net P)" "keeps_entries (wp_cache P)" "0 \<le> i" "nat i < length (remote_machine_configs w)"
    and "snapshot_covers (worker_snapshot w) k"
  shows "\<exists>w'. handle_put P i key value w = Inr w'
    \<and> sent w' = sent w @ [(flow_to w (i, rm_port (remote_machine_configs w ! nat i)), [PutResponse OK])]
    \<and> holds P (c_str key) (c_str value) k w'"
proof -
  have r: "vec_at_int (remote_machine_configs w) i = Inr (remote_machine_configs w ! nat i)"
    using assms(3,4) by (intro vec_at_int_in) linarith+
  show ?thesis
    using assms(5) keeps_entries_dests(2) [OF assms(2) keeps_entries_dests(1) [OF assms(2)]]
    by (simp add: handle_put_def put_response_default_def put_response_def r send_reliable [OF assms(1)] holds_def sent_to_def flow_to_def)
qed

section \<open>The client's part\<close>

lemma flow_to_noted:
  "flow_to c ip = rx \<Longrightarrow> flow_to (snd (note_sender (reply_flow rx) c)) ip = rx"
  by (auto simp: flow_to_def note_sender_def Let_def map_at_def)

lemma replies_one:
  "sent w' = sent w @ [(reply_flow rx, data)] \<Longrightarrow> replies rx w w' = [(Recv (reply_flow rx) data, False)]"
  by (simp add: replies_def)

lemma connection_put_one:
  assumes "reliable net" "0 \<le> index" "nat index < length (remote_machine_configs c)"
  shows "connection_put net index t key value ((Recv f [m], stop) # evs) c
    = Inr (evs, snd (note_sender f (sent_to index (rm_port (remote_machine_configs c ! nat index) + t) [PutRequest key value] c)))"
proof -
  have h: "put_handler i p tx m (c', l) = Inr (c', l)" for i p tx c' l by (simp add: put_handler_def)
  have r: "vec_at_int (remote_machine_configs c) index = Inr (remote_machine_configs c ! nat index)"
    using assms(2,3) by (intro vec_at_int_in) linarith+
  show ?thesis
    by (simp add: connection_put_def r send_reliable [OF assms(1)] poll_one [where m = m and handler = put_handler and g = "\<lambda>l. l", OF h])
qed

section \<open>Reading what was written\<close>

text \<open>The flow a client has recorded for a server and thread.\<close>

definition request_flow :: "int \<Rightarrow> int \<Rightarrow> 'a connection_scheme \<Rightarrow> flow" where
  "request_flow i t c = flow_to c (i, rm_port (remote_machine_configs c ! nat i) + t)"

lemma remote_get_hit:
  assumes "reliable (wp_net P)" "keeps_entries (wp_cache P)" "stoi (c_str key) = Inr kx" "0 \<le> kx" "kx < 2 ^ 31"
    and "0 \<le> i" "nat i < length (remote_machine_configs c)" "holds P (c_str key) value (nat kx) w"
  shows "\<exists>c' w'. remote_get P i t key (c, w) = Inr (c_str value, c', w')
    \<and> request_flow i t c' = request_flow i t c \<and> remote_machine_configs c' = remote_machine_configs c
    \<and> holds P (c_str key) value (nat kx) w'"
proof -
  let ?rx = "request_flow i t c"
  have r: "vec_at_int (remote_machine_configs c) i = Inr (remote_machine_configs c ! nat i)"
    using assms(6,7) by (intro vec_at_int_in) linarith+
  obtain j w1 where n: "note_sender ?rx w = (j, w1)" by (metis surj_pair)
  have w1: "flow_to w1 (j, src_port ?rx) = reply_flow ?rx" "sent w1 = sent w" "holds P (c_str key) value (nat kx) w1"
    using note_sender_simps(2,3) [of ?rx w] holds_updates(2) [of P "c_str key" "value" "nat kx" ?rx w] assms(8)
    by (simp_all only: n fst_conv snd_conv)
  obtain w' where w': "handle_get P j (src_port ?rx) key w1 = Inr w'"
      "sent w' = sent w @ [(reply_flow ?rx, [GetResponse OK value])]" "holds P (c_str key) value (nat kx) w'"
    using handle_get_hit [OF assms(1-5) w1(3), of j "src_port ?rx"] w1 by auto
  have "receive (worker_handler P) (Recv ?rx [GetRequest key]) (w, ()) = Inr (True, w', ())"
    by (simp add: receive_one n worker_handler_def w'(1))
  then have "remote_get P i t key (c, w) = Inr (c_str value,
      snd (note_sender (reply_flow ?rx) (sent_to i (rm_port (remote_machine_configs c ! nat i) + t) [GetRequest key] c)), w')"
    by (simp add: remote_get_def r request_flow_def [symmetric] replies_one [OF w'(2)]
        connection_get_one [OF assms(1,6,7)] value_of_def)
  then show ?thesis
    using w'(3) flow_to_noted [of "sent_to i (rm_port (remote_machine_configs c ! nat i) + t) [GetRequest key] c"]
    by (simp add: request_flow_def)
qed

lemma remote_gets_hit:
  assumes "reliable (wp_net P)" "keeps_entries (wp_cache P)" "stoi (c_str key) = Inr kx" "0 \<le> kx" "kx < 2 ^ 31" "0 \<le> i"
  shows "nat i < length (remote_machine_configs c) \<Longrightarrow> holds P (c_str key) value (nat kx) w
    \<Longrightarrow> \<exists>st. remote_gets n P i t key (c, w) = Inr (replicate n (c_str value), st)"
proof (induction n arbitrary: c w)
  case (Suc n)
  obtain c' w' where g: "remote_get P i t key (c, w) = Inr (c_str value, c', w')"
      "remote_machine_configs c' = remote_machine_configs c" "holds P (c_str key) value (nat kx) w'"
    using remote_get_hit [OF assms Suc.prems] by blast
  with Suc.IH [of c' w'] Suc.prems(1) show ?case by auto
qed simp

lemma remote_put_holds:
  assumes "reliable (wp_net P)" "keeps_entries (wp_cache P)" "0 \<le> i" "nat i < length (remote_machine_configs c)"
    and "j = map_at (dst_ip_to_machine_index w) (src_ip (request_flow i t c)) 0" "0 \<le> j" "nat j < length (remote_machine_configs w)"
    and "src_port (request_flow i t c) = rm_port (remote_machine_configs w ! nat j)" "snapshot_covers (worker_snapshot w) k"
  shows "\<exists>c' w'. remote_put P i t key value (c, w) = Inr (c', w') \<and> remote_machine_configs c' = remote_machine_configs c
    \<and> holds P (c_str key) (c_str value) k w'"
proof -
  let ?rx = "request_flow i t c"
  have r: "vec_at_int (remote_machine_configs c) i = Inr (remote_machine_configs c ! nat i)"
    using assms(3,4) by (intro vec_at_int_in) linarith+
  obtain w1 where n: "note_sender ?rx w = (j, w1)" by (simp add: note_sender_def Let_def assms(5))
  have w1: "flow_to w1 (j, src_port ?rx) = reply_flow ?rx" "sent w1 = sent w" "remote_machine_configs w1 = remote_machine_configs w"
    using note_sender_simps(2,3,4) [of ?rx w] by (simp_all only: n fst_conv snd_conv)
  have sn: "worker_snapshot w1 = worker_snapshot w" using n by (auto simp: note_sender_def Let_def)
  obtain w' where w': "handle_put P j key value w1 = Inr w'"
      "sent w' = sent w @ [(reply_flow ?rx, [PutResponse OK])]" "holds P (c_str key) (c_str value) k w'"
    using handle_put_holds [OF assms(1,2,6), of w1 k key "value"] assms(7-9) w1 sn by auto
  have "receive (worker_handler P) (Recv ?rx [PutRequest key value]) (w, ()) = Inr (True, w', ())"
    by (simp add: receive_one n worker_handler_def w'(1))
  then show ?thesis
    using w'(3) by (simp add: remote_put_def r request_flow_def [symmetric] replies_one [OF w'(2)] connection_put_one [OF assms(1,3,4)])
qed

text \<open>
  Property C8: reading what was written. A client that puts a value, and is known to the server
  under the port of its configuration, gets its confirmation; then every one of any number of
  reads of the key through the network returns the value up to its first zero byte, whichever
  statistics are enabled and even if the server resets them in between, provided that the block
  cache keeps an entry it was just given while only this key is looked up.
\<close>

theorem reads_return_what_was_written:
  assumes "reliable (wp_net P)" "keeps_entries (wp_cache P)" "stoi (c_str key) = Inr kx" "0 \<le> kx" "kx < 2 ^ 31"
    and "0 \<le> i" "nat i < length (remote_machine_configs c)"
    and "j = map_at (dst_ip_to_machine_index w) (src_ip (request_flow i t c)) 0" "0 \<le> j" "nat j < length (remote_machine_configs w)"
    and "src_port (request_flow i t c) = rm_port (remote_machine_configs w ! nat j)"
    and "snapshot_covers (worker_snapshot w) (nat kx)"
  shows "\<exists>st. remote_put P i t key value (c, w) = Inr st
    \<and> (\<exists>st'. remote_gets n P i t key st = Inr (replicate n (c_str value), st'))"
proof -
  obtain c' w' where p: "remote_put P i t key value (c, w) = Inr (c', w')" "remote_machine_configs c' = remote_machine_configs c"
      "holds P (c_str key) (c_str value) (nat kx) w'"
    using remote_put_holds [OF assms(1,2,6-12), of key "value"] by blast
  have "\<exists>st'. remote_gets n P i t key (c', w') = Inr (replicate n (c_str value), st')"
    using remote_gets_hit [OF assms(1-6), of c' "c_str value" w' n] p(2,3) assms(7) by simp
  with p(1) show ?thesis by blast
qed

section \<open>Samples\<close>

lemma sample_cache_keeps: "keeps_entries sample_cache"
  by (auto simp: keeps_entries_def cached_def sample_cache_def)

definition sample_client :: connection where
  "sample_client = sample_connection\<lparr>machine_index_to_connection := [(2, 100) \<mapsto> no_flow\<lparr>src_port := 100\<rparr>]\<rparr>"

lemma sample_client_simps [simp]:
  "remote_machine_configs sample_client = sample_machines" "request_flow 2 0 sample_client = no_flow\<lparr>src_port := 100\<rparr>"
  by (simp_all add: sample_client_def request_flow_def flow_to_def map_at_def sample_connection_defs)

theorem reads_return_what_was_written_witness:
  "\<exists>st st'. remote_put (sample_worker_params True) 2 0 ''1'' ''BBBB'' (sample_client, sample_worker sample_snapshot) = Inr st
     \<and> remote_gets 2 (sample_worker_params True) 2 0 ''1'' st = Inr ([''BBBB'', ''BBBB''], st')"
proof -
  have v: "c_str ''BBBB'' = ''BBBB''" by code_simp
  have s: "snapshot_covers (worker_snapshot (sample_worker sample_snapshot)) (nat 1)"
    by (simp add: snapshot_covers_def sample_snapshot_def enabled_def)
  have p: "src_port (request_flow 2 0 sample_client) = rm_port (remote_machine_configs (sample_worker sample_snapshot) ! nat 0)"
    "nat 2 < length (remote_machine_configs sample_client)" "nat 0 < length (remote_machine_configs (sample_worker sample_snapshot))"
    "0 = map_at (dst_ip_to_machine_index (sample_worker sample_snapshot)) (src_ip (request_flow 2 0 sample_client)) 0"
    by (simp_all add: sample_machines_def map_at_def)
  have m: "reliable (wp_net (sample_worker_params True))" "keeps_entries (wp_cache (sample_worker_params True))" "stoi (c_str ''1'') = Inr 1"
    by (simp_all add: sample_net_reliable sample_cache_keeps)
  from reads_return_what_was_written [OF m _ _ _ p(2,4) _ p(3,1) s, of "''BBBB''" 2] show ?thesis
    by (auto simp: v numeral_2_eq_2)
qed

end
