(* ===== verification/Trace_Split.thy ===== *)
theory Trace_Split
  imports Workload Access_Climb
begin

text \<open>
  The stand-alone experiment \<open>src/src/testing_optimization.cpp\<close>: it reads the keys of a trace of
  operations, counts them, writes the cumulative distribution to a file and looks for the best
  split of the cache, by the first version of the hill climber and by the BOBYQA minimiser of
  dlib.

  The minimiser is third-party: a function from the objective to the point it returns. Where
  \<open>std::sort\<close> leaves the order of equal frequencies open, the sorting function is a parameter
  under the contract of the locale \<open>frequency_sort\<close>. The loops of the hill climber have no bound
  in the code and are partial functions into \<open>option\<close>. Messages are left out; the functions
  for the three workloads are \<open>workload_cdf\<close> with fixed file names.
\<close>

section \<open>Reading a trace\<close>

definition extract_u64 :: "string \<Rightarrow> (u64 \<times> string) option" where
  "extract_u64 s =
     (let (neg, t) = split_sign (skip_space s); (ds, r) = scan_digits t
      in if ds = [] then None
         else let v = digits_value ds
              in if int v < 2 ^ 64 then Some (if neg then - of_nat v else of_nat v, r) else None)"

lemma extract_u64_shorter: "extract_u64 s = Some (v, r) \<Longrightarrow> length r < length s"
proof -
  assume a: "extract_u64 s = Some (v, r)"
  obtain neg t where nt: "split_sign (skip_space s) = (neg, t)" by fastforce
  have "length t \<le> length (skip_space s)" using nt split_sign_shorter [of "skip_space s"] by simp
  moreover have "takeWhile is_digit t \<noteq> []" "r = dropWhile is_digit t"
    using a nt by (auto simp: extract_u64_def scan_digits_def Let_def split: if_splits)
  moreover from this have "length r < length t"
    by (metis append_eq_conv_conj length_append length_greater_0_conv less_add_same_cancel2 takeWhile_dropWhile_id)
  ultimately show ?thesis using skip_space_length [of s] by linarith
qed

function trace_keys :: "nat \<Rightarrow> string \<Rightarrow> u64 list" where
  "trace_keys total_keys s =
     (case extract_u64 s of None \<Rightarrow> []
      | Some (key, s1) \<Rightarrow> (case extract_char s1 of None \<Rightarrow> []
        | Some (node, s2) \<Rightarrow> (case extract_char s2 of None \<Rightarrow> []
          | Some (op, s3) \<Rightarrow> if 0 < total_keys then key # trace_keys (total_keys - 1) s3 else [])))"
  by pat_completeness auto
termination
proof (relation "measure (length \<circ> snd)", goal_cases)
  case (2 n s p key s1 q node s2 r op s3)
  then show ?case
    using extract_u64_shorter [of s key s1] extract_char_shorter [of s1 node s2] extract_char_shorter [of s2 op s3] by simp
qed simp

declare trace_keys.simps [simp del]

definition extract_keys :: "files \<Rightarrow> string \<Rightarrow> u64 list" where
  "extract_keys fs filename = (case fs filename of None \<Rightarrow> [] | Some t \<Rightarrow> trace_keys 10000000 t)"

section \<open>Counting\<close>

text \<open>The ordered map \<open>frequency\<close>, read in ascending order of its keys.\<close>

definition frequency_map :: "u64 list \<Rightarrow> (u64 \<rightharpoonup> u64)" where
  "frequency_map keys = fold (\<lambda>key m. m(key \<mapsto> map_at m key 0 + 1)) keys Map.empty"

definition sort_keys_by_frequency :: "((u64 \<times> string) list \<Rightarrow> (u64 \<times> string) list) \<Rightarrow> u64 list \<Rightarrow> (u64 \<times> string) list" where
  "sort_keys_by_frequency srt keys =
     srt (map (\<lambda>k. (map_at (frequency_map keys) k 0, to_string_nat (unat k))) (sort (remdups keys)))"

fun cdf_lines :: "u64 \<Rightarrow> u64 \<Rightarrow> (u64 \<times> string) list \<Rightarrow> string" where
  "cdf_lines tot acc [] = []"
| "cdf_lines tot acc (kv # kvs) =
     (let acc = acc + fst kv in
      to_string_nat (unat (fst kv)) @ CHR '' '' # snd kv @ CHR '' '' # to_string_nat (unat acc) @ CHR '' '' # to_string_nat (unat tot)
        @ newline # cdf_lines tot acc kvs)"

definition write_cdf_to_file :: "(string \<Rightarrow> bool) \<Rightarrow> (u64 \<times> string) list \<Rightarrow> string \<Rightarrow> files \<Rightarrow> files" where
  "write_cdf_to_file opens freq_vector filename fs =
     (if opens filename then fs(filename \<mapsto> cdf_lines (sum_list (map fst freq_vector)) 0 freq_vector) else fs)"

definition workload_cdf ::
    "((u64 \<times> string) list \<Rightarrow> (u64 \<times> string) list) \<Rightarrow> (string \<Rightarrow> bool) \<Rightarrow> string \<Rightarrow> string \<Rightarrow> files \<Rightarrow> (u64 \<times> string) list \<times> files" where
  "workload_cdf srt opens trace out fs =
     (let freq_vector = sort_keys_by_frequency srt (extract_keys fs trace) in (freq_vector, write_cdf_to_file opens freq_vector out fs))"

section \<open>Performance of a split\<close>

definition trace_sum_freq :: "(u64 \<times> string) list \<Rightarrow> u64 \<Rightarrow> u64 \<Rightarrow> u64 res" where
  "trace_sum_freq cdf start stop =
     foldR (\<lambda>i sum. bindR (vec_at cdf i) (\<lambda>e. Inr (sum + fst e))) [unat start..<unat stop] 0"

definition trace_performance :: "(u64 \<times> string) list \<Rightarrow> u64 \<Rightarrow> u64 \<Rightarrow> u64 \<Rightarrow> u64 \<Rightarrow> u64 \<Rightarrow> u64 res" where
  "trace_performance cdf cache_ns_avg disk_ns_avg rdma_ns_avg water_mark_local water_mark_remote =
     bindR (trace_sum_freq cdf 0 water_mark_local) (\<lambda>total_local_accesses.
     bindR (trace_sum_freq cdf water_mark_local (water_mark_local + water_mark_remote)) (\<lambda>total_remote_accesses.
     bindR (trace_sum_freq cdf (water_mark_local + water_mark_remote) (of_nat (length cdf))) (\<lambda>total_disk_accesses.
     u64_div (-1) (total_local_accesses * cache_ns_avg + total_remote_accesses * rdma_ns_avg + total_disk_accesses * disk_ns_avg))))"

definition u64_of_double :: "rat \<Rightarrow> u64 res" where
  "u64_of_double x = (if 0 \<le> trunc x \<and> trunc x < 2 ^ 64 then Inr (of_int (trunc x)) else Inl (Undefined ''float conversion''))"

section \<open>The hill climber\<close>

text \<open>The threshold of this version is half a percent, as a float.\<close>

definition trace_threshold :: rat where "trace_threshold = f32 (f64 (5 / 1000))"

definition trace_improves :: "u64 \<Rightarrow> u64 \<Rightarrow> bool" where
  "trace_improves new_performance best_performance \<longleftrightarrow>
     f32 (f32 (of_nat (unat best_performance)) * f32 (1 + trace_threshold)) < f32 (of_nat (unat new_performance))"

definition trace_worsens :: "u64 \<Rightarrow> u64 \<Rightarrow> bool" where
  "trace_worsens new_performance best_performance \<longleftrightarrow>
     f32 (of_nat (unat new_performance)) < f32 (f32 (of_nat (unat best_performance)) * f32 (1 - trace_threshold))"

definition tenth :: "nat \<Rightarrow> rat" where
  "tenth i = f32 (f64 (f64 (1 / 10) * of_nat i))"

fun trace_increase :: "perf \<Rightarrow> u64 \<Rightarrow> nat list \<Rightarrow> split \<times> bool \<Rightarrow> (split \<times> bool) res" where
  "trace_increase perf n [] st = Inr st"
| "trace_increase perf n (i # is) (best, improved_increasing) =
     bindR (percentage_to_index n (tenth i)) (\<lambda>d.
     let new_local = fst (snd best) + d; new_remote = n - new_local * 3 in
     if n \<le> new_remote then Inr (best, improved_increasing)
     else bindR (perf new_local new_remote) (\<lambda>p.
       trace_increase perf n is (if trace_improves p (fst best) then ((p, new_local, new_remote), True) else (best, improved_increasing))))"

text \<open>The loop that decreases the local share sets the flag of the other loop when it improves.\<close>

fun trace_decrease :: "perf \<Rightarrow> u64 \<Rightarrow> nat list \<Rightarrow> split \<times> bool \<Rightarrow> (split \<times> bool) res" where
  "trace_decrease perf n [] st = Inr st"
| "trace_decrease perf n (i # is) (best, improved_increasing) =
     bindR (percentage_to_index n (tenth i)) (\<lambda>d.
     let new_local = fst (snd best) - d in
     if new_local = 0 then Inr (best, improved_increasing)
     else let new_remote = n - new_local * 3 in
       bindR (perf new_local new_remote) (\<lambda>p.
       trace_decrease perf n is (if trace_improves p (fst best) then ((p, new_local, new_remote), True) else (best, improved_increasing))))"

partial_function (option) trace_climb :: "perf \<Rightarrow> u64 \<Rightarrow> split \<Rightarrow> split res option" where
  "trace_climb perf n best =
     (case bindR (trace_increase perf n [1, 2, 3] (best, False)) (\<lambda>(best, improved_increasing).
             if improved_increasing then Inr (best, True) else trace_decrease perf n [1, 2, 3] (best, False)) of
        Inl e \<Rightarrow> Some (Inl e)
      | Inr (best, improved) \<Rightarrow> if improved then trace_climb perf n best else Some (Inr best))"

text \<open>The steps of one percent; a step whose remote part does not shrink is not tried, nor is the loop left.\<close>

partial_function (option) trace_step_up :: "perf \<Rightarrow> u64 \<Rightarrow> u64 \<Rightarrow> split \<Rightarrow> bool \<Rightarrow> split res option" where
  "trace_step_up perf n new_remote best reduced_perf_increasing =
     (if 0 < new_remote \<and> \<not> reduced_perf_increasing then
        (case percentage_to_index n 1 of
           Inl e \<Rightarrow> Some (Inl e)
         | Inr d \<Rightarrow>
             let new_local = fst (snd best) + d; new_remote = n - new_local * 3 in
             if n \<le> new_remote then trace_step_up perf n new_remote best reduced_perf_increasing
             else (case perf new_local new_remote of
                     Inl e \<Rightarrow> Some (Inl e)
                   | Inr p \<Rightarrow>
                       if trace_improves p (fst best) then trace_step_up perf n new_remote (p, new_local, new_remote) reduced_perf_increasing
                       else trace_step_up perf n new_remote best (trace_worsens p (fst best))))
      else Some (Inr best))"

partial_function (option) trace_step_down :: "perf \<Rightarrow> u64 \<Rightarrow> u64 \<Rightarrow> split \<Rightarrow> bool \<Rightarrow> split res option" where
  "trace_step_down perf n new_local best reduced_perf_decreasing =
     (if 0 < new_local \<and> reduced_perf_decreasing then
        (let new_remote = n - new_local * 3 in
         case perf new_local new_remote of
           Inl e \<Rightarrow> Some (Inl e)
         | Inr p \<Rightarrow>
             if trace_improves p (fst best) then Some (Inr (p, new_local, new_remote))
             else (case percentage_to_index n 1 of
                     Inl e \<Rightarrow> Some (Inl e)
                   | Inr d \<Rightarrow> trace_step_down perf n (new_local - d) best (reduced_perf_decreasing \<or> trace_worsens p (fst best))))
      else Some (Inr best))"

definition trace_one_percent :: "perf \<Rightarrow> u64 \<Rightarrow> split \<Rightarrow> split res option" where
  "trace_one_percent perf n best =
     Option.bind (trace_step_up perf n (n - fst (snd best) * 3) best False) (\<lambda>r.
     case r of
       Inl e \<Rightarrow> Some (Inl e)
     | Inr best \<Rightarrow>
         if fst (snd best) = 0
         then (case percentage_to_index n 1 of Inl e \<Rightarrow> Some (Inl e) | Inr d \<Rightarrow> trace_step_down perf n (fst (snd best) - d) best False)
         else Some (Inr best))"

text \<open>The split it prints as the best one.\<close>

definition trace_best_access_rates :: "(u64 \<times> string) list \<Rightarrow> u64 \<Rightarrow> u64 \<Rightarrow> u64 \<Rightarrow> split res option" where
  "trace_best_access_rates cdf cache_ns_avg disk_ns_avg rdma_ns_avg =
     (let perf = trace_performance cdf cache_ns_avg disk_ns_avg rdma_ns_avg; n = of_nat (length cdf) in
      case bindR (u64_of_double (f64 (f64 (6 / 10) * f64 (of_nat (length cdf))))) (\<lambda>remote. mapR (\<lambda>p. (p, 0, remote)) (perf 0 remote)) of
        Inl e \<Rightarrow> Some (Inl e)
      | Inr best \<Rightarrow> Option.bind (trace_climb perf n best) (\<lambda>r.
          case r of Inl e \<Rightarrow> Some (Inl e) | Inr best \<Rightarrow> trace_one_percent perf n best))"

section \<open>The minimiser\<close>

definition share_index :: "nat \<Rightarrow> rat \<Rightarrow> u64 res" where
  "share_index n share = u64_of_double (f64 (share * f64 (of_nat n)))"

text \<open>The value of the objective: the negated performance, as a double.\<close>

definition objective_function :: "(u64 \<times> string) list \<Rightarrow> u64 \<Rightarrow> u64 \<Rightarrow> u64 \<Rightarrow> rat \<times> rat \<Rightarrow> rat res" where
  "objective_function cdf cache_ns_avg disk_ns_avg rdma_ns_avg = (\<lambda>(L_percent, remote_percent).
     bindR (share_index (length cdf) L_percent) (\<lambda>L_index.
     bindR (share_index (length cdf) remote_percent) (\<lambda>remote_index.
     mapR (\<lambda>performance. - f64 (of_nat (unat performance)))
       (trace_performance cdf cache_ns_avg disk_ns_avg rdma_ns_avg L_index remote_index))))"

text \<open>What it prints: the performance, converted back from the objective, and the two indices.\<close>

definition get_best_access_rates_dlib ::
    "((rat \<times> rat \<Rightarrow> rat res) \<Rightarrow> (rat \<times> rat) res) \<Rightarrow> (u64 \<times> string) list \<Rightarrow> u64 \<Rightarrow> u64 \<Rightarrow> u64 \<Rightarrow> (u64 \<times> u64 \<times> u64) res" where
  "get_best_access_rates_dlib find_min_bobyqa cdf cache_ns_avg disk_ns_avg rdma_ns_avg =
     (let objective = objective_function cdf cache_ns_avg disk_ns_avg rdma_ns_avg in
      bindR (find_min_bobyqa objective) (\<lambda>params.
      bindR (share_index (length cdf) (fst params)) (\<lambda>L.
      bindR (share_index (length cdf) (snd params)) (\<lambda>remote.
      bindR (objective params) (\<lambda>value.
      bindR (u64_of_double value) (\<lambda>w. Inr (- w, L, remote)))))))"

text \<open>The program: the distribution of the Zipfian trace, given to the minimiser.\<close>

definition trace_main ::
    "((u64 \<times> string) list \<Rightarrow> (u64 \<times> string) list) \<Rightarrow> ((rat \<times> rat \<Rightarrow> rat res) \<Rightarrow> (rat \<times> rat) res) \<Rightarrow> (string \<Rightarrow> bool) \<Rightarrow> files
      \<Rightarrow> ((u64 \<times> u64 \<times> u64) \<times> files) res" where
  "trace_main srt find_min_bobyqa opens fs =
     (let (zipfian_cdf, fs) = workload_cdf srt opens ''/mydata/ycsb_traces/zipfian/all_data.txt'' ''zipfian_cdf.txt'' fs in
      mapR (\<lambda>r. (r, fs)) (get_best_access_rates_dlib find_min_bobyqa zipfian_cdf 1000 100000 500000))"

section \<open>The contract of the sorting function\<close>

locale frequency_sort =
  fixes srt :: "(u64 \<times> string) list \<Rightarrow> (u64 \<times> string) list"
  assumes same_entries: "mset (srt xs) = mset xs"
    and descending: "sorted_wrt (\<lambda>a b. fst b \<le> fst a) (srt xs)"
begin

lemma set_srt [simp]: "set (srt xs) = set xs"
  by (metis same_entries set_mset_mset)

lemma distinct_srt: "distinct (map snd xs) \<Longrightarrow> distinct (map snd (srt xs))"
  by (metis mset_map same_entries mset_eq_imp_distinct_iff)

lemma sum_srt [simp]: "sum_list (map fst (srt xs)) = sum_list (map fst xs)"
  by (rule sum_list_mset_eq) (simp add: same_entries)

end

definition stable_by_frequency :: "(u64 \<times> string) list \<Rightarrow> (u64 \<times> string) list" where
  "stable_by_frequency xs = rev (sort_key fst xs)"

interpretation stable: frequency_sort stable_by_frequency
proof unfold_locales
  fix xs
  show "mset (stable_by_frequency xs) = mset xs" by (simp add: stable_by_frequency_def)
  have "sorted_wrt (\<lambda>a b. fst a \<le> fst b) (sort_key fst xs)" using sorted_sort_key [of fst xs] by (simp add: sorted_map)
  then show "sorted_wrt (\<lambda>a b. fst b \<le> fst a) (stable_by_frequency xs)" by (simp add: stable_by_frequency_def sorted_wrt_rev)
qed

section \<open>The keys of a trace\<close>

lemma fold_frequency: "map_at (fold (\<lambda>key m. m(key \<mapsto> map_at m key 0 + 1)) keys m) k 0 = map_at m k 0 + (of_nat (count_list keys k) :: u64)"
  by (induction keys arbitrary: m) (simp_all add: map_at_def)

lemma frequency_map_count: "map_at (frequency_map keys) k 0 = of_nat (count_list keys k)"
  by (simp add: frequency_map_def fold_frequency)

lemma sum_counts: "sum_list (map (count_list keys) (sort (remdups keys))) = length keys"
proof -
  have "sum_list (map (count_list keys) (sort (remdups keys))) = sum (count_list keys) (set keys)"
    by (subst sum_list_distinct_conv_sum_set) simp_all
  then show ?thesis by (simp add: sum_count_set)
qed

text \<open>The entries that are sorted: each key once, with the number of its occurrences.\<close>

definition counted :: "u64 list \<Rightarrow> (u64 \<times> string) list" where
  "counted keys = map (\<lambda>k. (of_nat (count_list keys k), to_string_nat (unat k))) (sort (remdups keys))"

lemma sort_keys_counted: "sort_keys_by_frequency srt keys = srt (counted keys)"
  by (simp add: sort_keys_by_frequency_def counted_def frequency_map_count)

lemma counted_props:
  "distinct (map snd (counted keys))"
  "set (counted keys) = (\<lambda>k. (of_nat (count_list keys k), to_string_nat (unat k))) ` set keys"
  "sum_list (map fst (counted keys)) = of_nat (length keys)"
proof -
  show "distinct (map snd (counted keys))"
    by (simp add: counted_def distinct_map inj_on_def to_string_nat_inj comp_def word_unat_eq_iff [symmetric])
  show "set (counted keys) = (\<lambda>k. (of_nat (count_list keys k), to_string_nat (unat k))) ` set keys" by (simp add: counted_def)
  have "sum_list (map (\<lambda>k. of_nat (f k)) ks) = (of_nat (sum_list (map f ks)) :: u64)" for f and ks :: "u64 list"
    by (induction ks) simp_all
  then have "sum_list (map fst (counted keys)) = (of_nat (sum_list (map (count_list keys) (sort (remdups keys)))) :: u64)"
    by (simp add: counted_def comp_def)
  then show "sum_list (map fst (counted keys)) = of_nat (length keys)" by (simp only: sum_counts)
qed

text \<open>
  Whatever order the sorting function gives keys of the same frequency, every key of
  the trace is listed exactly once, with the number of its occurrences, in descending order of
  frequency, and the frequencies add up to the length of the trace.
\<close>

theorem sort_keys_by_frequency_counts:
  assumes "frequency_sort srt" "length keys < 2 ^ 64"
  shows "sorted_wrt (\<lambda>a b. fst b \<le> fst a) (sort_keys_by_frequency srt keys)
    \<and> distinct (map snd (sort_keys_by_frequency srt keys))
    \<and> set (sort_keys_by_frequency srt keys) = (\<lambda>k. (of_nat (count_list keys k), to_string_nat (unat k))) ` set keys
    \<and> unat (sum_list (map fst (sort_keys_by_frequency srt keys))) = length keys"
  using assms(2) frequency_sort.descending [OF assms(1)] frequency_sort.distinct_srt [OF assms(1) counted_props(1)]
  by (simp add: sort_keys_counted frequency_sort.set_srt [OF assms(1)] frequency_sort.sum_srt [OF assms(1)] counted_props(2,3))

theorem sort_keys_by_frequency_counts_witness:
  "unat (sum_list (map fst (sort_keys_by_frequency stable_by_frequency [7, 5, 7]))) = 3
    \<and> (2, ''7'') \<in> set (sort_keys_by_frequency stable_by_frequency [7, 5, 7])"
proof -
  have "to_string_nat (unat (7 :: u64)) = ''7''" by code_simp
  then show ?thesis using sort_keys_by_frequency_counts [OF stable.frequency_sort_axioms, of "[7, 5, 7]"] by (auto simp: image_iff)
qed

section \<open>Traces that the generators write\<close>


definition read_of :: "nat \<Rightarrow> int \<Rightarrow> operation" where
  "read_of key node = \<lparr>op_key = to_string_nat key, op_node = node, op_code = READ_OP\<rparr>"

lemma extract_u64_space [simp]: "is_space c \<Longrightarrow> extract_u64 (c # s) = extract_u64 s"
  by (simp add: extract_u64_def)

lemma extract_u64_append:
  assumes "k < 2 ^ 64" "r = [] \<or> \<not> is_digit (hd r)"
  shows "extract_u64 (to_string_nat k @ r) = Some (of_nat k, r)"
proof -
  have "scan_digits (to_string_nat k @ r) = (to_string_nat k, r)" by (rule scan_digits_append [OF to_string_nat_digits assms(2)])
  then show ?thesis using assms(1)
    by (simp add: extract_u64_def skip_space_word to_string_nat_is_word split_sign_append to_string_nat_digits)
qed

lemma extract_u64_no_digit: "\<not> is_space c \<Longrightarrow> \<not> is_digit c \<Longrightarrow> c \<notin> {CHR ''-'', CHR ''+''} \<Longrightarrow> extract_u64 (c # s) = None"
  by (simp add: extract_u64_def scan_digits_def)

lemma node_text:
  "0 \<le> node \<Longrightarrow> node < 10 \<Longrightarrow> to_string_int node = [digit_char (nat node)]"
  "10 \<le> node \<Longrightarrow> node < 100 \<Longrightarrow> to_string_int node = [digit_char (nat node div 10), digit_char (nat node mod 10)]"
proof -
  assume a: "10 \<le> node" "node < 100"
  then have "nat node div 10 < 10" "\<not> nat node < 10" by linarith+
  then have "to_string_nat (nat node) = [digit_char (nat node div 10), digit_char (nat node mod 10)]"
    by (subst to_string_nat.simps, subst to_string_nat.simps) simp
  then show "to_string_int node = [digit_char (nat node div 10), digit_char (nat node mod 10)]"
    using a by (simp add: to_string_int_def)
qed (simp add: to_string_int_def to_string_nat.simps)

lemma trace_keys_newline [simp]: "trace_keys n (newline # s) = trace_keys n s"
  by (subst (1 2) trace_keys.simps) simp

lemma trace_keys_stop: "trace_keys n (CHR '' '' # CHR ''R'' # s) = []"
  by (subst trace_keys.simps) (simp add: extract_u64_no_digit is_digit_def)

lemma trace_keys_line:
  assumes "k < 2 ^ 64" "0 < n"
  shows "0 \<le> node \<Longrightarrow> node < 10 \<Longrightarrow> trace_keys n (op_line (read_of k node) @ r) = of_nat k # trace_keys (n - 1) r"
    "10 \<le> node \<Longrightarrow> node < 100 \<Longrightarrow> trace_keys n (op_line (read_of k node) @ r) = [of_nat k]"
proof -
  have u: "extract_u64 (to_string_nat k @ CHR '' '' # t) = Some (of_nat k, CHR '' '' # t)" for t
    using extract_u64_append [OF assms(1), of "CHR '' '' # t"] by simp
  {
    assume "0 \<le> node" "node < 10"
    then have d: "to_string_int node = [digit_char (nat node)]" "\<not> is_space (digit_char (nat node))"
      by (simp_all add: node_text digit_char_props)
    show "trace_keys n (op_line (read_of k node) @ r) = of_nat k # trace_keys (n - 1) r"
      using assms(2) by (subst trace_keys.simps) (simp add: op_line_def read_of_def READ_OP_def u d)
  next
    assume a: "10 \<le> node" "node < 100"
    then have d: "to_string_int node = [digit_char (nat node div 10), digit_char (nat node mod 10)]"
      "\<not> is_space (digit_char (nat node div 10))" "\<not> is_space (digit_char (nat node mod 10))"
      by (simp_all add: node_text digit_char_props less_mult_imp_div_less)
    show "trace_keys n (op_line (read_of k node) @ r) = [of_nat k]"
      using assms(2) by (subst trace_keys.simps) (simp add: op_line_def read_of_def READ_OP_def u d trace_keys_stop)
  }
qed

lemma trace_keys_lines:
  assumes "\<forall>(k, node) \<in> set kns. k < 2 ^ 64 \<and> 0 \<le> node \<and> node < 10"
  shows "length kns \<le> n \<Longrightarrow>
    trace_keys n (dump_text (map (\<lambda>(k, node). read_of k node) kns) @ r) = map (of_nat \<circ> fst) kns @ trace_keys (n - length kns) r"
  using assms
proof (induction kns arbitrary: n)
  case (Cons kn kns)
  obtain k node where kn: "kn = (k, node)" by (cases kn)
  from Cons have "0 < n" "k < 2 ^ 64" "0 \<le> node" "node < 10" "length kns \<le> n - 1" by (auto simp: kn)
  with Cons.IH [of "n - 1"] Cons.prems(2) show ?case by (simp add: kn dump_text_def trace_keys_line(1))
qed (simp add: dump_text_def)



section \<open>Segments of the distribution\<close>

lemma sum_freq_loop:
  "foldR (\<lambda>i acc. bindR (vec_at cdf i) (\<lambda>e. Inr (acc + fst e))) [a..<a + n] acc
    = (if a + n \<le> length cdf \<or> n = 0 then Inr (acc + sum_list (map fst (take n (drop a cdf)))) else Inl (Undefined ''vector index''))"
proof (induction n)
  case (Suc n)
  have "[a..<a + Suc n] = [a..<a + n] @ [a + n]" by simp
  moreover have "take (Suc n) (drop a cdf) = take n (drop a cdf) @ [cdf ! (a + n)]" if "a + n < length cdf"
    using that by (simp add: take_Suc_conv_app_nth)
  ultimately show ?case using Suc by (cases "a + n < length cdf") (auto simp: foldR_append algebra_simps)
qed simp

lemma trace_sum_freq_eq:
  "unat s \<le> unat e \<Longrightarrow> trace_sum_freq cdf s e
    = (if unat e \<le> length cdf \<or> s = e then Inr (sum_list (map fst (take (unat e - unat s) (drop (unat s) cdf))))
       else Inl (Undefined ''vector index''))"
  using sum_freq_loop [of cdf "unat s" "unat e - unat s" 0] by (auto simp: trace_sum_freq_def word_unat_eq_iff)

text \<open>The latency of all accesses when the first keys are local, the next ones remote, the rest on disk.\<close>

definition trace_latency :: "(u64 \<times> string) list \<Rightarrow> u64 \<Rightarrow> u64 \<Rightarrow> u64 \<Rightarrow> nat \<Rightarrow> nat \<Rightarrow> u64" where
  "trace_latency cdf cache_ns_avg disk_ns_avg rdma_ns_avg l r =
     sum_list (map fst (take l cdf)) * cache_ns_avg + sum_list (map fst (take r (drop l cdf))) * rdma_ns_avg
     + sum_list (map fst (drop (l + r) cdf)) * disk_ns_avg"

lemma trace_performance_eq:
  assumes "unat l + unat r \<le> length cdf" "length cdf < 2 ^ 64"
  shows "trace_performance cdf c d m l r = u64_div (-1) (trace_latency cdf c d m (unat l) (unat r))"
proof -
  have "unat l + unat r < 2 ^ 64" using assms by linarith
  then have lr: "unat (l + r) = unat l + unat r" by (simp add: unat_word_ariths)
  have n: "unat (of_nat (length cdf) :: u64) = length cdf" using assms(2) by simp
  have "trace_sum_freq cdf 0 l = Inr (sum_list (map fst (take (unat l) cdf)))"
    "trace_sum_freq cdf l (l + r) = Inr (sum_list (map fst (take (unat r) (drop (unat l) cdf))))"
    "trace_sum_freq cdf (l + r) (of_nat (length cdf)) = Inr (sum_list (map fst (drop (unat l + unat r) cdf)))"
    using assms by (subst trace_sum_freq_eq; simp add: lr n)+
  then show ?thesis by (simp add: trace_performance_def trace_latency_def algebra_simps)
qed

section \<open>The minimiser's box\<close>

definition in_box :: "rat \<times> rat \<Rightarrow> bool" where
  "in_box params \<longleftrightarrow> 0 \<le> fst params \<and> fst params \<le> f64 (334 / 1000) \<and> 0 \<le> snd params \<and> snd params \<le> f64 (6 / 10)"

lemma share_index_below:
  assumes "0 \<le> q" "q \<le> of_nat m / 8" "m \<le> 8" "n \<le> 10000000"
  shows "\<exists>i. share_index n q = Inr i \<and> 8 * unat i \<le> m * n"
proof -
  have n: "f64 (of_nat n) = of_nat n" using fl_int [of "int n" 53] assms(4) by simp
  let ?x = "f64 (q * of_nat n)"
  have mn: "int (m * n) \<le> 80000000" using mult_le_mono [OF assms(3,4)] by linarith
  then have "\<bar>int (m * n)\<bar> \<le> 2 ^ 53" by simp
  then have e: "f64 (of_int (int (m * n)) / 2 ^ 3) = of_int (int (m * n)) / 2 ^ 3" by (rule fl_dyadic) simp
  have "q * of_nat n \<le> of_int (int (m * n)) / 2 ^ 3" using mult_right_mono [OF assms(2), of "of_nat n"] by simp
  then have le: "?x \<le> of_int (int (m * n)) / 2 ^ 3" using fl_mono [of "q * of_nat n" _ 53] e by fastforce
  have 0: "0 \<le> ?x" using assms(1) by (intro fl_nonneg) simp_all
  have f: "8 * \<lfloor>?x\<rfloor> \<le> int (m * n)"
  proof -
    have "8 * ?x \<le> of_int (int (m * n))" using le by simp
    then have "of_int (8 * \<lfloor>?x\<rfloor>) \<le> (of_int (int (m * n)) :: rat)" using of_int_floor_le [of ?x] by (simp only: of_int_mult of_int_numeral)
    then show ?thesis by (simp only: of_int_le_iff)
  qed
  have f0: "0 \<le> \<lfloor>?x\<rfloor>" using 0 by simp
  have "\<lfloor>?x\<rfloor> < 18446744073709551616" using f mn by linarith
  then have lt: "\<lfloor>?x\<rfloor> < 2 ^ 64" by (simp only: power_numeral Num.pow.simps Num.sqr.simps)
  then have s: "share_index n q = Inr (of_int \<lfloor>?x\<rfloor>)" using 0 by (simp add: share_index_def n u64_of_double_def trunc_def)
  have "uint (of_int \<lfloor>?x\<rfloor> :: u64) = \<lfloor>?x\<rfloor>" using f0 lt by (simp add: uint_word_of_int)
  then have "int (unat (of_int \<lfloor>?x\<rfloor> :: u64)) = \<lfloor>?x\<rfloor>" by simp
  then have "8 * unat (of_int \<lfloor>?x\<rfloor> :: u64) \<le> m * n" using f by linarith
  with s show ?thesis by blast
qed

lemma box_bounds: "f64 (334 / 1000) \<le> of_nat 3 / 8" "f64 (6 / 10) \<le> of_nat 5 / 8"
  by code_simp+

lemma box_indices:
  assumes "in_box params" "n \<le> 10000000"
  shows "\<exists>l r. share_index n (fst params) = Inr l \<and> share_index n (snd params) = Inr r \<and> unat l + unat r \<le> n"
proof -
  obtain l where "share_index n (fst params) = Inr l" "8 * unat l \<le> 3 * n"
    using share_index_below [of "fst params" 3 n] assms box_bounds unfolding in_box_def by auto
  moreover obtain r where "share_index n (snd params) = Inr r" "8 * unat r \<le> 5 * n"
    using share_index_below [of "snd params" 5 n] assms box_bounds unfolding in_box_def by auto
  ultimately show ?thesis by auto
qed

lemma max_div_pos: "(w :: u64) \<noteq> 0 \<Longrightarrow> 0 < unat ((-1) div w)"
proof -
  assume "w \<noteq> 0"
  then have "0 < unat w" "unat w \<le> unat (-1 :: u64)" by (simp_all add: unat_gt_0 word_le_nat_alt [symmetric])
  then show ?thesis by (simp only: unat_div div_greater_zero_iff)
qed

text \<open>
  Whatever point of its box the minimiser returns, the experiment reports nothing:
  the indices stay inside the distribution, but either the latency there is zero and the objective
  divides by it, or the objective is at most -1 and its conversion to an unsigned integer, meant
  to undo the negation, is undefined.
\<close>

theorem dlib_report_undefined:
  assumes "find_min_bobyqa (objective_function cdf c d m) = Inr params" "in_box params" "length cdf \<le> 10000000"
  shows "\<exists>l r. share_index (length cdf) (fst params) = Inr l \<and> share_index (length cdf) (snd params) = Inr r
    \<and> unat l + unat r \<le> length cdf
    \<and> get_best_access_rates_dlib find_min_bobyqa cdf c d m
      = Inl (Undefined (if trace_latency cdf c d m (unat l) (unat r) = 0 then ''division by zero'' else ''float conversion''))"
proof -
  obtain l r where i: "share_index (length cdf) (fst params) = Inr l" "share_index (length cdf) (snd params) = Inr r"
      "unat l + unat r \<le> length cdf" using box_indices [OF assms(2,3)] by blast
  have len: "length cdf < 2 ^ 64" using assms(3) by simp
  let ?w = "trace_latency cdf c d m (unat l) (unat r)"
  have obj: "objective_function cdf c d m params = mapR (\<lambda>p. - f64 (of_nat (unat p))) (u64_div (-1) ?w)"
    using i by (cases params) (simp add: objective_function_def trace_performance_eq [OF i(3) len])
  have neg: "u64_of_double (- f64 (of_nat (unat ((-1) div ?w)))) = Inl (Undefined ''float conversion'')" if "?w \<noteq> 0"
  proof -
    let ?x = "f64 (of_nat (unat ((-1) div ?w)))"
    have "Suc 0 \<le> unat ((-1) div ?w)" using max_div_pos [OF that] by (rule Suc_leI)
    then have "of_nat (Suc 0) \<le> (of_nat (unat ((-1) div ?w)) :: rat)" by (simp only: of_nat_le_iff)
    then have "of_int 1 \<le> (of_nat (unat ((-1) div ?w)) :: rat)" by (simp only: of_nat_Suc of_nat_0 add_0_right of_int_1)
    then have "of_int 1 \<le> ?x" by (rule fl_ge_int) simp_all
    then have "trunc (- ?x) < 0" by (simp add: trunc_def ceiling_minus less_le_trans [OF zero_less_one] le_floor_iff)
    then show ?thesis by (simp add: u64_of_double_def)
  qed
  show ?thesis using i assms(1) neg by (auto simp: get_best_access_rates_dlib_def Let_def obj u64_div_def)
qed

theorem dlib_report_undefined_witness:
  "get_best_access_rates_dlib (\<lambda>_. Inr (0, 1 / 2)) [(3, ''7''), (1, ''5'')] 1000 100000 500000 = Inl (Undefined ''float conversion'')"
proof -
  have b: "in_box (0, 1 / 2)" by code_simp
  have i: "share_index (length [(3 :: u64, ''7''), (1, ''5'')]) (fst (0, 1 / 2)) = Inr 0" "share_index (length [(3 :: u64, ''7''), (1, ''5'')]) (snd (0, 1 / 2)) = Inr 1"
    by code_simp+
  from dlib_report_undefined [OF _ b, of "\<lambda>_. Inr (0, 1 / 2)" "[(3, ''7''), (1, ''5'')]" 1000 100000 500000] show ?thesis
    unfolding i by (auto simp: trace_latency_def)
qed

section \<open>The hill climber with few keys\<close>

lemma few_keys_no_step:
  assumes "0 \<le> f64 (percent / 100)" "99 * f64 (percent / 100) < 1" "f64 (99 * f64 (percent / 100)) < 1" "n < 100"
  shows "percentage_to_index (of_nat n) percent = Inr 0"
proof -
  let ?q = "f64 (percent / 100)"
  have "?q \<le> 1" using assms(1,2) by linarith
  then obtain d where d: "percentage_to_index (of_nat n) percent = Inr d" "int (unat d) = \<lfloor>f64 (of_nat n * ?q)\<rfloor>"
    using percentage_to_index_eq [of percent n] assms(1,4) by auto
  have "of_nat n * ?q \<le> 99 * ?q" using assms(1,4) by (intro mult_right_mono) simp_all
  then have "f64 (of_nat n * ?q) \<le> f64 (99 * ?q)" by (rule fl_mono) simp
  then have "\<lfloor>f64 (of_nat n * ?q)\<rfloor> \<le> 0" using assms(3) by (simp add: floor_le_zero)
  then have "unat d = 0" using d(2) by linarith
  then show ?thesis using d(1) by (simp add: unat_eq_0)
qed

lemma few_keys_steps:
  assumes "n < 100"
  shows "percentage_to_index (of_nat n) (tenth 1) = Inr 0" "percentage_to_index (of_nat n) 1 = Inr 0"
  by (rule few_keys_no_step [OF _ _ _ assms]; code_simp)+

lemma trace_step_up_stuck:
  assumes ret: "trace_step_up perf n rem best reduced = Some r"
  shows "\<not> (percentage_to_index n 1 = Inr 0 \<and> fst (snd best) = 0 \<and> rem = n \<and> 0 < n \<and> \<not> reduced)"
proof (rule trace_step_up.raw_induct [where P = "\<lambda>perf n rem best reduced r.
    \<not> (percentage_to_index n 1 = Inr 0 \<and> fst (snd best) = 0 \<and> rem = n \<and> 0 < n \<and> \<not> reduced)", OF _ ret], goal_cases)
  case (1 loop perf n rem best reduced r)
  show ?case
  proof
    assume a: "percentage_to_index n 1 = Inr 0 \<and> fst (snd best) = 0 \<and> rem = n \<and> 0 < n \<and> \<not> reduced"
    then have "loop perf n n best False = Some r" using 1(2) by (simp add: Let_def)
    from 1(1) [OF this] a show False by blast
  qed
qed

text \<open>
  With fewer than a hundred keys, whatever their frequencies, the first version of the
  hill climber never ends: no step of the first loop moves, so it starts the steps of one percent
  from a local share of nothing; such a step is no key, the remote part does not shrink, and the
  loop goes on without trying anything.
\<close>

theorem trace_best_access_rates_diverges:
  assumes "cdf \<noteq> []" "length cdf < 100" "u64_of_double (f64 (f64 (6 / 10) * f64 (of_nat (length cdf)))) = Inr remote"
    and "trace_performance cdf c d m 0 remote = Inr p"
  shows "trace_best_access_rates cdf c d m = None"
proof -
  let ?n = "of_nat (length cdf) :: u64" and ?perf = "trace_performance cdf c d m" and ?best = "(p, 0 :: u64, remote)"
  have i: "trace_increase ?perf ?n [1, 2, 3] (?best, False) = Inr (?best, False)"
    using few_keys_steps(1) [OF assms(2)] by simp
  have dn: "trace_decrease ?perf ?n [1, 2, 3] (?best, False) = Inr (?best, False)"
    using few_keys_steps(1) [OF assms(2)] by simp
  have "trace_climb ?perf ?n ?best = Some (Inr ?best)" by (subst trace_climb.simps) (simp only: i dn bindR_simps prod.case if_False sum.case)
  moreover have "0 < ?n" using assms(1,2) by (simp add: word_gt_0 unat_eq_0 [symmetric])
  then have "trace_step_up ?perf ?n ?n ?best False = None"
    using trace_step_up_stuck [of ?perf ?n ?n ?best False] few_keys_steps(2) [OF assms(2)] by (cases "trace_step_up ?perf ?n ?n ?best False") auto
  then have "trace_one_percent ?perf ?n ?best = None" by (simp add: trace_one_percent_def)
  ultimately show ?thesis unfolding trace_best_access_rates_def Let_def assms(3,4) bindR_simps mapR_simps sum.case by simp
qed

theorem trace_best_access_rates_diverges_witness:
  "trace_best_access_rates [(3, ''7''), (1, ''5'')] 1000 100000 500000 = None"
proof (rule trace_best_access_rates_diverges)
  show "u64_of_double (f64 (f64 (6 / 10) * f64 (of_nat (length [(3 :: u64, ''7''), (1, ''5'')])))) = Inr 1" by code_simp
  show "trace_performance [(3, ''7''), (1, ''5'')] 1000 100000 500000 0 1 = Inr ((-1) div 1600000)"
    by (simp add: trace_performance_eq trace_latency_def u64_div_def)
qed simp_all

end
