(* ===== verification/Cdf_Experiment.thy ===== *)
theory Cdf_Experiment
  imports Trace_Split
begin

text \<open>
  The second experiment, \<open>src/src/test_cdf.cpp\<close>: it groups the keys of a trace into percentiles, or
  reads a distribution from a file, and compares three searches for the best split. Sums of
  frequencies are read off a vector of prefix sums that is computed once; here it is an explicit
  state, \<open>None\<close> before the first call.

  The loops of its hill climber are those of \<open>access_rate_calculations.cpp\<close>, and so are the
  percentiles and the order in a bucket: these definitions are shared with \<open>Access_Climb\<close> and
  \<open>Access_Rate\<close>. Messages and time measurements are left out.
\<close>

section \<open>The distribution of a trace\<close>

definition cdf_extract_keys :: "files \<Rightarrow> string \<Rightarrow> u64 list" where
  "cdf_extract_keys fs filename = (case fs filename of None \<Rightarrow> [] | Some t \<Rightarrow> trace_keys 100000000 t)"

definition put_text :: "(string \<Rightarrow> bool) \<Rightarrow> string \<Rightarrow> string \<Rightarrow> files \<Rightarrow> files" where
  "put_text opens filename t fs = (if opens filename then fs(filename \<mapsto> t) else fs)"

definition pair_lines :: "(u64 \<times> string) list \<Rightarrow> string" where
  "pair_lines vec = concat (map (\<lambda>kv. to_string_nat (unat (fst kv)) @ CHR '' '' # snd kv @ [newline]) vec)"

definition write_vector_to_file :: "(string \<Rightarrow> bool) \<Rightarrow> (u64 \<times> string) list \<Rightarrow> string \<Rightarrow> files \<Rightarrow> files" where
  "write_vector_to_file opens vec filename = put_text opens filename (pair_lines vec)"

definition write_buckets_to_file :: "(string \<Rightarrow> bool) \<Rightarrow> (u64 \<times> (u64 \<times> string) list) list \<Rightarrow> string \<Rightarrow> files \<Rightarrow> files" where
  "write_buckets_to_file opens buckets filename =
     put_text opens filename (concat (map (\<lambda>(percentile, kvs).
       ''Percentile: '' @ to_string_nat (unat percentile) @ newline # pair_lines kvs @ [newline]) buckets))"

definition write_vectors_to_file :: "(string \<Rightarrow> bool) \<Rightarrow> (u64 \<times> string \<times> u64) list \<Rightarrow> string \<Rightarrow> files \<Rightarrow> files" where
  "write_vectors_to_file opens vec filename =
     put_text opens filename (concat (map (\<lambda>(freq, key, percentile).
       to_string_nat (unat freq) @ CHR '' '' # key @ CHR '' '' # to_string_nat (unat percentile) @ [newline]) vec))"

text \<open>Its \<open>sort_keys_by_frequency\<close>: by percentile first, then by key, the highest key first.\<close>

definition sort_keys_by_percentile ::
    "((u64 \<times> string) list \<Rightarrow> (u64 \<times> string) list) \<Rightarrow> (string \<Rightarrow> bool) \<Rightarrow> u64 list \<Rightarrow> files \<Rightarrow> ((u64 \<times> string) list \<times> files) res" where
  "sort_keys_by_percentile srt opens keys fs =
     (let freq_vector = sort_keys_by_frequency srt keys in
      bindR (percentiles (sum_list (map fst freq_vector)) 0 freq_vector) (\<lambda>pks.
      bindR (mapMR (\<lambda>(percentile, kvs). mapR (Pair percentile) (sort_bucket kvs)) (cdf_buckets pks)) (\<lambda>buckets.
      let sorted_key_freq = concat (map snd buckets);
          sorted_key_freqs = concat (map (\<lambda>(percentile, kvs). map (\<lambda>(freq, key). (freq, key, percentile)) kvs) buckets) in
      Inr (sorted_key_freq,
        write_vectors_to_file opens sorted_key_freqs ''sorted_key_freqs.txt''
          (write_vector_to_file opens sorted_key_freq ''sorted_key_freq.txt''
            (write_buckets_to_file opens buckets ''buckets.txt''
              (write_vector_to_file opens freq_vector ''freq_vector.txt'' fs)))))))"

definition percentile_workload ::
    "((u64 \<times> string) list \<Rightarrow> (u64 \<times> string) list) \<Rightarrow> (string \<Rightarrow> bool) \<Rightarrow> string \<Rightarrow> string \<Rightarrow> files \<Rightarrow> ((u64 \<times> string) list \<times> files) res" where
  "percentile_workload srt opens trace out fs =
     mapR (\<lambda>(freq_vector, fs). (freq_vector, write_cdf_to_file opens freq_vector out fs))
       (sort_keys_by_percentile srt opens (cdf_extract_keys fs trace) fs)"

section \<open>Sums of frequencies\<close>

fun running_sums :: "u64 \<Rightarrow> u64 list \<Rightarrow> u64 list" where
  "running_sums acc [] = []"
| "running_sums acc (f # fs) = (acc + f) # running_sums (acc + f) fs"

text \<open>The first call fills the vector; an empty distribution has no first element.\<close>

definition sum_freqs :: "(u64 \<times> string) list \<Rightarrow> u64 list option \<Rightarrow> u64 list res" where
  "sum_freqs cdf sum_freq =
     (case sum_freq of
        Some s \<Rightarrow> Inr s
      | None \<Rightarrow> if cdf = [] then Inl (Undefined ''vector index'') else Inr (running_sums 0 (map fst cdf)))"

definition cached_sum_freq :: "(u64 \<times> string) list \<Rightarrow> u64 \<Rightarrow> u64 \<Rightarrow> u64 list option \<Rightarrow> (u64 \<times> u64 list option) res" where
  "cached_sum_freq cdf start stop sum_freq =
     bindR (sum_freqs cdf sum_freq) (\<lambda>s.
     mapR (\<lambda>v. (v, Some s))
       (if start = 0 then vec_at s (unat (stop - 1))
        else bindR (vec_at s (unat (stop - 1))) (\<lambda>upper. mapR (\<lambda>lower. upper - lower) (vec_at s (unat (start - 1))))))"

text \<open>Both water marks are positions in the distribution here.\<close>

definition calculate_latency ::
    "(u64 \<times> string) list \<Rightarrow> u64 \<Rightarrow> u64 \<Rightarrow> u64 \<Rightarrow> u64 \<Rightarrow> u64 \<Rightarrow> u64 list option \<Rightarrow> (u64 \<times> u64 list option) res" where
  "calculate_latency cdf cache_ns_avg disk_ns_avg rdma_ns_avg water_mark_local water_mark_remote st =
     bindR (cached_sum_freq cdf 0 water_mark_local st) (\<lambda>(total_local_accesses, st).
     bindR (cached_sum_freq cdf water_mark_local water_mark_remote st) (\<lambda>(total_remote_accesses, st).
     bindR (cached_sum_freq cdf water_mark_remote (of_nat (length cdf)) st) (\<lambda>(total_disk_accesses, st).
     Inr (total_local_accesses * cache_ns_avg
       + (((2 * total_remote_accesses) div 3) * rdma_ns_avg + (total_remote_accesses div 3) * cache_ns_avg)
       + total_disk_accesses * disk_ns_avg, st))))"

definition cached_performance ::
    "(u64 \<times> string) list \<Rightarrow> u64 \<Rightarrow> u64 \<Rightarrow> u64 \<Rightarrow> u64 \<Rightarrow> u64 \<Rightarrow> u64 list option \<Rightarrow> (u64 \<times> u64 list option) res" where
  "cached_performance cdf cache_ns_avg disk_ns_avg rdma_ns_avg water_mark_local water_mark_remote st =
     bindR (calculate_latency cdf cache_ns_avg disk_ns_avg rdma_ns_avg water_mark_local water_mark_remote st) (\<lambda>(latency, st).
     mapR (\<lambda>p. (p, st)) (u64_div (-1) latency))"

section \<open>The searches\<close>

definition search_limit :: "(u64 \<times> string) list \<Rightarrow> u64 \<Rightarrow> u64" where
  "search_limit cdf cache_size = min (cache_size div 4) (of_nat (length cdf))"

text \<open>The first search balances the gain of the next local key against that of the next remote keys.\<close>

definition balance :: "(u64 \<times> string) list \<Rightarrow> u64 \<Rightarrow> u64 \<Rightarrow> u64 \<Rightarrow> u64 \<Rightarrow> u64 \<Rightarrow> u64 res" where
  "balance cdf cache_ns_avg disk_ns_avg rdma_ns_avg cache_size i =
     bindR (vec_at cdf (unat (cache_size - 3 * i))) (\<lambda>last_remote.
     bindR (vec_at cdf (unat i)) (\<lambda>next_local.
     Inr (3 * (disk_ns_avg - rdma_ns_avg) * fst last_remote - (rdma_ns_avg - cache_ns_avg) * fst next_local)))"

definition balance_step ::
    "(u64 \<times> string) list \<Rightarrow> u64 \<Rightarrow> u64 \<Rightarrow> u64 \<Rightarrow> u64 \<Rightarrow> nat \<Rightarrow> (u64 \<times> u64) option \<Rightarrow> (u64 \<times> u64) option res" where
  "balance_step cdf cache_ns_avg disk_ns_avg rdma_ns_avg cache_size i best =
     mapR (\<lambda>v. if (case best of None \<Rightarrow> True | Some (m, _) \<Rightarrow> v < m) then Some (v, of_nat i) else best)
       (balance cdf cache_ns_avg disk_ns_avg rdma_ns_avg cache_size (of_nat i))"

text \<open>The split, its performance and the accesses to remote memory, disk and local memory that are printed.\<close>

definition report_split ::
    "(u64 \<times> string) list \<Rightarrow> u64 \<Rightarrow> u64 \<Rightarrow> u64 \<Rightarrow> u64 \<Rightarrow> u64 \<Rightarrow> u64 list option \<Rightarrow> ((split \<times> u64 \<times> u64 \<times> u64) \<times> u64 list option) res" where
  "report_split cdf cache_ns_avg disk_ns_avg rdma_ns_avg cache_size best_local st =
     (let best_remote = cache_size - 3 * best_local in
      bindR (cached_performance cdf cache_ns_avg disk_ns_avg rdma_ns_avg best_local best_remote st) (\<lambda>(p, st).
      bindR (cached_sum_freq cdf best_local best_remote st) (\<lambda>(remote, st).
      bindR (cached_sum_freq cdf best_remote (of_nat (length cdf)) st) (\<lambda>(disk, st).
      bindR (cached_sum_freq cdf 0 best_local st) (\<lambda>(local, st).
      Inr (((p, best_local, best_remote), remote, disk, local), st))))))"

definition get_best_access_rate_faster ::
    "(u64 \<times> string) list \<Rightarrow> u64 \<Rightarrow> u64 \<Rightarrow> u64 \<Rightarrow> u64 \<Rightarrow> u64 list option \<Rightarrow> ((split \<times> u64 \<times> u64 \<times> u64) \<times> u64 list option) res" where
  "get_best_access_rate_faster cdf cache_ns_avg disk_ns_avg rdma_ns_avg cache_size st =
     bindR (foldR (balance_step cdf cache_ns_avg disk_ns_avg rdma_ns_avg cache_size) [0..<Suc (unat (search_limit cdf cache_size))] None) (\<lambda>best.
     case best of
       None \<Rightarrow> Inl (Undefined ''uninitialised'')
     | Some (_, best_local) \<Rightarrow> report_split cdf cache_ns_avg disk_ns_avg rdma_ns_avg cache_size best_local st)"

text \<open>
  The second search takes the split of least latency. Its state is the least latency so far, the
  local mark if one was found, the prefix sums and the lines of the two files.
\<close>

type_synonym scan_state = "u64 \<times> u64 option \<times> u64 list option \<times> string \<times> string"

definition scan_step ::
    "(u64 \<times> string) list \<Rightarrow> u64 \<Rightarrow> u64 \<Rightarrow> u64 \<Rightarrow> u64 \<Rightarrow> nat \<Rightarrow> scan_state \<Rightarrow> scan_state res" where
  "scan_step cdf cache_ns_avg disk_ns_avg rdma_ns_avg cache_size i = (\<lambda>(least, best_local, st, latencies, performances).
     bindR (calculate_latency cdf cache_ns_avg disk_ns_avg rdma_ns_avg (of_nat i) (cache_size - 3 * of_nat i) st) (\<lambda>(value, st).
     bindR (cached_performance cdf cache_ns_avg disk_ns_avg rdma_ns_avg (of_nat i) (cache_size - 3 * of_nat i) st) (\<lambda>(p, st).
     let (least, best_local) = (if value < least then (value, Some (of_nat i)) else (least, best_local)) in
     Inr (least, best_local, st, latencies @ to_string_nat (unat value) @ [newline], performances @ to_string_nat (unat p) @ [newline]))))"

definition get_best_access_rate_even_faster ::
    "(u64 \<times> string) list \<Rightarrow> u64 \<Rightarrow> u64 \<Rightarrow> u64 \<Rightarrow> u64 \<Rightarrow> (string \<Rightarrow> bool) \<Rightarrow> files \<Rightarrow> u64 list option
      \<Rightarrow> ((split \<times> u64 \<times> u64 \<times> u64) \<times> u64 list option \<times> files) res" where
  "get_best_access_rate_even_faster cdf cache_ns_avg disk_ns_avg rdma_ns_avg cache_size opens fs st =
     bindR (foldR (scan_step cdf cache_ns_avg disk_ns_avg rdma_ns_avg cache_size) [0..<Suc (unat (search_limit cdf cache_size))]
       (-1, None, st, [], [])) (\<lambda>(least, best_local, st, latencies, performances).
     case best_local of
       None \<Rightarrow> Inl (Undefined ''uninitialised'')
     | Some best_local \<Rightarrow>
         mapR (\<lambda>(report, st). (report, st, put_text opens ''cdf_graph_.txt'' performances (put_text opens ''cdf_graph.txt'' latencies fs)))
           (report_split cdf cache_ns_avg disk_ns_avg rdma_ns_avg cache_size best_local st))"

text \<open>The hill climber: after its first evaluation the prefix sums do not change any more.\<close>

definition climb_cached_split ::
    "(u64 \<times> string) list \<Rightarrow> u64 \<Rightarrow> u64 \<Rightarrow> u64 \<Rightarrow> u64 \<Rightarrow> u64 list option \<Rightarrow> (split \<times> u64 list option) res option" where
  "climb_cached_split cdf cache_ns_avg disk_ns_avg rdma_ns_avg cache_size st =
     (case cached_performance cdf cache_ns_avg disk_ns_avg rdma_ns_avg 0 cache_size st of
        Inl e \<Rightarrow> Some (Inl e)
      | Inr (p, st) \<Rightarrow>
          let perf = (\<lambda>local remote. mapR fst (cached_performance cdf cache_ns_avg disk_ns_avg rdma_ns_avg local remote st));
              n = of_nat (length cdf) in
          Option.bind (climb perf cache_size n (p, 0, cache_size) False) (\<lambda>r.
          case r of
            Inl e \<Rightarrow> Some (Inl e)
          | Inr (best, improved) \<Rightarrow>
              map_option (mapR (\<lambda>best. (best, st)))
                (if improved then Some (Inr best) else one_percent_steps perf cache_size n 0 best)))"

text \<open>The exhaustive search tries every tenth local mark.\<close>

fun tenth_search :: "perf \<Rightarrow> u64 \<Rightarrow> nat list \<Rightarrow> split \<Rightarrow> split res" where
  "tenth_search perf cache_size [] best = Inr best"
| "tenth_search perf cache_size (i # is) best =
     (let local = of_nat i; remote = int_of_u64 (cache_size - 3 * local) in
      if remote < 0 \<or> cache_size div 3 < local then Inr best
      else bindR (perf local (of_int remote)) (\<lambda>new_performance.
        tenth_search perf cache_size is
          (if fst best < new_performance then (new_performance, local, of_int remote) else best)))"

definition every_tenth_split ::
    "(u64 \<times> string) list \<Rightarrow> u64 \<Rightarrow> u64 \<Rightarrow> u64 \<Rightarrow> u64 \<Rightarrow> u64 list option \<Rightarrow> ((split \<times> u64) \<times> u64 list option) res" where
  "every_tenth_split cdf cache_ns_avg disk_ns_avg rdma_ns_avg cache_size st =
     bindR (cached_performance cdf cache_ns_avg disk_ns_avg rdma_ns_avg 0 cache_size st) (\<lambda>(p, st).
     bindR (tenth_search (\<lambda>local remote. mapR fst (cached_performance cdf cache_ns_avg disk_ns_avg rdma_ns_avg local remote st))
       cache_size (map (\<lambda>k. 10 * k) [0..<(length cdf + 9) div 10]) (p, 0, cache_size)) (\<lambda>best.
     bindR (vec_at cdf (unat (fst (snd best)))) (\<lambda>e.
     bindR (u64_of_double (f64 (f64 (of_nat (unat (fst e))) * f64 (9 / 10)))) (\<lambda>best_access_rate.
     Inr ((best, best_access_rate), st)))))"

section \<open>The program\<close>

text \<open>A line holds a key and its frequency; without a space the whole line is both.\<close>

definition shadow_line :: "string \<Rightarrow> (u64 \<times> string) res" where
  "shadow_line line =
     mapR (\<lambda>freq. (freq, takeWhile (\<lambda>c. c \<noteq> CHR '' '') line))
       (stoull (if CHR '' '' \<in> set line then tl (dropWhile (\<lambda>c. c \<noteq> CHR '' '') line) else line))"

definition shadow_file :: string where
  "shadow_file =
     ''/mnt/sda4/LDC/setup/results/access_rate_dynamic::C_zipfian_YCSB_3340000_ns3_nc3_ncpt2_nt8_rd0_ht48'' @
     ''_rdmaTrue_asyncTrue_diskTrue_polluteTrue_access_rate30000000/shadow_freq_3.txt''"

definition shadow_cdf :: "files \<Rightarrow> (u64 \<times> string) list res" where
  "shadow_cdf fs = (case fs shadow_file of None \<Rightarrow> Inr [] | Some t \<Rightarrow> mapMR shadow_line (split_lines t))"

definition test_cdf_main :: "(string \<Rightarrow> bool) \<Rightarrow> files \<Rightarrow> files res option" where
  "test_cdf_main opens fs =
     (case shadow_cdf fs of
        Inl e \<Rightarrow> Some (Inl e)
      | Inr cdf \<Rightarrow>
          map_option (\<lambda>r. bindR r (\<lambda>(best, st).
            mapR (\<lambda>(report, st, fs). fs) (get_best_access_rate_even_faster cdf 1 20000 8 10000000 opens fs st)))
          (climb_cached_split cdf 1 20000 8 10000000 None))"

section \<open>The prefix sums are the sums\<close>

lemma length_running_sums [simp]: "length (running_sums acc fs) = length fs"
  by (induction acc fs rule: running_sums.induct) simp_all

lemma running_sums_nth: "i < length fs \<Longrightarrow> running_sums acc fs ! i = acc + sum_list (take (Suc i) fs)"
  by (induction acc fs arbitrary: i rule: running_sums.induct) (auto simp: less_Suc_eq_0_disj)

definition valid_sums :: "(u64 \<times> string) list \<Rightarrow> u64 list option \<Rightarrow> bool" where
  "valid_sums cdf st \<longleftrightarrow> st = None \<or> st = Some (running_sums 0 (map fst cdf))"

lemma sum_freqs_valid: "valid_sums cdf st \<Longrightarrow> cdf \<noteq> [] \<Longrightarrow> sum_freqs cdf st = Inr (running_sums 0 (map fst cdf))"
  by (auto simp: valid_sums_def sum_freqs_def)

lemma prefix_sum_at:
  "e \<noteq> 0 \<Longrightarrow> unat e \<le> length cdf \<Longrightarrow>
    vec_at (running_sums 0 (map fst cdf)) (unat (e - 1)) = Inr (sum_list (take (unat e) (map fst cdf)))"
proof -
  assume e: "e \<noteq> 0" "unat e \<le> length cdf"
  from e(1) have "unat (e - 1) = unat e - 1" "0 < unat e" by (simp_all add: unat_minus_one unat_gt_0)
  then show ?thesis using e(2) by (simp add: running_sums_nth)
qed

text \<open>
  Property C38: for a range that lies in the distribution and does not end at its start, the vector of
  prefix sums gives the sum that the loop of the other experiment computes, before and after the
  vector is filled, and it stays filled with the prefix sums.
\<close>

theorem cached_sums_agree:
  assumes "valid_sums cdf st" "stop \<noteq> 0" "unat start \<le> unat stop" "unat stop \<le> length cdf"
  shows "cached_sum_freq cdf start stop st = mapR (\<lambda>v. (v, Some (running_sums 0 (map fst cdf)))) (trace_sum_freq cdf start stop)"
proof -
  have "cdf \<noteq> []" using assms(2,4) by (auto simp: unat_eq_0)
  note s = sum_freqs_valid [OF assms(1) this]
  have u: "vec_at (running_sums 0 (map fst cdf)) (unat (stop - 1)) = Inr (sum_list (take (unat stop) (map fst cdf)))"
    using assms(2,4) by (rule prefix_sum_at)
  have d: "sum_list (take (unat stop) (map fst cdf)) - sum_list (take (unat start) (map fst cdf))
      = sum_list (map fst (take (unat stop - unat start) (drop (unat start) cdf)))"
    using sum_take_diff [OF assms(3), of "map fst cdf"] by (simp add: take_map drop_map)
  show ?thesis
  proof (cases "start = 0")
    case True
    then show ?thesis using assms(4) d by (simp add: cached_sum_freq_def s u trace_sum_freq_eq take_map)
  next
    case False
    have "unat start \<le> length cdf" using assms(3,4) by simp
    then show ?thesis using False assms(3,4) d
      by (simp add: cached_sum_freq_def s u prefix_sum_at trace_sum_freq_eq)
  qed
qed

theorem cached_sums_agree_witness:
  "cached_sum_freq [(5, ''a''), (3, ''b''), (2, ''c'')] 1 3 None = Inr (5, Some [5, 8, 10])"
proof -
  have "cached_sum_freq [(5, ''a''), (3, ''b''), (2, ''c'')] 1 3 None
      = mapR (\<lambda>v. (v, Some (running_sums 0 (map fst [(5, ''a''), (3, ''b''), (2, ''c'')])))) (trace_sum_freq [(5, ''a''), (3, ''b''), (2, ''c'')] 1 3)"
    by (rule cached_sums_agree) (simp_all add: valid_sums_def)
  also have "\<dots> = Inr (5, Some [5, 8, 10])" by code_simp
  finally show ?thesis .
qed

section \<open>The empty local share\<close>

definition small_sums :: "u64 list option \<Rightarrow> bool" where
  "small_sums st \<longleftrightarrow> (\<forall>s. st = Some s \<longrightarrow> length s < 2 ^ 64)"

lemma empty_share: "length cdf < 2 ^ 64 \<Longrightarrow> small_sums st \<Longrightarrow> cached_sum_freq cdf 0 0 st = Inl (Undefined ''vector index'')"
proof -
  assume a: "length cdf < 2 ^ 64" "small_sums st"
  have "unat (- 1 :: u64) = 2 ^ 64 - 1" by (simp add: unsigned_minus_1_eq_mask mask_eq_exp_minus_1)
  then have "vec_at s (unat (- 1 :: u64)) = Inl (Undefined ''vector index'')" if "length s < 2 ^ 64" for s :: "u64 list"
    using that by (intro vec_at_out) simp
  then show ?thesis using a by (auto simp: cached_sum_freq_def sum_freqs_def small_sums_def split: option.splits)
qed

lemma empty_share_performance:
  assumes "length cdf < 2 ^ 64" "small_sums st"
  shows "calculate_latency cdf c d m 0 r st = Inl (Undefined ''vector index'')"
    "cached_performance cdf c d m 0 r st = Inl (Undefined ''vector index'')"
  by (simp_all add: calculate_latency_def cached_performance_def empty_share [OF assms])

lemma foldR_first: "f 0 s = Inl e \<Longrightarrow> foldR f [0..<Suc n] s = Inl e"
  by (simp add: upt_rec)

text \<open>
  Three of the four searches begin with an empty local share, whose sum is read at the
  position before the first of the prefix sums. They are undefined for every distribution, before
  and after the sums are computed, and so is the program whenever its input file parses.
\<close>

theorem searches_start_undefined:
  assumes "length cdf < 2 ^ 64" "small_sums st"
  shows "climb_cached_split cdf c d m cache_size st = Some (Inl (Undefined ''vector index''))
    \<and> get_best_access_rate_even_faster cdf c d m cache_size opens fs st = Inl (Undefined ''vector index'')
    \<and> every_tenth_split cdf c d m cache_size st = Inl (Undefined ''vector index'')
    \<and> (shadow_cdf fs = Inr cdf \<longrightarrow> test_cdf_main opens fs = Some (Inl (Undefined ''vector index'')))"
proof -
  note e = empty_share_performance [OF assms]
  have n: "small_sums None" by (simp add: small_sums_def)
  have "scan_step cdf c d m cache_size 0 (-1, None, st, [], []) = Inl (Undefined ''vector index'')"
    by (simp add: scan_step_def e)
  from foldR_first [of "scan_step cdf c d m cache_size", OF this] show ?thesis
    by (simp add: climb_cached_split_def get_best_access_rate_even_faster_def every_tenth_split_def test_cdf_main_def e
        empty_share_performance [OF assms(1) n] del: upt_Suc)
qed

theorem searches_start_undefined_witness:
  "test_cdf_main (\<lambda>_. True) [shadow_file \<mapsto> ''7 30'' @ newline # ''4 12''] = Some (Inl (Undefined ''vector index''))"
proof -
  have s: "shadow_cdf [shadow_file \<mapsto> ''7 30'' @ newline # ''4 12''] = Inr [(30, ''7''), (12, ''4'')]" by code_simp
  show ?thesis
    using searches_start_undefined [of "[(30, ''7''), (12, ''4'')]" None 1 20000 8 10000000 "\<lambda>_. True"
        "[shadow_file \<mapsto> ''7 30'' @ newline # ''4 12'']"] s by (simp add: small_sums_def)
qed

section \<open>The order by percentile\<close>

lemma mset_concat_cong: "(\<And>x. x \<in> set xs \<Longrightarrow> mset (f x) = mset (g x)) \<Longrightarrow> mset (concat (map f xs)) = mset (concat (map g xs))"
  by (induction xs) simp_all

text \<open>
  For a trace that is not empty the order by percentile is found, and it lists each key
  of the trace once, with the number of its occurrences.
\<close>

theorem sort_keys_by_percentile_counts:
  assumes "frequency_sort srt" "keys \<noteq> []" "length keys < 2 ^ 64"
  shows "\<exists>fv fs'. sort_keys_by_percentile srt opens keys fs = Inr (fv, fs') \<and> distinct (map snd fv)
    \<and> set fv = (\<lambda>k. (of_nat (count_list keys k), to_string_nat (unat k))) ` set keys"
proof -
  let ?fv = "srt (counted keys)"
  have ms: "mset ?fv = mset (counted keys)" by (rule frequency_sort.same_entries [OF assms(1)])
  have "sum_list (map fst ?fv) = of_nat (length keys)" by (simp only: frequency_sort.sum_srt [OF assms(1)] counted_props(3))
  moreover have "unat (of_nat (length keys) :: u64) \<noteq> 0" using assms(2,3) by simp
  ultimately have "sum_list (map fst ?fv) \<noteq> 0" by auto
  then obtain pks where pks: "percentiles (sum_list (map fst ?fv)) 0 ?fv = Inr pks" "map snd pks = ?fv"
    using percentiles_returns by blast
  have in_fv: "kv \<in> set ?fv" if "b \<in> set (cdf_buckets pks)" "kv \<in> set (snd b)" for b kv
    using that mset_eq_setD [OF cdf_buckets_mset [of pks]] pks(2) by auto
  have num: "returns (stoull (snd kv))" if "kv \<in> set ?fv" for kv
    using that mset_eq_setD [OF ms] unat_below_u64 by (auto simp: counted_props(2) stoull_to_string)
  have "\<forall>b \<in> set (cdf_buckets pks). \<exists>kvs. sort_bucket (snd b) = Inr kvs \<and> mset kvs = mset (snd b)"
    using sort_bucket_returns in_fv num by blast
  then obtain g where g: "\<And>b. b \<in> set (cdf_buckets pks) \<Longrightarrow> sort_bucket (snd b) = Inr (g b) \<and> mset (g b) = mset (snd b)"
    by metis
  let ?bs = "map (\<lambda>b. (fst b, g b)) (cdf_buckets pks)"
  have bs: "mapMR (\<lambda>(percentile, kvs). mapR (Pair percentile) (sort_bucket kvs)) (cdf_buckets pks) = Inr ?bs"
    by (rule mapMR_pure) (use g in \<open>auto simp: case_prod_unfold\<close>)
  have "mset (concat (map snd ?bs)) = mset (concat (map snd (cdf_buckets pks)))"
    using mset_concat_cong [of "cdf_buckets pks" g snd] g by (simp add: comp_def)
  also have "\<dots> = mset (counted keys)" by (simp only: cdf_buckets_mset pks(2) ms)
  finally have m: "mset (concat (map snd ?bs)) = mset (counted keys)" .
  from mset_eq_setD [OF m] have "set (concat (map snd ?bs)) = (\<lambda>k. (of_nat (count_list keys k), to_string_nat (unat k))) ` set keys"
    by (simp only: counted_props(2))
  moreover have "distinct (map snd (concat (map snd ?bs)))"
  proof -
    have "mset (map snd (concat (map snd ?bs))) = mset (map snd (counted keys))" by (simp only: mset_map m)
    from mset_eq_imp_distinct_iff [OF this] show ?thesis using counted_props(1) by blast
  qed
  moreover have "\<exists>fs'. sort_keys_by_percentile srt opens keys fs = Inr (concat (map snd ?bs), fs')"
    unfolding sort_keys_by_percentile_def sort_keys_counted Let_def pks(1) bindR_simps bs by blast
  ultimately show ?thesis by blast
qed

theorem sort_keys_by_percentile_counts_witness:
  "\<exists>fv fs'. sort_keys_by_percentile stable_by_frequency (\<lambda>_. True) [7, 5, 7] Map.empty = Inr (fv, fs') \<and> distinct (map snd fv)
    \<and> set fv = {(2, to_string_nat 7), (1, to_string_nat 5)}"
proof -
  have "(\<lambda>k. (of_nat (count_list [7, 5, 7] k) :: u64, to_string_nat (unat k))) ` set [7, 5, 7 :: u64] = {(2, to_string_nat 7), (1, to_string_nat 5)}"
    by auto
  then show ?thesis
    using sort_keys_by_percentile_counts [OF stable.frequency_sort_axioms, of "[7, 5, 7]" "\<lambda>_. True" Map.empty] by simp
qed

end
