(* ===== verification/Bench_Workload.thy ===== *)
theory Bench_Workload
  imports Dataset
begin

text \<open>
  The stand-alone workload tools: \<open>workload/dataset.cpp\<close>, \<open>workload/operations.cpp\<close>,
  \<open>workload/sendIO.cpp\<close> and \<open>workload/main.cpp\<close>, an older generator of datasets and operation
  sets without operation codes; \<open>workload/bench_generator.cpp\<close>, a generator that sends the pairs
  to nodes; and \<open>setup/create_second_node_only_workload.cpp\<close>, which writes one trace per client.

  The macros of \<open>config.mk\<close> are the fields of the same name of a configuration. What is sent to a
  node is a list: the functions called \<open>send\<close> do nothing but print. The random engines of C++11 are
  functions of the number of values drawn.
\<close>

section \<open>Operation sets without codes\<close>

type_synonym bench_operation = "string \<times> int"

definition bench_dump_text :: "bench_operation list \<Rightarrow> string" where
  "bench_dump_text ops = concat (map (\<lambda>(key, node). key @ CHR '' '' # to_string_int node @ [newline]) ops)"

definition bench_dumpOperationSetToFile :: "env \<Rightarrow> bench_operation list \<Rightarrow> files \<Rightarrow> files" where
  "bench_dumpOperationSetToFile e ops fs =
     (if env_can_open e ''operations.txt'' then fs(''operations.txt'' \<mapsto> bench_dump_text ops) else fs)"

definition bench_finish :: "env \<Rightarrow> files \<Rightarrow> (bench_operation list \<times> nat) res \<Rightarrow> (bench_operation list \<times> files) res" where
  "bench_finish e fs m = mapR (\<lambda>(ops, _). (ops, bench_dumpOperationSetToFile e ops fs)) m"

definition bench_generateRandomOperationSet ::
    "env \<Rightarrow> string list \<Rightarrow> configuration \<Rightarrow> files \<Rightarrow> (bench_operation list \<times> files) res" where
  "bench_generateRandomOperationSet e keys config fs =
     bench_finish e fs (op_loop (\<lambda>i k.
       bindR (mod_key keys (rand e k)) (\<lambda>key.
       bindR (random_node e (NUM_NODES config) (k + 1)) (\<lambda>node.
       Inr ((key, node), k + 2))))
       (nat (TOTAL_OPERATIONS config)) 0 0)"

definition bench_generatePartitionedOperationSet ::
    "env \<Rightarrow> string list \<Rightarrow> configuration \<Rightarrow> files \<Rightarrow> (bench_operation list \<times> files) res" where
  "bench_generatePartitionedOperationSet e keys config fs =
     bindR (keys_per_node keys (NUM_NODES config)) (\<lambda>keysPerNode.
     bench_finish e fs (op_loop (\<lambda>i k.
       bindR (mod_key keys (int i)) (\<lambda>key.
       bindR (partition_node key keysPerNode (NUM_NODES config)) (\<lambda>node.
       Inr ((key, node), k))))
       (nat (TOTAL_OPERATIONS config)) 0 0))"

definition bench_generateZipfianOperationSet ::
    "env \<Rightarrow> string list \<Rightarrow> configuration \<Rightarrow> files \<Rightarrow> (bench_operation list \<times> files) res" where
  "bench_generateZipfianOperationSet e keys config fs =
     bindR (hot_count (HOT_KEY_PERCENTAGE config) (num_keys keys)) (\<lambda>numHotKeys.
     bindR (ck_int (num_keys keys - numHotKeys)) (\<lambda>numColdKeys.
     bindR (hot_count (HOT_KEY_ACCESS_PERCENTAGE config) (TOTAL_OPERATIONS config)) (\<lambda>hotKeyOps.
     let keyOrder = env_shuffle e [0..<nat (num_keys keys)] in
     bench_finish e fs (op_loop (\<lambda>i k.
       bindR (hot_index e hotKeyOps numHotKeys numColdKeys i k) (\<lambda>j.
       bindR (vec_at_int keyOrder j) (\<lambda>randomIndex.
       bindR (vec_at keys randomIndex) (\<lambda>key.
       bindR (random_node e (NUM_NODES config) (k + 1)) (\<lambda>node.
       Inr ((key, node), k + 2))))))
       (nat (TOTAL_OPERATIONS config)) 0 0))))"

definition bench_generateZipfianPartitionedOperationSet ::
    "env \<Rightarrow> string list \<Rightarrow> configuration \<Rightarrow> files \<Rightarrow> (bench_operation list \<times> files) res" where
  "bench_generateZipfianPartitionedOperationSet e keys config fs =
     bindR (hot_count (HOT_KEY_PERCENTAGE config) (num_keys keys)) (\<lambda>numHotKeys.
     bindR (ck_int (num_keys keys - numHotKeys)) (\<lambda>numColdKeys.
     bindR (keys_per_node keys (NUM_NODES config)) (\<lambda>keysPerNode.
     bindR (hot_count (HOT_KEY_ACCESS_PERCENTAGE config) (TOTAL_OPERATIONS config)) (\<lambda>hotKeyOps.
     let keyOrder = env_shuffle e [0..<nat (num_keys keys)] in
     bench_finish e fs (op_loop (\<lambda>i k.
       bindR (hot_index e hotKeyOps numHotKeys numColdKeys i k) (\<lambda>j.
       bindR (vec_at_int keyOrder j) (\<lambda>randomIndex.
       bindR (vec_at keys randomIndex) (\<lambda>key.
       bindR (partition_node key keysPerNode (NUM_NODES config)) (\<lambda>node.
       Inr ((key, node), k + 1))))))
       (nat (TOTAL_OPERATIONS config)) 0 0)))))"

text \<open>The keys come from the middle third first; the hot ones are a share of that third.\<close>

definition bench_singleNodeHotSetData ::
    "env \<Rightarrow> string list \<Rightarrow> configuration \<Rightarrow> files \<Rightarrow> (bench_operation list \<times> files) res" where
  "bench_singleNodeHotSetData e keys config fs =
     bindR (mid_start keys) (\<lambda>startIdx.
     bindR (mid_end keys) (\<lambda>endIdx.
     bindR (hot_count (HOT_KEY_PERCENTAGE config) (endIdx - startIdx)) (\<lambda>numHotKeys.
     bindR (ck_int (num_keys keys - numHotKeys)) (\<lambda>numColdKeys.
     bindR (hot_count (HOT_KEY_ACCESS_PERCENTAGE config) (TOTAL_OPERATIONS config)) (\<lambda>hotKeyOps.
     let keyOrder = hot_set_order keys (nat startIdx) (nat endIdx) in
     bench_finish e fs (op_loop (\<lambda>i k.
       bindR (hot_index e hotKeyOps numHotKeys numColdKeys i k) (\<lambda>randomIndex.
       bindR (vec_at_int keyOrder randomIndex) (\<lambda>key.
       bindR (random_node e (NUM_NODES config) (k + 1)) (\<lambda>node.
       Inr ((key, node), k + 2)))))
       (nat (TOTAL_OPERATIONS config)) 0 0))))))"

text \<open>Replaying a set: the nodes and keys that \<open>send\<close> is called with, in order.\<close>

definition bench_executeOperations :: "bench_operation list \<Rightarrow> (int \<times> string) list" where
  "bench_executeOperations operationSet = map (\<lambda>(key, randomNode). (randomNode, key)) operationSet"

definition bench_createAndWriteDataset :: "env \<Rightarrow> string \<Rightarrow> int \<Rightarrow> int \<Rightarrow> int \<Rightarrow> files \<Rightarrow> files" where
  "bench_createAndWriteDataset e datasetFile numberOfKeys keySize valueSize fs =
     (if env_can_open e datasetFile
      then fs(datasetFile \<mapsto> concat (map (\<lambda>i. to_string_nat i @ CHR '' '' # random_letters e (nat valueSize) @ [newline])
                               [1..<Suc (nat numberOfKeys)]))
      else fs)"

text \<open>The distribution is a constant of \<open>main\<close>; the one that \<open>config.mk\<close> defines is not looked at.\<close>

definition bench_main :: "env \<Rightarrow> configuration \<Rightarrow> files \<Rightarrow> (int \<times> files) res" where
  "bench_main e config fs =
     (let fs1 = bench_createAndWriteDataset e (DATASET_FILE config) (NUM_KEY_VALUE_PAIRS config) (KEY_SIZE config) (VALUE_SIZE config) fs;
          keys = readKeysFromFile fs1 (DATASET_FILE config);
          e1 = (if env_can_open e (DATASET_FILE config) then env_after e (nat (VALUE_SIZE config)) else e)
      in mapR (\<lambda>(ops, fs2). (0, fs2)) (bench_singleNodeHotSetData e1 keys config fs1))"

section \<open>The generator that sends pairs\<close>

record bench_config =
  bc_num_key_value_pairs :: int
  bc_num_nodes :: int
  bc_key_size :: int
  bc_value_size :: int

definition set_param :: "string \<Rightarrow> string \<Rightarrow> bench_config \<Rightarrow> bench_config res" where
  "set_param param val c =
     (if param = ''NUM_KEY_VALUE_PAIRS'' then mapR (\<lambda>v. c\<lparr>bc_num_key_value_pairs := v\<rparr>) (stoi val)
      else if param = ''NUM_NODES'' then mapR (\<lambda>v. c\<lparr>bc_num_nodes := v\<rparr>) (stoi val)
      else if param = ''KEY_SIZE'' then mapR (\<lambda>v. c\<lparr>bc_key_size := v\<rparr>) (stoi val)
      else if param = ''VALUE_SIZE'' then mapR (\<lambda>v. c\<lparr>bc_value_size := v\<rparr>) (stoi val)
      else Inr c)"

definition config_line :: "string \<Rightarrow> bench_config \<Rightarrow> bench_config res" where
  "config_line line c =
     (if CHR ''='' \<in> set line
      then set_param (takeWhile (\<lambda>c. c \<noteq> CHR ''='') line) (tl (dropWhile (\<lambda>c. c \<noteq> CHR ''='') line)) c
      else Inr c)"

definition readConfig :: "files \<Rightarrow> string \<Rightarrow> bench_config \<Rightarrow> (bool \<times> bench_config) res" where
  "readConfig fs configFile c =
     (case fs configFile of None \<Rightarrow> Inr (False, c) | Some text \<Rightarrow> mapR (Pair True) (foldR config_line (split_lines text) c))"

type_synonym pairs = "(string \<times> string) list"

definition createDataset :: "env \<Rightarrow> int \<Rightarrow> int \<Rightarrow> int \<Rightarrow> pairs" where
  "createDataset e num_key_value_pairs key_size value_size =
     map (\<lambda>i. (to_string_nat i, random_letters e (nat value_size))) [0..<nat num_key_value_pairs]"

text \<open>What is sent: the node, the key and the value of each call.\<close>

type_synonym sends = "(int \<times> string \<times> string) list"

definition send_pair :: "pairs \<Rightarrow> int \<Rightarrow> int \<Rightarrow> sends \<Rightarrow> sends res" where
  "send_pair keyValuePairs node i out = bindR (vec_at_int keyValuePairs i) (\<lambda>(key, val). Inr (out @ [(node, key, val)]))"

definition issueSplitIO :: "pairs \<Rightarrow> int \<Rightarrow> sends res" where
  "issueSplitIO keyValuePairs num_nodes =
     bindR (int_div (int_of_u64 (of_nat (length keyValuePairs))) num_nodes) (\<lambda>chunkSize.
     foldR (\<lambda>node. foldR (send_pair keyValuePairs node) [node * chunkSize..(node + 1) * chunkSize - 1]) [0..num_nodes - 1] [])"

text \<open>The shuffled indices are read in order; \<open>index\<close> counts the pairs sent so far.\<close>

fun random_chunk :: "pairs \<Rightarrow> nat list \<Rightarrow> int \<Rightarrow> int \<Rightarrow> nat \<Rightarrow> int \<times> sends \<Rightarrow> (int \<times> sends) res" where
  "random_chunk keyValuePairs indices dataSize node 0 st = Inr st"
| "random_chunk keyValuePairs indices dataSize node (Suc n) (index, out) =
     (if index < dataSize then
        bindR (vec_at_int indices index) (\<lambda>i.
        bindR (send_pair keyValuePairs node (int i) out) (\<lambda>out.
        random_chunk keyValuePairs indices dataSize node n (index + 1, out)))
      else Inr (index, out))"

definition issueRandomIO :: "(nat list \<Rightarrow> nat list) \<Rightarrow> pairs \<Rightarrow> int \<Rightarrow> sends res" where
  "issueRandomIO shuffle keyValuePairs num_nodes =
     (let indices = shuffle [0..<length keyValuePairs]; dataSize = int_of_u64 (of_nat (length keyValuePairs)) in
      bindR (int_div dataSize num_nodes) (\<lambda>chunkSize.
      mapR snd (foldR (\<lambda>node. random_chunk keyValuePairs indices dataSize node (nat chunkSize)) [0..num_nodes - 1] (0, []))))"

text \<open>\<open>uniform k a b\<close> is the \<open>k\<close>-th value drawn, from \<open>a\<close> to \<open>b\<close>, which must not be below \<open>a\<close>.\<close>

definition uniform_int :: "(nat \<Rightarrow> int \<Rightarrow> int \<Rightarrow> int) \<Rightarrow> nat \<Rightarrow> int \<Rightarrow> int \<Rightarrow> int res" where
  "uniform_int uniform k a b = (if a \<le> b then Inr (uniform k a b) else Inl (Undefined ''uniform_int_distribution''))"

definition generateOperationSet :: "(nat \<Rightarrow> int \<Rightarrow> int \<Rightarrow> int) \<Rightarrow> pairs \<Rightarrow> int \<Rightarrow> int \<Rightarrow> string list res" where
  "generateOperationSet uniform keyValuePairs num_nodes total_operations =
     mapMR (\<lambda>i.
       bindR (uniform_int uniform (2 * i) 0 (int_of_u64 (of_nat (length keyValuePairs) - 1))) (\<lambda>randomIndex.
       bindR (uniform_int uniform (2 * i + 1) 0 (num_nodes - 1)) (\<lambda>randomNode.
       bindR (vec_at_int keyValuePairs randomIndex) (\<lambda>kv.
       Inr (CHR ''<'' # fst kv @ CHR '','' # to_string_int randomNode @ ''>''))))) [0..<nat total_operations]"

definition bench_generator_main :: "env \<Rightarrow> (nat list \<Rightarrow> nat list) \<Rightarrow> files \<Rightarrow> (int \<times> sends) res" where
  "bench_generator_main e shuffle fs =
     bindR (readConfig fs ''config.txt'' \<lparr>bc_num_key_value_pairs = 0, bc_num_nodes = 0, bc_key_size = 0, bc_value_size = 0\<rparr>) (\<lambda>(ok, c).
     if \<not> ok then Inr (1, [])
     else mapR (Pair 0) (issueRandomIO shuffle (createDataset e (bc_num_key_value_pairs c) (bc_key_size c) (bc_value_size c)) (bc_num_nodes c)))"

section \<open>Traces for many clients\<close>

definition TRACE_OPERATIONS :: int where "TRACE_OPERATIONS = 1000000000"
definition NUM_FILES_WITH_2 :: int where "NUM_FILES_WITH_2 = 42"
definition NUM_FILES_WITH_1_OR_3 :: int where "NUM_FILES_WITH_1_OR_3 = 6"
definition BUFFER_SIZE :: nat where "BUFFER_SIZE = 8192"

definition trace_entry :: "int \<Rightarrow> int \<Rightarrow> string" where
  "trace_entry randomNum constantNum = to_string_int randomNum @ CHR '' '' # to_string_int constantNum @ [newline]"

text \<open>\<open>dis\<close> gives the numbers drawn for the file, in its middle third of the keys.\<close>

definition buffer_entry :: "(nat \<Rightarrow> int) \<Rightarrow> int \<Rightarrow> nat \<Rightarrow> string \<times> string \<Rightarrow> string \<times> string" where
  "buffer_entry dis constantNum i = (\<lambda>(out, buffer).
     let buffer = buffer @ trace_entry (dis i) constantNum in
     if BUFFER_SIZE \<le> length buffer then (out @ buffer, []) else (out, buffer))"

definition client_file :: "int \<Rightarrow> int \<Rightarrow> int \<Rightarrow> string" where
  "client_file clientIndex threadIndex clientPerThreadIndex =
     ''client_'' @ to_string_int clientIndex @ ''_thread_'' @ to_string_int threadIndex
       @ ''_clientPerThread_'' @ to_string_int clientPerThreadIndex @ ''.txt''"

definition generateFile ::
    "(string \<Rightarrow> bool) \<Rightarrow> (nat \<Rightarrow> int) \<Rightarrow> int \<Rightarrow> int \<Rightarrow> int \<Rightarrow> int \<Rightarrow> int \<Rightarrow> files \<Rightarrow> files" where
  "generateFile opens dis clientIndex threadIndex clientPerThreadIndex constantNum operationsPerFile fs =
     (let fileName = client_file clientIndex threadIndex clientPerThreadIndex in
      if \<not> opens fileName then fs
      else let (out, buffer) = fold (buffer_entry dis constantNum) [0..<nat operationsPerFile] ([], []) in
           fs(fileName \<mapsto> (if buffer \<noteq> [] then out @ buffer else out)))"

text \<open>The files that \<open>main\<close> starts: client, thread, client of the thread and node, in order.\<close>

definition file_slots :: "(int \<times> int \<times> int) list" where
  "file_slots = concat (map (\<lambda>c. concat (map (\<lambda>t. map (\<lambda>p. (c, t, p)) [0..1]) [0..7])) [0..2])"

definition file_node :: "nat \<Rightarrow> int" where
  "file_node fileIndex = (if int fileIndex < NUM_FILES_WITH_2 then 2 else if even fileIndex then 1 else 3)"

definition operations_per_file :: int where
  "operations_per_file = TRACE_OPERATIONS div (NUM_FILES_WITH_2 + NUM_FILES_WITH_1_OR_3)"

definition second_node_main :: "(string \<Rightarrow> bool) \<Rightarrow> (nat \<Rightarrow> nat \<Rightarrow> int) \<Rightarrow> files \<Rightarrow> files" where
  "second_node_main opens dis =
     fold (\<lambda>(fileIndex, c, t, p). generateFile opens (dis fileIndex) c t p (file_node fileIndex) operations_per_file)
       (enumerate 0 file_slots)"

section \<open>The tools generate what the program generates\<close>

definition without_code :: "operation \<Rightarrow> bench_operation" where
  "without_code p = (op_key p, op_node p)"

lemma without_code_make [simp]: "without_code \<lparr>op_key = k, op_node = m, op_code = c\<rparr> = (k, m)"
  by (simp add: without_code_def)

lemma op_loop_map:
  assumes "\<And>i k. body' i k = mapR (\<lambda>(p, k). (f p, k)) (body i k)"
  shows "op_loop body' n i k = mapR (\<lambda>(ps, k). (map f ps, k)) (op_loop body n i k)"
proof (induction n arbitrary: i k)
  case (Suc n)
  show ?case by (cases "body i k") (auto simp: assms [of i k] Suc mapR_def bindR_assoc case_prod_unfold)
qed simp

lemma finish_same:
  assumes "\<And>i k. body' i k = mapR (\<lambda>(p, k). (without_code p, k)) (body i k)"
  shows "mapR fst (bench_finish e fs (op_loop body' n 0 0)) = mapR (map without_code \<circ> fst) (finish_ops e fs' (op_loop body n 0 0))"
  unfolding op_loop_map [where f = without_code, OF assms]
  by (simp add: bench_finish_def finish_ops_def mapR_def bindR_assoc case_prod_unfold)

lemma mapR_bindR: "mapR f (bindR m g) = bindR m (\<lambda>x. mapR f (g x))"
  by (simp add: mapR_def bindR_assoc)

text \<open>
  For every environment, key list and configuration, each of the five generators of the
  stand-alone tool makes the operations that the program's generator of the same name makes,
  without their codes, and fails with the same error when that one fails.
\<close>

theorem bench_generators_agree:
  "mapR fst (bench_generateRandomOperationSet e keys config fs) = mapR (map without_code \<circ> fst) (generateRandomOperationSet e keys config fs)
   \<and> mapR fst (bench_generatePartitionedOperationSet e keys config fs) = mapR (map without_code \<circ> fst) (generatePartitionedOperationSet e keys config fs)
   \<and> mapR fst (bench_generateZipfianOperationSet e keys config fs) = mapR (map without_code \<circ> fst) (generateZipfianOperationSet e keys config fs)
   \<and> mapR fst (bench_generateZipfianPartitionedOperationSet e keys config fs)
       = mapR (map without_code \<circ> fst) (generateZipfianPartitionedOperationSet e keys config fs)
   \<and> mapR fst (bench_singleNodeHotSetData e keys config fs) = mapR (map without_code \<circ> fst) (singleNodeHotSetData e keys config fs)"
  unfolding bench_generateRandomOperationSet_def generateRandomOperationSet_def bench_generatePartitionedOperationSet_def
    generatePartitionedOperationSet_def bench_generateZipfianOperationSet_def generateZipfianOperationSet_def
    bench_generateZipfianPartitionedOperationSet_def generateZipfianPartitionedOperationSet_def bench_singleNodeHotSetData_def
    singleNodeHotSetData_def hot_set_ops_def Let_def mapR_bindR
  by (intro conjI arg_cong2 [where f = bindR] refl ext finish_same) (simp_all add: mapR_def bindR_assoc)

section \<open>The configuration file\<close>

lemma stoi_to_string_int: "in_int v \<Longrightarrow> stoi (to_string_int v) = Inr v"
proof (cases "v < 0")
  case True
  assume "in_int v"
  with True show ?thesis by (simp add: stoi_def to_string_int_def)
next
  case False
  assume "in_int v"
  moreover from this have "nat v < 2 ^ 31" using False by (simp add: in_int_def int_max_def nat_less_iff)
  ultimately show ?thesis using False stoi_to_string [of "nat v"] by (simp add: to_string_int_def)
qed

lemma to_string_int_no_newline: "newline \<notin> set (to_string_int v)"
  using to_string_nat_no_space [of newline] by (auto simp: to_string_int_def)

definition assignment :: "string \<Rightarrow> int \<Rightarrow> string" where
  "assignment param v = param @ CHR ''='' # to_string_int v"

definition config_text :: "bench_config \<Rightarrow> string list" where
  "config_text c = [assignment ''NUM_KEY_VALUE_PAIRS'' (bc_num_key_value_pairs c), assignment ''NUM_NODES'' (bc_num_nodes c),
     assignment ''KEY_SIZE'' (bc_key_size c), assignment ''VALUE_SIZE'' (bc_value_size c)]"

definition text_of_lines :: "string list \<Rightarrow> string" where
  "text_of_lines ls = concat (map (\<lambda>l. l @ [newline]) ls)"

lemma split_text_of_lines: "\<forall>l \<in> set ls. newline \<notin> set l \<Longrightarrow> split_lines (text_of_lines ls) = ls"
  by (induction ls) (simp_all add: text_of_lines_def)

lemma config_line_assignment:
  assumes "CHR ''='' \<notin> set param" "in_int v"
  shows "config_line (assignment param v) c = set_param param (to_string_int v) c"
proof -
  have "takeWhile (\<lambda>c. c \<noteq> CHR ''='') (assignment param v) = param" "dropWhile (\<lambda>c. c \<noteq> CHR ''='') (assignment param v) = CHR ''='' # to_string_int v"
    using assms(1) by (auto simp: assignment_def takeWhile_append dropWhile_append)
  then show ?thesis by (simp add: config_line_def) (simp add: assignment_def)
qed

lemma config_text_read:
  assumes "in_int (bc_num_key_value_pairs c)" "in_int (bc_num_nodes c)" "in_int (bc_key_size c)" "in_int (bc_value_size c)"
  shows "foldR config_line (config_text c) c0 = Inr c"
  using assms by (simp add: config_text_def config_line_assignment set_param_def stoi_to_string_int)

text \<open>
  Whatever a configuration file assigns before, as long as it can be read, four lines
  that assign the values of a configuration at its end make it read as that configuration.
\<close>

theorem readConfig_last_assignment_wins:
  assumes "\<forall>l \<in> set ls. newline \<notin> set l" "foldR config_line ls c0 = Inr c1"
    and "in_int (bc_num_key_value_pairs c)" "in_int (bc_num_nodes c)" "in_int (bc_key_size c)" "in_int (bc_value_size c)"
  shows "readConfig (fs(f \<mapsto> text_of_lines (ls @ config_text c))) f c0 = Inr (True, c)"
proof -
  have "\<forall>l \<in> set (config_text c). newline \<notin> set l" by (simp add: config_text_def assignment_def to_string_int_no_newline)
  then have "split_lines (text_of_lines (ls @ config_text c)) = ls @ config_text c" using assms(1) by (intro split_text_of_lines) auto
  then show ?thesis using assms(2) config_text_read [OF assms(3-6)] by (simp add: readConfig_def foldR_append)
qed

theorem readConfig_last_assignment_wins_witness:
  "readConfig [''f'' \<mapsto> text_of_lines ([''# NUM_NODES'', ''NUM_NODES= 7''] @ config_text \<lparr>bc_num_key_value_pairs = 100, bc_num_nodes = 3, bc_key_size = 24, bc_value_size = 4096\<rparr>)]
     ''f'' \<lparr>bc_num_key_value_pairs = 0, bc_num_nodes = 0, bc_key_size = 0, bc_value_size = 0\<rparr>
   = Inr (True, \<lparr>bc_num_key_value_pairs = 100, bc_num_nodes = 3, bc_key_size = 24, bc_value_size = 4096\<rparr>)"
proof -
  let ?c0 = "\<lparr>bc_num_key_value_pairs = 0, bc_num_nodes = 0, bc_key_size = 0, bc_value_size = 0\<rparr>"
  have r: "foldR config_line [''# NUM_NODES'', ''NUM_NODES= 7''] ?c0 = Inr (?c0\<lparr>bc_num_nodes := 7\<rparr>)" by code_simp
  show ?thesis
    by (rule readConfig_last_assignment_wins [OF _ r]) (simp_all add: in_int_def int_min_def int_max_def)
qed

section \<open>Sending the pairs\<close>

lemma upto_map_int: "[int a..int b - 1] = map int [a..<b]"
  by (induction b) (auto simp: upto_rec2 not_le)

lemma send_range:
  assumes "b \<le> length kvs"
  shows "foldR (send_pair kvs node) (map int [a..<b]) out = Inr (out @ map (\<lambda>i. (node, kvs ! i)) [a..<b])"
  using assms
proof (induction b)
  case (Suc b)
  then show ?case by (cases "a \<le> b") (simp_all add: foldR_append send_pair_def case_prod_unfold)
qed simp

definition dealt :: "nat \<Rightarrow> nat \<Rightarrow> (nat \<Rightarrow> string \<times> string) \<Rightarrow> sends" where
  "dealt sz n kv = map (\<lambda>j. (int (j div sz), kv j)) [0..<n * sz]"

lemma dealt_Suc: "dealt sz (Suc n) kv = dealt sz n kv @ map (\<lambda>j. (int n, kv j)) [n * sz..<Suc n * sz]"
proof -
  have "[0..<Suc n * sz] = [0..<n * sz] @ [n * sz..<Suc n * sz]"
    using upt_add_eq_append [of 0 "n * sz" sz] by (simp add: add.commute)
  moreover have "j div sz = n" if "j \<in> set [n * sz..<Suc n * sz]" for j
    using that by (auto intro!: div_nat_eqI simp: mult.commute)
  ultimately show ?thesis by (simp add: dealt_def)
qed

lemma split_loop:
  assumes "n * sz \<le> length kvs"
  shows "foldR (\<lambda>node. foldR (send_pair kvs node) [node * int sz..(node + 1) * int sz - 1]) (map int [0..<n]) []
    = Inr (dealt sz n ((!) kvs))"
  using assms
proof (induction n)
  case (Suc n)
  have "[int n * int sz..(int n + 1) * int sz - 1] = map int [n * sz..<Suc n * sz]"
    using upto_map_int [of "n * sz" "Suc n * sz"] by (simp add: algebra_simps)
  moreover have "n * sz \<le> length kvs" using Suc.prems by simp
  ultimately show ?case using Suc.IH send_range [OF Suc.prems] by (simp add: foldR_append dealt_Suc del: mult_Suc)
qed (simp add: dealt_def)

lemma random_chunk_run:
  assumes "\<forall>i \<in> set p. i < length kvs" "idx + m \<le> length p"
  shows "random_chunk kvs p (int (length p)) node m (int idx, out) = Inr (int (idx + m), out @ map (\<lambda>j. (node, kvs ! (p ! j))) [idx..<idx + m])"
  using assms(2)
proof (induction m arbitrary: idx out)
  case (Suc m)
  have "p ! idx < length kvs" using assms(1) Suc.prems by simp
  moreover have "[idx..<idx + Suc m] = idx # [Suc idx..<Suc idx + m]" by (simp add: upt_rec)
  ultimately show ?case using Suc.IH [of "Suc idx"] Suc.prems by (simp add: send_pair_def case_prod_unfold add.commute)
qed simp

lemma random_loop:
  assumes "\<forall>i \<in> set p. i < length kvs" "n * sz \<le> length p"
  shows "foldR (\<lambda>node. random_chunk kvs p (int (length p)) node sz) (map int [0..<n]) (0, [])
    = Inr (int (n * sz), dealt sz n (\<lambda>j. kvs ! (p ! j)))"
  using assms(2)
proof (induction n)
  case (Suc n)
  then show ?case using random_chunk_run [OF assms(1), of "n * sz" sz "int n" "dealt sz n (\<lambda>j. kvs ! (p ! j))"]
    by (simp add: foldR_append dealt_Suc add.commute)
qed (simp add: dealt_def)

text \<open>
  Property C40: sending the pairs deals them out in runs of \<open>size div nodes\<close>: the first run goes to
  node 0, the next to node 1 and so on, and the last \<open>size mod nodes\<close> pairs are sent to no node;
  the random variant does the same with the pairs in shuffled order.
\<close>

theorem issueIO_deals_runs:
  assumes "0 < num_nodes" "length kvs < 2 ^ 31" "mset (shuffle [0..<length kvs]) = mset [0..<length kvs]"
  shows "issueSplitIO kvs num_nodes = Inr (dealt (length kvs div nat num_nodes) (nat num_nodes) ((!) kvs))
    \<and> issueRandomIO shuffle kvs num_nodes
      = Inr (dealt (length kvs div nat num_nodes) (nat num_nodes) (\<lambda>j. kvs ! (shuffle [0..<length kvs] ! j)))
    \<and> length (dealt (length kvs div nat num_nodes) (nat num_nodes) ((!) kvs)) = length kvs - length kvs mod nat num_nodes"
proof -
  let ?n = "nat num_nodes" let ?sz = "length kvs div ?n" let ?p = "shuffle [0..<length kvs]"
  have size: "int_of_u64 (of_nat (length kvs)) = int (length kvs)" using assms(2) by (simp add: int_of_u64_small)
  have "in_int (int (length kvs))" using assms(2) by (simp add: in_int_def int_min_def int_max_def)
  then have c: "int_div (int (length kvs)) num_nodes = Inr (int ?sz)" using assms(1) by (simp add: zdiv_int)
  have nodes: "[0..num_nodes - 1] = map int [0..<?n]" using upto_map_int [of 0 ?n] assms(1) by simp
  have le: "?n * ?sz \<le> length kvs" by (simp add: mult.commute div_times_less_eq_dividend)
  have p: "length ?p = length kvs" "\<forall>i \<in> set ?p. i < length kvs"
    using mset_eq_length [OF assms(3)] mset_eq_setD [OF assms(3)] by auto
  have "issueSplitIO kvs num_nodes = Inr (dealt ?sz ?n ((!) kvs))"
    unfolding issueSplitIO_def size c bindR_simps nodes by (rule split_loop [OF le])
  moreover have "issueRandomIO shuffle kvs num_nodes = Inr (dealt ?sz ?n (\<lambda>j. kvs ! (?p ! j)))"
    unfolding issueRandomIO_def Let_def size c bindR_simps nodes
    using random_loop [OF p(2), of ?n ?sz] le by (simp add: p(1))
  moreover have "?n * ?sz = length kvs - length kvs mod ?n" by (simp add: minus_mod_eq_mult_div)
  ultimately show ?thesis by (simp add: dealt_def)
qed

theorem issueIO_deals_runs_witness:
  "issueSplitIO [(''0'', ''A''), (''1'', ''A''), (''2'', ''A'')] 2 = Inr [(0, ''0'', ''A''), (1, ''1'', ''A'')]
    \<and> issueRandomIO rev [(''0'', ''A''), (''1'', ''A''), (''2'', ''A'')] 2 = Inr [(0, ''2'', ''A''), (1, ''1'', ''A'')]"
  using issueIO_deals_runs [of 2 "[(''0'', ''A''), (''1'', ''A''), (''2'', ''A'')]" rev] by (simp add: dealt_def upt_rec)

section \<open>The traces do not depend on the buffer\<close>

definition trace_text :: "(nat \<Rightarrow> int) \<Rightarrow> int \<Rightarrow> nat \<Rightarrow> string" where
  "trace_text dis constantNum n = concat (map (\<lambda>i. trace_entry (dis i) constantNum) [0..<n])"

lemma buffered_text:
  "fold (buffer_entry dis constantNum) [0..<n] ([], []) = (out, buffer) \<Longrightarrow> out @ buffer = trace_text dis constantNum n \<and> length buffer < BUFFER_SIZE"
proof (induction n arbitrary: out buffer)
  case 0
  then show ?case by (simp add: trace_text_def BUFFER_SIZE_def)
next
  case (Suc n)
  obtain out' buffer' where f: "fold (buffer_entry dis constantNum) [0..<n] ([], []) = (out', buffer')" by fastforce
  from Suc.IH [OF f] have "out' @ buffer' = trace_text dis constantNum n" ..
  moreover have "buffer_entry dis constantNum n (out', buffer') = (out, buffer)" using Suc.prems f by simp
  moreover have "0 < BUFFER_SIZE" by (simp add: BUFFER_SIZE_def)
  ultimately show ?case by (auto simp: buffer_entry_def trace_text_def Let_def split: if_splits)
qed

lemma generateFile_text:
  "opens (client_file c t p) \<Longrightarrow> generateFile opens dis c t p constantNum n fs = fs(client_file c t p \<mapsto> trace_text dis constantNum (nat n))"
  using buffered_text [of dis constantNum "nat n"]
  by (auto simp: generateFile_def Let_def fun_upd_def fun_eq_iff split: prod.splits)

lemma fold_updates:
  "distinct (map g xs) \<Longrightarrow> x \<in> set xs \<Longrightarrow> fold (\<lambda>x fs. fs(g x \<mapsto> h x)) xs fs (g x) = Some (h x)"
proof (induction xs rule: rev_induct)
  case (snoc y xs)
  then show ?case by (cases "x = y") (auto simp: image_iff)
qed simp

lemma file_slots_names: "length file_slots = 48" "distinct (map (\<lambda>(c, t, p). client_file c t p) file_slots)"
  by code_simp+

text \<open>
  When the files can be created, the 48 clients get a trace each, of the same number of
  operations: a trace is the sequence of its entries, all for one node, however the buffer was
  filled and flushed; the first 42 name node 2, the others node 1 or 3, and 16 of the operations
  asked for are in no trace.
\<close>

theorem second_node_traces:
  assumes "\<And>c t p. opens (client_file c t p)" "j < 48"
  shows "second_node_main opens dis fs ((\<lambda>(c, t, p). client_file c t p) (file_slots ! j))
      = Some (trace_text (dis j) (if j < 42 then 2 else if even j then 1 else 3) (nat operations_per_file))
    \<and> int (length file_slots) * operations_per_file = TRACE_OPERATIONS - 16"
proof
  let ?name = "\<lambda>(c, t, p). client_file c t p"
  let ?g = "\<lambda>(j, s). ?name s" and ?h = "\<lambda>(j, s). trace_text (dis j) (file_node j) (nat operations_per_file)"
  have "(\<lambda>(fileIndex, c, t, p). generateFile opens (dis fileIndex) c t p (file_node fileIndex) operations_per_file)
      = (\<lambda>x fs. fs(?g x \<mapsto> ?h x))"
    by (auto simp: fun_eq_iff generateFile_text [of opens, OF assms(1)])
  then have m: "second_node_main opens dis fs = fold (\<lambda>x fs. fs(?g x \<mapsto> ?h x)) (enumerate 0 file_slots) fs"
    unfolding second_node_main_def by (rule arg_cong)
  have "map ?g (enumerate 0 file_slots) = map ?name file_slots" by (simp add: list_eq_iff_nth_eq nth_enumerate_eq case_prod_unfold)
  then have d: "distinct (map ?g (enumerate 0 file_slots))" using file_slots_names(2) by (simp only:)
  have j: "(j, file_slots ! j) \<in> set (enumerate 0 file_slots)"
    using assms(2) file_slots_names(1) by (metis add_0 in_set_conv_nth length_enumerate nth_enumerate_eq)
  from fold_updates [of ?g, OF d j, of ?h fs]
  show "second_node_main opens dis fs (?name (file_slots ! j))
      = Some (trace_text (dis j) (if j < 42 then 2 else if even j then 1 else 3) (nat operations_per_file))"
    unfolding m by (simp add: file_node_def NUM_FILES_WITH_2_def)
  show "int (length file_slots) * operations_per_file = TRACE_OPERATIONS - 16"
    by (simp add: file_slots_names(1) operations_per_file_def TRACE_OPERATIONS_def NUM_FILES_WITH_2_def NUM_FILES_WITH_1_OR_3_def)
qed

theorem second_node_traces_witness:
  "second_node_main (\<lambda>_. True) (\<lambda>j i. 3333333 + int i) Map.empty ''client_0_thread_0_clientPerThread_1.txt''
    = Some (trace_text (\<lambda>i. 3333333 + int i) 2 (nat operations_per_file))"
proof -
  have n: "(\<lambda>(c, t, p). client_file c t p) (file_slots ! 1) = ''client_0_thread_0_clientPerThread_1.txt''" by code_simp
  show ?thesis using second_node_traces [of "\<lambda>_. True" 1 "\<lambda>j i. 3333333 + int i" Map.empty] unfolding n by simp
qed

end
