(* ===== verification/Original_Async.thy ===== *)
theory Original_Async
  imports Async_Rdma
begin

text \<open>
  The first variant of the asynchronous reads, under \<open>USE_ORIGINAL_ASYNC_RDMA_DATA\<close> in
  \<open>src/src/async_rdma.h\<close> and \<open>src/src/rdma_reads.cpp\<close>: an array of slots that the server threads
  claim and a polling thread empties. No build defines the macro, and the variant calls an overload
  of \<open>append_to_rdma_get_response_queue\<close> without a port that is gone, so its responses are a list of
  their own here.

  The locale \<open>async_service\<close> states what a service of asynchronous reads promises; both variants are
  interpretations of it, this one on the runs in which the polling thread keeps away from slots that
  are being recorded; without that it can answer the wrong machine (section on the race).
  Completions are steps of the network: a request token remembers the offset
  of the read that was posted with it. The printing and dumping members are left out.
\<close>

section \<open>Slots\<close>

datatype token = No_read | In_flight u64 | Completed u64

record slot_op =
  sl_offset :: u64
  sl_server :: bool
  sl_remoteIndex :: int
  sl_isAvailable :: bool
  sl_token :: token

record original_buffer =
  ob_slots :: "slot_op list"
  ob_head :: nat
  ob_value_size :: int
  ob_completedOps :: "nat list"
  ob_responses :: "(int \<times> string) list"

definition make_original_buffer :: "nat \<Rightarrow> int \<Rightarrow> original_buffer" where
  "make_original_buffer bufferSize valuesize =
     \<lparr>ob_slots = map (\<lambda>i. \<lparr>sl_offset = 0, sl_server = False, sl_remoteIndex = 0, sl_isAvailable = True, sl_token = No_read\<rparr>) [0..<bufferSize],
      ob_head = 0, ob_value_size = valuesize, ob_completedOps = [], ob_responses = []\<rparr>"

definition with_slot :: "nat \<Rightarrow> (slot_op \<Rightarrow> slot_op) \<Rightarrow> original_buffer \<Rightarrow> original_buffer" where
  "with_slot i f ob = ob\<lparr>ob_slots := (ob_slots ob)[i := f (ob_slots ob ! i)]\<rparr>"

text \<open>
  \<open>addAsyncRdmaOp\<close> and \<open>markSlotAvailable\<close> write the members of a slot one after the other, without its
  lock; the writes are lists, in the order of the code, so that a run can stop between two of them.
\<close>

definition add_writes :: "u64 \<Rightarrow> int \<Rightarrow> (slot_op \<Rightarrow> slot_op) list" where
  "add_writes offset remoteIndex =
     [\<lambda>sl. sl\<lparr>sl_server := True\<rparr>, \<lambda>sl. sl\<lparr>sl_remoteIndex := remoteIndex\<rparr>, \<lambda>sl. sl\<lparr>sl_offset := offset\<rparr>,
      \<lambda>sl. sl\<lparr>sl_isAvailable := False\<rparr>]"

definition mark_writes :: "(slot_op \<Rightarrow> slot_op) list" where
  "mark_writes =
     [\<lambda>sl. sl\<lparr>sl_offset := 0\<rparr>, \<lambda>sl. sl\<lparr>sl_server := False\<rparr>, \<lambda>sl. sl\<lparr>sl_remoteIndex := 0\<rparr>, \<lambda>sl. sl\<lparr>sl_isAvailable := True\<rparr>]"

definition addAsyncRdmaOp :: "int \<Rightarrow> u64 \<Rightarrow> int \<Rightarrow> original_buffer \<Rightarrow> original_buffer res" where
  "addAsyncRdmaOp index offset remoteIndex ob =
     (if index < 0 \<or> int (length (ob_slots ob)) \<le> index then Inl (Panic ''Index out of bounds for addAsyncRdmaOp'')
      else Inr (fold (with_slot (nat index)) (add_writes offset remoteIndex) ob))"

text \<open>The search goes round the slots until one is free; when none is, only the polling thread helps.\<close>

definition nextAvailableSlot :: "original_buffer \<Rightarrow> (nat \<times> original_buffer) res" where
  "nextAvailableSlot ob =
     (case filter (\<lambda>i. sl_isAvailable (ob_slots ob ! i)) (map (\<lambda>i. (ob_head ob + i) mod length (ob_slots ob)) [0..<length (ob_slots ob)]) of
        [] \<Rightarrow> Inl (Blocked ''nextAvailableSlot'')
      | i # _ \<Rightarrow> Inr (i, with_slot i (\<lambda>sl. sl\<lparr>sl_isAvailable := False\<rparr>) ob))"

definition markSlotAvailable :: "int \<Rightarrow> original_buffer \<Rightarrow> original_buffer res" where
  "markSlotAvailable index ob =
     (if index < 0 \<or> int (length (ob_slots ob)) \<le> index then Inl (Panic ''markSlotAvailable index out of bounds'')
      else Inr (fold (with_slot (nat index)) mark_writes ob))"

text \<open>The read is posted with the buffer and the token of the slot.\<close>

definition post_slot_read :: "nat \<Rightarrow> u64 \<Rightarrow> original_buffer \<Rightarrow> original_buffer" where
  "post_slot_read i offset = with_slot i (\<lambda>sl. sl\<lparr>sl_token := In_flight offset\<rparr>)"

text \<open>The two loops of a round of \<open>pollRdmaOperations\<close>, one slot and one completed operation at a time.\<close>

definition checkIfCompleted :: "token \<Rightarrow> bool" where
  "checkIfCompleted t = (case t of Completed _ \<Rightarrow> True | _ \<Rightarrow> False)"

definition collect_slot :: "nat \<Rightarrow> original_buffer \<Rightarrow> original_buffer" where
  "collect_slot i ob =
     (let sl = ob_slots ob ! i in
      if \<not> sl_isAvailable sl \<and> sl_server sl \<and> checkIfCompleted (sl_token sl)
      then ob\<lparr>ob_completedOps := ob_completedOps ob @ [i]\<rparr> else ob)"

definition token_offset :: "token \<Rightarrow> u64" where
  "token_offset t = (case t of No_read \<Rightarrow> 0 | In_flight off \<Rightarrow> off | Completed off \<Rightarrow> off)"

definition answer_slot :: "region \<Rightarrow> nat \<Rightarrow> original_buffer \<Rightarrow> original_buffer res" where
  "answer_slot mem i ob =
     (let sl = ob_slots ob ! i in
      bindR (view_value (ob_value_size ob) (read_bytes (unat (token_offset (sl_token sl))) BLKSZ mem)) (\<lambda>value.
      Inr (ob\<lparr>ob_responses := ob_responses ob @ [(sl_remoteIndex sl, value)]\<rparr>)))"

definition deliver_slot :: "region \<Rightarrow> nat \<Rightarrow> original_buffer \<Rightarrow> original_buffer res" where
  "deliver_slot mem i ob = bindR (answer_slot mem i ob) (markSlotAvailable (int i))"

section \<open>Services of asynchronous reads\<close>

datatype 'r event = Submit 'r | Answer 'r | Tau

definition submitted :: "'r event list \<Rightarrow> 'r multiset" where
  "submitted es = mset (concat (map (\<lambda>e. case e of Submit r \<Rightarrow> [r] | _ \<Rightarrow> []) es))"

definition answered_reads :: "'r event list \<Rightarrow> 'r multiset" where
  "answered_reads es = mset (concat (map (\<lambda>e. case e of Answer r \<Rightarrow> [r] | _ \<Rightarrow> []) es))"

lemma events_simps [simp]:
  "submitted [] = {#}" "answered_reads [] = {#}"
  "submitted (es @ [Submit r]) = add_mset r (submitted es)" "answered_reads (es @ [Submit r]) = answered_reads es"
  "submitted (es @ [Answer r]) = submitted es" "answered_reads (es @ [Answer r]) = add_mset r (answered_reads es)"
  "submitted (es @ [Tau]) = submitted es" "answered_reads (es @ [Tau]) = answered_reads es"
  by (simp_all add: submitted_def answered_reads_def)

inductive event_run :: "('st \<Rightarrow> 'r event \<Rightarrow> 'st \<Rightarrow> bool) \<Rightarrow> 'st \<Rightarrow> 'r event list \<Rightarrow> 'st \<Rightarrow> bool" for step where
  event_run_refl: "event_run step s [] s"
| event_run_step: "event_run step s es t \<Longrightarrow> step t e u \<Longrightarrow> event_run step s (es @ [e]) u"

text \<open>
  The contract: under an invariant of the implementation, a submitted read is open until it is
  answered, and the response that an answer adds is the one of its read.
\<close>

locale async_service =
  fixes step :: "'st \<Rightarrow> 'r event \<Rightarrow> 'st \<Rightarrow> bool"
    and inv :: "'st \<Rightarrow> bool"
    and open_reads :: "'st \<Rightarrow> 'r multiset"
    and responses :: "'st \<Rightarrow> 'p multiset"
    and respond :: "'r \<Rightarrow> 'p"
  assumes keeps: "step s e t \<Longrightarrow> inv s \<Longrightarrow> inv t"
    and submits: "step s (Submit r) t \<Longrightarrow> inv s \<Longrightarrow> open_reads t = add_mset r (open_reads s) \<and> responses t = responses s"
    and answers: "step s (Answer r) t \<Longrightarrow> inv s \<Longrightarrow> open_reads s = add_mset r (open_reads t) \<and> responses t = add_mset (respond r) (responses s)"
    and internal: "step s Tau t \<Longrightarrow> inv s \<Longrightarrow> open_reads t = open_reads s \<and> responses t = responses s"
begin

lemma run_invariant: "event_run step s es t \<Longrightarrow> inv s \<Longrightarrow> inv t"
  by (induction rule: event_run.induct) (auto intro: keeps)

lemma conservation:
  assumes "event_run step s es t" "inv s"
  shows "open_reads s + submitted es = open_reads t + answered_reads es
    \<and> responses t = responses s + image_mset respond (answered_reads es)"
  using assms
proof (induction rule: event_run.induct)
  case (event_run_step s es t e u)
  note i = run_invariant [OF event_run_step.hyps(1) event_run_step.prems]
  note IH = event_run_step.IH [OF event_run_step.prems]
  show ?case
  proof (cases e)
    case (Submit r)
    then show ?thesis using submits [of t r u] event_run_step.hyps(2) i IH by simp
  next
    case (Answer r)
    then show ?thesis using answers [of t r u] event_run_step.hyps(2) i IH by simp
  next
    case Tau
    then show ?thesis using internal [of t u] event_run_step.hyps(2) i IH by simp
  qed
qed simp

lemma nothing_open_all_answered:
  "event_run step s es t \<Longrightarrow> inv s \<Longrightarrow> open_reads s = {#} \<Longrightarrow> open_reads t = {#} \<Longrightarrow> submitted es = answered_reads es"
  using conservation by fastforce

end

section \<open>Runs of the original variant\<close>

text \<open>
  A server thread claims a slot for the machine and offset of a read, posts the read and records it
  in the slot, one write at a time; \<open>claims\<close> has the threads between these steps for each slot, with
  the number of steps they have done (0 claimed, 1 posted, then one more for each write). The polling
  thread goes through the slots, then through the completed operations; it remembers the next slot
  to look at and, after an answer, the slot it is marking and how many of the writes it has done.
\<close>

type_synonym claims = "nat \<Rightarrow> (int \<times> u64 \<times> nat) list"
type_synonym poller = "nat \<times> (nat \<times> nat) option"
type_synonym original_state = "original_buffer \<times> claims \<times> poller"

abbreviation start_state :: "nat \<Rightarrow> int \<Rightarrow> original_state" where
  "start_state n vs \<equiv> (make_original_buffer n vs, \<lambda>_. [], 0, None)"

inductive slot_event :: "region \<Rightarrow> original_state \<Rightarrow> (int \<times> u64) event \<Rightarrow> original_state \<Rightarrow> bool" for mem where
  slot_claim: "nextAvailableSlot ob = Inr (i, ob')
    \<Longrightarrow> slot_event mem (ob, cl, pl) (Submit (r, off)) (ob', cl(i := (r, off, 0) # cl i), pl)"
| slot_post: "cl i = cs @ (r, off, 0) # cs'
    \<Longrightarrow> slot_event mem (ob, cl, pl) Tau (post_slot_read i off ob, cl(i := cs @ (r, off, 1) # cs'), pl)"
| slot_add: "cl i = cs @ (r, off, Suc k) # cs' \<Longrightarrow> k < 4
    \<Longrightarrow> slot_event mem (ob, cl, pl) Tau (with_slot i (add_writes off r ! k) ob, cl(i := cs @ (if k < 3 then [(r, off, Suc (Suc k))] else []) @ cs'), pl)"
| slot_complete: "i < length (ob_slots ob) \<Longrightarrow> sl_token (ob_slots ob ! i) = In_flight off
    \<Longrightarrow> slot_event mem (ob, cl, pl) Tau (with_slot i (\<lambda>sl. sl\<lparr>sl_token := Completed off\<rparr>) ob, cl, pl)"
| slot_collect: "cur < length (ob_slots ob) \<Longrightarrow> slot_event mem (ob, cl, cur, None) Tau (collect_slot cur ob, cl, Suc cur, None)"
| slot_deliver: "cur = length (ob_slots ob) \<Longrightarrow> ob_completedOps ob = i # is \<Longrightarrow> answer_slot mem i (ob\<lparr>ob_completedOps := is\<rparr>) = Inr ob'
    \<Longrightarrow> slot_event mem (ob, cl, cur, None) (Answer (sl_remoteIndex (ob_slots ob ! i), sl_offset (ob_slots ob ! i))) (ob', cl, cur, Some (i, 0))"
| slot_mark: "k < 4 \<Longrightarrow> slot_event mem (ob, cl, cur, Some (i, k)) Tau
    (with_slot i (mark_writes ! k) ob, cl, cur, if k < 3 then Some (i, Suc k) else None)"
| slot_round: "cur = length (ob_slots ob) \<Longrightarrow> ob_completedOps ob = [] \<Longrightarrow> slot_event mem (ob, cl, cur, None) Tau (ob, cl, 0, None)"

text \<open>
  Without the lock the polling thread can look at a slot that a thread is still recording. Runs are
  orderly if it does not: when it moves past a slot, no thread has begun to record in it.
\<close>

definition nobody_records :: "original_state \<Rightarrow> bool" where
  "nobody_records = (\<lambda>(ob, cl, cur, mk). \<forall>(r, off, k) \<in> set (cl cur). k < 2)"

definition orderly_event :: "region \<Rightarrow> original_state \<Rightarrow> (int \<times> u64) event \<Rightarrow> original_state \<Rightarrow> bool" where
  "orderly_event mem s e t \<longleftrightarrow> slot_event mem s e t
     \<and> (fst (snd (snd t)) = Suc (fst (snd (snd s))) \<longrightarrow> nobody_records s)"

text \<open>
  A slot is free, claimed, holds a read that is under way, completed or collected, or is being marked
  (with the number of writes done).
\<close>

definition slot_ok :: "slot_op \<Rightarrow> (int \<times> u64 \<times> nat) list \<Rightarrow> bool \<Rightarrow> nat option \<Rightarrow> bool" where
  "slot_ok sl c collected mark \<longleftrightarrow>
     (if sl_isAvailable sl then \<not> sl_server sl \<and> c = [] \<and> \<not> collected \<and> mark = None
      else case c of
        [] \<Rightarrow> (case mark of
           None \<Rightarrow> sl_server sl \<and> sl_token sl \<in> {In_flight (sl_offset sl), Completed (sl_offset sl)}
                \<and> (collected \<longrightarrow> sl_token sl = Completed (sl_offset sl))
         | Some k \<Rightarrow> \<not> collected \<and> k < 4 \<and> (2 \<le> k \<longrightarrow> \<not> sl_server sl))
      | [(r, off, k)] \<Rightarrow> \<not> collected \<and> mark = None \<and> k < 5 \<and> sl_server sl = (2 \<le> k)
           \<and> (1 \<le> k \<longrightarrow> sl_token sl \<in> {In_flight off, Completed off})
           \<and> (3 \<le> k \<longrightarrow> sl_remoteIndex sl = r) \<and> (4 \<le> k \<longrightarrow> sl_offset sl = off)
      | _ \<Rightarrow> False)"

lemma slot_ok_at_most_one [simp]: "\<not> slot_ok sl (x # y # c) collected mark"
  by (cases x) (simp add: slot_ok_def)

lemma slot_okE:
  assumes "slot_ok sl c collected mark"
  obtains "c = []" | r off k where "c = [(r, off, k)]"
  using assms by (cases c; cases "tl c") auto

definition marked :: "(nat \<times> nat) option \<Rightarrow> nat \<Rightarrow> nat option" where
  "marked mk i = (case mk of Some (j, k) \<Rightarrow> if j = i then Some k else None | None \<Rightarrow> None)"

lemma marked_simps [simp]:
  "marked None i = None" "marked (Some (j, k)) i = (if j = i then Some k else None)"
  by (simp_all add: marked_def)

definition slots_inv :: "nat \<Rightarrow> int \<Rightarrow> original_state \<Rightarrow> bool" where
  "slots_inv n vs = (\<lambda>(ob, cl, cur, mk). length (ob_slots ob) = n \<and> ob_value_size ob = vs \<and> cur \<le> n
     \<and> distinct (ob_completedOps ob) \<and> (\<forall>i \<in> set (ob_completedOps ob). i < cur) \<and> (\<forall>i \<ge> n. cl i = [] \<and> marked mk i = None)
     \<and> (\<forall>i < n. slot_ok (ob_slots ob ! i) (cl i) (i \<in> set (ob_completedOps ob)) (marked mk i)))"

definition slot_reads :: "slot_op \<Rightarrow> (int \<times> u64 \<times> nat) list \<Rightarrow> nat option \<Rightarrow> (int \<times> u64) multiset" where
  "slot_reads sl c mark =
     (if sl_isAvailable sl \<or> mark \<noteq> None then {#}
      else case c of (r, off, _) # _ \<Rightarrow> {#(r, off)#} | [] \<Rightarrow> {#(sl_remoteIndex sl, sl_offset sl)#})"

definition open_slots :: "original_state \<Rightarrow> (int \<times> u64) multiset" where
  "open_slots = (\<lambda>(ob, cl, cur, mk). \<Sum>i < length (ob_slots ob). slot_reads (ob_slots ob ! i) (cl i) (marked mk i))"

definition slot_responses :: "original_state \<Rightarrow> (int \<times> string) multiset" where
  "slot_responses = (\<lambda>(ob, cl, pl). mset (ob_responses ob))"

definition slot_response :: "int \<Rightarrow> region \<Rightarrow> int \<times> u64 \<Rightarrow> int \<times> string" where
  "slot_response vs mem = (\<lambda>(r, off). (r, text_of (take (nat vs) (read_bytes (unat off) BLKSZ mem))))"

lemma with_slot_simps [simp]:
  "length (ob_slots (with_slot i f ob)) = length (ob_slots ob)" "ob_value_size (with_slot i f ob) = ob_value_size ob"
  "ob_completedOps (with_slot i f ob) = ob_completedOps ob" "ob_responses (with_slot i f ob) = ob_responses ob"
  "ob_head (with_slot i f ob) = ob_head ob"
  "j < length (ob_slots ob) \<Longrightarrow> ob_slots (with_slot i f ob) ! j = (if j = i then f (ob_slots ob ! i) else ob_slots ob ! j)"
  by (simp_all add: with_slot_def nth_list_update)

lemma sum_update:
  fixes n :: nat
  assumes "i < n" "\<And>j. j < n \<Longrightarrow> j \<noteq> i \<Longrightarrow> f' j = f j"
  shows "(\<Sum>j < n. f' j) + f i = (\<Sum>j < n. f j) + (f' i :: 'a multiset)"
proof -
  have "(\<Sum>j < n. f' j) = f' i + (\<Sum>j \<in> {..<n} - {i}. f' j)" "(\<Sum>j < n. f j) = f i + (\<Sum>j \<in> {..<n} - {i}. f j)"
    using sum.remove [of "{..<n}" i f'] sum.remove [of "{..<n}" i f] assms(1) by simp_all
  moreover have "(\<Sum>j \<in> {..<n} - {i}. f' j) = (\<Sum>j \<in> {..<n} - {i}. f j)" using assms(2) by (intro sum.cong) auto
  ultimately show ?thesis by simp
qed

text \<open>One slot changes: the open reads change by what it holds.\<close>

lemma open_slots_update:
  assumes "i < length (ob_slots ob)" "length (ob_slots ob') = length (ob_slots ob)"
    and "\<And>j. j < length (ob_slots ob) \<Longrightarrow> j \<noteq> i \<Longrightarrow> ob_slots ob' ! j = ob_slots ob ! j \<and> cl' j = cl j \<and> marked mk' j = marked mk j"
  shows "open_slots (ob', cl', cur', mk') + slot_reads (ob_slots ob ! i) (cl i) (marked mk i)
    = open_slots (ob, cl, cur, mk) + slot_reads (ob_slots ob' ! i) (cl' i) (marked mk' i)"
  unfolding open_slots_def prod.case assms(2) by (rule sum_update [OF assms(1)]) (simp add: assms(3))

lemma open_slots_same:
  assumes "length (ob_slots ob') = length (ob_slots ob)"
    and "\<And>j. j < length (ob_slots ob) \<Longrightarrow> slot_reads (ob_slots ob' ! j) (cl' j) (marked mk' j) = slot_reads (ob_slots ob ! j) (cl j) (marked mk j)"
  shows "open_slots (ob', cl', cur', mk') = open_slots (ob, cl, cur, mk)"
  unfolding open_slots_def prod.case assms(1) by (rule sum.cong) (simp_all add: assms(2))

lemma nextAvailableSlot_cases:
  "nextAvailableSlot ob = Inr (i, ob') \<Longrightarrow> i < length (ob_slots ob) \<and> sl_isAvailable (ob_slots ob ! i)
     \<and> ob' = with_slot i (\<lambda>sl. sl\<lparr>sl_isAvailable := False\<rparr>) ob"
proof -
  let ?n = "length (ob_slots ob)" let ?is = "map (\<lambda>i. (ob_head ob + i) mod ?n) [0..<?n]"
  assume a: "nextAvailableSlot ob = Inr (i, ob')"
  then obtain rest where f: "filter (\<lambda>i. sl_isAvailable (ob_slots ob ! i)) ?is = i # rest"
    and e: "ob' = with_slot i (\<lambda>sl. sl\<lparr>sl_isAvailable := False\<rparr>) ob"
    by (auto simp: nextAvailableSlot_def split: list.splits)
  have "i \<in> set (filter (\<lambda>i. sl_isAvailable (ob_slots ob ! i)) ?is)" unfolding f by simp
  then show ?thesis using e by (auto intro!: mod_less_divisor)
qed

lemma slots_initial:
  "slots_inv n vs (start_state n vs)" "open_slots (start_state n vs) = {#}" "slot_responses (start_state n vs) = {#}"
  by (simp_all add: slots_inv_def make_original_buffer_def slot_ok_def open_slots_def slot_reads_def slot_responses_def)

text \<open>The writes one by one are the functions.\<close>

lemma add_writes_nth:
  "add_writes offset r ! 0 = (\<lambda>sl. sl\<lparr>sl_server := True\<rparr>)" "add_writes offset r ! Suc 0 = (\<lambda>sl. sl\<lparr>sl_remoteIndex := r\<rparr>)"
  "add_writes offset r ! 2 = (\<lambda>sl. sl\<lparr>sl_offset := offset\<rparr>)" "add_writes offset r ! 3 = (\<lambda>sl. sl\<lparr>sl_isAvailable := False\<rparr>)"
  by (simp_all add: add_writes_def eval_nat_numeral)

lemma mark_writes_nth:
  "mark_writes ! 0 = (\<lambda>sl. sl\<lparr>sl_offset := 0\<rparr>)" "mark_writes ! Suc 0 = (\<lambda>sl. sl\<lparr>sl_server := False\<rparr>)"
  "mark_writes ! 2 = (\<lambda>sl. sl\<lparr>sl_remoteIndex := 0\<rparr>)" "mark_writes ! 3 = (\<lambda>sl. sl\<lparr>sl_isAvailable := True\<rparr>)"
  by (simp_all add: mark_writes_def eval_nat_numeral)

lemma addAsyncRdmaOp_writes:
  "i < length (ob_slots ob) \<Longrightarrow> addAsyncRdmaOp (int i) offset r ob = Inr (with_slot i (add_writes offset r ! 3)
     (with_slot i (add_writes offset r ! 2) (with_slot i (add_writes offset r ! Suc 0) (with_slot i (add_writes offset r ! 0) ob))))"
  by (simp add: addAsyncRdmaOp_def add_writes_nth) (simp add: add_writes_def)

lemma markSlotAvailable_writes:
  "i < length (ob_slots ob) \<Longrightarrow> markSlotAvailable (int i) ob = Inr (with_slot i (mark_writes ! 3)
     (with_slot i (mark_writes ! 2) (with_slot i (mark_writes ! Suc 0) (with_slot i (mark_writes ! 0) ob))))"
  by (simp add: markSlotAvailable_def mark_writes_nth) (simp add: mark_writes_def)

lemma less_4_cases: "k < 4 \<Longrightarrow> k = 0 \<or> k = Suc 0 \<or> k = 2 \<or> k = 3" for k :: nat
  by linarith

section \<open>The original variant is a service\<close>

definition slot_effect :: "int \<Rightarrow> region \<Rightarrow> original_state \<Rightarrow> (int \<times> u64) event \<Rightarrow> original_state \<Rightarrow> bool" where
  "slot_effect vs mem s e t \<longleftrightarrow>
     (case e of
        Submit r \<Rightarrow> open_slots t = add_mset r (open_slots s) \<and> slot_responses t = slot_responses s
      | Answer r \<Rightarrow> open_slots s = add_mset r (open_slots t) \<and> slot_responses t = add_mset (slot_response vs mem r) (slot_responses s)
      | Tau \<Rightarrow> open_slots t = open_slots s \<and> slot_responses t = slot_responses s)"

lemma slots_invD:
  assumes "slots_inv n vs (ob, cl, cur, mk)"
  shows "length (ob_slots ob) = n" "ob_value_size ob = vs" "cur \<le> n" "distinct (ob_completedOps ob)"
    "i \<in> set (ob_completedOps ob) \<Longrightarrow> i < cur" "n \<le> i \<Longrightarrow> cl i = [] \<and> marked mk i = None"
    "i < n \<Longrightarrow> slot_ok (ob_slots ob ! i) (cl i) (i \<in> set (ob_completedOps ob)) (marked mk i)"
  using assms by (auto simp: slots_inv_def)

text \<open>In these states at most one thread works on a slot.\<close>

lemma claimed:
  assumes "slots_inv n vs (ob, cl, cur, mk)" "cl i = cs @ (r, off, k) # cs'"
  shows "i < n" "cs = []" "cs' = []" "\<not> sl_isAvailable (ob_slots ob ! i)" "i \<notin> set (ob_completedOps ob)" "marked mk i = None"
    "slot_ok (ob_slots ob ! i) [(r, off, k)] False None"
proof -
  show i: "i < n" using slots_invD(6) [OF assms(1), of i] assms(2) by (cases "i < n") simp_all
  from slots_invD(7) [OF assms(1) i] assms(2)
  have *: "\<not> sl_isAvailable (ob_slots ob ! i) \<and> cs = [] \<and> cs' = [] \<and> i \<notin> set (ob_completedOps ob) \<and> marked mk i = None"
    by (cases cs; cases cs'; cases "tl cs") (auto simp: slot_ok_def split: if_splits list.splits)
  then show "cs = []" "cs' = []" "\<not> sl_isAvailable (ob_slots ob ! i)" "i \<notin> set (ob_completedOps ob)" "marked mk i = None" by blast+
  show "slot_ok (ob_slots ob ! i) [(r, off, k)] False None" using slots_invD(7) [OF assms(1) i] assms(2) * by simp
qed

text \<open>One slot changes: the invariant is to be checked for that slot only.\<close>

lemma slots_inv_update:
  assumes "slots_inv n vs (ob, cl, cur, mk)" "i < n" "length (ob_slots ob') = length (ob_slots ob)" "ob_value_size ob' = ob_value_size ob"
    and "cur' \<le> n" "distinct (ob_completedOps ob')" "\<forall>j \<in> set (ob_completedOps ob'). j < cur'"
    and other: "\<And>j. j \<noteq> i \<Longrightarrow> cl' j = cl j \<and> marked mk' j = marked mk j \<and> (j \<in> set (ob_completedOps ob') \<longleftrightarrow> j \<in> set (ob_completedOps ob))"
      "\<And>j. j < n \<Longrightarrow> j \<noteq> i \<Longrightarrow> ob_slots ob' ! j = ob_slots ob ! j"
    and new: "slot_ok (ob_slots ob' ! i) (cl' i) (i \<in> set (ob_completedOps ob')) (marked mk' i)"
  shows "slots_inv n vs (ob', cl', cur', mk')"
proof -
  note inv = slots_invD [OF assms(1)]
  have "slot_ok (ob_slots ob' ! j) (cl' j) (j \<in> set (ob_completedOps ob')) (marked mk' j)" if "j < n" for j
    using other [of j] new inv(7) [of j] that by (cases "j = i") simp_all
  moreover have "cl' j = [] \<and> marked mk' j = None" if "n \<le> j" for j
    using inv(6) [of j] other(1) [of j] assms(2) that by (cases "j = i") simp_all
  ultimately show ?thesis using assms(3-7) inv(1,2) by (simp add: slots_inv_def)
qed

lemma slot_claim_effect:
  assumes "nextAvailableSlot ob = Inr (i, ob')" "slots_inv n vs (ob, cl, cur, mk)"
  shows "slots_inv n vs (ob', cl(i := (r, off, 0) # cl i), cur, mk)
    \<and> slot_effect vs mem (ob, cl, cur, mk) (Submit (r, off)) (ob', cl(i := (r, off, 0) # cl i), cur, mk)"
proof -
  note i = nextAvailableSlot_cases [OF assms(1)]
  note inv = slots_invD [OF assms(2)]
  have ok: "\<not> sl_server (ob_slots ob ! i)" "cl i = []" "i \<notin> set (ob_completedOps ob)" "marked mk i = None"
    using inv(7) [of i] i inv(1) by (auto simp: slot_ok_def)
  have "slots_inv n vs (ob', cl(i := (r, off, 0) # cl i), cur, mk)"
    by (rule slots_inv_update [OF assms(2), of i]) (use i ok inv(1-5) in \<open>auto simp: slot_ok_def\<close>)
  moreover have "open_slots (ob', cl(i := (r, off, 0) # cl i), cur, mk) = add_mset (r, off) (open_slots (ob, cl, cur, mk))"
    using open_slots_update [of i ob ob' "cl(i := (r, off, 0) # cl i)" cl mk mk cur cur] i ok by (simp add: slot_reads_def)
  ultimately show ?thesis using i by (simp add: slot_effect_def slot_responses_def)
qed

text \<open>Steps that leave the open reads as they are.\<close>

lemma tau_effect:
  assumes "slots_inv n vs (ob', cl', cur', mk')" "length (ob_slots ob') = length (ob_slots ob)" "ob_responses ob' = ob_responses ob"
    and "\<And>j. j < length (ob_slots ob) \<Longrightarrow> slot_reads (ob_slots ob' ! j) (cl' j) (marked mk' j) = slot_reads (ob_slots ob ! j) (cl j) (marked mk j)"
  shows "slots_inv n vs (ob', cl', cur', mk') \<and> slot_effect vs mem (ob, cl, cur, mk) Tau (ob', cl', cur', mk')"
  using assms(1,3) open_slots_same [OF assms(2,4)] by (simp add: slot_effect_def slot_responses_def)

lemma slot_post_effect:
  assumes "cl i = cs @ (r, off, 0) # cs'" "slots_inv n vs (ob, cl, cur, mk)"
  shows "slots_inv n vs (post_slot_read i off ob, cl(i := cs @ (r, off, 1) # cs'), cur, mk)
    \<and> slot_effect vs mem (ob, cl, cur, mk) Tau (post_slot_read i off ob, cl(i := cs @ (r, off, 1) # cs'), cur, mk)"
proof (rule tau_effect)
  note c = claimed [OF assms(2,1)] and inv = slots_invD [OF assms(2)]
  show "slots_inv n vs (post_slot_read i off ob, cl(i := cs @ (r, off, 1) # cs'), cur, mk)"
    by (rule slots_inv_update [OF assms(2) c(1)]) (use c inv(1-5) in \<open>auto simp: post_slot_read_def slot_ok_def\<close>)
qed (use assms claimed [OF assms(2,1)] in \<open>simp_all add: post_slot_read_def slot_reads_def\<close>)

lemma slot_add_effect:
  assumes "cl i = cs @ (r, off, Suc k) # cs'" "k < 4" "slots_inv n vs (ob, cl, cur, mk)"
  shows "slots_inv n vs (with_slot i (add_writes off r ! k) ob, cl(i := cs @ (if k < 3 then [(r, off, Suc (Suc k))] else []) @ cs'), cur, mk)
    \<and> slot_effect vs mem (ob, cl, cur, mk) Tau
        (with_slot i (add_writes off r ! k) ob, cl(i := cs @ (if k < 3 then [(r, off, Suc (Suc k))] else []) @ cs'), cur, mk)"
proof (rule tau_effect)
  note c = claimed [OF assms(3,1)] and inv = slots_invD [OF assms(3)]
  have ok: "slot_ok ((add_writes off r ! k) (ob_slots ob ! i)) (if k < 3 then [(r, off, Suc (Suc k))] else []) False None"
    using less_4_cases [OF assms(2)] c(4,7) by (auto simp: slot_ok_def add_writes_nth)
  show "slots_inv n vs (with_slot i (add_writes off r ! k) ob, cl(i := cs @ (if k < 3 then [(r, off, Suc (Suc k))] else []) @ cs'), cur, mk)"
    by (rule slots_inv_update [OF assms(3) c(1)]) (use c(1-3,5,6) inv(1-5) ok in auto)
  show "slot_reads (ob_slots (with_slot i (add_writes off r ! k) ob) ! j)
      ((cl(i := cs @ (if k < 3 then [(r, off, Suc (Suc k))] else []) @ cs')) j) (marked mk j)
    = slot_reads (ob_slots ob ! j) (cl j) (marked mk j)" if "j < length (ob_slots ob)" for j
    using less_4_cases [OF assms(2)] c(2-4,6,7) assms(1) that by (auto simp: slot_reads_def slot_ok_def add_writes_nth)
qed simp_all

lemma slot_complete_effect:
  assumes "i < length (ob_slots ob)" "sl_token (ob_slots ob ! i) = In_flight off" "slots_inv n vs (ob, cl, cur, mk)"
  shows "slots_inv n vs (with_slot i (\<lambda>sl. sl\<lparr>sl_token := Completed off\<rparr>) ob, cl, cur, mk)
    \<and> slot_effect vs mem (ob, cl, cur, mk) Tau (with_slot i (\<lambda>sl. sl\<lparr>sl_token := Completed off\<rparr>) ob, cl, cur, mk)"
proof (rule tau_effect)
  show "slots_inv n vs (with_slot i (\<lambda>sl. sl\<lparr>sl_token := Completed off\<rparr>) ob, cl, cur, mk)"
    by (rule slots_inv_update [OF assms(3), of i])
      (use assms(1,2) slots_invD(1-5) [OF assms(3)] slots_invD(7) [OF assms(3), of i] in \<open>auto simp: slot_ok_def split: if_splits option.splits list.splits\<close>)
qed (auto simp: slot_reads_def split: list.splits)

lemma slot_collect_effect:
  assumes "cur < length (ob_slots ob)" "nobody_records (ob, cl, cur, None)" "slots_inv n vs (ob, cl, cur, None)"
  shows "slots_inv n vs (collect_slot cur ob, cl, Suc cur, None) \<and> slot_effect vs mem (ob, cl, cur, None) Tau (collect_slot cur ob, cl, Suc cur, None)"
proof (rule tau_effect)
  note inv = slots_invD [OF assms(3)]
  have c: "cur \<notin> set (ob_completedOps ob)" using inv(5) by blast
  have n: "cur < n" using assms(1) inv(1) by simp
  let ?sl = "ob_slots ob ! cur"
  have ok: "slot_ok ?sl (cl cur) True (marked None cur)" if "\<not> sl_isAvailable ?sl" "sl_server ?sl" "checkIfCompleted (sl_token ?sl)"
  proof -
    have "cl cur = []"
      by (rule slot_okE [OF inv(7) [OF n]]) (use inv(7) [OF n] assms(2) that in \<open>auto simp: slot_ok_def nobody_records_def\<close>)
    then show ?thesis using inv(7) [OF n] that by (auto simp: slot_ok_def checkIfCompleted_def)
  qed
  show "slots_inv n vs (collect_slot cur ob, cl, Suc cur, None)"
    by (rule slots_inv_update [OF assms(3), of cur])
      (use assms(1) c ok inv(1-5) inv(7) [of cur] in \<open>auto simp: collect_slot_def Let_def less_Suc_eq\<close>)
qed (simp_all add: collect_slot_def Let_def)

lemma slot_deliver_effect:
  assumes "cur = length (ob_slots ob)" "ob_completedOps ob = i # is" "answer_slot mem i (ob\<lparr>ob_completedOps := is\<rparr>) = Inr ob'"
    and "slots_inv n vs (ob, cl, cur, None)"
  shows "slots_inv n vs (ob', cl, cur, Some (i, 0))
    \<and> slot_effect vs mem (ob, cl, cur, None) (Answer (sl_remoteIndex (ob_slots ob ! i), sl_offset (ob_slots ob ! i))) (ob', cl, cur, Some (i, 0))"
proof -
  note inv = slots_invD [OF assms(4)]
  let ?sl = "ob_slots ob ! i" let ?v = "text_of (take (nat vs) (read_bytes (unat (sl_offset ?sl)) BLKSZ mem))"
  have i: "i < n" "i \<notin> set is" using inv(3,4,5) assms(2) by force+
  have ok: "\<not> sl_isAvailable ?sl" "cl i = []" "sl_token ?sl = Completed (sl_offset ?sl)"
    by (rule_tac [!] slot_okE [OF inv(7) [OF i(1)]]) (use inv(7) [OF i(1)] assms(2) in \<open>auto simp: slot_ok_def split: if_splits option.splits\<close>)
  have ob': "ob' = ob\<lparr>ob_completedOps := is, ob_responses := ob_responses ob @ [(sl_remoteIndex ?sl, ?v)]\<rparr>"
    using assms(3) inv(2) ok(3) by (auto simp: answer_slot_def Let_def token_offset_def view_value_def bindR_Inr_iff split: if_splits)
  have "slots_inv n vs (ob', cl, cur, Some (i, 0))"
    by (rule slots_inv_update [OF assms(4) i(1)]) (use assms(2) i ok inv(1-5) in \<open>auto simp: ob' slot_ok_def\<close>)
  moreover have "open_slots (ob, cl, cur, None) = add_mset (sl_remoteIndex ?sl, sl_offset ?sl) (open_slots (ob', cl, cur, Some (i, 0)))"
    using open_slots_update [of i ob ob' cl cl "Some (i, 0)" None cur cur] i inv(1) ok by (simp add: ob' slot_reads_def)
  ultimately show ?thesis by (simp add: slot_effect_def slot_responses_def ob' slot_response_def)
qed

lemma slot_mark_effect:
  assumes "k < 4" "slots_inv n vs (ob, cl, cur, Some (i, k))"
  shows "slots_inv n vs (with_slot i (mark_writes ! k) ob, cl, cur, if k < 3 then Some (i, Suc k) else None)
    \<and> slot_effect vs mem (ob, cl, cur, Some (i, k)) Tau (with_slot i (mark_writes ! k) ob, cl, cur, if k < 3 then Some (i, Suc k) else None)"
proof (rule tau_effect)
  note inv = slots_invD [OF assms(2)]
  have i: "i < n" using inv(6) [of i] by (cases "i < n") simp_all
  have ok: "\<not> sl_isAvailable (ob_slots ob ! i)" "cl i = []" "i \<notin> set (ob_completedOps ob)" "2 \<le> k \<Longrightarrow> \<not> sl_server (ob_slots ob ! i)"
    by (rule_tac [!] slot_okE [OF inv(7) [OF i]]) (use inv(7) [OF i] in \<open>auto simp: slot_ok_def split: if_splits\<close>)
  have new: "slot_ok ((mark_writes ! k) (ob_slots ob ! i)) [] False (if k < 3 then Some (Suc k) else None)"
    using less_4_cases [OF assms(1)] ok by (auto simp: slot_ok_def mark_writes_nth)
  show "slots_inv n vs (with_slot i (mark_writes ! k) ob, cl, cur, if k < 3 then Some (i, Suc k) else None)"
    by (rule slots_inv_update [OF assms(2) i]) (use ok new inv(1-5) i in auto)
  show "slot_reads (ob_slots (with_slot i (mark_writes ! k) ob) ! j) (cl j) (marked (if k < 3 then Some (i, Suc k) else None) j)
    = slot_reads (ob_slots ob ! j) (cl j) (marked (Some (i, k)) j)" if "j < length (ob_slots ob)" for j
    using less_4_cases [OF assms(1)] ok that by (auto simp: slot_reads_def mark_writes_nth)
qed simp_all

lemma orderly_event_effect:
  assumes "orderly_event mem s e t" "slots_inv n vs s"
  shows "slots_inv n vs t \<and> slot_effect vs mem s e t"
proof -
  have ev: "slot_event mem s e t" using assms(1) by (simp add: orderly_event_def)
  then show ?thesis
  proof (cases rule: slot_event.cases)
    case (slot_claim ob i ob' cl pl r off)
    obtain cur mk where "pl = (cur, mk)" by (cases pl)
    with slot_claim assms(2) show ?thesis using slot_claim_effect by blast
  next
    case (slot_post cl i cs r off cs' ob pl)
    obtain cur mk where "pl = (cur, mk)" by (cases pl)
    with slot_post assms(2) show ?thesis using slot_post_effect by blast
  next
    case (slot_add cl i cs r off k cs' ob pl)
    obtain cur mk where "pl = (cur, mk)" by (cases pl)
    with slot_add assms(2) show ?thesis using slot_add_effect by blast
  next
    case (slot_complete i ob off cl pl)
    obtain cur mk where "pl = (cur, mk)" by (cases pl)
    with slot_complete assms(2) show ?thesis using slot_complete_effect by blast
  next
    case (slot_collect cur ob cl)
    with assms have "nobody_records (ob, cl, cur, None)" by (simp add: orderly_event_def)
    with slot_collect assms(2) show ?thesis using slot_collect_effect by blast
  next
    case (slot_deliver cur ob i "is" ob' cl)
    with assms(2) show ?thesis using slot_deliver_effect by blast
  next
    case (slot_mark k ob cl cur i)
    with assms(2) show ?thesis using slot_mark_effect by blast
  next
    case (slot_round cur ob cl)
    then show ?thesis using assms(2) by (auto simp: slots_inv_def slot_effect_def open_slots_def slot_responses_def)
  qed
qed

interpretation original: async_service "orderly_event mem" "slots_inv n vs" open_slots slot_responses "slot_response vs mem" for mem n vs
  by unfold_locales (use orderly_event_effect [of mem _ _ _ n vs] in \<open>fastforce simp: slot_effect_def\<close>)+

section \<open>The compiled variant is a service\<close>

definition polled :: "(nat \<Rightarrow> nat) \<Rightarrow> circular_buffer \<Rightarrow> async_rdma_op option" where
  "polled pick cb = map_option fst (try_dequeue (\<lambda>q. pick (length q)) (cb_pending_queue cb))"

inductive compiled_event :: "(nat \<Rightarrow> nat) \<Rightarrow> region \<Rightarrow> circular_buffer \<times> 'a server_scheme \<Rightarrow> (int \<times> int \<times> u64) event
    \<Rightarrow> circular_buffer \<times> 'a server_scheme \<Rightarrow> bool" for pick mem where
  compiled_submit: "rdma_reader_async pick offset i p cb = Inr cb' \<Longrightarrow> compiled_event pick mem (cb, s) (Submit (i, p, offset)) (cb', s)"
| compiled_answer: "polled pick cb = Some op \<Longrightarrow> op \<in> completed
    \<Longrightarrow> background_work pick (\<lambda>op. op \<in> completed) mem (cb, s) = Inr (cb', s') \<Longrightarrow> compiled_event pick mem (cb, s) (Answer (requester op)) (cb', s')"
| compiled_poll: "set_option (polled pick cb) \<inter> completed = {}
    \<Longrightarrow> background_work pick (\<lambda>op. op \<in> completed) mem (cb, s) = Inr (cb', s') \<Longrightarrow> compiled_event pick mem (cb, s) Tau (cb', s')"

definition compiled_inv :: "int \<Rightarrow> circular_buffer \<times> 'a server_scheme \<Rightarrow> bool" where
  "compiled_inv vs st \<longleftrightarrow> cb_value_size (fst st) = vs"

definition compiled_open :: "circular_buffer \<times> 'a server_scheme \<Rightarrow> (int \<times> int \<times> u64) multiset" where
  "compiled_open st = image_mset requester (mset (cb_pending_queue (fst st)))"

definition compiled_responses :: "circular_buffer \<times> 'a server_scheme \<Rightarrow> rdma_get_response multiset" where
  "compiled_responses st = mset (rdma_get_response_queue (snd st))"

lemmas compiled_defs = compiled_inv_def compiled_open_def compiled_responses_def

lemma compiled_submit_effect:
  assumes "rdma_reader_async pick offset i p cb = Inr cb'"
  shows "compiled_inv vs (cb', s) = compiled_inv vs (cb, s) \<and> compiled_open (cb', s) = add_mset (i, p, offset) (compiled_open (cb, s))
    \<and> compiled_responses (cb', s) = compiled_responses (cb, s)"
  using rdma_reader_async_returns [OF assms] by (auto simp: compiled_defs requester_def)

lemma compiled_answer_effect:
  assumes "polled pick cb = Some op" "op \<in> completed"
    and "background_work pick (\<lambda>op. op \<in> completed) mem (cb, s) = Inr (cb', s')" "compiled_inv vs (cb, s)"
  shows "compiled_inv vs (cb', s') \<and> compiled_open (cb, s) = add_mset (requester op) (compiled_open (cb', s'))
    \<and> compiled_responses (cb', s') = add_mset (response_for vs mem (requester op)) (compiled_responses (cb, s))"
proof -
  let ?data = "read_bytes (unat (ao_offset op)) BLKSZ mem"
  obtain q where q: "try_dequeue (\<lambda>q. pick (length q)) (cb_pending_queue cb) = Some (op, q)" using assms(1) by (auto simp: polled_def)
  have v: "cb_value_size cb = vs" using assms(4) by (simp add: compiled_inv_def)
  have "cb' = cb\<lparr>cb_pending_queue := q, cb_free_queue := enqueue (op\<lparr>ao_data := ?data\<rparr>) (cb_free_queue cb)\<rparr>
      \<and> s' = append_to_rdma_get_response_queue (ao_remoteIndex op) (ao_remote_port op) OK (text_of (take (nat vs) ?data)) s"
    using assms(2,3) by (simp add: background_work_def q Let_def v view_value_def split: if_splits)
  then show ?thesis
    using try_dequeue_mset [OF q] v
    by (simp add: compiled_defs requester_def response_for_def append_to_rdma_get_response_queue_def)
qed

lemma compiled_poll_effect:
  assumes "set_option (polled pick cb) \<inter> completed = {}" "background_work pick (\<lambda>op. op \<in> completed) mem (cb, s) = Inr (cb', s')"
  shows "compiled_inv vs (cb', s') = compiled_inv vs (cb, s) \<and> compiled_open (cb', s') = compiled_open (cb, s)
    \<and> compiled_responses (cb', s') = compiled_responses (cb, s)"
proof (cases "try_dequeue (\<lambda>q. pick (length q)) (cb_pending_queue cb)")
  case None
  then show ?thesis using assms(2) by (simp add: background_work_def)
next
  case (Some opq)
  obtain op q where opq: "opq = (op, q)" by (cases opq)
  have "op \<notin> completed" using assms(1) by (simp add: polled_def Some opq)
  then have "cb' = cb\<lparr>cb_pending_queue := enqueue op q\<rparr> \<and> s' = s"
    using assms(2) by (simp add: background_work_def Some opq Let_def)
  then show ?thesis using try_dequeue_mset [OF Some [unfolded opq]] by (simp add: compiled_defs)
qed

lemma compiled_event_effect:
  assumes "compiled_event pick mem st e st'" "compiled_inv vs st"
  shows "compiled_inv vs st' \<and> (case e of
        Submit r \<Rightarrow> compiled_open st' = add_mset r (compiled_open st) \<and> compiled_responses st' = compiled_responses st
      | Answer r \<Rightarrow> compiled_open st = add_mset r (compiled_open st') \<and> compiled_responses st' = add_mset (response_for vs mem r) (compiled_responses st)
      | Tau \<Rightarrow> compiled_open st' = compiled_open st \<and> compiled_responses st' = compiled_responses st)"
  using assms(1)
proof (cases rule: compiled_event.cases)
  case (compiled_submit offset i p cb cb' s)
  show ?thesis using compiled_submit_effect [OF compiled_submit(4), of vs s] assms(2) by (simp add: compiled_submit(1-3))
next
  case (compiled_answer cb op completed s cb' s')
  show ?thesis using compiled_answer_effect [OF compiled_answer(4-6)] assms(2) by (simp add: compiled_answer(1-3))
next
  case (compiled_poll cb completed s cb' s')
  show ?thesis using compiled_poll_effect [OF compiled_poll(4,5)] assms(2) by (simp add: compiled_poll(1-3))
qed

interpretation compiled: async_service "compiled_event pick mem" "compiled_inv vs" compiled_open compiled_responses "response_for vs mem"
  for pick mem vs
proof unfold_locales
  fix s t :: "circular_buffer \<times> 'a server_scheme" and e :: "(int \<times> int \<times> u64) event" and r
  note effect = compiled_event_effect [of pick mem s _ t vs]
  show "compiled_event pick mem s e t \<Longrightarrow> compiled_inv vs s \<Longrightarrow> compiled_inv vs t" using effect [of e] by simp
  show "compiled_event pick mem s (Submit r) t \<Longrightarrow> compiled_inv vs s
    \<Longrightarrow> compiled_open t = add_mset r (compiled_open s) \<and> compiled_responses t = compiled_responses s"
    using effect [of "Submit r"] by simp
  show "compiled_event pick mem s (Answer r) t \<Longrightarrow> compiled_inv vs s
    \<Longrightarrow> compiled_open s = add_mset r (compiled_open t) \<and> compiled_responses t = add_mset (response_for vs mem r) (compiled_responses s)"
    using effect [of "Answer r"] by simp
  show "compiled_event pick mem s Tau t \<Longrightarrow> compiled_inv vs s
    \<Longrightarrow> compiled_open t = compiled_open s \<and> compiled_responses t = compiled_responses s"
    using effect [of Tau] by simp
qed

section \<open>Properties\<close>

lemma size_sum_mset: "size (\<Sum>i < n. f i) = (\<Sum>i < n. size (f i))" for n :: nat and f :: "nat \<Rightarrow> 'a multiset"
  by (induction n) simp_all

lemma slot_reads_size: "size (slot_reads sl c m) \<le> 1" "sl_isAvailable sl \<Longrightarrow> slot_reads sl c m = {#}"
  by (simp_all add: slot_reads_def split: list.splits)

lemma open_slots_size:
  "size (open_slots (ob, cl, cur, mk)) \<le> length (ob_slots ob)"
  "size (open_slots (ob, cl, cur, mk)) = length (ob_slots ob) \<Longrightarrow> i < length (ob_slots ob) \<Longrightarrow> \<not> sl_isAvailable (ob_slots ob ! i)"
proof -
  let ?n = "length (ob_slots ob)" let ?f = "\<lambda>i. size (slot_reads (ob_slots ob ! i) (cl i) (marked mk i))"
  have sz: "size (open_slots (ob, cl, cur, mk)) = (\<Sum>i < ?n. ?f i)" by (simp add: open_slots_def size_sum_mset)
  have "(\<Sum>i < ?n. ?f i) \<le> (\<Sum>i < ?n. 1)" by (rule sum_mono) (rule slot_reads_size)
  then show "size (open_slots (ob, cl, cur, mk)) \<le> ?n" by (simp add: sz)
  assume full: "size (open_slots (ob, cl, cur, mk)) = ?n" and i: "i < ?n"
  show "\<not> sl_isAvailable (ob_slots ob ! i)"
  proof
    assume "sl_isAvailable (ob_slots ob ! i)"
    then have "?f i < 1" by (simp add: slot_reads_size)
    then have "(\<Sum>i < ?n. ?f i) < (\<Sum>i < ?n. 1)" using i slot_reads_size(1) by (intro sum_strict_mono_ex1) auto
    then show False using full sz by simp
  qed
qed


lemma sample_claim:
  "slot_event (\<lambda>_. 65) (start_state 1 2) (Submit (3, 7))
    (with_slot 0 (\<lambda>sl. sl\<lparr>sl_isAvailable := False\<rparr>) (make_original_buffer 1 2), (\<lambda>_. [])(0 := [(3, 7, 0)]), 0, None)"
proof -
  have "nextAvailableSlot (make_original_buffer 1 2) = Inr (0, with_slot 0 (\<lambda>sl. sl\<lparr>sl_isAvailable := False\<rparr>) (make_original_buffer 1 2))"
    by (simp add: nextAvailableSlot_def make_original_buffer_def)
  from slot_claim [OF this, of "\<lambda>_. 65" "\<lambda>_. []" "(0, None)" 3 7] show ?thesis by simp
qed


section \<open>The race\<close>

text \<open>
  When the polling thread does look at such a slot, it can answer the wrong machine: a read for machine
  3 whose server is already recorded, but not its machine, is answered to machine 0; and when the
  writes of the server thread come after those of the polling thread, the slot stays taken for ever.
\<close>

lemma event_run_Cons:
  assumes "step s e t" "event_run step t es u" shows "event_run step s (e # es) u"
  using assms(2,1)
proof (induction rule: event_run.induct)
  case (event_run_refl t)
  then show ?case using event_run.event_run_step [of step s "[]" s e t] event_run.event_run_refl by fastforce
next
  case (event_run_step t es t' e' u)
  then show ?case using event_run.event_run_step [of step s "e # es" t' e' u] by simp
qed

definition race_buffer :: "slot_op \<Rightarrow> nat list \<Rightarrow> (int \<times> string) list \<Rightarrow> original_buffer" where
  "race_buffer sl collected rs = \<lparr>ob_slots = [sl], ob_head = 0, ob_value_size = 2, ob_completedOps = collected, ob_responses = rs\<rparr>"

definition race_slot :: "u64 \<Rightarrow> bool \<Rightarrow> int \<Rightarrow> bool \<Rightarrow> token \<Rightarrow> slot_op" where
  "race_slot off srv r avail t = \<lparr>sl_offset = off, sl_server = srv, sl_remoteIndex = r, sl_isAvailable = avail, sl_token = t\<rparr>"

definition race_claim :: "nat \<Rightarrow> claims" where
  "race_claim k = (\<lambda>_. [])(0 := [(3, 7, k)])"

lemma race_with_slot [simp]: "with_slot 0 f (race_buffer sl collected rs) = race_buffer (f sl) collected rs"
  by (simp add: with_slot_def race_buffer_def)

lemma race_complete:
  "slot_event mem (race_buffer (race_slot off srv r avail (In_flight o')) c rs, cl, pl) Tau (race_buffer (race_slot off srv r avail (Completed o')) c rs, cl, pl)"
  using slot_complete [of 0 "race_buffer (race_slot off srv r avail (In_flight o')) c rs" o' mem cl pl]
  by simp (simp add: race_buffer_def race_slot_def)

lemma race_add:
  assumes "k < 4"
  shows "slot_event mem (race_buffer sl c rs, race_claim (Suc k), pl) Tau
    (race_buffer ((add_writes 7 3 ! k) sl) c rs, if k < 3 then race_claim (Suc (Suc k)) else (\<lambda>_. []), pl)"
  using slot_add [of "race_claim (Suc k)" 0 "[]" 3 7 k "[]" mem "race_buffer sl c rs" pl] assms
  by (auto simp: race_claim_def fun_upd_idem)

lemma race_mark:
  "k < 4 \<Longrightarrow> slot_event mem (race_buffer sl c rs, cl, cur, Some (0, k)) Tau
    (race_buffer ((mark_writes ! k) sl) c rs, cl, cur, if k < 3 then Some (0, Suc k) else None)"
  using slot_mark [of k mem "race_buffer sl c rs" cl cur 0] by simp

lemma race_answers_wrong_machine:
  "\<exists>st. event_run (slot_event (\<lambda>_. 65)) (start_state 1 2)
      [Submit (3, 7), Tau, Tau, Tau, Tau, Answer (0, 0), Tau, Tau, Tau, Tau, Tau, Tau, Tau] st
    \<and> ob_responses (fst st) = [(0, ''AA'')] \<and> fst (snd st) = (\<lambda>_. [])
    \<and> nextAvailableSlot (fst st) = Inl (Blocked ''nextAvailableSlot'')"
proof -
  let ?ev = "slot_event (\<lambda>_. 65)" and ?rs = "[(0, ''AA'')]" and ?m = "\<lambda>k. if k < 3 then Some (0::nat, Suc k) else None"
  have s: "start_state 1 2 = (race_buffer (race_slot 0 False 0 True No_read) [] [], \<lambda>_. [], 0, None)"
    by (simp add: make_original_buffer_def race_buffer_def race_slot_def)
  have 1: "?ev (start_state 1 2) (Submit (3, 7)) (race_buffer (race_slot 0 False 0 False No_read) [] [], race_claim 0, 0, None)"
    using sample_claim by (simp add: make_original_buffer_def with_slot_def race_buffer_def race_slot_def race_claim_def)
  have 2: "?ev (race_buffer (race_slot 0 False 0 False No_read) [] [], race_claim 0, 0, None) Tau
      (race_buffer (race_slot 0 False 0 False (In_flight 7)) [] [], race_claim 1, 0, None)"
    using slot_post [of "race_claim 0" 0 "[]" 3 7 "[]" "\<lambda>_. 65" "race_buffer (race_slot 0 False 0 False No_read) [] []" "(0, None)"]
    by (simp add: race_claim_def post_slot_read_def) (simp add: race_slot_def)
  have 3: "?ev (race_buffer (race_slot 0 False 0 False (In_flight 7)) [] [], race_claim 1, 0, None) Tau
      (race_buffer (race_slot 0 True 0 False (In_flight 7)) [] [], race_claim 2, 0, None)"
    using race_add [of 0 "\<lambda>_. 65" "race_slot 0 False 0 False (In_flight 7)" "[]" "[]" "(0, None)"] by (simp add: add_writes_nth race_slot_def numeral_2_eq_2)
  note 4 = race_complete [of "\<lambda>_. 65" 0 True 0 False 7 "[]" "[]" "race_claim 2" "(0, None)"]
  have 5: "?ev (race_buffer (race_slot 0 True 0 False (Completed 7)) [] [], race_claim 2, 0, None) Tau
      (race_buffer (race_slot 0 True 0 False (Completed 7)) [0] [], race_claim 2, 1, None)"
    using slot_collect [of 0 "race_buffer (race_slot 0 True 0 False (Completed 7)) [] []" "\<lambda>_. 65" "race_claim 2"]
    by (simp add: collect_slot_def race_buffer_def race_slot_def checkIfCompleted_def)
  have v: "view_value 2 (read_bytes 7 BLKSZ (\<lambda>_. 65)) = Inr ''AA''"
  proof -
    have "text_of [65, 65] = ''AA''" by code_simp
    then show ?thesis by (simp add: view_value_def read_bytes_def BLKSZ_def)
  qed
  have 6: "?ev (race_buffer (race_slot 0 True 0 False (Completed 7)) [0] [], race_claim 2, 1, None) (Answer (0, 0))
      (race_buffer (race_slot 0 True 0 False (Completed 7)) [] ?rs, race_claim 2, 1, Some (0, 0))"
    using slot_deliver [of 1 "race_buffer (race_slot 0 True 0 False (Completed 7)) [0] []" 0 "[]" "\<lambda>_. 65" _ "race_claim 2"] v
    by (simp add: answer_slot_def race_buffer_def race_slot_def token_offset_def)
  note m = race_mark [where mem = "\<lambda>_. 65" and cl = "race_claim 2" and cur = 1 and c = "[]" and rs = ?rs]
  have m4: "event_run ?ev (race_buffer (race_slot 0 True 0 False (Completed 7)) [] ?rs, race_claim 2, 1, Some (0, 0)) (Tau # Tau # Tau # Tau # es) u"
    if *: "event_run ?ev (race_buffer (race_slot 0 False 0 True (Completed 7)) [] ?rs, race_claim 2, 1, None) es u" for es u
  proof -
    have m0: "?ev (race_buffer (race_slot 0 True 0 False (Completed 7)) [] ?rs, race_claim 2, 1, Some (0, 0)) Tau
        (race_buffer (race_slot 0 True 0 False (Completed 7)) [] ?rs, race_claim 2, 1, Some (0, 1))"
      using m [of 0 "race_slot 0 True 0 False (Completed 7)"] by (simp add: mark_writes_nth race_slot_def)
    have m1: "?ev (race_buffer (race_slot 0 True 0 False (Completed 7)) [] ?rs, race_claim 2, 1, Some (0, 1)) Tau
        (race_buffer (race_slot 0 False 0 False (Completed 7)) [] ?rs, race_claim 2, 1, Some (0, 2))"
      using m [of 1 "race_slot 0 True 0 False (Completed 7)"] by (simp add: mark_writes_nth race_slot_def numeral_2_eq_2)
    have m2: "?ev (race_buffer (race_slot 0 False 0 False (Completed 7)) [] ?rs, race_claim 2, 1, Some (0, 2)) Tau
        (race_buffer (race_slot 0 False 0 False (Completed 7)) [] ?rs, race_claim 2, 1, Some (0, 3))"
      using m [of 2 "race_slot 0 False 0 False (Completed 7)"] by (simp add: mark_writes_nth race_slot_def)
    have m3: "?ev (race_buffer (race_slot 0 False 0 False (Completed 7)) [] ?rs, race_claim 2, 1, Some (0, 3)) Tau
        (race_buffer (race_slot 0 False 0 True (Completed 7)) [] ?rs, race_claim 2, 1, None)"
      using m [of 3 "race_slot 0 False 0 False (Completed 7)"] by (simp add: mark_writes_nth race_slot_def)
    show ?thesis by (rule event_run_Cons [OF m0 event_run_Cons [OF m1 event_run_Cons [OF m2 event_run_Cons [OF m3 *]]]])
  qed
  have a: "event_run ?ev (race_buffer (race_slot 0 False 0 True (Completed 7)) [] ?rs, race_claim 2, 1, None) [Tau, Tau, Tau]
     (race_buffer (race_slot 7 False 3 False (Completed 7)) [] ?rs, \<lambda>_. [], 1, None)"
  proof -
    have a1: "?ev (race_buffer (race_slot 0 False 0 True (Completed 7)) [] ?rs, race_claim 2, 1, None) Tau
        (race_buffer (race_slot 0 False 3 True (Completed 7)) [] ?rs, race_claim 3, 1, None)"
      using race_add [of 1 "\<lambda>_. 65" "race_slot 0 False 0 True (Completed 7)" "[]" ?rs "(1, None)"]
      by (simp add: add_writes_nth race_slot_def eval_nat_numeral)
    have a2: "?ev (race_buffer (race_slot 0 False 3 True (Completed 7)) [] ?rs, race_claim 3, 1, None) Tau
        (race_buffer (race_slot 7 False 3 True (Completed 7)) [] ?rs, race_claim 4, 1, None)"
      using race_add [of 2 "\<lambda>_. 65" "race_slot 0 False 3 True (Completed 7)" "[]" ?rs "(1, None)"]
      by (simp add: add_writes_nth race_slot_def)
    have a3: "?ev (race_buffer (race_slot 7 False 3 True (Completed 7)) [] ?rs, race_claim 4, 1, None) Tau
        (race_buffer (race_slot 7 False 3 False (Completed 7)) [] ?rs, \<lambda>_. [], 1, None)"
      using race_add [of 3 "\<lambda>_. 65" "race_slot 7 False 3 True (Completed 7)" "[]" ?rs "(1, None)"]
      by (simp add: add_writes_nth race_slot_def)
    show ?thesis by (rule event_run_Cons [OF a1 event_run_Cons [OF a2 event_run_Cons [OF a3 event_run.event_run_refl [of ?ev]]]])
  qed
  have "event_run ?ev (start_state 1 2) [Submit (3, 7), Tau, Tau, Tau, Tau, Answer (0, 0), Tau, Tau, Tau, Tau, Tau, Tau, Tau]
     (race_buffer (race_slot 7 False 3 False (Completed 7)) [] ?rs, \<lambda>_. [], 1, None)"
    by (rule event_run_Cons [OF 1 event_run_Cons [OF 2 event_run_Cons [OF 3 event_run_Cons [OF 4 event_run_Cons [OF 5 event_run_Cons [OF 6 m4 [OF a]]]]]]])
  moreover have "nextAvailableSlot (race_buffer (race_slot 7 False 3 False (Completed 7)) [] ?rs) = Inl (Blocked ''nextAvailableSlot'')"
    by (simp add: nextAvailableSlot_def race_buffer_def race_slot_def)
  ultimately show ?thesis by (intro exI conjI) (assumption, simp_all add: race_buffer_def)
qed

end
