(* ===== verification/Program.thy ===== *)
theory Program
  imports Startup Kv_Types
begin

text \<open>
  The program as a whole: \<open>main\<close> of \<open>src/src/ldc.cpp\<close> from the command line to the metrics, on top
  of the parts in \<open>Startup\<close>.

  The flags are a record; \<open>FLAGS_machine_index\<close> is narrowed to \<open>int\<close> once, here. The contents of the
  two configuration files, the cache, the network and the output of machnet belong to the
  environment \<open>program_env\<close>. A run ends, as far as \<open>main\<close> goes, with the threads it has started;
  what they do is modelled in \<open>Client_Worker\<close> and \<open>Server_Worker\<close>. The signal handler, log messages
  and the detached monitor threads, whose rounds are in \<open>Startup\<close>, are left out.
\<close>

section \<open>Waiting for machnet\<close>

text \<open>The text of a command that is run without its output.\<close>

definition exec_command :: "string \<Rightarrow> string" where
  "exec_command command = command @ '' > /dev/null 2>&1''"

text \<open>\<open>fgets\<close> reads up to \<open>n\<close> characters, up to and including the end of the line.\<close>

fun fgets :: "nat \<Rightarrow> string \<Rightarrow> string \<times> string" where
  "fgets 0 s = ([], s)"
| "fgets (Suc n) [] = ([], [])"
| "fgets (Suc n) (c # s) = (if c = newline then ([c], s) else let (t, r) = fgets n s in (c # t, r))"

fun find_text :: "string \<Rightarrow> string \<Rightarrow> bool" where
  "find_text t [] = (t = [])"
| "find_text t (c # s) = (take (length t) (c # s) = t \<or> find_text t s)"

definition engine_status :: string where "engine_status = ''Machnet Engine Status''"

text \<open>
  The buffer keeps what earlier reads left behind the end of a piece, and the search looks at the
  whole buffer.
\<close>

definition fill_buffer :: "string \<Rightarrow> string \<Rightarrow> string" where
  "fill_buffer buffer piece = piece @ CHR 0x00 # drop (Suc (length piece)) buffer"

lemma fgets_parts: "fgets n s = (t, r) \<Longrightarrow> t @ r = s"
  by (induction n s arbitrary: t r rule: fgets.induct) (auto split: prod.splits if_splits)

lemma fgets_nonempty: "fgets n s = (t, r) \<Longrightarrow> 0 < n \<Longrightarrow> s \<noteq> [] \<Longrightarrow> t \<noteq> []"
  by (induction n s rule: fgets.induct) (auto split: prod.splits if_splits)

lemma fgets_shorter: "fgets n s = (t, r) \<Longrightarrow> 0 < n \<Longrightarrow> s \<noteq> [] \<Longrightarrow> length r < length s"
  using fgets_parts [of n s t r] fgets_nonempty [of n s t r] by (cases t) auto

function watch_machnet :: "string \<Rightarrow> string \<Rightarrow> bool \<Rightarrow> bool" where
  "watch_machnet buffer out ready =
     (if out = [] then ready
      else let (piece, rest) = fgets 127 out; buffer = fill_buffer buffer piece in
           watch_machnet buffer rest (ready \<or> find_text engine_status buffer))"
  by pat_completeness auto
termination
  by (relation "measure (\<lambda>(_, out, _). length out)") (auto dest!: fgets_shorter [OF sym])

declare watch_machnet.simps [simp del]

text \<open>What \<open>main\<close> sees of it: the thread that reads may throw, and without the status the wait never ends.\<close>

definition wait_for_machnet :: "string \<Rightarrow> string option \<Rightarrow> unit res" where
  "wait_for_machnet buffer machnet =
     (case machnet of
        None \<Rightarrow> Inl (Throw ''popen() failed!'')
      | Some out \<Rightarrow> if watch_machnet buffer out False then Inr () else Inl (Blocked ''machnet_sync''))"

section \<open>The environment\<close>

record flags =
  fl_config :: string
  fl_dataset_config :: string
  fl_machine_index :: int
  fl_threads :: nat
  fl_clients_per_threads :: nat
  fl_cache_dump_path :: string
  fl_cache_metrics_path :: string
  fl_dump_operations :: bool

record block_cache_config =
  cfg_machines :: "remote_machine list"
  cfg_policy_type :: string
  cfg_one_sided :: bool
  cfg_cache_indexing :: bool
  cfg_db_async :: bool
  cfg_settings :: cache_settings

record ('b, 'e, 'd, 'c) program_env =
  pe_env :: env
  pe_parse_json :: "string \<Rightarrow> json_doc res"
  pe_get_config :: "string \<Rightarrow> block_cache_config res"
  pe_cache :: "'b block_cache_api"
  pe_db_put :: "string \<Rightarrow> string \<Rightarrow> 'b \<Rightarrow> 'b"
  pe_put_events :: "string \<Rightarrow> string \<Rightarrow> 'b \<Rightarrow> 'e cache_event list"
  pe_new_cache :: 'b
  pe_kv_params :: "('e, 'd, 'c) kv_params"
  pe_cache_index_buffer :: "'e list"
  pe_allocate_cache_index :: "nat \<Rightarrow> 'e list"
  pe_data_address :: "nat \<Rightarrow> nat"
  pe_key_value_buffer :: nat
  pe_key_value_buffer_size :: u64
  pe_find_nic :: "string \<Rightarrow> string option"
  pe_fresh :: "nat \<Rightarrow> byte list"
  pe_incoming :: nat
  pe_memory :: "u64 \<Rightarrow> region"
  pe_table_order :: "u64 list \<Rightarrow> u64 list"
  pe_stack :: string
  pe_machnet_output :: "string option"
  pe_machnet_init :: int
  pe_network :: network

section \<open>Starting the threads\<close>

text \<open>\<open>std::begin(rdma_nodes)->second\<close>: the first node in the order of the hash table.\<close>

definition table_begin :: "(u64 list \<Rightarrow> u64 list) \<Rightarrow> remote_machine list \<Rightarrow> rdma_nodes \<Rightarrow> u64 res" where
  "table_begin order machines nodes =
     (case order (filter (\<lambda>i. \<not> Option.is_none (nodes i)) (remdups (map (\<lambda>r. of_nat (rm_index r)) machines))) of
        [] \<Rightarrow> Inl (Undefined ''begin of an empty table'')
      | i # _ \<Rightarrow> Inr i)"

text \<open>The nodes whose key-value cache the worker threads serve; the node is taken in any case.\<close>

definition key_value_workers :: "(u64 list \<Rightarrow> u64 list) \<Rightarrow> block_cache_config \<Rightarrow> rdma_nodes \<Rightarrow> u64 list res" where
  "key_value_workers order config nodes =
     mapR (\<lambda>node. if cfg_one_sided config \<and> cfg_cache_indexing config then replicate 4 node else [])
       (table_begin order (cfg_machines config) nodes)"

definition server_threads :: "nat \<Rightarrow> 's list \<Rightarrow> ('s \<times> nat) list res" where
  "server_threads threads made = mapMR (\<lambda>i. mapR (\<lambda>s. (s, i)) (vec_at made i)) [0..<threads]"

record ('b, 'e, 'd, 'c) server_run =
  sr_limits :: "u64 \<times> u64"
  sr_snapshot :: Snapshot
  sr_cache :: 'b
  sr_nodes :: rdma_nodes
  sr_key_value_cache :: "('e, 'd, 'c) kv_cache option"
  sr_ops :: "operation list"
  sr_threads :: "((nat \<times> server) \<times> nat) list"
  sr_workers :: "u64 list"

record client_run =
  cr_ops :: "operation list"
  cr_ops_executed :: "u64 list"
  cr_threads :: "((nat \<times> connection) \<times> nat \<times> nat) list"

definition startup_of :: "('b, 'e, 'd, 'c) program_env \<Rightarrow> configuration \<Rightarrow> block_cache_config \<Rightarrow> ('b, 'e, 'd, 'c) startup_params" where
  "startup_of E ops_config config =
     \<lparr>sp_cache = pe_cache E, sp_db_put = pe_db_put E, sp_config = ops_config, sp_machines = cfg_machines config,
      sp_policy_type = cfg_policy_type config, sp_one_sided = cfg_one_sided config, sp_cache_indexing = cfg_cache_indexing config,
      sp_kv_params = pe_kv_params E, sp_put_events = pe_put_events E\<rparr>"

text \<open>Both kinds of machine wait for machnet and load the operations.\<close>

definition connect_machnet :: "('b, 'e, 'd, 'c) program_env \<Rightarrow> configuration \<Rightarrow> files \<Rightarrow> operation list res" where
  "connect_machnet E ops_config fs =
     bindR (wait_for_machnet (pe_stack E) (pe_machnet_output E)) (\<lambda>_.
     bindR (guardR (pe_machnet_init E = 0) (Exit (-1))) (\<lambda>_.
     Inr (loadOperationSetFromFile fs (OP_FILE ops_config))))"

text \<open>The constructor of the key-value cache, whose index counts the servers only.\<close>

definition start_key_value_cache ::
    "('b, 'e, 'd, 'c) program_env \<Rightarrow> configuration \<Rightarrow> block_cache_config \<Rightarrow> int \<Rightarrow> ('e, 'd, 'c) kv_cache res" where
  "start_key_value_cache E ops_config config mi =
     make_RDMAKeyValueCache (pe_kv_params E) (pe_cache_index_buffer E) (pe_allocate_cache_index E) (pe_data_address E)
       (pe_key_value_buffer E) (pe_key_value_buffer_size E) (cfg_machines config) ops_config
       (nat (mi - int (first_server (cfg_machines config))))"

definition run_server ::
    "('b, 'e, 'd, 'c) program_env \<Rightarrow> configuration \<Rightarrow> block_cache_config \<Rightarrow> int \<Rightarrow> nat \<Rightarrow> files \<Rightarrow> ('b, 'e, 'd, 'c) server_run res" where
  "run_server E ops_config config mi threads fs =
     bindR (make_Snapshot ops_config) (\<lambda>sn.
     bindR (start_server (startup_of E ops_config config) (pe_find_nic E) (cfg_settings config) (pe_fresh E) (pe_incoming E)
              (pe_memory E) mi fs (pe_new_cache E) sn (start_key_value_cache E ops_config config mi))
       (\<lambda>(limits, block_cache, rdma_nodes, kv, sn).
     bindR (connect_machnet E ops_config fs) (\<lambda>ops.
     bindR (make_servers (pe_network E) (cfg_db_async config) (cfg_machines config) mi threads) (\<lambda>made.
     bindR (key_value_workers (pe_table_order E) config rdma_nodes) (\<lambda>workers.
     bindR (server_threads threads (allocated made)) (\<lambda>started.
     Inr \<lparr>sr_limits = limits, sr_snapshot = sn, sr_cache = block_cache, sr_nodes = rdma_nodes, sr_key_value_cache = kv, sr_ops = ops,
          sr_threads = started, sr_workers = workers\<rparr>))))))"

definition run_client ::
    "('b, 'e, 'd, 'c) program_env \<Rightarrow> configuration \<Rightarrow> block_cache_config \<Rightarrow> int \<Rightarrow> nat \<Rightarrow> nat \<Rightarrow> files \<Rightarrow> client_run res" where
  "run_client E ops_config config mi threads clients_per_threads fs =
     bindR (connect_machnet E ops_config fs) (\<lambda>ops.
     bindR (make_clients (pe_network E) (cfg_machines config) mi threads clients_per_threads) (\<lambda>clients.
     bindR (client_threads threads clients_per_threads (allocated clients)) (\<lambda>started.
     Inr \<lparr>cr_ops = ops, cr_ops_executed = replicate (threads * clients_per_threads) 0, cr_threads = started\<rparr>)))"

datatype ('b, 'e, 'd, 'c) outcome = Dumped files | Server_run "('b, 'e, 'd, 'c) server_run" | Client_run client_run

definition narrow_int :: "int \<Rightarrow> int" where
  "narrow_int v = int_of_u64 (of_int v)"

definition ldc_main :: "('b, 'e, 'd, 'c) program_env \<Rightarrow> flags \<Rightarrow> files \<Rightarrow> ('b, 'e, 'd, 'c) outcome res" where
  "ldc_main E flags fs =
     bindR (parseConfigFile (pe_parse_json E) (fs (fl_dataset_config flags))) (\<lambda>ops_config.
     case fs (fl_config flags) of
       None \<Rightarrow> Inl (Panic ''Initializing config does not exist'')
     | Some out \<Rightarrow>
         bindR (pe_get_config E out) (\<lambda>config.
         let mi = narrow_int (fl_machine_index flags) in
         bindR (vec_at_int (cfg_machines config) mi) (\<lambda>machine_config.
         if fl_dump_operations flags
         then mapR (\<lambda>(code, fs). Dumped fs) (generateDatabaseAndOperationSet (pe_env E) ops_config fs)
         else if rm_server machine_config
         then mapR Server_run (run_server E ops_config config mi (fl_threads flags) fs)
         else mapR Client_run (run_client E ops_config config mi (fl_threads flags) (fl_clients_per_threads flags) fs))))"

section \<open>The metrics\<close>

text \<open>
  What is written when all threads have ended: what the cache reports, the statistics of each server
  and the counters. \<open>dump\<close> is the text that the JSON library makes of it.
\<close>

record 'j metrics =
  mt_cache_info :: 'j
  mt_server_stats :: "(u64 \<times> u64) list"
  mt_local_disk_access :: u64
  mt_remote_disk_access :: u64
  mt_total_reads :: u64

definition collect_metrics :: "'j \<Rightarrow> nat \<Rightarrow> 'a server_scheme list \<Rightarrow> u64 \<Rightarrow> u64 \<Rightarrow> u64 \<Rightarrow> 'j metrics res" where
  "collect_metrics cache_info threads made local_disk remote_disk total_ops =
     mapR (\<lambda>stats. \<lparr>mt_cache_info = cache_info, mt_server_stats = stats, mt_local_disk_access = local_disk,
         mt_remote_disk_access = remote_disk, mt_total_reads = total_ops\<rparr>)
       (mapMR (\<lambda>i. mapR get_stats (vec_at made i)) [0..<threads])"

definition write_metrics ::
    "(string \<Rightarrow> bool) \<Rightarrow> ('j metrics \<Rightarrow> string) \<Rightarrow> flags \<Rightarrow> string \<Rightarrow> 'j \<Rightarrow> 'a server_scheme list \<Rightarrow> u64 \<Rightarrow> u64 \<Rightarrow> u64 \<Rightarrow> files \<Rightarrow> files res" where
  "write_metrics opens dump flags cache_dump cache_info made local_disk remote_disk total_ops fs =
     (let fs = (if opens (fl_cache_dump_path flags) then fs(fl_cache_dump_path flags \<mapsto> cache_dump) else fs) in
      bindR (collect_metrics cache_info (fl_threads flags) made local_disk remote_disk total_ops) (\<lambda>j.
      if \<not> opens (fl_cache_metrics_path flags) then Inl (Panic ''Unable to open file'')
      else Inr (fs(fl_cache_metrics_path flags \<mapsto> dump j))))"

section \<open>When machnet is ready\<close>

text \<open>The pieces in which the output is read.\<close>

function pieces :: "string \<Rightarrow> string list" where
  "pieces out = (if out = [] then [] else let (piece, rest) = fgets 127 out in piece # pieces rest)"
  by pat_completeness auto
termination
  by (relation "measure length") (auto dest!: fgets_shorter [OF sym])

declare pieces.simps [simp del]

lemma find_text_append_nul:
  assumes "CHR 0x00 \<notin> set t" "t \<noteq> []"
  shows "find_text t (a @ CHR 0x00 # b) \<longleftrightarrow> find_text t a \<or> find_text t b"
proof (induction a)
  case Nil
  have "take (length t) (CHR 0x00 # b) \<noteq> t" using assms by (cases t) auto
  then show ?case using assms(2) by simp
next
  case (Cons c a)
  have "take (length t) (c # a @ CHR 0x00 # b) = t \<longleftrightarrow> take (length t) (c # a) = t"
  proof (cases "length t \<le> length (c # a)")
    case True
    then show ?thesis by (cases "length t") simp_all
  next
    case False
    then have "CHR 0x00 \<in> set (take (length t) ((c # a) @ CHR 0x00 # b))" by (auto simp: take_append take_Cons')
    then have "take (length t) (c # a @ CHR 0x00 # b) \<noteq> t" using assms(1) by auto
    moreover have "take (length t) (c # a) \<noteq> t" using False by (metis le_refl length_take min.cobounded1 min_def)
    ultimately show ?thesis by simp
  qed
  then show ?case using Cons by auto
qed

lemma find_text_drop: "t \<noteq> [] \<Longrightarrow> find_text t (drop n s) \<Longrightarrow> find_text t s"
proof (induction s arbitrary: n)
  case (Cons c s)
  then show ?case by (cases n) auto
qed simp

lemma engine_status_text: "CHR 0x00 \<notin> set engine_status" "engine_status \<noteq> []"
  by (simp_all add: engine_status_def)

lemma find_in_buffer:
  "\<not> find_text engine_status buffer \<Longrightarrow> find_text engine_status (fill_buffer buffer piece) = find_text engine_status piece"
  unfolding fill_buffer_def find_text_append_nul [OF engine_status_text]
  using find_text_drop [OF engine_status_text(2)] by blast

lemma watch_machnet_ready: "watch_machnet buffer out True"
proof (induction "length out" arbitrary: buffer out rule: less_induct)
  case less
  obtain p r where "fgets 127 out = (p, r)" by fastforce
  then show ?case using less fgets_shorter [of 127 out p r] by (simp add: watch_machnet.simps [of _ out])
qed

lemma watch_machnet_pieces:
  assumes "\<not> find_text engine_status buffer"
  shows "watch_machnet buffer out False \<longleftrightarrow> (\<exists>p \<in> set (pieces out). find_text engine_status p)"
  using assms
proof (induction "length out" arbitrary: buffer out rule: less_induct)
  case less
  obtain p r where f: "fgets 127 out = (p, r)" by fastforce
  show ?case
  proof (cases "out = []")
    case True
    then show ?thesis by (simp add: watch_machnet.simps pieces.simps)
  next
    case False
    then have "length r < length out" using fgets_shorter f by simp
    note IH = less.hyps [OF this, of "fill_buffer buffer p"]
    show ?thesis
    proof (cases "find_text engine_status p")
      case True
      then show ?thesis using f False find_in_buffer [OF less.prems, of p]
        by (simp add: watch_machnet.simps [of _ out] pieces.simps [of out] watch_machnet_ready)
    next
      case nf: False
      then show ?thesis using f False find_in_buffer [OF less.prems, of p] IH
        by (simp add: watch_machnet.simps [of _ out] pieces.simps [of out])
    qed
  qed
qed

lemma fgets_line: "newline \<notin> set l \<Longrightarrow> length l < n \<Longrightarrow> fgets n (l @ newline # s) = (l @ [newline], s)"
proof (induction l arbitrary: n)
  case Nil
  then show ?case by (cases n) simp_all
next
  case (Cons c l)
  then show ?case by (cases n) auto
qed

lemma pieces_lines:
  "\<forall>l \<in> set ls. newline \<notin> set l \<and> length l < 127 \<Longrightarrow> pieces (concat (map (\<lambda>l. l @ [newline]) ls)) = map (\<lambda>l. l @ [newline]) ls"
  by (induction ls) (simp_all add: pieces.simps [of "_ @ _"] pieces.simps [of "[]"] fgets_line)

lemma find_text_newline: "find_text engine_status (l @ [newline]) \<longleftrightarrow> find_text engine_status l"
proof (induction l)
  case (Cons c l)
  have "take (length engine_status) ((c # l) @ [newline]) = engine_status \<longleftrightarrow> take (length engine_status) (c # l) = engine_status"
  proof (cases "length engine_status \<le> length (c # l)")
    case False
    then have "take (length engine_status) ((c # l) @ [newline]) = (c # l) @ [newline]" by simp
    moreover have "newline \<in> set ((c # l) @ [newline])" "newline \<notin> set engine_status" by (simp_all add: engine_status_def)
    ultimately have "take (length engine_status) ((c # l) @ [newline]) \<noteq> engine_status" by metis
    moreover have "take (length engine_status) (c # l) \<noteq> engine_status"
    proof -
      have "length (take (length engine_status) (c # l)) < length engine_status" using False by simp
      then show ?thesis by (metis less_irrefl)
    qed
    ultimately show ?thesis by simp
  next
    case True
    then have "length engine_status - length (c # l) = 0" by simp
    then show ?thesis by (simp only: take_append take_0 append_Nil2)
  qed
  then show ?case using Cons by simp
qed (simp add: engine_status_def)

text \<open>
  Property C17: for output in lines of at most 126 characters, whatever the buffer of the reader held
  short of the status itself, the wait ends exactly if some line contains the status of the
  engine; longer lines are cut, and a status that lies across the cut is not seen.
\<close>

theorem machnet_ready_iff_status_line:
  assumes "\<not> find_text engine_status buffer" "\<forall>l \<in> set ls. newline \<notin> set l \<and> length l < 127"
  shows "wait_for_machnet buffer (Some (concat (map (\<lambda>l. l @ [newline]) ls)))
      = (if \<exists>l \<in> set ls. find_text engine_status l then Inr () else Inl (Blocked ''machnet_sync''))
    \<and> wait_for_machnet buffer (Some (replicate 120 CHR ''='' @ engine_status @ [newline])) = Inl (Blocked ''machnet_sync'')"
proof
  show "wait_for_machnet buffer (Some (concat (map (\<lambda>l. l @ [newline]) ls)))
      = (if \<exists>l \<in> set ls. find_text engine_status l then Inr () else Inl (Blocked ''machnet_sync''))"
    by (simp add: wait_for_machnet_def watch_machnet_pieces [OF assms(1)] pieces_lines [OF assms(2)] find_text_newline)
  have "\<not> list_ex (find_text engine_status) (pieces (replicate 120 CHR ''='' @ engine_status @ [newline]))" by code_simp
  then show "wait_for_machnet buffer (Some (replicate 120 CHR ''='' @ engine_status @ [newline])) = Inl (Blocked ''machnet_sync'')"
    by (simp add: wait_for_machnet_def watch_machnet_pieces [OF assms(1)] list_ex_iff)
qed

theorem machnet_ready_iff_status_line_witness:
  "wait_for_machnet (replicate 128 CHR 0x00) (Some (''starting'' @ newline # ''| Machnet Engine Status |'' @ [newline])) = Inr ()"
proof -
  have "\<not> find_text engine_status (replicate 128 CHR 0x00)" "find_text engine_status ''| Machnet Engine Status |''" by code_simp+
  then show ?thesis
    using machnet_ready_iff_status_line [of "replicate 128 CHR 0x00" "[''starting'', ''| Machnet Engine Status |'']"] by simp
qed

section \<open>The threads of a run\<close>

text \<open>
  Property C16: a client machine that gets through its start runs one thread for each pair of a thread
  number and a number of a client in it, in order. The thread (i, j) works on the connection made
  at place i * clients_per_threads + j of the vector, so that each connection has exactly one
  thread and each thread one of its own, and that connection was made for the thread number i. The
  counters of operations start at zero, one for each thread, and all threads replay the
  operations of the configured file.
\<close>

theorem client_run_threads:
  assumes "ldc_main E flags fs = Inr (Client_run cr)"
  shows "\<exists>ops_config config clients. parseConfigFile (pe_parse_json E) (fs (fl_dataset_config flags)) = Inr ops_config
    \<and> pe_get_config E (the (fs (fl_config flags))) = Inr config
    \<and> make_clients (pe_network E) (cfg_machines config) (narrow_int (fl_machine_index flags))
        (fl_threads flags) (fl_clients_per_threads flags) = Inr clients
    \<and> map (fst \<circ> fst) (cr_threads cr) = [0..<fl_threads flags * fl_clients_per_threads flags]
    \<and> map (snd \<circ> fst) (cr_threads cr) = clients
    \<and> map snd (cr_threads cr) = List.product [0..<fl_threads flags] [0..<fl_clients_per_threads flags]
    \<and> (\<forall>((x, c), i, j) \<in> set (cr_threads cr). x = i * fl_clients_per_threads flags + j \<and> thread_index c = int i)
    \<and> cr_ops_executed cr = map (\<lambda>_. 0) (cr_threads cr)
    \<and> cr_ops cr = loadOperationSetFromFile fs (OP_FILE ops_config)"
proof -
  let ?t = "fl_threads flags" let ?cpt = "fl_clients_per_threads flags" let ?mi = "narrow_int (fl_machine_index flags)"
  from assms obtain ops_config config where p: "parseConfigFile (pe_parse_json E) (fs (fl_dataset_config flags)) = Inr ops_config"
      "pe_get_config E (the (fs (fl_config flags))) = Inr config"
    and r: "run_client E ops_config config ?mi ?t ?cpt fs = Inr cr"
    by (auto simp: ldc_main_def bindR_Inr_iff mapR_Inr_iff Let_def split: option.splits if_splits)
  from r obtain clients started where
    cl: "make_clients (pe_network E) (cfg_machines config) ?mi ?t ?cpt = Inr clients"
      "client_threads ?t ?cpt (allocated clients) = Inr started"
    and cr: "cr = \<lparr>cr_ops = loadOperationSetFromFile fs (OP_FILE ops_config), cr_ops_executed = replicate (?t * ?cpt) 0, cr_threads = started\<rparr>"
    by (auto simp: run_client_def connect_machnet_def bindR_Inr_iff)
  note m = make_clients_match [OF cl(1)]
  have l: "length (allocated clients) = ?t * ?cpt" by (simp add: allocated_def m)
  have st: "started = zip (allocated clients) (List.product [0..<?t] [0..<?cpt])" using cl(2) client_threads_all [OF l] by simp
  have at: "x = i * ?cpt + j \<and> thread_index c = int i" if in_st: "((x, c), i, j) \<in> set started" for x c i j
  proof -
    from in_st obtain y where y: "y < ?t * ?cpt" "allocated clients ! y = (x, c)" "List.product [0..<?t] [0..<?cpt] ! y = (i, j)"
      unfolding st set_zip using l by auto
    then have "x = y" "c = clients ! y" using m(1) by (auto simp: allocated_def)
    moreover have "i = y div ?cpt" "j = y mod ?cpt" using y(3) product_at(3) [OF y(1)] by simp_all
    ultimately show ?thesis using m(2) [OF y(1)] by simp
  qed
  have "map fst started = allocated clients" "map snd started = List.product [0..<?t] [0..<?cpt]" unfolding st using l by simp_all
  moreover have "map (fst \<circ> fst) started = map fst (map fst started)" "map (snd \<circ> fst) started = map snd (map fst started)" by simp_all
  moreover have "length started = ?t * ?cpt" unfolding st using l by simp
  ultimately show ?thesis using p cl(1) at unfolding cr
    by (intro exI [of _ ops_config] exI [of _ config] exI [of _ clients]) (auto simp: allocated_def m(1) map_replicate_const)
qed

text \<open>
  A server machine without one-sided access prepares everything, loading, network and servers, and
  then takes the first node of the table of nodes, which is empty: it uses no remote memory, but
  whatever else succeeds its start is undefined.
\<close>

lemma server_run_needs_nodes:
  assumes "\<not> cfg_one_sided config" "\<And>xs. mset (pe_table_order E xs) = mset xs"
  shows "run_server E ops_config config mi threads fs =
    bindR (make_Snapshot ops_config) (\<lambda>sn.
    bindR (preload (startup_of E ops_config config) mi fs (pe_new_cache E) sn (Inr Map.empty) (start_key_value_cache E ops_config config mi)) (\<lambda>_.
    bindR (connect_machnet E ops_config fs) (\<lambda>_.
    bindR (make_servers (pe_network E) (cfg_db_async config) (cfg_machines config) mi threads) (\<lambda>_.
    Inl (Undefined ''begin of an empty table'')))))"
proof -
  have nil: "pe_table_order E [] = []" using assms(2) [of "[]"] by simp
  have n: "sp_one_sided (startup_of E ops_config config) = False" using assms(1) by (simp add: startup_of_def)
  let ?pre = "\<lambda>sn a. preload (startup_of E ops_config config) mi fs (pe_new_cache E) sn a (start_key_value_cache E ops_config config mi)"
  have same: "?pre sn a = ?pre sn (Inr Map.empty)" for sn a by (simp add: preload_def Let_def n cong: if_cong)
  have empty: "nodes = Map.empty" if "?pre sn a = Inr (l, c, nodes, kv, sn')" for sn a l c nodes kv sn'
    using that by (auto simp: preload_def n bindR_Inr_iff Let_def split: if_splits)
  have "table_begin (pe_table_order E) (cfg_machines config) Map.empty = Inl (Undefined ''begin of an empty table'')"
    by (simp add: table_begin_def nil)
  then have kv: "key_value_workers (pe_table_order E) config Map.empty = Inl (Undefined ''begin of an empty table'')"
    by (simp add: key_value_workers_def)
  have step: "bindR (?pre sn (Inr Map.empty)) f = bindR (?pre sn (Inr Map.empty)) g"
    if "\<And>l c kv sn'. f (l, c, Map.empty, kv, sn') = g (l, c, Map.empty, kv, sn')" for sn f g
    using empty [of sn "Inr Map.empty"] that by (cases "?pre sn (Inr Map.empty)") auto
  show ?thesis
    unfolding run_server_def start_server_def same [of _ "mapR _ _"]
    by (rule arg_cong [of _ _ "bindR (make_Snapshot ops_config)"], rule ext, rule step) (simp add: kv)
qed

definition sample_program :: "(unit, u64, u64, unit) program_env" where
  "sample_program = \<lparr>pe_env = sample_env, pe_parse_json = (\<lambda>_. Inl (Throw ''parse_error'')), pe_get_config = (\<lambda>_. Inl (Throw ''parse_error'')),
     pe_cache = sp_cache sample_startup, pe_db_put = sp_db_put sample_startup, pe_put_events = (\<lambda>_ _ _. []),
     pe_new_cache = (), pe_kv_params = sample_params, pe_cache_index_buffer = [], pe_allocate_cache_index = (\<lambda>_. []), pe_data_address = id,
     pe_key_value_buffer = 0, pe_key_value_buffer_size = 64, pe_find_nic = (\<lambda>_. None),
     pe_fresh = (\<lambda>_. []), pe_incoming = 0, pe_memory = (\<lambda>_ _. 0), pe_table_order = rev, pe_stack = [],
     pe_machnet_output = Some (engine_status @ [newline]), pe_machnet_init = 0, pe_network = sample_net\<rparr>"

definition plain_server :: block_cache_config where
  "plain_server = \<lparr>cfg_machines = [\<lparr>rm_index = 0, rm_ip = ''a'', rm_port = 1, rm_server = True\<rparr>], cfg_policy_type = ''lru'', cfg_one_sided = False, cfg_cache_indexing = False,
     cfg_db_async = True, cfg_settings = \<lparr>baseline_selected = ''lru'', configured_cache_size = (\<lambda>_. 1), block_size = 4096\<rparr>\<rparr>"

lemma plain_server_undefined:
  "run_server sample_program sample_config plain_server 0 1 [''dataset.txt'' \<mapsto> ''1 A''] = Inl (Undefined ''begin of an empty table'')"
proof -
  have eq: "run_server sample_program sample_config plain_server 0 1 [''dataset.txt'' \<mapsto> ''1 A''] =
    bindR (make_Snapshot sample_config) (\<lambda>sn.
    bindR (preload (startup_of sample_program sample_config plain_server) 0 [''dataset.txt'' \<mapsto> ''1 A''] (pe_new_cache sample_program) sn (Inr Map.empty)
      (start_key_value_cache sample_program sample_config plain_server 0)) (\<lambda>_.
    bindR (connect_machnet sample_program sample_config [''dataset.txt'' \<mapsto> ''1 A'']) (\<lambda>_.
    bindR (make_servers (pe_network sample_program) (cfg_db_async plain_server) (cfg_machines plain_server) 0 1) (\<lambda>_.
    Inl (Undefined ''begin of an empty table'')))))"
    by (rule server_run_needs_nodes) (simp_all add: plain_server_def sample_program_def)
  have "isl (make_Snapshot sample_config) = False" by code_simp
  moreover have "preload (startup_of sample_program sample_config plain_server) 0 [''dataset.txt'' \<mapsto> ''1 A''] (pe_new_cache sample_program) sn (Inr Map.empty) kv \<noteq> Inl e"
    for sn kv e
  proof -
    have "isl (preload (startup_of sample_program sample_config plain_server) 0 [''dataset.txt'' \<mapsto> ''1 A''] (pe_new_cache sample_program) sn (Inr Map.empty) kv) = False"
      by code_simp
    then show ?thesis by auto
  qed
  moreover have "isl (connect_machnet sample_program sample_config [''dataset.txt'' \<mapsto> ''1 A'']) = False" by code_simp
  moreover have "isl (make_servers (pe_network sample_program) (cfg_db_async plain_server) (cfg_machines plain_server) 0 1) = False"
    by (simp add: make_servers_def make_Server_def make_Connection_def cn_listen_def others_such_def sample_program_def sample_net_def plain_server_def
        connection.defs vec_at_int_def)
  ultimately show ?thesis unfolding eq by (auto simp: bindR_def split: sum.splits)
qed

lemma table_begin_in:
  assumes "\<And>xs. mset (order xs) = mset xs" "table_begin order machines nodes = Inr i"
  shows "nodes i \<noteq> None"
proof -
  let ?xs = "filter (\<lambda>i. \<not> Option.is_none (nodes i)) (remdups (map (\<lambda>r. of_nat (rm_index r)) machines))"
  have "i \<in> set (order ?xs)" using assms(2) by (auto simp: table_begin_def split: list.splits)
  then have "i \<in> set ?xs" using mset_eq_setD [OF assms(1)] by blast
  then show ?thesis by (auto simp: Option.is_none_def)
qed

lemma server_threads_all: "length xs = threads \<Longrightarrow> server_threads threads xs = Inr (map (\<lambda>i. (xs ! i, i)) [0..<threads])"
  unfolding server_threads_def by (rule mapMR_pure) simp

text \<open>
  The loading with the index: the cache keeps an invariant \<open>J\<close> of its own under which a put of a
  key of this server has only events in range.
\<close>

definition puts_in_range ::
    "'b block_cache_api \<Rightarrow> (string \<Rightarrow> string \<Rightarrow> 'b \<Rightarrow> 'e cache_event list) \<Rightarrow> nat \<Rightarrow> rat \<times> rat \<Rightarrow> string list \<Rightarrow> ('b \<Rightarrow> bool) \<Rightarrow> bool" where
  "puts_in_range api events len r ks J \<longleftrightarrow>
     (\<forall>k \<in> set ks. \<forall>kx v b. stoi k = Inr kx \<and> owned r kx \<and> J b
        \<longrightarrow> J (block_cache_put api k v b) \<and> (\<forall>ev \<in> set (events k v b). event_ok len ev))"

lemma loaded_typed:
  assumes "preload P mi fs b sn0 remote_nodes new_kv = Inr (limits, b', nodes, kvo, sn)" "sp_one_sided P" "sp_cache_indexing P"
    and "\<And>kv. new_kv = Inr kv \<Longrightarrow> kv_wf (sp_kv_params P) n len slots m (kv, sn0)" "1 < n" "J b"
    and "puts_in_range (sp_cache P) (sp_put_events P) len (key_range (sp_config P) (mi - int (first_server (sp_machines P))))
      (readKeysFromFile fs (DATASET_FILE (sp_config P))) J"
  shows "\<exists>kv. kvo = Some kv \<and> kv_wf (sp_kv_params P) n len slots m (kv, sn)"
proof -
  let ?r = "key_range (sp_config P) (mi - int (first_server (sp_machines P)))"
  from assms(1-3) obtain kv0 kv v where kv: "new_kv = Inr kv0" "kvo = Some kv"
    "foldR (add_key_indexed P ?r v) (readKeysFromFile fs (DATASET_FILE (sp_config P))) (b, kv0, sn0) = Inr (b', kv, sn)"
    by (auto simp: preload_def Let_def bindR_Inr_iff split: if_splits)
  have "(\<lambda>(b, s). J b \<and> kv_wf (sp_kv_params P) n len slots m s) (b', kv, sn)"
  proof (rule foldR_invariant [OF kv(3)])
    show "(\<lambda>(b, s). J b \<and> kv_wf (sp_kv_params P) n len slots m s) (b, kv0, sn0)" using assms(4,6) kv(1) by simp
  next
    fix k s t
    assume k: "k \<in> set (readKeysFromFile fs (DATASET_FILE (sp_config P)))"
      and s: "(\<lambda>(b, s). J b \<and> kv_wf (sp_kv_params P) n len slots m s) s" and t: "add_key_indexed P ?r v k s = Inr t"
    obtain c q where c: "s = (c, q)" by (cases s)
    from t consider "t = s" | kx q' where "stoi k = Inr kx" "owned ?r kx" "t = (block_cache_put (sp_cache P) k v c, q')"
        "foldR (run_cache_event (sp_kv_params P)) (sp_put_events P k v c) q = Inr q'"
      unfolding add_key_indexed_def put_with_callbacks_def c bindR_Inr_iff by (auto simp: mapR_Inr_iff split: if_splits)
    then show "(\<lambda>(b, s). J b \<and> kv_wf (sp_kv_params P) n len slots m s) t"
    proof cases
      case 2
      then have "J (block_cache_put (sp_cache P) k v c)" "\<forall>ev \<in> set (sp_put_events P k v c). event_ok len ev"
        using assms(7) k s unfolding puts_in_range_def c by blast+
      then show ?thesis using cache_events_typed [OF _ _ assms(5) 2(4)] s by (simp add: 2(3) c)
    qed (use s in simp)
  qed
  then show ?thesis using kv(2) by simp
qed

text \<open>
  Property C15: a server machine whose start returns has one-sided access and runs one thread for each
  of its servers: thread i works on the server made at place i, and for thread number i. With the
  index there are four more threads, all for one node that is in the table, and the shared key-value
  cache, with the connections to all servers, is well-formed together with the statistics after all
  callbacks that the loading of the cache has triggered. Without the index there are no more threads.
  Assumed for the index: at least two servers, mirrors as long as the own index, which is no longer
  than the number of key-value pairs, a period of the logs (if used) between 1 and 2^31 - 1, and a
  cache that, when it is given keys of this server, stores and evicts only keys of the index.
\<close>

theorem server_run_ready:
  assumes "run_server E ops_config config mi threads fs = Inr sr" "\<And>xs. mset (pe_table_order E xs) = mset xs"
    and "n = length (filter rm_server (cfg_machines config))" "index = mi - int (first_server (cfg_machines config))"
    and "len = length (pe_cache_index_buffer E)"
    and "cfg_cache_indexing config \<longrightarrow> 1 < n \<and> nat index < n \<and> (\<forall>i < n. length (pe_allocate_cache_index E i) = len)
      \<and> int len \<le> NUM_KEY_VALUE_PAIRS ops_config \<and> NUM_KEY_VALUE_PAIRS ops_config < 2 ^ 31
      \<and> (use_cache_logs ops_config \<longrightarrow> 0 < cache_log_sync_every_x_operations ops_config \<and> cache_log_sync_every_x_operations ops_config < 2 ^ 31)
      \<and> J (pe_new_cache E) \<and> puts_in_range (pe_cache E) (pe_put_events E) len (key_range ops_config index)
          (readKeysFromFile fs (DATASET_FILE ops_config)) J"
  shows "cfg_one_sided config
    \<and> (\<exists>made. make_servers (pe_network E) (cfg_db_async config) (cfg_machines config) mi threads = Inr made
        \<and> sr_threads sr = map (\<lambda>i. ((i, made ! i), i)) [0..<threads] \<and> (\<forall>i < threads. thread_index (made ! i) = int i))
    \<and> (if cfg_cache_indexing config
       then \<exists>node kv. sr_workers sr = replicate 4 node \<and> sr_nodes sr node \<noteq> None \<and> sr_key_value_cache sr = Some kv
         \<and> kv_wf (pe_kv_params E) n len CacheIndexValueQueueSize (nat index) (kv, sr_snapshot sr)
       else sr_workers sr = [])"
proof -
  have one: "cfg_one_sided config"
  proof (rule ccontr)
    assume "\<not> cfg_one_sided config"
    from assms(1) [unfolded server_run_needs_nodes [OF this assms(2)]] show False by (auto simp: bindR_Inr_iff)
  qed
  let ?P = "startup_of E ops_config config" let ?new = "start_key_value_cache E ops_config config mi"
  from assms(1) obtain sn0 made node remote limits b where r: "make_Snapshot ops_config = Inr sn0"
      "preload ?P mi fs (pe_new_cache E) sn0 remote ?new = Inr (limits, b, sr_nodes sr, sr_key_value_cache sr, sr_snapshot sr)"
      "make_servers (pe_network E) (cfg_db_async config) (cfg_machines config) mi threads = Inr made"
      "table_begin (pe_table_order E) (cfg_machines config) (sr_nodes sr) = Inr node"
      "sr_workers sr = (if cfg_cache_indexing config then replicate 4 node else [])"
      "server_threads threads (allocated made) = Inr (sr_threads sr)"
    using one by (auto simp: run_server_def start_server_def key_value_workers_def bindR_Inr_iff mapR_Inr_iff)
  note made = make_servers_match [OF r(3)]
  have "sr_threads sr = map (\<lambda>i. (allocated made ! i, i)) [0..<threads]"
    using r(6) server_threads_all [of "allocated made" threads] made(1) by (simp add: allocated_def)
  then have th: "sr_threads sr = map (\<lambda>i. ((i, made ! i), i)) [0..<threads]" using made(1) by (simp add: allocated_def)
  have "\<exists>kv. sr_key_value_cache sr = Some kv \<and> kv_wf (pe_kv_params E) n len CacheIndexValueQueueSize (nat index) (kv, sr_snapshot sr)"
    if c: "cfg_cache_indexing config"
  proof -
    note a = assms(6) [THEN mp, OF c]
    have P: "sp_one_sided ?P" "sp_cache_indexing ?P" "sp_kv_params ?P = pe_kv_params E" "sp_cache ?P = pe_cache E"
      "sp_put_events ?P = pe_put_events E" "sp_config ?P = ops_config" "sp_machines ?P = cfg_machines config"
      using one c by (simp_all add: startup_of_def)
    have "kv_wf (pe_kv_params E) n len CacheIndexValueQueueSize (nat index) (kv, sn0)" if kv: "?new = Inr kv" for kv
    proof -
      have "kv_ok (pe_kv_params E) n len CacheIndexValueQueueSize (nat index) kv \<and> kv_config kv = ops_config
          \<and> (use_cache_logs ops_config \<longrightarrow> log_ok n (nat index) (cache_index_logs kv))"
        using make_RDMAKeyValueCache_ok [of "nat index" "cfg_machines config" "pe_cache_index_buffer E" len "pe_allocate_cache_index E" ops_config
            "pe_kv_params E" "pe_data_address E" "pe_key_value_buffer E" "pe_key_value_buffer_size E"] a assms(3-5) kv
        by (auto simp: start_key_value_cache_def)
      then show ?thesis using fresh_Snapshot_ok [OF r(1)] a by (auto simp: kv_wf_def)
    qed
    from loaded_typed [OF r(2) P(1,2), unfolded P, OF this, of J] show ?thesis using a assms(4) by blast
  qed
  then show ?thesis using one table_begin_in [OF assms(2) r(4)] r(3,5) th made(2) by auto
qed

text \<open>
  Three servers, of which the first loads key 1: the cache stores its entry and calls back, and the
  entry is pushed to the two other servers.
\<close>

abbreviation ready_program :: "(unit, u64, u64, unit) program_env" where
  "ready_program \<equiv> sample_program\<lparr>pe_find_nic := (\<lambda>_. Some ''mlx5_0''), pe_incoming := 3, pe_cache_index_buffer := [-1, -1, -1, -1],
     pe_allocate_cache_index := (\<lambda>_. [-1, -1, -1, -1]), pe_put_events := (\<lambda>_ _ _. [Entry_stored 1 64, Key_written ''1''])\<rparr>"

abbreviation indexed_server :: block_cache_config where
  "indexed_server \<equiv> plain_server\<lparr>cfg_machines := sp_machines sample_startup, cfg_policy_type := ''thread_safe_lru'', cfg_one_sided := True,
     cfg_cache_indexing := True\<rparr>"

abbreviation one_key :: files where "one_key \<equiv> [''dataset.txt'' \<mapsto> ''1 A'']"

lemma ready_key: "stoi ''1'' = Inr 1" "owned (key_range sample_config 0) 1" "readKeysFromFile one_key ''dataset.txt'' = [''1'']"
  by code_simp+

lemma ready_machines: "length (filter rm_server (sp_machines sample_startup)) = 3" "first_server (sp_machines sample_startup) = 0"
  by (simp_all add: sample_startup_def first_server_def)

lemma ready_events:
  assumes "start_key_value_cache ready_program sample_config indexed_server 0 = Inr kv"
  shows "\<exists>s. foldR (run_cache_event sample_params) [Entry_stored 1 64, Key_written ''1''] (kv, sn) = Inr s"
proof -
  let ?ci = "make_CacheIndexes sample_api [-1, -1, -1, -1] (\<lambda>_. [-1, -1, -1, -1]) (sp_machines sample_startup) 0"
  note ok = make_CacheIndexes_ok [of 0 "sp_machines sample_startup" "[-1, -1, -1, -1]" 4 "\<lambda>_. [-1, -1, -1, -1]" sample_api, unfolded ready_machines]
  have kv: "cache_indexes kv = ?ci" "kv_config kv = sample_config" using assms
    by (auto simp: start_key_value_cache_def make_RDMAKeyValueCache_def bindR_Inr_iff sample_program_def sample_params_def ready_machines)
  let ?c1 = "set_entry 0 1 64 ?ci"
  have m: "me ?ci = 0" using ok(1) by (simp add: ci_ok_def)
  have c1: "ci_ok sample_api 3 4 0 ?c1" using ok(1) by (auto simp: ci_ok_def set_entry_def nth_list_update)
  have "rdma_cache_indexes ?c1 ! 0 ! 1 = 64" using ok(1) by (simp add: ci_ok_def set_entry_def)
  then have "valid_entry sample_api (rdma_cache_indexes ?c1 ! 0 ! 1)" by (simp add: sample_api_def valid_entry_def)
  from write_remote_cases [OF c1 _ _ _ this, of "''1''" "\<lambda>_. 0"] ready_key(1) ok(3) obtain ps ci where
    "write_remote sample_api (\<lambda>_. 0) ''1'' ?c1 = Inr (ps, ci)" by (auto simp: set_entry_def FreeRequestTokenQueueSize_def)
  then show ?thesis by (simp add: on_write_def kv m) (simp add: sample_params_def sample_config_def)
qed

lemma ready_memory:
  "\<exists>table. connect_memory (\<lambda>_. Some ''mlx5_0'') (cfg_settings plain_server) True (\<lambda>_. []) 3 (sp_machines sample_startup) 0 sample_config = Inr table
    \<and> table 0 \<noteq> None \<and> table 1 \<noteq> None \<and> table 2 \<noteq> None"
proof -
  have "isl (free_blocks_of (cfg_settings plain_server)) = False" by code_simp
  then obtain f where "free_blocks_of (cfg_settings plain_server) = Inr f" by (cases "free_blocks_of (cfg_settings plain_server)") simp_all
  then show ?thesis
    by (simp add: connect_memory_def connect_to_servers_def connect_server_def RDMA_Server_Init_def sample_startup_def)
      (simp add: sample_config_def)
qed

lemma ready_values: "isl (key_limits sample_config 0) = False" "default_value sample_config = Inr ''AAAA''" "isl (value_block ''AAAA'') = False"
  by code_simp+

lemma ready_start:
  assumes "start_key_value_cache ready_program sample_config indexed_server 0 = Inr kv"
  shows "\<exists>limits b nodes kv' sn'. start_server (startup_of ready_program sample_config indexed_server) (\<lambda>_. Some ''mlx5_0'') (cfg_settings plain_server)
      (\<lambda>_. []) 3 (\<lambda>_ _. 0) 0 one_key () sn (Inr kv) = Inr (limits, b, nodes, Some kv', sn')
    \<and> nodes 0 \<noteq> None \<and> nodes 1 \<noteq> None \<and> nodes 2 \<noteq> None"
proof -
  let ?P = "startup_of ready_program sample_config indexed_server"
  obtain table where t: "connect_memory (\<lambda>_. Some ''mlx5_0'') (cfg_settings plain_server) True (\<lambda>_. []) 3 (sp_machines sample_startup) 0 sample_config = Inr table"
    "table 0 \<noteq> None" "table 1 \<noteq> None" "table 2 \<noteq> None"
    using ready_memory by blast
  obtain limits where l: "key_limits sample_config 0 = Inr limits" using ready_values(1) by (cases "key_limits sample_config 0") simp_all
  obtain block where v: "value_block ''AAAA'' = Inr block" using ready_values(3) by (cases "value_block ''AAAA''") simp_all
  obtain kv' sn' where e: "foldR (run_cache_event sample_params) [Entry_stored 1 64, Key_written ''1''] (kv, sn) = Inr (kv', sn')"
    using ready_events [OF assms, of sn] by auto
  have P: "sp_one_sided ?P" "sp_cache_indexing ?P" "sp_kv_params ?P = sample_params" "sp_policy_type ?P = ''thread_safe_lru''"
    "sp_put_events ?P = (\<lambda>_ _ _. [Entry_stored 1 64, Key_written ''1''])" "sp_config ?P = sample_config" "sp_machines ?P = sp_machines sample_startup"
    by (simp_all add: startup_of_def sample_program_def plain_server_def)
  have d: "DATASET_FILE sample_config = ''dataset.txt''" by (simp add: sample_config_def)
  have "add_key_indexed ?P (key_range sample_config 0) ''AAAA'' ''1'' ((), kv, sn) = Inr ((), kv', sn')"
    using e by (simp add: add_key_indexed_def put_with_callbacks_def P ready_key del: foldR.simps One_nat_def)
  then have "foldR (add_key_indexed ?P (key_range sample_config 0) ''AAAA'') [''1''] ((), kv, sn) = Inr ((), kv', sn')" by simp
  then show ?thesis using t l v
    by (simp add: start_server_def preload_def P d ready_machines ready_key ready_values region_table_def Let_def del: foldR.simps One_nat_def)
qed

lemma ready_run: "\<exists>sr. run_server ready_program sample_config indexed_server 0 2 one_key = Inr sr"
proof -
  have env: "pe_incoming ready_program = 3" "pe_new_cache ready_program = ()" "pe_network ready_program = sample_net" "pe_table_order ready_program = rev"
    "pe_find_nic ready_program = (\<lambda>_. Some ''mlx5_0'')" "pe_fresh ready_program = (\<lambda>_. [])" "pe_memory ready_program = (\<lambda>_ _. 0)"
    "cfg_machines indexed_server = sp_machines sample_startup" "cfg_one_sided indexed_server" "cfg_cache_indexing indexed_server"
    "cfg_settings indexed_server = cfg_settings plain_server" "cfg_db_async indexed_server"
    by (simp_all add: sample_program_def plain_server_def)
  have ms: "sp_machines sample_startup = [\<lparr>rm_index = 0, rm_ip = ''a'', rm_port = 1, rm_server = True\<rparr>,
      \<lparr>rm_index = 1, rm_ip = ''b'', rm_port = 1, rm_server = True\<rparr>, \<lparr>rm_index = 2, rm_ip = ''c'', rm_port = 1, rm_server = True\<rparr>]"
    by (simp add: sample_startup_def)
  have "isl (make_Snapshot sample_config) = False" by code_simp
  then obtain sn where sn: "make_Snapshot sample_config = Inr sn" by (cases "make_Snapshot sample_config") simp_all
  obtain kv where kv: "start_key_value_cache ready_program sample_config indexed_server 0 = Inr kv"
    using make_RDMAKeyValueCache_ok [of 0 "sp_machines sample_startup" "[-1, -1, -1, -1]" 4 "\<lambda>_. [-1, -1, -1, -1]" sample_config "sample_params :: (u64, u64, unit) kv_params" id 0 64]
    by (auto simp: start_key_value_cache_def sample_program_def ready_machines sample_config_def)
  from ready_start [OF kv, of sn] obtain limits b nodes kv' sn' where
    st: "start_server (startup_of ready_program sample_config indexed_server) (\<lambda>_. Some ''mlx5_0'') (cfg_settings plain_server)
      (\<lambda>_. []) 3 (\<lambda>_ _. 0) 0 one_key () sn (Inr kv) = Inr (limits, b, nodes, Some kv', sn')"
    and n: "nodes 0 \<noteq> None" "nodes 1 \<noteq> None" "nodes 2 \<noteq> None" by blast
  have "isl (connect_machnet ready_program sample_config one_key) = False" by code_simp
  then obtain ops where ops: "connect_machnet ready_program sample_config one_key = Inr ops"
    by (cases "connect_machnet ready_program sample_config one_key") simp_all
  have connected: "connect_loop (\<lambda>_. Some f) i MACHNET_CONNECT_RETRIES = Some f" for i f
    by (simp add: connect_loop.simps [of _ _ MACHNET_CONNECT_RETRIES]) (simp add: MACHNET_CONNECT_RETRIES_def)
  have "\<exists>made. make_servers sample_net True (sp_machines sample_startup) 0 2 = Inr made"
    by (simp add: make_servers_def make_Server_def make_Connection_def cn_listen_def others_such_def sample_net_def ms
        connection.defs vec_at_int_def connect_to_remote_machine_def connected numeral_2_eq_2)
  then obtain made where made: "make_servers sample_net True (sp_machines sample_startup) 0 2 = Inr made" ..
  have "server_threads 2 (allocated made) = Inr (map (\<lambda>i. (allocated made ! i, i)) [0..<2])"
    using make_servers_match(1) [OF made] by (intro server_threads_all) (simp add: allocated_def)
  moreover have "key_value_workers rev indexed_server nodes = Inr (replicate 4 2)"
    using n by (simp add: key_value_workers_def table_begin_def env ms Option.is_none_def)
  moreover have "cfg_db_async indexed_server = True" using env by simp
  ultimately show ?thesis using sn st kv ops made by (simp only: run_server_def env bindR_simps) simp
qed

theorem server_run_ready_witness:
  "\<exists>sr. run_server ready_program sample_config indexed_server 0 2 one_key = Inr sr \<and> map (\<lambda>((x, s), i). (x, i)) (sr_threads sr) = [(0, 0), (1, 1)]
    \<and> (\<exists>node kv. sr_workers sr = replicate 4 node \<and> sr_key_value_cache sr = Some kv
      \<and> kv_wf sample_params 3 4 CacheIndexValueQueueSize 0 (kv, sr_snapshot sr))"
proof -
  obtain sr where sr: "run_server ready_program sample_config indexed_server 0 2 one_key = Inr sr" using ready_run ..
  have *: "puts_in_range api (\<lambda>_ _ _. [Entry_stored 1 64, Key_written ''1'']) 4 r ks (\<lambda>_. True)" for api r ks
    by (auto simp: puts_in_range_def ready_key intro!: exI [of _ "1 :: nat"])
  have "cfg_one_sided indexed_server
    \<and> (\<exists>made. make_servers (pe_network ready_program) (cfg_db_async indexed_server) (cfg_machines indexed_server) 0 2 = Inr made
        \<and> sr_threads sr = map (\<lambda>i. ((i, made ! i), i)) [0..<2] \<and> (\<forall>i < 2. thread_index (made ! i) = int i))
    \<and> (if cfg_cache_indexing indexed_server
       then \<exists>node kv. sr_workers sr = replicate 4 node \<and> sr_nodes sr node \<noteq> None \<and> sr_key_value_cache sr = Some kv
         \<and> kv_wf (pe_kv_params ready_program) 3 4 CacheIndexValueQueueSize (nat 0) (kv, sr_snapshot sr)
       else sr_workers sr = [])"
    by (rule server_run_ready [OF sr, where J = "\<lambda>_. True"])
      (simp_all add: sample_program_def plain_server_def ready_machines * del: One_nat_def, simp add: sample_config_def)
  then show ?thesis using sr by (auto simp: plain_server_def sample_program_def upt_rec)
qed

text \<open>A client with two threads of one machine, and no server to connect to.\<close>

abbreviation client_program :: "(unit, u64, u64, unit) program_env" where
  "client_program \<equiv> sample_program\<lparr>
     pe_parse_json := (\<lambda>_. Inr \<lparr>json_int = (\<lambda>_. Inr 1), json_str = (\<lambda>k. Inr (if k = ''DISTRIBUTION_TYPE'' then ''RANDOM_DISTRIBUTION'' else ''f'')),
       json_num = (\<lambda>_. Inr 1), json_bool = (\<lambda>_. Inr False)\<rparr>),
     pe_get_config := (\<lambda>_. Inr (plain_server\<lparr>cfg_machines := [\<lparr>rm_index = 0, rm_ip = ''a'', rm_port = 1, rm_server = False\<rparr>]\<rparr>))\<rparr>"

definition client_flags :: flags where
  "client_flags = \<lparr>fl_config = ''c'', fl_dataset_config = ''d'', fl_machine_index = 0, fl_threads = 2, fl_clients_per_threads = 1,
     fl_cache_dump_path = ''cache_dump.txt'', fl_cache_metrics_path = ''cache_metrics.json'', fl_dump_operations = False\<rparr>"

theorem client_run_threads_witness:
  "\<exists>cr. ldc_main client_program client_flags [''c'' \<mapsto> [], ''d'' \<mapsto> [], ''f'' \<mapsto> ''5 1 R'' @ [newline]] = Inr (Client_run cr)
    \<and> map (\<lambda>((x, c), i, j). (x, i, j)) (cr_threads cr) = [(0, 0, 0), (1, 1, 0)]"
proof -
  let ?r = "ldc_main client_program client_flags [''c'' \<mapsto> [], ''d'' \<mapsto> [], ''f'' \<mapsto> ''5 1 R'' @ [newline]]"
  have p: "\<exists>ops_config. parseConfigFile (pe_parse_json client_program) (Some []) = Inr ops_config"
    by (simp add: parseConfigFile_def parse_distribution_def)
  have "wait_for_machnet [] (Some (engine_status @ [newline])) = Inr ()" by code_simp
  then have w: "connect_machnet client_program ops_config fs = Inr (loadOperationSetFromFile fs (OP_FILE ops_config))" for ops_config fs
    by (simp add: connect_machnet_def sample_program_def)
  have net: "pe_network client_program = sample_net" by (simp add: sample_program_def)
  have "\<exists>a b. make_clients sample_net [\<lparr>rm_index = 0, rm_ip = ''a'', rm_port = 1, rm_server = False\<rparr>] 0 2 1 = Inr [a, b]"
    by (simp add: make_clients_def make_Client_def make_Connection_def others_such_def vec_at_int_def numeral_2_eq_2)
  then obtain a b where m: "make_clients sample_net [\<lparr>rm_index = 0, rm_ip = ''a'', rm_port = 1, rm_server = False\<rparr>] 0 2 1 = Inr [a, b]" by blast
  have "\<exists>cr. ?r = Inr (Client_run cr)"
    using p by (auto simp: ldc_main_def client_flags_def narrow_int_def int_of_u64_def vec_at_int_def run_client_def w net
        m [unfolded numeral_2_eq_2 One_nat_def] client_threads_def allocated_def numeral_2_eq_2)
  then obtain cr where cr: "?r = Inr (Client_run cr)" ..
  have t: "map (fst \<circ> fst) (cr_threads cr) = [0..<2]" "map snd (cr_threads cr) = List.product [0..<2] [0..<1]"
    using client_run_threads [OF cr] by (auto simp: client_flags_def)
  have "map (\<lambda>((x, c), i, j). (x, i, j)) (cr_threads cr) = zip (map (fst \<circ> fst) (cr_threads cr)) (map snd (cr_threads cr))"
    by (rule nth_equalityI) (auto simp: case_prod_beta)
  also have "\<dots> = [(0, 0, 0), (1, 1, 0)]" unfolding t by (simp add: numeral_2_eq_2)
  finally show ?thesis using cr by (intro exI [of _ cr] conjI)
qed

end
