(* ===== verification/Capnp.thy ===== *)
theory Capnp
  imports Prelude
begin

text \<open>
  What the generated accessors of \<open>packet.capnp.h\<close> use of the Cap'n Proto runtime: structs with a
  data section and a pointer section, text, lists of structs. The runtime is not under the sources.
  It is the record \<open>capnp_api\<close>, a parameter of every definition that uses it; the documented laws
  are the locale \<open>capnp_structs\<close>, the documented sizes its extension \<open>capnp_sizes\<close>. Both are
  interpreted on trees of bits and pointers, the content that the encoding describes.

  A builder refers to a place inside a message. Here it is the value at that place, and what a
  caller does with the builder that an \<open>init\<close> function returns is an argument of that function.
\<close>

section \<open>The interface\<close>

text \<open>
  \<open>data_field w s i\<close> is \<open>getDataField\<close> for a type of \<open>w\<close> bits: the element \<open>i\<close> of the data section
  taken as an array of \<open>w\<close>-bit elements. \<open>put_pointer\<close> stores what the function of
  \<open>PointerHelpers\<close> (\<open>set\<close>, \<open>init\<close>, \<open>adopt\<close>) makes of its argument. \<open>kj_debug\<close> says whether
  \<open>KJ_IREQUIRE\<close> checks its condition, which it does in debug builds.
\<close>

record ('s, 'p) capnp_api =
  struct_size :: "'s \<Rightarrow> nat \<times> nat"
  data_field :: "nat \<Rightarrow> 's \<Rightarrow> nat \<Rightarrow> nat"
  put_data :: "nat \<Rightarrow> nat \<Rightarrow> nat \<Rightarrow> 's \<Rightarrow> 's"
  pointer_field :: "'s \<Rightarrow> nat \<Rightarrow> 'p"
  put_pointer :: "nat \<Rightarrow> 'p \<Rightarrow> 's \<Rightarrow> 's"
  null_pointer :: 'p
  is_null :: "'p \<Rightarrow> bool"
  text_of :: "'p \<Rightarrow> string"
  text_pointer :: "string \<Rightarrow> 'p"
  struct_of :: "'p \<Rightarrow> 's"
  struct_pointer :: "'s \<Rightarrow> 'p"
  new_struct :: "nat \<times> nat \<Rightarrow> 's"
  structs_of :: "'p \<Rightarrow> 's list"
  structs_pointer :: "'s list \<Rightarrow> 'p"
  kj_debug :: bool

text \<open>A text and its final zero byte, and the words of a list, are counted in 29 bits.\<close>

definition text_fits :: "string \<Rightarrow> bool" where
  "text_fits t \<longleftrightarrow> length t + 1 < 2 ^ 29"

locale capnp_structs =
  fixes api :: "('s, 'p) capnp_api"
  assumes new_size: "struct_size api (new_struct api z) = z"
    and put_data_size: "struct_size api (put_data api w i v s) = struct_size api s"
    and put_pointer_size: "struct_size api (put_pointer api i p s) = struct_size api s"
    and new_data: "data_field api w (new_struct api z) i = 0"
    and new_pointer: "is_null api (pointer_field api (new_struct api z) i)"
    and data_same: "w * i + w \<le> 64 * fst (struct_size api s) \<Longrightarrow> v < 2 ^ w \<Longrightarrow> data_field api w (put_data api w i v s) i = v"
    and data_disjoint: "w * i + w \<le> w' * j \<or> w' * j + w' \<le> w * i \<Longrightarrow>
      data_field api w (put_data api w' j v s) i = data_field api w s i"
    and data_pointer: "data_field api w (put_pointer api i p s) j = data_field api w s j"
    and pointer_data: "pointer_field api (put_data api w i v s) j = pointer_field api s j"
    and pointer_same: "i < snd (struct_size api s) \<Longrightarrow> pointer_field api (put_pointer api i p s) i = p"
    and pointer_other: "i \<noteq> j \<Longrightarrow> pointer_field api (put_pointer api i p s) j = pointer_field api s j"
    and null_iff: "is_null api p \<longleftrightarrow> p = null_pointer api"
    and not_null: "\<not> is_null api (text_pointer api t)" "\<not> is_null api (struct_pointer api s)" "\<not> is_null api (structs_pointer api ss)"
    and text_read: "text_fits t \<Longrightarrow> text_of api (text_pointer api t) = t"
    and struct_read: "struct_of api (struct_pointer api s) = s"
    and structs_read: "(\<And>s. s \<in> set ss \<Longrightarrow> struct_size api s = z) \<Longrightarrow> length ss * (fst z + snd z) < 2 ^ 29 \<Longrightarrow>
      structs_of api (structs_pointer api ss) = ss"
    and null_text: "text_of api (null_pointer api) = []"
    and null_struct: "data_field api w (struct_of api (null_pointer api)) i = 0"
      "is_null api (pointer_field api (struct_of api (null_pointer api)) i)"
    and null_structs: "structs_of api (null_pointer api) = []"
begin

lemmas sizes = new_size put_data_size put_pointer_size

lemma fresh_pointer: "pointer_field api (new_struct api z) i = null_pointer api" "is_null api (null_pointer api)"
  using new_pointer null_iff by blast+

lemmas fields = new_data fresh_pointer data_pointer pointer_data pointer_same pointer_other

text \<open>Writes to disjoint places can be read back in any order.\<close>

lemma data_both:
  assumes "w * i + w \<le> w' * j \<or> w' * j + w' \<le> w * i" "w * i + w \<le> 64 * fst (struct_size api s)" "v < 2 ^ w"
  shows "data_field api w (put_data api w' j v' (put_data api w i v s)) i = v"
  using assms by (simp add: data_disjoint data_same)

end

section \<open>Sizes\<close>

text \<open>
  The words that a value takes in its message: sections of structs, bytes of texts rounded up to
  words, a tag word in front of the elements of a list. A message of one segment has two words
  more, the table of segments and the pointer to the root.
\<close>

locale capnp_sizes = capnp_structs api for api :: "('s, 'p) capnp_api" +
  fixes words :: "'s \<Rightarrow> nat" and pointer_words :: "'p \<Rightarrow> nat"
  assumes new_words: "words (new_struct api z) = fst z + snd z"
    and put_data_words: "words (put_data api w i v s) = words s"
    and put_pointer_words: "is_null api (pointer_field api s i) \<Longrightarrow> i < snd (struct_size api s) \<Longrightarrow>
      words (put_pointer api i p s) = words s + pointer_words p"
    and null_words: "pointer_words (null_pointer api) = 0"
    and text_words: "pointer_words (text_pointer api t) = (length t + 8) div 8"
    and struct_words: "pointer_words (struct_pointer api s) = words s"
    and structs_words: "pointer_words (structs_pointer api ss) = 1 + sum_list (map words ss)"
begin

lemmas all_words = new_words put_data_words put_pointer_words null_words text_words struct_words structs_words

end

definition message_bytes :: "nat \<Rightarrow> nat" where
  "message_bytes n = 8 * (2 + n)"

section \<open>Trees\<close>

datatype cstruct = CStruct "bool list" "cpointer list"
  and cpointer = CNull | CText string | CSub cstruct | CList "cstruct list"

fun sdata :: "cstruct \<Rightarrow> bool list" where "sdata (CStruct d p) = d"
fun sptrs :: "cstruct \<Rightarrow> cpointer list" where "sptrs (CStruct d p) = p"

definition bits_at :: "nat \<Rightarrow> bool list \<Rightarrow> nat \<Rightarrow> nat" where
  "bits_at w d i = horner_sum of_bool 2 (take w (drop (w * i) d))"

definition put_bits :: "nat \<Rightarrow> nat \<Rightarrow> nat \<Rightarrow> bool list \<Rightarrow> bool list" where
  "put_bits w i v d =
     (if w * i + w \<le> length d then take (w * i) d @ map (bit v) [0..<w] @ drop (w * i + w) d else d)"

lemma length_put_bits [simp]: "length (put_bits w i v d) = length d"
  by (auto simp: put_bits_def)

lemma put_bits_same: "w * i + w \<le> length d \<Longrightarrow> v < 2 ^ w \<Longrightarrow> bits_at w (put_bits w i v d) i = v"
  by (simp add: bits_at_def put_bits_def horner_sum_bit_eq_take_bit take_bit_nat_eq_self del: map_append)

lemma put_bits_nth: "k < w' * j \<or> w' * j + w' \<le> k \<Longrightarrow> k < length d \<Longrightarrow> put_bits w' j v d ! k = d ! k"
  by (auto simp: put_bits_def nth_append)

lemma put_bits_disjoint:
  assumes "w * i + w \<le> w' * j \<or> w' * j + w' \<le> w * i"
  shows "bits_at w (put_bits w' j v d) i = bits_at w d i"
proof -
  have "take w (drop (w * i) (put_bits w' j v d)) = take w (drop (w * i) d)"
    using assms by (intro nth_equalityI) (auto simp: put_bits_nth)
  then show ?thesis by (simp add: bits_at_def)
qed

lemma bits_at_zeros: "bits_at w (replicate n False) i = 0"
proof -
  have "horner_sum of_bool (2::nat) (replicate m False) = 0" for m by (induction m) simp_all
  then show ?thesis by (simp add: bits_at_def)
qed

definition at_pointer :: "cpointer list \<Rightarrow> nat \<Rightarrow> cpointer" where
  "at_pointer ps i = (if i < length ps then ps ! i else CNull)"

definition tree_new :: "nat \<times> nat \<Rightarrow> cstruct" where
  "tree_new z = CStruct (replicate (64 * fst z) False) (replicate (snd z) CNull)"

definition tree_api :: "bool \<Rightarrow> (cstruct, cpointer) capnp_api" where
  "tree_api debug = \<lparr>
     struct_size = \<lambda>s. (length (sdata s) div 64, length (sptrs s)),
     data_field = \<lambda>w s. bits_at w (sdata s),
     put_data = \<lambda>w i v s. CStruct (put_bits w i v (sdata s)) (sptrs s),
     pointer_field = \<lambda>s. at_pointer (sptrs s),
     put_pointer = \<lambda>i p s. CStruct (sdata s) ((sptrs s)[i := p]),
     null_pointer = CNull,
     is_null = \<lambda>p. p = CNull,
     text_of = \<lambda>p. case p of CText t \<Rightarrow> t | _ \<Rightarrow> [],
     text_pointer = CText,
     struct_of = \<lambda>p. case p of CSub s \<Rightarrow> s | _ \<Rightarrow> CStruct [] [],
     struct_pointer = CSub,
     new_struct = tree_new,
     structs_of = \<lambda>p. case p of CList ss \<Rightarrow> ss | _ \<Rightarrow> [],
     structs_pointer = CList,
     kj_debug = debug\<rparr>"

lemma tree_structs: "capnp_structs (tree_api debug)"
proof
  fix w i s and v :: nat
  assume "w * i + w \<le> 64 * fst (struct_size (tree_api debug) s)" "v < 2 ^ w"
  then show "data_field (tree_api debug) w (put_data (tree_api debug) w i v s) i = v"
    by (simp add: tree_api_def put_bits_same)
qed (auto simp: tree_api_def tree_new_def at_pointer_def bits_at_zeros put_bits_disjoint bits_at_zeros [where n = 0, simplified])

fun tree_words :: "cstruct \<Rightarrow> nat" and tree_pointer_words :: "cpointer \<Rightarrow> nat" where
  "tree_words (CStruct d ps) = length d div 64 + length ps + sum_list (map tree_pointer_words ps)"
| "tree_pointer_words CNull = 0"
| "tree_pointer_words (CText t) = (length t + 8) div 8"
| "tree_pointer_words (CSub s) = tree_words s"
| "tree_pointer_words (CList ss) = 1 + sum_list (map tree_words ss)"

lemma sum_list_update_null:
  "i < length ps \<Longrightarrow> ps ! i = CNull \<Longrightarrow>
   sum_list (map tree_pointer_words (ps[i := p])) = sum_list (map tree_pointer_words ps) + tree_pointer_words p"
  by (induction ps arbitrary: i) (auto split: nat.splits simp: nth_Cons)

lemma tree_words_alt: "tree_words s = length (sdata s) div 64 + length (sptrs s) + sum_list (map tree_pointer_words (sptrs s))"
  by (cases s) simp

interpretation tree: capnp_sizes "tree_api debug" tree_words tree_pointer_words for debug
proof (intro capnp_sizes.intro tree_structs capnp_sizes_axioms.intro)
  fix z
  show "tree_words (new_struct (tree_api debug) z) = fst z + snd z"
    by (simp add: tree_api_def tree_new_def sum_list_replicate)
qed (auto simp: tree_api_def tree_words_alt at_pointer_def sum_list_update_null)

end
