(* ===== verification/Packet_Accessors.thy ===== *)
theory Packet_Accessors
  imports Capnp Connection
begin

text \<open>
  The accessors that the Cap'n Proto compiler generated for the messages
  (\<open>src/src/packet.capnp.h\<close>): the sizes of the structs, the tags of the union, and one definition
  per member function of the readers and builders. Where a reader and a builder have the same
  function with the same body, one definition stands for both; the builder variants of \<open>get\<close> for
  structs and lists are not used by the program and left out.

  An \<open>init\<close> function takes what the caller does with the builder it returns.
\<close>

named_theorems accessor_defs \<open>definitions of the generated accessors\<close>

section \<open>Enumerations and sizes\<close>

text \<open>The numbers of the enumerants; a number that is not known is \<open>None\<close>.\<close>

fun response_code :: "response_type \<Rightarrow> nat" where
  "response_code OK = 0"
| "response_code INVALID = 1"

definition response_of_code :: "nat \<Rightarrow> response_type option" where
  "response_of_code n = (if n = 0 then Some OK else if n = 1 then Some INVALID else None)"

lemma response_codes [simp]: "response_of_code (response_code r) = Some r" "response_code r < 65536"
  by (cases r; simp add: response_of_code_def)+

datatype which =
    PUT_REQUEST | PUT_RESPONSE | GET_REQUEST | GET_RESPONSE | RDMA_SETUP_REQUEST
  | RDMA_SETUP_RESPONSE | CLIENT_SYNC_REQUEST | CLIENT_SYNC_RESPONSE | SINGLETON_PUT_REQUEST
  | DELETE_REQUEST

fun which_code :: "which \<Rightarrow> nat" where
  "which_code PUT_REQUEST = 0"
| "which_code PUT_RESPONSE = 1"
| "which_code GET_REQUEST = 2"
| "which_code GET_RESPONSE = 3"
| "which_code RDMA_SETUP_REQUEST = 4"
| "which_code RDMA_SETUP_RESPONSE = 5"
| "which_code CLIENT_SYNC_REQUEST = 6"
| "which_code CLIENT_SYNC_RESPONSE = 7"
| "which_code SINGLETON_PUT_REQUEST = 8"
| "which_code DELETE_REQUEST = 9"

lemma which_code_bound [simp]: "which_code w < 65536"
  by (cases w) simp_all

lemma which_code_eq_iff: "which_code w = which_code w' \<longleftrightarrow> w = w'"
  by (cases w; cases w'; simp)

text \<open>The words of the data section and the pointers of each struct.\<close>

definition PutRequest_size :: "nat \<times> nat" where [accessor_defs]: "PutRequest_size = (0, 2)"
definition PutResponse_size :: "nat \<times> nat" where [accessor_defs]: "PutResponse_size = (1, 0)"
definition GetRequest_size :: "nat \<times> nat" where [accessor_defs]: "GetRequest_size = (0, 1)"
definition GetResponse_size :: "nat \<times> nat" where [accessor_defs]: "GetResponse_size = (1, 1)"
definition RdmaSetupRequest_size :: "nat \<times> nat" where [accessor_defs]: "RdmaSetupRequest_size = (3, 0)"
definition RdmaSetupResponse_size :: "nat \<times> nat" where [accessor_defs]: "RdmaSetupResponse_size = (1, 0)"
definition ClientSyncRequest_size :: "nat \<times> nat" where [accessor_defs]: "ClientSyncRequest_size = (2, 0)"
definition ClientSyncResponse_size :: "nat \<times> nat" where [accessor_defs]: "ClientSyncResponse_size = (1, 0)"
definition SingletonPutRequest_size :: "nat \<times> nat" where [accessor_defs]: "SingletonPutRequest_size = (2, 2)"
definition DeleteRequest_size :: "nat \<times> nat" where [accessor_defs]: "DeleteRequest_size = (0, 1)"
definition Packet_size :: "nat \<times> nat" where [accessor_defs]: "Packet_size = (1, 1)"
definition Data_size :: "nat \<times> nat" where [accessor_defs]: "Data_size = (1, 1)"
definition Packets_size :: "nat \<times> nat" where [accessor_defs]: "Packets_size = (0, 1)"

text \<open>\<open>KJ_IREQUIRE\<close>.\<close>

definition must_check :: "('s, 'p) capnp_api \<Rightarrow> bool \<Rightarrow> unit res" where
  "must_check api b = guardR (kj_debug api \<longrightarrow> b) (Throw ''Must check which() before get()ing a union member.'')"

section \<open>Accessors\<close>

subsection \<open>PutRequest\<close>

definition PutRequest_hasKey :: "('s, 'p) capnp_api \<Rightarrow> 's \<Rightarrow> bool" where
  [accessor_defs]: "PutRequest_hasKey api s =
     (\<not> is_null api (pointer_field api s 0))"

definition PutRequest_getKey :: "('s, 'p) capnp_api \<Rightarrow> 's \<Rightarrow> string" where
  [accessor_defs]: "PutRequest_getKey api s =
     text_of api (pointer_field api s 0)"

definition PutRequest_setKey :: "('s, 'p) capnp_api \<Rightarrow> string \<Rightarrow> 's \<Rightarrow> 's" where
  [accessor_defs]: "PutRequest_setKey api v s =
     put_pointer api 0 (text_pointer api v) s"

definition PutRequest_initKey :: "('s, 'p) capnp_api \<Rightarrow> nat \<Rightarrow> (string \<Rightarrow> string) \<Rightarrow> 's \<Rightarrow> 's" where
  [accessor_defs]: "PutRequest_initKey api n f s =
     put_pointer api 0 (text_pointer api (f (replicate n (CHR 0x00)))) s"

definition PutRequest_adoptKey :: "('s, 'p) capnp_api \<Rightarrow> 'p \<Rightarrow> 's \<Rightarrow> 's" where
  [accessor_defs]: "PutRequest_adoptKey api orphan s =
     put_pointer api 0 orphan s"

definition PutRequest_disownKey :: "('s, 'p) capnp_api \<Rightarrow> 's \<Rightarrow> 'p \<times> 's" where
  [accessor_defs]: "PutRequest_disownKey api s =
     (pointer_field api s 0, put_pointer api 0 (null_pointer api) s)"

definition PutRequest_hasValue :: "('s, 'p) capnp_api \<Rightarrow> 's \<Rightarrow> bool" where
  [accessor_defs]: "PutRequest_hasValue api s =
     (\<not> is_null api (pointer_field api s 1))"

definition PutRequest_getValue :: "('s, 'p) capnp_api \<Rightarrow> 's \<Rightarrow> string" where
  [accessor_defs]: "PutRequest_getValue api s =
     text_of api (pointer_field api s 1)"

definition PutRequest_setValue :: "('s, 'p) capnp_api \<Rightarrow> string \<Rightarrow> 's \<Rightarrow> 's" where
  [accessor_defs]: "PutRequest_setValue api v s =
     put_pointer api 1 (text_pointer api v) s"

definition PutRequest_initValue :: "('s, 'p) capnp_api \<Rightarrow> nat \<Rightarrow> (string \<Rightarrow> string) \<Rightarrow> 's \<Rightarrow> 's" where
  [accessor_defs]: "PutRequest_initValue api n f s =
     put_pointer api 1 (text_pointer api (f (replicate n (CHR 0x00)))) s"

definition PutRequest_adoptValue :: "('s, 'p) capnp_api \<Rightarrow> 'p \<Rightarrow> 's \<Rightarrow> 's" where
  [accessor_defs]: "PutRequest_adoptValue api orphan s =
     put_pointer api 1 orphan s"

definition PutRequest_disownValue :: "('s, 'p) capnp_api \<Rightarrow> 's \<Rightarrow> 'p \<times> 's" where
  [accessor_defs]: "PutRequest_disownValue api s =
     (pointer_field api s 1, put_pointer api 1 (null_pointer api) s)"

subsection \<open>PutResponse\<close>

definition PutResponse_getResponse :: "('s, 'p) capnp_api \<Rightarrow> 's \<Rightarrow> response_type option" where
  [accessor_defs]: "PutResponse_getResponse api s =
     response_of_code (data_field api 16 s 0)"

definition PutResponse_setResponse :: "('s, 'p) capnp_api \<Rightarrow> response_type \<Rightarrow> 's \<Rightarrow> 's" where
  [accessor_defs]: "PutResponse_setResponse api v s =
     put_data api 16 0 (response_code v) s"

subsection \<open>GetRequest\<close>

definition GetRequest_hasKey :: "('s, 'p) capnp_api \<Rightarrow> 's \<Rightarrow> bool" where
  [accessor_defs]: "GetRequest_hasKey api s =
     (\<not> is_null api (pointer_field api s 0))"

definition GetRequest_getKey :: "('s, 'p) capnp_api \<Rightarrow> 's \<Rightarrow> string" where
  [accessor_defs]: "GetRequest_getKey api s =
     text_of api (pointer_field api s 0)"

definition GetRequest_setKey :: "('s, 'p) capnp_api \<Rightarrow> string \<Rightarrow> 's \<Rightarrow> 's" where
  [accessor_defs]: "GetRequest_setKey api v s =
     put_pointer api 0 (text_pointer api v) s"

definition GetRequest_initKey :: "('s, 'p) capnp_api \<Rightarrow> nat \<Rightarrow> (string \<Rightarrow> string) \<Rightarrow> 's \<Rightarrow> 's" where
  [accessor_defs]: "GetRequest_initKey api n f s =
     put_pointer api 0 (text_pointer api (f (replicate n (CHR 0x00)))) s"

definition GetRequest_adoptKey :: "('s, 'p) capnp_api \<Rightarrow> 'p \<Rightarrow> 's \<Rightarrow> 's" where
  [accessor_defs]: "GetRequest_adoptKey api orphan s =
     put_pointer api 0 orphan s"

definition GetRequest_disownKey :: "('s, 'p) capnp_api \<Rightarrow> 's \<Rightarrow> 'p \<times> 's" where
  [accessor_defs]: "GetRequest_disownKey api s =
     (pointer_field api s 0, put_pointer api 0 (null_pointer api) s)"

subsection \<open>GetResponse\<close>

definition GetResponse_getResponse :: "('s, 'p) capnp_api \<Rightarrow> 's \<Rightarrow> response_type option" where
  [accessor_defs]: "GetResponse_getResponse api s =
     response_of_code (data_field api 16 s 0)"

definition GetResponse_setResponse :: "('s, 'p) capnp_api \<Rightarrow> response_type \<Rightarrow> 's \<Rightarrow> 's" where
  [accessor_defs]: "GetResponse_setResponse api v s =
     put_data api 16 0 (response_code v) s"

definition GetResponse_hasValue :: "('s, 'p) capnp_api \<Rightarrow> 's \<Rightarrow> bool" where
  [accessor_defs]: "GetResponse_hasValue api s =
     (\<not> is_null api (pointer_field api s 0))"

definition GetResponse_getValue :: "('s, 'p) capnp_api \<Rightarrow> 's \<Rightarrow> string" where
  [accessor_defs]: "GetResponse_getValue api s =
     text_of api (pointer_field api s 0)"

definition GetResponse_setValue :: "('s, 'p) capnp_api \<Rightarrow> string \<Rightarrow> 's \<Rightarrow> 's" where
  [accessor_defs]: "GetResponse_setValue api v s =
     put_pointer api 0 (text_pointer api v) s"

definition GetResponse_initValue :: "('s, 'p) capnp_api \<Rightarrow> nat \<Rightarrow> (string \<Rightarrow> string) \<Rightarrow> 's \<Rightarrow> 's" where
  [accessor_defs]: "GetResponse_initValue api n f s =
     put_pointer api 0 (text_pointer api (f (replicate n (CHR 0x00)))) s"

definition GetResponse_adoptValue :: "('s, 'p) capnp_api \<Rightarrow> 'p \<Rightarrow> 's \<Rightarrow> 's" where
  [accessor_defs]: "GetResponse_adoptValue api orphan s =
     put_pointer api 0 orphan s"

definition GetResponse_disownValue :: "('s, 'p) capnp_api \<Rightarrow> 's \<Rightarrow> 'p \<times> 's" where
  [accessor_defs]: "GetResponse_disownValue api s =
     (pointer_field api s 0, put_pointer api 0 (null_pointer api) s)"

subsection \<open>RdmaSetupRequest\<close>

definition RdmaSetupRequest_getMachineIndex :: "('s, 'p) capnp_api \<Rightarrow> 's \<Rightarrow> u64" where
  [accessor_defs]: "RdmaSetupRequest_getMachineIndex api s =
     of_nat (data_field api 64 s 0)"

definition RdmaSetupRequest_setMachineIndex :: "('s, 'p) capnp_api \<Rightarrow> u64 \<Rightarrow> 's \<Rightarrow> 's" where
  [accessor_defs]: "RdmaSetupRequest_setMachineIndex api v s =
     put_data api 64 0 (unat v) s"

definition RdmaSetupRequest_getStartAddress :: "('s, 'p) capnp_api \<Rightarrow> 's \<Rightarrow> u64" where
  [accessor_defs]: "RdmaSetupRequest_getStartAddress api s =
     of_nat (data_field api 64 s 1)"

definition RdmaSetupRequest_setStartAddress :: "('s, 'p) capnp_api \<Rightarrow> u64 \<Rightarrow> 's \<Rightarrow> 's" where
  [accessor_defs]: "RdmaSetupRequest_setStartAddress api v s =
     put_data api 64 1 (unat v) s"

definition RdmaSetupRequest_getSize :: "('s, 'p) capnp_api \<Rightarrow> 's \<Rightarrow> u64" where
  [accessor_defs]: "RdmaSetupRequest_getSize api s =
     of_nat (data_field api 64 s 2)"

definition RdmaSetupRequest_setSize :: "('s, 'p) capnp_api \<Rightarrow> u64 \<Rightarrow> 's \<Rightarrow> 's" where
  [accessor_defs]: "RdmaSetupRequest_setSize api v s =
     put_data api 64 2 (unat v) s"

subsection \<open>RdmaSetupResponse\<close>

definition RdmaSetupResponse_getResponse :: "('s, 'p) capnp_api \<Rightarrow> 's \<Rightarrow> response_type option" where
  [accessor_defs]: "RdmaSetupResponse_getResponse api s =
     response_of_code (data_field api 16 s 0)"

definition RdmaSetupResponse_setResponse :: "('s, 'p) capnp_api \<Rightarrow> response_type \<Rightarrow> 's \<Rightarrow> 's" where
  [accessor_defs]: "RdmaSetupResponse_setResponse api v s =
     put_data api 16 0 (response_code v) s"

subsection \<open>ClientSyncRequest\<close>

definition ClientSyncRequest_getResponse :: "('s, 'p) capnp_api \<Rightarrow> 's \<Rightarrow> response_type option" where
  [accessor_defs]: "ClientSyncRequest_getResponse api s =
     response_of_code (data_field api 16 s 0)"

definition ClientSyncRequest_setResponse :: "('s, 'p) capnp_api \<Rightarrow> response_type \<Rightarrow> 's \<Rightarrow> 's" where
  [accessor_defs]: "ClientSyncRequest_setResponse api v s =
     put_data api 16 0 (response_code v) s"

definition ClientSyncRequest_getIndex :: "('s, 'p) capnp_api \<Rightarrow> 's \<Rightarrow> u64" where
  [accessor_defs]: "ClientSyncRequest_getIndex api s =
     of_nat (data_field api 64 s 1)"

definition ClientSyncRequest_setIndex :: "('s, 'p) capnp_api \<Rightarrow> u64 \<Rightarrow> 's \<Rightarrow> 's" where
  [accessor_defs]: "ClientSyncRequest_setIndex api v s =
     put_data api 64 1 (unat v) s"

subsection \<open>ClientSyncResponse\<close>

definition ClientSyncResponse_getResponse :: "('s, 'p) capnp_api \<Rightarrow> 's \<Rightarrow> response_type option" where
  [accessor_defs]: "ClientSyncResponse_getResponse api s =
     response_of_code (data_field api 16 s 0)"

definition ClientSyncResponse_setResponse :: "('s, 'p) capnp_api \<Rightarrow> response_type \<Rightarrow> 's \<Rightarrow> 's" where
  [accessor_defs]: "ClientSyncResponse_setResponse api v s =
     put_data api 16 0 (response_code v) s"

subsection \<open>SingletonPutRequest\<close>

definition SingletonPutRequest_hasKey :: "('s, 'p) capnp_api \<Rightarrow> 's \<Rightarrow> bool" where
  [accessor_defs]: "SingletonPutRequest_hasKey api s =
     (\<not> is_null api (pointer_field api s 0))"

definition SingletonPutRequest_getKey :: "('s, 'p) capnp_api \<Rightarrow> 's \<Rightarrow> string" where
  [accessor_defs]: "SingletonPutRequest_getKey api s =
     text_of api (pointer_field api s 0)"

definition SingletonPutRequest_setKey :: "('s, 'p) capnp_api \<Rightarrow> string \<Rightarrow> 's \<Rightarrow> 's" where
  [accessor_defs]: "SingletonPutRequest_setKey api v s =
     put_pointer api 0 (text_pointer api v) s"

definition SingletonPutRequest_initKey :: "('s, 'p) capnp_api \<Rightarrow> nat \<Rightarrow> (string \<Rightarrow> string) \<Rightarrow> 's \<Rightarrow> 's" where
  [accessor_defs]: "SingletonPutRequest_initKey api n f s =
     put_pointer api 0 (text_pointer api (f (replicate n (CHR 0x00)))) s"

definition SingletonPutRequest_adoptKey :: "('s, 'p) capnp_api \<Rightarrow> 'p \<Rightarrow> 's \<Rightarrow> 's" where
  [accessor_defs]: "SingletonPutRequest_adoptKey api orphan s =
     put_pointer api 0 orphan s"

definition SingletonPutRequest_disownKey :: "('s, 'p) capnp_api \<Rightarrow> 's \<Rightarrow> 'p \<times> 's" where
  [accessor_defs]: "SingletonPutRequest_disownKey api s =
     (pointer_field api s 0, put_pointer api 0 (null_pointer api) s)"

definition SingletonPutRequest_hasValue :: "('s, 'p) capnp_api \<Rightarrow> 's \<Rightarrow> bool" where
  [accessor_defs]: "SingletonPutRequest_hasValue api s =
     (\<not> is_null api (pointer_field api s 1))"

definition SingletonPutRequest_getValue :: "('s, 'p) capnp_api \<Rightarrow> 's \<Rightarrow> string" where
  [accessor_defs]: "SingletonPutRequest_getValue api s =
     text_of api (pointer_field api s 1)"

definition SingletonPutRequest_setValue :: "('s, 'p) capnp_api \<Rightarrow> string \<Rightarrow> 's \<Rightarrow> 's" where
  [accessor_defs]: "SingletonPutRequest_setValue api v s =
     put_pointer api 1 (text_pointer api v) s"

definition SingletonPutRequest_initValue :: "('s, 'p) capnp_api \<Rightarrow> nat \<Rightarrow> (string \<Rightarrow> string) \<Rightarrow> 's \<Rightarrow> 's" where
  [accessor_defs]: "SingletonPutRequest_initValue api n f s =
     put_pointer api 1 (text_pointer api (f (replicate n (CHR 0x00)))) s"

definition SingletonPutRequest_adoptValue :: "('s, 'p) capnp_api \<Rightarrow> 'p \<Rightarrow> 's \<Rightarrow> 's" where
  [accessor_defs]: "SingletonPutRequest_adoptValue api orphan s =
     put_pointer api 1 orphan s"

definition SingletonPutRequest_disownValue :: "('s, 'p) capnp_api \<Rightarrow> 's \<Rightarrow> 'p \<times> 's" where
  [accessor_defs]: "SingletonPutRequest_disownValue api s =
     (pointer_field api s 1, put_pointer api 1 (null_pointer api) s)"

definition SingletonPutRequest_getSingleton :: "('s, 'p) capnp_api \<Rightarrow> 's \<Rightarrow> bool" where
  [accessor_defs]: "SingletonPutRequest_getSingleton api s =
     (data_field api 1 s 0 = 1)"

definition SingletonPutRequest_setSingleton :: "('s, 'p) capnp_api \<Rightarrow> bool \<Rightarrow> 's \<Rightarrow> 's" where
  [accessor_defs]: "SingletonPutRequest_setSingleton api v s =
     put_data api 1 0 (of_bool v) s"

definition SingletonPutRequest_getForwardCount :: "('s, 'p) capnp_api \<Rightarrow> 's \<Rightarrow> u64" where
  [accessor_defs]: "SingletonPutRequest_getForwardCount api s =
     of_nat (data_field api 64 s 1)"

definition SingletonPutRequest_setForwardCount :: "('s, 'p) capnp_api \<Rightarrow> u64 \<Rightarrow> 's \<Rightarrow> 's" where
  [accessor_defs]: "SingletonPutRequest_setForwardCount api v s =
     put_data api 64 1 (unat v) s"

subsection \<open>DeleteRequest\<close>

definition DeleteRequest_hasKey :: "('s, 'p) capnp_api \<Rightarrow> 's \<Rightarrow> bool" where
  [accessor_defs]: "DeleteRequest_hasKey api s =
     (\<not> is_null api (pointer_field api s 0))"

definition DeleteRequest_getKey :: "('s, 'p) capnp_api \<Rightarrow> 's \<Rightarrow> string" where
  [accessor_defs]: "DeleteRequest_getKey api s =
     text_of api (pointer_field api s 0)"

definition DeleteRequest_setKey :: "('s, 'p) capnp_api \<Rightarrow> string \<Rightarrow> 's \<Rightarrow> 's" where
  [accessor_defs]: "DeleteRequest_setKey api v s =
     put_pointer api 0 (text_pointer api v) s"

definition DeleteRequest_initKey :: "('s, 'p) capnp_api \<Rightarrow> nat \<Rightarrow> (string \<Rightarrow> string) \<Rightarrow> 's \<Rightarrow> 's" where
  [accessor_defs]: "DeleteRequest_initKey api n f s =
     put_pointer api 0 (text_pointer api (f (replicate n (CHR 0x00)))) s"

definition DeleteRequest_adoptKey :: "('s, 'p) capnp_api \<Rightarrow> 'p \<Rightarrow> 's \<Rightarrow> 's" where
  [accessor_defs]: "DeleteRequest_adoptKey api orphan s =
     put_pointer api 0 orphan s"

definition DeleteRequest_disownKey :: "('s, 'p) capnp_api \<Rightarrow> 's \<Rightarrow> 'p \<times> 's" where
  [accessor_defs]: "DeleteRequest_disownKey api s =
     (pointer_field api s 0, put_pointer api 0 (null_pointer api) s)"

subsection \<open>Packet\<close>

definition Packet_getData :: "('s, 'p) capnp_api \<Rightarrow> 's \<Rightarrow> 's" where
  [accessor_defs]: "Packet_getData api s =
     s"

definition Packet_initData :: "('s, 'p) capnp_api \<Rightarrow> ('s \<Rightarrow> 's) \<Rightarrow> 's \<Rightarrow> 's" where
  [accessor_defs]: "Packet_initData api f s =
     f (put_pointer api 0 (null_pointer api) (put_data api 16 0 0 s))"

subsection \<open>Packet::Data\<close>

definition Data_which :: "('s, 'p) capnp_api \<Rightarrow> 's \<Rightarrow> nat" where
  [accessor_defs]: "Data_which api s =
     data_field api 16 s 0"

definition Data_isPutRequest :: "('s, 'p) capnp_api \<Rightarrow> 's \<Rightarrow> bool" where
  [accessor_defs]: "Data_isPutRequest api s =
     (Data_which api s = which_code PUT_REQUEST)"

definition Data_hasPutRequest :: "('s, 'p) capnp_api \<Rightarrow> 's \<Rightarrow> bool" where
  [accessor_defs]: "Data_hasPutRequest api s =
     (if Data_which api s \<noteq> which_code PUT_REQUEST then False else \<not> is_null api (pointer_field api s 0))"

definition Data_getPutRequest :: "('s, 'p) capnp_api \<Rightarrow> 's \<Rightarrow> 's res" where
  [accessor_defs]: "Data_getPutRequest api s =
     bindR (must_check api (Data_which api s = which_code PUT_REQUEST)) (\<lambda>_.
     Inr (struct_of api (pointer_field api s 0)))"

definition Data_setPutRequest :: "('s, 'p) capnp_api \<Rightarrow> 's \<Rightarrow> 's \<Rightarrow> 's" where
  [accessor_defs]: "Data_setPutRequest api v s =
     put_pointer api 0 (struct_pointer api v) (put_data api 16 0 (which_code PUT_REQUEST) s)"

definition Data_initPutRequest :: "('s, 'p) capnp_api \<Rightarrow> ('s \<Rightarrow> 's) \<Rightarrow> 's \<Rightarrow> 's" where
  [accessor_defs]: "Data_initPutRequest api f s =
     put_pointer api 0 (struct_pointer api (f (new_struct api PutRequest_size))) (put_data api 16 0 (which_code PUT_REQUEST) s)"

definition Data_adoptPutRequest :: "('s, 'p) capnp_api \<Rightarrow> 'p \<Rightarrow> 's \<Rightarrow> 's" where
  [accessor_defs]: "Data_adoptPutRequest api orphan s =
     put_pointer api 0 orphan (put_data api 16 0 (which_code PUT_REQUEST) s)"

definition Data_disownPutRequest :: "('s, 'p) capnp_api \<Rightarrow> 's \<Rightarrow> ('p \<times> 's) res" where
  [accessor_defs]: "Data_disownPutRequest api s =
     bindR (must_check api (Data_which api s = which_code PUT_REQUEST)) (\<lambda>_.
     Inr (pointer_field api s 0, put_pointer api 0 (null_pointer api) s))"

definition Data_isPutResponse :: "('s, 'p) capnp_api \<Rightarrow> 's \<Rightarrow> bool" where
  [accessor_defs]: "Data_isPutResponse api s =
     (Data_which api s = which_code PUT_RESPONSE)"

definition Data_hasPutResponse :: "('s, 'p) capnp_api \<Rightarrow> 's \<Rightarrow> bool" where
  [accessor_defs]: "Data_hasPutResponse api s =
     (if Data_which api s \<noteq> which_code PUT_RESPONSE then False else \<not> is_null api (pointer_field api s 0))"

definition Data_getPutResponse :: "('s, 'p) capnp_api \<Rightarrow> 's \<Rightarrow> 's res" where
  [accessor_defs]: "Data_getPutResponse api s =
     bindR (must_check api (Data_which api s = which_code PUT_RESPONSE)) (\<lambda>_.
     Inr (struct_of api (pointer_field api s 0)))"

definition Data_setPutResponse :: "('s, 'p) capnp_api \<Rightarrow> 's \<Rightarrow> 's \<Rightarrow> 's" where
  [accessor_defs]: "Data_setPutResponse api v s =
     put_pointer api 0 (struct_pointer api v) (put_data api 16 0 (which_code PUT_RESPONSE) s)"

definition Data_initPutResponse :: "('s, 'p) capnp_api \<Rightarrow> ('s \<Rightarrow> 's) \<Rightarrow> 's \<Rightarrow> 's" where
  [accessor_defs]: "Data_initPutResponse api f s =
     put_pointer api 0 (struct_pointer api (f (new_struct api PutResponse_size))) (put_data api 16 0 (which_code PUT_RESPONSE) s)"

definition Data_adoptPutResponse :: "('s, 'p) capnp_api \<Rightarrow> 'p \<Rightarrow> 's \<Rightarrow> 's" where
  [accessor_defs]: "Data_adoptPutResponse api orphan s =
     put_pointer api 0 orphan (put_data api 16 0 (which_code PUT_RESPONSE) s)"

definition Data_disownPutResponse :: "('s, 'p) capnp_api \<Rightarrow> 's \<Rightarrow> ('p \<times> 's) res" where
  [accessor_defs]: "Data_disownPutResponse api s =
     bindR (must_check api (Data_which api s = which_code PUT_RESPONSE)) (\<lambda>_.
     Inr (pointer_field api s 0, put_pointer api 0 (null_pointer api) s))"

definition Data_isGetRequest :: "('s, 'p) capnp_api \<Rightarrow> 's \<Rightarrow> bool" where
  [accessor_defs]: "Data_isGetRequest api s =
     (Data_which api s = which_code GET_REQUEST)"

definition Data_hasGetRequest :: "('s, 'p) capnp_api \<Rightarrow> 's \<Rightarrow> bool" where
  [accessor_defs]: "Data_hasGetRequest api s =
     (if Data_which api s \<noteq> which_code GET_REQUEST then False else \<not> is_null api (pointer_field api s 0))"

definition Data_getGetRequest :: "('s, 'p) capnp_api \<Rightarrow> 's \<Rightarrow> 's res" where
  [accessor_defs]: "Data_getGetRequest api s =
     bindR (must_check api (Data_which api s = which_code GET_REQUEST)) (\<lambda>_.
     Inr (struct_of api (pointer_field api s 0)))"

definition Data_setGetRequest :: "('s, 'p) capnp_api \<Rightarrow> 's \<Rightarrow> 's \<Rightarrow> 's" where
  [accessor_defs]: "Data_setGetRequest api v s =
     put_pointer api 0 (struct_pointer api v) (put_data api 16 0 (which_code GET_REQUEST) s)"

definition Data_initGetRequest :: "('s, 'p) capnp_api \<Rightarrow> ('s \<Rightarrow> 's) \<Rightarrow> 's \<Rightarrow> 's" where
  [accessor_defs]: "Data_initGetRequest api f s =
     put_pointer api 0 (struct_pointer api (f (new_struct api GetRequest_size))) (put_data api 16 0 (which_code GET_REQUEST) s)"

definition Data_adoptGetRequest :: "('s, 'p) capnp_api \<Rightarrow> 'p \<Rightarrow> 's \<Rightarrow> 's" where
  [accessor_defs]: "Data_adoptGetRequest api orphan s =
     put_pointer api 0 orphan (put_data api 16 0 (which_code GET_REQUEST) s)"

definition Data_disownGetRequest :: "('s, 'p) capnp_api \<Rightarrow> 's \<Rightarrow> ('p \<times> 's) res" where
  [accessor_defs]: "Data_disownGetRequest api s =
     bindR (must_check api (Data_which api s = which_code GET_REQUEST)) (\<lambda>_.
     Inr (pointer_field api s 0, put_pointer api 0 (null_pointer api) s))"

definition Data_isGetResponse :: "('s, 'p) capnp_api \<Rightarrow> 's \<Rightarrow> bool" where
  [accessor_defs]: "Data_isGetResponse api s =
     (Data_which api s = which_code GET_RESPONSE)"

definition Data_hasGetResponse :: "('s, 'p) capnp_api \<Rightarrow> 's \<Rightarrow> bool" where
  [accessor_defs]: "Data_hasGetResponse api s =
     (if Data_which api s \<noteq> which_code GET_RESPONSE then False else \<not> is_null api (pointer_field api s 0))"

definition Data_getGetResponse :: "('s, 'p) capnp_api \<Rightarrow> 's \<Rightarrow> 's res" where
  [accessor_defs]: "Data_getGetResponse api s =
     bindR (must_check api (Data_which api s = which_code GET_RESPONSE)) (\<lambda>_.
     Inr (struct_of api (pointer_field api s 0)))"

definition Data_setGetResponse :: "('s, 'p) capnp_api \<Rightarrow> 's \<Rightarrow> 's \<Rightarrow> 's" where
  [accessor_defs]: "Data_setGetResponse api v s =
     put_pointer api 0 (struct_pointer api v) (put_data api 16 0 (which_code GET_RESPONSE) s)"

definition Data_initGetResponse :: "('s, 'p) capnp_api \<Rightarrow> ('s \<Rightarrow> 's) \<Rightarrow> 's \<Rightarrow> 's" where
  [accessor_defs]: "Data_initGetResponse api f s =
     put_pointer api 0 (struct_pointer api (f (new_struct api GetResponse_size))) (put_data api 16 0 (which_code GET_RESPONSE) s)"

definition Data_adoptGetResponse :: "('s, 'p) capnp_api \<Rightarrow> 'p \<Rightarrow> 's \<Rightarrow> 's" where
  [accessor_defs]: "Data_adoptGetResponse api orphan s =
     put_pointer api 0 orphan (put_data api 16 0 (which_code GET_RESPONSE) s)"

definition Data_disownGetResponse :: "('s, 'p) capnp_api \<Rightarrow> 's \<Rightarrow> ('p \<times> 's) res" where
  [accessor_defs]: "Data_disownGetResponse api s =
     bindR (must_check api (Data_which api s = which_code GET_RESPONSE)) (\<lambda>_.
     Inr (pointer_field api s 0, put_pointer api 0 (null_pointer api) s))"

definition Data_isRdmaSetupRequest :: "('s, 'p) capnp_api \<Rightarrow> 's \<Rightarrow> bool" where
  [accessor_defs]: "Data_isRdmaSetupRequest api s =
     (Data_which api s = which_code RDMA_SETUP_REQUEST)"

definition Data_hasRdmaSetupRequest :: "('s, 'p) capnp_api \<Rightarrow> 's \<Rightarrow> bool" where
  [accessor_defs]: "Data_hasRdmaSetupRequest api s =
     (if Data_which api s \<noteq> which_code RDMA_SETUP_REQUEST then False else \<not> is_null api (pointer_field api s 0))"

definition Data_getRdmaSetupRequest :: "('s, 'p) capnp_api \<Rightarrow> 's \<Rightarrow> 's res" where
  [accessor_defs]: "Data_getRdmaSetupRequest api s =
     bindR (must_check api (Data_which api s = which_code RDMA_SETUP_REQUEST)) (\<lambda>_.
     Inr (struct_of api (pointer_field api s 0)))"

definition Data_setRdmaSetupRequest :: "('s, 'p) capnp_api \<Rightarrow> 's \<Rightarrow> 's \<Rightarrow> 's" where
  [accessor_defs]: "Data_setRdmaSetupRequest api v s =
     put_pointer api 0 (struct_pointer api v) (put_data api 16 0 (which_code RDMA_SETUP_REQUEST) s)"

definition Data_initRdmaSetupRequest :: "('s, 'p) capnp_api \<Rightarrow> ('s \<Rightarrow> 's) \<Rightarrow> 's \<Rightarrow> 's" where
  [accessor_defs]: "Data_initRdmaSetupRequest api f s =
     put_pointer api 0 (struct_pointer api (f (new_struct api RdmaSetupRequest_size))) (put_data api 16 0 (which_code RDMA_SETUP_REQUEST) s)"

definition Data_adoptRdmaSetupRequest :: "('s, 'p) capnp_api \<Rightarrow> 'p \<Rightarrow> 's \<Rightarrow> 's" where
  [accessor_defs]: "Data_adoptRdmaSetupRequest api orphan s =
     put_pointer api 0 orphan (put_data api 16 0 (which_code RDMA_SETUP_REQUEST) s)"

definition Data_disownRdmaSetupRequest :: "('s, 'p) capnp_api \<Rightarrow> 's \<Rightarrow> ('p \<times> 's) res" where
  [accessor_defs]: "Data_disownRdmaSetupRequest api s =
     bindR (must_check api (Data_which api s = which_code RDMA_SETUP_REQUEST)) (\<lambda>_.
     Inr (pointer_field api s 0, put_pointer api 0 (null_pointer api) s))"

definition Data_isRdmaSetupResponse :: "('s, 'p) capnp_api \<Rightarrow> 's \<Rightarrow> bool" where
  [accessor_defs]: "Data_isRdmaSetupResponse api s =
     (Data_which api s = which_code RDMA_SETUP_RESPONSE)"

definition Data_hasRdmaSetupResponse :: "('s, 'p) capnp_api \<Rightarrow> 's \<Rightarrow> bool" where
  [accessor_defs]: "Data_hasRdmaSetupResponse api s =
     (if Data_which api s \<noteq> which_code RDMA_SETUP_RESPONSE then False else \<not> is_null api (pointer_field api s 0))"

definition Data_getRdmaSetupResponse :: "('s, 'p) capnp_api \<Rightarrow> 's \<Rightarrow> 's res" where
  [accessor_defs]: "Data_getRdmaSetupResponse api s =
     bindR (must_check api (Data_which api s = which_code RDMA_SETUP_RESPONSE)) (\<lambda>_.
     Inr (struct_of api (pointer_field api s 0)))"

definition Data_setRdmaSetupResponse :: "('s, 'p) capnp_api \<Rightarrow> 's \<Rightarrow> 's \<Rightarrow> 's" where
  [accessor_defs]: "Data_setRdmaSetupResponse api v s =
     put_pointer api 0 (struct_pointer api v) (put_data api 16 0 (which_code RDMA_SETUP_RESPONSE) s)"

definition Data_initRdmaSetupResponse :: "('s, 'p) capnp_api \<Rightarrow> ('s \<Rightarrow> 's) \<Rightarrow> 's \<Rightarrow> 's" where
  [accessor_defs]: "Data_initRdmaSetupResponse api f s =
     put_pointer api 0 (struct_pointer api (f (new_struct api RdmaSetupResponse_size))) (put_data api 16 0 (which_code RDMA_SETUP_RESPONSE) s)"

definition Data_adoptRdmaSetupResponse :: "('s, 'p) capnp_api \<Rightarrow> 'p \<Rightarrow> 's \<Rightarrow> 's" where
  [accessor_defs]: "Data_adoptRdmaSetupResponse api orphan s =
     put_pointer api 0 orphan (put_data api 16 0 (which_code RDMA_SETUP_RESPONSE) s)"

definition Data_disownRdmaSetupResponse :: "('s, 'p) capnp_api \<Rightarrow> 's \<Rightarrow> ('p \<times> 's) res" where
  [accessor_defs]: "Data_disownRdmaSetupResponse api s =
     bindR (must_check api (Data_which api s = which_code RDMA_SETUP_RESPONSE)) (\<lambda>_.
     Inr (pointer_field api s 0, put_pointer api 0 (null_pointer api) s))"

definition Data_isClientSyncRequest :: "('s, 'p) capnp_api \<Rightarrow> 's \<Rightarrow> bool" where
  [accessor_defs]: "Data_isClientSyncRequest api s =
     (Data_which api s = which_code CLIENT_SYNC_REQUEST)"

definition Data_hasClientSyncRequest :: "('s, 'p) capnp_api \<Rightarrow> 's \<Rightarrow> bool" where
  [accessor_defs]: "Data_hasClientSyncRequest api s =
     (if Data_which api s \<noteq> which_code CLIENT_SYNC_REQUEST then False else \<not> is_null api (pointer_field api s 0))"

definition Data_getClientSyncRequest :: "('s, 'p) capnp_api \<Rightarrow> 's \<Rightarrow> 's res" where
  [accessor_defs]: "Data_getClientSyncRequest api s =
     bindR (must_check api (Data_which api s = which_code CLIENT_SYNC_REQUEST)) (\<lambda>_.
     Inr (struct_of api (pointer_field api s 0)))"

definition Data_setClientSyncRequest :: "('s, 'p) capnp_api \<Rightarrow> 's \<Rightarrow> 's \<Rightarrow> 's" where
  [accessor_defs]: "Data_setClientSyncRequest api v s =
     put_pointer api 0 (struct_pointer api v) (put_data api 16 0 (which_code CLIENT_SYNC_REQUEST) s)"

definition Data_initClientSyncRequest :: "('s, 'p) capnp_api \<Rightarrow> ('s \<Rightarrow> 's) \<Rightarrow> 's \<Rightarrow> 's" where
  [accessor_defs]: "Data_initClientSyncRequest api f s =
     put_pointer api 0 (struct_pointer api (f (new_struct api ClientSyncRequest_size))) (put_data api 16 0 (which_code CLIENT_SYNC_REQUEST) s)"

definition Data_adoptClientSyncRequest :: "('s, 'p) capnp_api \<Rightarrow> 'p \<Rightarrow> 's \<Rightarrow> 's" where
  [accessor_defs]: "Data_adoptClientSyncRequest api orphan s =
     put_pointer api 0 orphan (put_data api 16 0 (which_code CLIENT_SYNC_REQUEST) s)"

definition Data_disownClientSyncRequest :: "('s, 'p) capnp_api \<Rightarrow> 's \<Rightarrow> ('p \<times> 's) res" where
  [accessor_defs]: "Data_disownClientSyncRequest api s =
     bindR (must_check api (Data_which api s = which_code CLIENT_SYNC_REQUEST)) (\<lambda>_.
     Inr (pointer_field api s 0, put_pointer api 0 (null_pointer api) s))"

definition Data_isClientSyncResponse :: "('s, 'p) capnp_api \<Rightarrow> 's \<Rightarrow> bool" where
  [accessor_defs]: "Data_isClientSyncResponse api s =
     (Data_which api s = which_code CLIENT_SYNC_RESPONSE)"

definition Data_hasClientSyncResponse :: "('s, 'p) capnp_api \<Rightarrow> 's \<Rightarrow> bool" where
  [accessor_defs]: "Data_hasClientSyncResponse api s =
     (if Data_which api s \<noteq> which_code CLIENT_SYNC_RESPONSE then False else \<not> is_null api (pointer_field api s 0))"

definition Data_getClientSyncResponse :: "('s, 'p) capnp_api \<Rightarrow> 's \<Rightarrow> 's res" where
  [accessor_defs]: "Data_getClientSyncResponse api s =
     bindR (must_check api (Data_which api s = which_code CLIENT_SYNC_RESPONSE)) (\<lambda>_.
     Inr (struct_of api (pointer_field api s 0)))"

definition Data_setClientSyncResponse :: "('s, 'p) capnp_api \<Rightarrow> 's \<Rightarrow> 's \<Rightarrow> 's" where
  [accessor_defs]: "Data_setClientSyncResponse api v s =
     put_pointer api 0 (struct_pointer api v) (put_data api 16 0 (which_code CLIENT_SYNC_RESPONSE) s)"

definition Data_initClientSyncResponse :: "('s, 'p) capnp_api \<Rightarrow> ('s \<Rightarrow> 's) \<Rightarrow> 's \<Rightarrow> 's" where
  [accessor_defs]: "Data_initClientSyncResponse api f s =
     put_pointer api 0 (struct_pointer api (f (new_struct api ClientSyncResponse_size))) (put_data api 16 0 (which_code CLIENT_SYNC_RESPONSE) s)"

definition Data_adoptClientSyncResponse :: "('s, 'p) capnp_api \<Rightarrow> 'p \<Rightarrow> 's \<Rightarrow> 's" where
  [accessor_defs]: "Data_adoptClientSyncResponse api orphan s =
     put_pointer api 0 orphan (put_data api 16 0 (which_code CLIENT_SYNC_RESPONSE) s)"

definition Data_disownClientSyncResponse :: "('s, 'p) capnp_api \<Rightarrow> 's \<Rightarrow> ('p \<times> 's) res" where
  [accessor_defs]: "Data_disownClientSyncResponse api s =
     bindR (must_check api (Data_which api s = which_code CLIENT_SYNC_RESPONSE)) (\<lambda>_.
     Inr (pointer_field api s 0, put_pointer api 0 (null_pointer api) s))"

definition Data_isSingletonPutRequest :: "('s, 'p) capnp_api \<Rightarrow> 's \<Rightarrow> bool" where
  [accessor_defs]: "Data_isSingletonPutRequest api s =
     (Data_which api s = which_code SINGLETON_PUT_REQUEST)"

definition Data_hasSingletonPutRequest :: "('s, 'p) capnp_api \<Rightarrow> 's \<Rightarrow> bool" where
  [accessor_defs]: "Data_hasSingletonPutRequest api s =
     (if Data_which api s \<noteq> which_code SINGLETON_PUT_REQUEST then False else \<not> is_null api (pointer_field api s 0))"

definition Data_getSingletonPutRequest :: "('s, 'p) capnp_api \<Rightarrow> 's \<Rightarrow> 's res" where
  [accessor_defs]: "Data_getSingletonPutRequest api s =
     bindR (must_check api (Data_which api s = which_code SINGLETON_PUT_REQUEST)) (\<lambda>_.
     Inr (struct_of api (pointer_field api s 0)))"

definition Data_setSingletonPutRequest :: "('s, 'p) capnp_api \<Rightarrow> 's \<Rightarrow> 's \<Rightarrow> 's" where
  [accessor_defs]: "Data_setSingletonPutRequest api v s =
     put_pointer api 0 (struct_pointer api v) (put_data api 16 0 (which_code SINGLETON_PUT_REQUEST) s)"

definition Data_initSingletonPutRequest :: "('s, 'p) capnp_api \<Rightarrow> ('s \<Rightarrow> 's) \<Rightarrow> 's \<Rightarrow> 's" where
  [accessor_defs]: "Data_initSingletonPutRequest api f s =
     put_pointer api 0 (struct_pointer api (f (new_struct api SingletonPutRequest_size))) (put_data api 16 0 (which_code SINGLETON_PUT_REQUEST) s)"

definition Data_adoptSingletonPutRequest :: "('s, 'p) capnp_api \<Rightarrow> 'p \<Rightarrow> 's \<Rightarrow> 's" where
  [accessor_defs]: "Data_adoptSingletonPutRequest api orphan s =
     put_pointer api 0 orphan (put_data api 16 0 (which_code SINGLETON_PUT_REQUEST) s)"

definition Data_disownSingletonPutRequest :: "('s, 'p) capnp_api \<Rightarrow> 's \<Rightarrow> ('p \<times> 's) res" where
  [accessor_defs]: "Data_disownSingletonPutRequest api s =
     bindR (must_check api (Data_which api s = which_code SINGLETON_PUT_REQUEST)) (\<lambda>_.
     Inr (pointer_field api s 0, put_pointer api 0 (null_pointer api) s))"

definition Data_isDeleteRequest :: "('s, 'p) capnp_api \<Rightarrow> 's \<Rightarrow> bool" where
  [accessor_defs]: "Data_isDeleteRequest api s =
     (Data_which api s = which_code DELETE_REQUEST)"

definition Data_hasDeleteRequest :: "('s, 'p) capnp_api \<Rightarrow> 's \<Rightarrow> bool" where
  [accessor_defs]: "Data_hasDeleteRequest api s =
     (if Data_which api s \<noteq> which_code DELETE_REQUEST then False else \<not> is_null api (pointer_field api s 0))"

definition Data_getDeleteRequest :: "('s, 'p) capnp_api \<Rightarrow> 's \<Rightarrow> 's res" where
  [accessor_defs]: "Data_getDeleteRequest api s =
     bindR (must_check api (Data_which api s = which_code DELETE_REQUEST)) (\<lambda>_.
     Inr (struct_of api (pointer_field api s 0)))"

definition Data_setDeleteRequest :: "('s, 'p) capnp_api \<Rightarrow> 's \<Rightarrow> 's \<Rightarrow> 's" where
  [accessor_defs]: "Data_setDeleteRequest api v s =
     put_pointer api 0 (struct_pointer api v) (put_data api 16 0 (which_code DELETE_REQUEST) s)"

definition Data_initDeleteRequest :: "('s, 'p) capnp_api \<Rightarrow> ('s \<Rightarrow> 's) \<Rightarrow> 's \<Rightarrow> 's" where
  [accessor_defs]: "Data_initDeleteRequest api f s =
     put_pointer api 0 (struct_pointer api (f (new_struct api DeleteRequest_size))) (put_data api 16 0 (which_code DELETE_REQUEST) s)"

definition Data_adoptDeleteRequest :: "('s, 'p) capnp_api \<Rightarrow> 'p \<Rightarrow> 's \<Rightarrow> 's" where
  [accessor_defs]: "Data_adoptDeleteRequest api orphan s =
     put_pointer api 0 orphan (put_data api 16 0 (which_code DELETE_REQUEST) s)"

definition Data_disownDeleteRequest :: "('s, 'p) capnp_api \<Rightarrow> 's \<Rightarrow> ('p \<times> 's) res" where
  [accessor_defs]: "Data_disownDeleteRequest api s =
     bindR (must_check api (Data_which api s = which_code DELETE_REQUEST)) (\<lambda>_.
     Inr (pointer_field api s 0, put_pointer api 0 (null_pointer api) s))"

subsection \<open>Packets\<close>

definition Packets_hasPackets :: "('s, 'p) capnp_api \<Rightarrow> 's \<Rightarrow> bool" where
  [accessor_defs]: "Packets_hasPackets api s =
     (\<not> is_null api (pointer_field api s 0))"

definition Packets_getPackets :: "('s, 'p) capnp_api \<Rightarrow> 's \<Rightarrow> 's list" where
  [accessor_defs]: "Packets_getPackets api s =
     structs_of api (pointer_field api s 0)"

definition Packets_setPackets :: "('s, 'p) capnp_api \<Rightarrow> 's list \<Rightarrow> 's \<Rightarrow> 's" where
  [accessor_defs]: "Packets_setPackets api v s =
     put_pointer api 0 (structs_pointer api v) s"

definition Packets_initPackets :: "('s, 'p) capnp_api \<Rightarrow> nat \<Rightarrow> ('s list \<Rightarrow> 's list) \<Rightarrow> 's \<Rightarrow> 's" where
  [accessor_defs]: "Packets_initPackets api n f s =
     put_pointer api 0 (structs_pointer api (f (replicate n (new_struct api Packet_size)))) s"

definition Packets_adoptPackets :: "('s, 'p) capnp_api \<Rightarrow> 'p \<Rightarrow> 's \<Rightarrow> 's" where
  [accessor_defs]: "Packets_adoptPackets api orphan s =
     put_pointer api 0 orphan s"

definition Packets_disownPackets :: "('s, 'p) capnp_api \<Rightarrow> 's \<Rightarrow> 'p \<times> 's" where
  [accessor_defs]: "Packets_disownPackets api s =
     (pointer_field api s 0, put_pointer api 0 (null_pointer api) s)"

section \<open>Laws of the union\<close>

text \<open>
  A member that was set is the one that is found, and what was put into it is read back; the tag
  lies in the data section of the packet, so a packet needs one word of data and one pointer.
\<close>

lemmas union_defs = Data_which_def must_check_def

context capnp_structs
begin

lemma union_tag:
  assumes "struct_size api s = Data_size"
  shows "data_field api 16 (put_pointer api 0 p (put_data api 16 0 (which_code w) s)) 0 = which_code w"
    and "pointer_field api (put_pointer api 0 p (put_data api 16 0 (which_code w) s)) 0 = p"
  using assms by (simp_all add: data_pointer data_same pointer_same put_data_size Data_size_def)

end

end
