(* ===== verification/Packet_Wire.thy ===== *)
theory Packet_Wire
  imports Packet_Accessors Server_Worker
begin

text \<open>
  The messages as the program builds and reads them with the generated accessors: the builders of
  \<open>connection.cpp\<close>, the receive loop of \<open>connection.h\<close> over the root of a message, and the handlers
  of \<open>connection.cpp\<close> and \<open>ldc.cpp\<close> that take a packet apart. They refine the definitions of
  \<open>Connection\<close> and \<open>Server_Worker\<close>, where a message is its list of packets.

  \<open>messageToFlatArray\<close> and \<open>FlatArrayMessageReader\<close> are not modelled: what is sent and received is
  the root of the message. Log messages are left out.
\<close>

section \<open>Building messages\<close>

text \<open>\<open>initRoot\<close>, \<open>initPackets(1)\<close> and \<open>packet[0].initData()\<close>, with which every message begins.\<close>

definition one_packet :: "('s, 'p) capnp_api \<Rightarrow> ('s \<Rightarrow> 's) \<Rightarrow> 's" where
  "one_packet api f =
     Packets_initPackets api 1 (\<lambda>packet. packet[0 := Packet_initData api f (packet ! 0)]) (new_struct api Packets_size)"

definition put_message :: "('s, 'p) capnp_api \<Rightarrow> string \<Rightarrow> string \<Rightarrow> 's" where
  "put_message api key value = one_packet api (Data_initPutRequest api (\<lambda>put_request.
     PutRequest_setValue api value (PutRequest_setKey api key put_request)))"

definition get_message :: "('s, 'p) capnp_api \<Rightarrow> string \<Rightarrow> 's" where
  "get_message api key = one_packet api (Data_initGetRequest api (GetRequest_setKey api key))"

definition client_sync_message :: "('s, 'p) capnp_api \<Rightarrow> response_type \<Rightarrow> u64 \<Rightarrow> 's" where
  "client_sync_message api r my_index = one_packet api (Data_initClientSyncRequest api (\<lambda>client_sync_request.
     ClientSyncRequest_setIndex api my_index (ClientSyncRequest_setResponse api r client_sync_request)))"

definition put_response_message :: "('s, 'p) capnp_api \<Rightarrow> response_type \<Rightarrow> 's" where
  "put_response_message api r = one_packet api (Data_initPutResponse api (PutResponse_setResponse api r))"

definition get_response_message :: "('s, 'p) capnp_api \<Rightarrow> response_type \<Rightarrow> string \<Rightarrow> 's" where
  "get_response_message api r value = one_packet api (Data_initGetResponse api (\<lambda>get_response.
     GetResponse_setValue api value (GetResponse_setResponse api r get_response)))"

definition rdma_setup_message :: "('s, 'p) capnp_api \<Rightarrow> u64 \<Rightarrow> u64 \<Rightarrow> u64 \<Rightarrow> 's" where
  "rdma_setup_message api my_index start_address sz = one_packet api (Data_initRdmaSetupRequest api (\<lambda>request.
     RdmaSetupRequest_setSize api sz (RdmaSetupRequest_setStartAddress api start_address
      (RdmaSetupRequest_setMachineIndex api my_index request))))"

definition rdma_setup_response_message :: "('s, 'p) capnp_api \<Rightarrow> response_type \<Rightarrow> 's" where
  "rdma_setup_response_message api r = one_packet api (Data_initRdmaSetupResponse api (RdmaSetupResponse_setResponse api r))"

definition singleton_put_message :: "('s, 'p) capnp_api \<Rightarrow> string \<Rightarrow> string \<Rightarrow> bool \<Rightarrow> u64 \<Rightarrow> 's" where
  "singleton_put_message api key value singleton forward_count = one_packet api (Data_initSingletonPutRequest api (\<lambda>request.
     SingletonPutRequest_setForwardCount api forward_count (SingletonPutRequest_setSingleton api singleton
      (SingletonPutRequest_setValue api value (SingletonPutRequest_setKey api key request)))))"

definition delete_message :: "('s, 'p) capnp_api \<Rightarrow> string \<Rightarrow> 's" where
  "delete_message api key = one_packet api (Data_initDeleteRequest api (DeleteRequest_setKey api key))"

text \<open>
  Which function builds which packet. Nothing in the program builds a \<open>ClientSyncResponse\<close>, and the
  two functions for the RDMA setup panic before they build theirs.
\<close>

fun message_of :: "('s, 'p) capnp_api \<Rightarrow> packet \<Rightarrow> 's" where
  "message_of api (PutRequest key value) = put_message api key value"
| "message_of api (PutResponse r) = put_response_message api r"
| "message_of api (GetRequest key) = get_message api key"
| "message_of api (GetResponse r value) = get_response_message api r value"
| "message_of api (RdmaSetupRequest m a n) = rdma_setup_message api m a n"
| "message_of api (RdmaSetupResponse r) = rdma_setup_response_message api r"
| "message_of api (ClientSyncRequest r i) = client_sync_message api r i"
| "message_of api (ClientSyncResponse r) =
     one_packet api (Data_initClientSyncResponse api (ClientSyncResponse_setResponse api r))"
| "message_of api (SingletonPutRequest key value b n) = singleton_put_message api key value b n"
| "message_of api (DeleteRequest key) = delete_message api key"

lemmas message_defs = put_message_def put_response_message_def get_message_def get_response_message_def
  rdma_setup_message_def rdma_setup_response_message_def client_sync_message_def singleton_put_message_def
  delete_message_def

fun packet_fits :: "packet \<Rightarrow> bool" where
  "packet_fits (PutRequest key value) \<longleftrightarrow> text_fits key \<and> text_fits value"
| "packet_fits (GetRequest key) \<longleftrightarrow> text_fits key"
| "packet_fits (GetResponse r value) \<longleftrightarrow> text_fits value"
| "packet_fits (SingletonPutRequest key value b n) \<longleftrightarrow> text_fits key \<and> text_fits value"
| "packet_fits (DeleteRequest key) \<longleftrightarrow> text_fits key"
| "packet_fits _ \<longleftrightarrow> True"

section \<open>Receiving\<close>

datatype 's wire_result = Wire_error | Wire_nothing | Wire flow 's

type_synonym ('d, 's) wire_handler = "int \<Rightarrow> int \<Rightarrow> flow \<Rightarrow> 'd \<Rightarrow> 's \<Rightarrow> 's res"

definition receive_wire ::
    "('m, 'p) capnp_api \<Rightarrow> ('m, 'a connection_scheme \<times> 'l) wire_handler \<Rightarrow> 'm wire_result \<Rightarrow> 'a connection_scheme \<times> 'l
     \<Rightarrow> (bool \<times> 'a connection_scheme \<times> 'l) res" where
  "receive_wire api handler ev st =
     (case ev of
        Wire_error \<Rightarrow> Inl (Exit (-1))
      | Wire_nothing \<Rightarrow> Inr (False, st)
      | Wire rx_flow packets \<Rightarrow>
          bindR (foldR (\<lambda>packet (c, l).
            let data = Packet_getData api packet;
                (remote_index, c) = note_sender rx_flow c in
            handler remote_index (src_port rx_flow) (reply_flow rx_flow) data (c, l))
           (Packets_getPackets api packets) st) (\<lambda>st.
          Inr (True, st)))"

definition put_handler_wire :: "('m, 'p) capnp_api \<Rightarrow> ('m, 'a connection_scheme \<times> unit) wire_handler" where
  "put_handler_wire api remote_index remote_port tx_flow data = (\<lambda>st.
     if Data_isPutResponse api data then bindR (Data_getPutResponse api data) (\<lambda>p. Inr st) else Inr st)"

definition get_handler_wire :: "('m, 'p) capnp_api \<Rightarrow> ('m, 'a connection_scheme \<times> string) wire_handler" where
  "get_handler_wire api remote_index remote_port tx_flow data = (\<lambda>(c, value).
     if Data_isGetResponse api data
     then bindR (Data_getGetResponse api data) (\<lambda>p. Inr (c, c_str (GetResponse_getValue api p)))
     else Inr (c, value))"

definition sync_handler_wire :: "('m, 'p) capnp_api \<Rightarrow> ('m, 'a connection_scheme \<times> (int \<rightharpoonup> bool)) wire_handler" where
  "sync_handler_wire api remote_index remote_port tx_flow data = (\<lambda>(c, request_acks).
     if Data_isClientSyncRequest api data
     then bindR (Data_getClientSyncRequest api data) (\<lambda>p.
       Inr (c, request_acks(int_of_u64 (ClientSyncRequest_getIndex api p) \<mapsto> True)))
     else Inr (c, request_acks))"

definition worker_handler_wire ::
    "('m, 'p) capnp_api \<Rightarrow> ('b, 'e, 'd) worker_params \<Rightarrow> ('m, ('b, 'e, 'd, 'z) worker_scheme \<times> unit) wire_handler" where
  "worker_handler_wire api P remote_index remote_port tx_flow data = (\<lambda>(w, _).
     mapR (\<lambda>w. (w, ()))
      (if Data_isPutRequest api data then
         bindR (Data_getPutRequest api data) (\<lambda>p.
         handle_put P remote_index (PutRequest_getKey api p) (PutRequest_getValue api p) w)
       else if Data_isGetRequest api data then
         bindR (Data_getGetRequest api data) (\<lambda>p. handle_get P remote_index remote_port (GetRequest_getKey api p) w)
       else if Data_isRdmaSetupRequest api data then
         bindR (Data_getRdmaSetupRequest api data) (\<lambda>p.
         handle_rdma_setup remote_index (RdmaSetupRequest_getMachineIndex api p)
           (RdmaSetupRequest_getStartAddress api p) (RdmaSetupRequest_getSize api p) w)
       else if Data_isRdmaSetupResponse api data then
         bindR (Data_getRdmaSetupResponse api data) (\<lambda>p. Inr w)
       else if Data_isSingletonPutRequest api data then
         bindR (Data_getSingletonPutRequest api data) (\<lambda>p.
         Inr (handle_singleton_put P (SingletonPutRequest_getKey api p) (SingletonPutRequest_getValue api p)
           (SingletonPutRequest_getSingleton api p) (SingletonPutRequest_getForwardCount api p) w))
       else if Data_isDeleteRequest api data then
         bindR (Data_getDeleteRequest api data) (\<lambda>p. handle_delete P (DeleteRequest_getKey api p) w)
       else Inr w))"

section \<open>A packet in a struct\<close>

text \<open>What the readers find in the data of a packet.\<close>

definition read_packet :: "('s, 'p) capnp_api \<Rightarrow> 's \<Rightarrow> packet option res" where
  "read_packet api data =
     (if Data_isPutRequest api data then
        bindR (Data_getPutRequest api data) (\<lambda>p. Inr (Some (PutRequest (PutRequest_getKey api p) (PutRequest_getValue api p))))
      else if Data_isPutResponse api data then
        bindR (Data_getPutResponse api data) (\<lambda>p. Inr (map_option PutResponse (PutResponse_getResponse api p)))
      else if Data_isGetRequest api data then
        bindR (Data_getGetRequest api data) (\<lambda>p. Inr (Some (GetRequest (GetRequest_getKey api p))))
      else if Data_isGetResponse api data then
        bindR (Data_getGetResponse api data) (\<lambda>p.
        Inr (map_option (\<lambda>r. GetResponse r (GetResponse_getValue api p)) (GetResponse_getResponse api p)))
      else if Data_isRdmaSetupRequest api data then
        bindR (Data_getRdmaSetupRequest api data) (\<lambda>p. Inr (Some (RdmaSetupRequest (RdmaSetupRequest_getMachineIndex api p)
          (RdmaSetupRequest_getStartAddress api p) (RdmaSetupRequest_getSize api p))))
      else if Data_isRdmaSetupResponse api data then
        bindR (Data_getRdmaSetupResponse api data) (\<lambda>p. Inr (map_option RdmaSetupResponse (RdmaSetupResponse_getResponse api p)))
      else if Data_isClientSyncRequest api data then
        bindR (Data_getClientSyncRequest api data) (\<lambda>p.
        Inr (map_option (\<lambda>r. ClientSyncRequest r (ClientSyncRequest_getIndex api p)) (ClientSyncRequest_getResponse api p)))
      else if Data_isClientSyncResponse api data then
        bindR (Data_getClientSyncResponse api data) (\<lambda>p. Inr (map_option ClientSyncResponse (ClientSyncResponse_getResponse api p)))
      else if Data_isSingletonPutRequest api data then
        bindR (Data_getSingletonPutRequest api data) (\<lambda>p. Inr (Some (SingletonPutRequest
          (SingletonPutRequest_getKey api p) (SingletonPutRequest_getValue api p)
          (SingletonPutRequest_getSingleton api p) (SingletonPutRequest_getForwardCount api p))))
      else if Data_isDeleteRequest api data then
        bindR (Data_getDeleteRequest api data) (\<lambda>p. Inr (Some (DeleteRequest (DeleteRequest_getKey api p))))
      else Inr None)"


text \<open>The data of a packet has the tag and the fields of a packet of \<open>Connection\<close>.\<close>

fun tag :: "packet \<Rightarrow> which" where
  "tag (PutRequest key value) = PUT_REQUEST"
| "tag (PutResponse r) = PUT_RESPONSE"
| "tag (GetRequest key) = GET_REQUEST"
| "tag (GetResponse r value) = GET_RESPONSE"
| "tag (RdmaSetupRequest m a n) = RDMA_SETUP_REQUEST"
| "tag (RdmaSetupResponse r) = RDMA_SETUP_RESPONSE"
| "tag (ClientSyncRequest r i) = CLIENT_SYNC_REQUEST"
| "tag (ClientSyncResponse r) = CLIENT_SYNC_RESPONSE"
| "tag (SingletonPutRequest key value b n) = SINGLETON_PUT_REQUEST"
| "tag (DeleteRequest key) = DELETE_REQUEST"

fun has_fields :: "('s, 'p) capnp_api \<Rightarrow> 's \<Rightarrow> packet \<Rightarrow> bool" where
  "has_fields api q (PutRequest key value) \<longleftrightarrow> PutRequest_getKey api q = key \<and> PutRequest_getValue api q = value"
| "has_fields api q (PutResponse r) \<longleftrightarrow> PutResponse_getResponse api q = Some r"
| "has_fields api q (GetRequest key) \<longleftrightarrow> GetRequest_getKey api q = key"
| "has_fields api q (GetResponse r value) \<longleftrightarrow> GetResponse_getResponse api q = Some r \<and> GetResponse_getValue api q = value"
| "has_fields api q (RdmaSetupRequest m a n) \<longleftrightarrow> RdmaSetupRequest_getMachineIndex api q = m
     \<and> RdmaSetupRequest_getStartAddress api q = a \<and> RdmaSetupRequest_getSize api q = n"
| "has_fields api q (RdmaSetupResponse r) \<longleftrightarrow> RdmaSetupResponse_getResponse api q = Some r"
| "has_fields api q (ClientSyncRequest r i) \<longleftrightarrow> ClientSyncRequest_getResponse api q = Some r \<and> ClientSyncRequest_getIndex api q = i"
| "has_fields api q (ClientSyncResponse r) \<longleftrightarrow> ClientSyncResponse_getResponse api q = Some r"
| "has_fields api q (SingletonPutRequest key value b n) \<longleftrightarrow> SingletonPutRequest_getKey api q = key
     \<and> SingletonPutRequest_getValue api q = value \<and> SingletonPutRequest_getSingleton api q = b
     \<and> SingletonPutRequest_getForwardCount api q = n"
| "has_fields api q (DeleteRequest key) \<longleftrightarrow> DeleteRequest_getKey api q = key"

definition carries :: "('s, 'p) capnp_api \<Rightarrow> 's \<Rightarrow> packet \<Rightarrow> bool" where
  "carries api data p \<longleftrightarrow> Data_which api data = which_code (tag p) \<and> has_fields api (struct_of api (pointer_field api data 0)) p"

lemmas is_defs = Data_isPutRequest_def Data_isPutResponse_def Data_isGetRequest_def Data_isGetResponse_def
  Data_isRdmaSetupRequest_def Data_isRdmaSetupResponse_def Data_isClientSyncRequest_def Data_isClientSyncResponse_def
  Data_isSingletonPutRequest_def Data_isDeleteRequest_def

lemmas get_defs = Data_getPutRequest_def Data_getPutResponse_def Data_getGetRequest_def Data_getGetResponse_def
  Data_getRdmaSetupRequest_def Data_getRdmaSetupResponse_def Data_getClientSyncRequest_def Data_getClientSyncResponse_def
  Data_getSingletonPutRequest_def Data_getDeleteRequest_def must_check_def

lemma read_packet_carries: "carries api data p \<Longrightarrow> read_packet api data = Inr (Some p)"
  by (cases p) (auto simp: carries_def read_packet_def is_defs get_defs)

lemma put_handler_carries: "carries api data p \<Longrightarrow> put_handler_wire api i t f data st = put_handler i t f p st"
  by (cases p) (auto simp: carries_def put_handler_wire_def put_handler_def is_defs get_defs)

lemma get_handler_carries: "carries api data p \<Longrightarrow> get_handler_wire api i t f data st = get_handler i t f p st"
  by (cases p; cases st) (auto simp: carries_def get_handler_wire_def get_handler_def is_defs get_defs)

lemma sync_handler_carries: "carries api data p \<Longrightarrow> sync_handler_wire api i t f data st = sync_handler i t f p st"
  by (cases p; cases st) (auto simp: carries_def sync_handler_wire_def sync_handler_def is_defs get_defs)

lemma worker_handler_carries: "carries api data p \<Longrightarrow> worker_handler_wire api P i t f data st = worker_handler P i t f p st"
  by (cases p; cases st) (auto simp: carries_def worker_handler_wire_def worker_handler_def is_defs get_defs)

section \<open>What is built is what is read\<close>

context capnp_structs
begin

lemma one_packet_read:
  assumes "struct_size api (Packet_initData api f (new_struct api Packet_size)) = Packet_size"
  shows "Packets_getPackets api (one_packet api f) = [Packet_initData api f (new_struct api Packet_size)]"
proof -
  have "structs_of api (structs_pointer api [Packet_initData api f (new_struct api Packet_size)])
      = [Packet_initData api f (new_struct api Packet_size)]"
    using assms by (intro structs_read [where z = Packet_size]) (simp_all add: Packet_size_def)
  then show ?thesis
    by (simp add: one_packet_def Packets_getPackets_def Packets_initPackets_def pointer_same new_size Packets_size_def)
qed

text \<open>A fresh packet whose union was initialised, as all the \<open>init\<close> functions of the union do.\<close>

definition filled :: "which \<Rightarrow> 's \<Rightarrow> 's" where
  "filled w q = put_pointer api 0 (struct_pointer api q) (put_data api 16 0 (which_code w)
     (put_pointer api 0 (null_pointer api) (put_data api 16 0 0 (new_struct api Packet_size))))"

lemma filled_simps:
  "struct_size api (filled w q) = Packet_size"
  "Data_which api (filled w q) = which_code w"
  "struct_of api (pointer_field api (filled w q) 0) = q"
  by (simp_all add: filled_def Data_which_def union_tag sizes Data_size_def Packet_size_def struct_read)

lemma one_packet_filled:
  assumes "Packet_initData api f (new_struct api Packet_size) = filled w q" "has_fields api q p" "tag p = w"
  shows "\<exists>data. Packets_getPackets api (one_packet api f) = [data] \<and> carries api data p"
  using assms one_packet_read [of f] by (auto simp: carries_def filled_simps)

lemma init_filled:
  "Packet_initData api (Data_initPutRequest api g) (new_struct api Packet_size) = filled PUT_REQUEST (g (new_struct api PutRequest_size))"
  "Packet_initData api (Data_initPutResponse api g) (new_struct api Packet_size) = filled PUT_RESPONSE (g (new_struct api PutResponse_size))"
  "Packet_initData api (Data_initGetRequest api g) (new_struct api Packet_size) = filled GET_REQUEST (g (new_struct api GetRequest_size))"
  "Packet_initData api (Data_initGetResponse api g) (new_struct api Packet_size) = filled GET_RESPONSE (g (new_struct api GetResponse_size))"
  "Packet_initData api (Data_initRdmaSetupRequest api g) (new_struct api Packet_size) = filled RDMA_SETUP_REQUEST (g (new_struct api RdmaSetupRequest_size))"
  "Packet_initData api (Data_initRdmaSetupResponse api g) (new_struct api Packet_size) = filled RDMA_SETUP_RESPONSE (g (new_struct api RdmaSetupResponse_size))"
  "Packet_initData api (Data_initClientSyncRequest api g) (new_struct api Packet_size) = filled CLIENT_SYNC_REQUEST (g (new_struct api ClientSyncRequest_size))"
  "Packet_initData api (Data_initClientSyncResponse api g) (new_struct api Packet_size) = filled CLIENT_SYNC_RESPONSE (g (new_struct api ClientSyncResponse_size))"
  "Packet_initData api (Data_initSingletonPutRequest api g) (new_struct api Packet_size) = filled SINGLETON_PUT_REQUEST (g (new_struct api SingletonPutRequest_size))"
  "Packet_initData api (Data_initDeleteRequest api g) (new_struct api Packet_size) = filled DELETE_REQUEST (g (new_struct api DeleteRequest_size))"
  by (simp_all add: Packet_initData_def filled_def Data_initPutRequest_def Data_initPutResponse_def Data_initGetRequest_def
      Data_initGetResponse_def Data_initRdmaSetupRequest_def Data_initRdmaSetupResponse_def Data_initClientSyncRequest_def
      Data_initClientSyncResponse_def Data_initSingletonPutRequest_def Data_initDeleteRequest_def)

lemma response_read:
  "64 \<le> 64 * fst (struct_size api s) \<Longrightarrow> response_of_code (data_field api 16 (put_data api 16 0 (response_code r) s) 0) = Some r"
  using data_same [of 16 0 s "response_code r"] by simp

lemma u64_read:
  fixes v :: u64
  assumes "64 * i + 64 \<le> 64 * fst (struct_size api s)"
  shows "of_nat (data_field api 64 (put_data api 64 i (unat v) s) i) = v"
  using assms data_same [of 64 i s "unat v"] unsigned_less [of v, where 'a = nat] by simp

lemma bool_read:
  "64 \<le> 64 * fst (struct_size api s) \<Longrightarrow> data_field api (Suc 0) (put_data api (Suc 0) 0 (of_bool b) s) 0 = Suc 0 \<longleftrightarrow> b"
  using data_same [of 1 0 s "of_bool b"] by (cases b) auto

lemmas reads = sizes fields text_read response_read u64_read bool_read data_disjoint

lemma built_fields:
  "text_fits k \<Longrightarrow> text_fits v \<Longrightarrow>
     has_fields api (PutRequest_setValue api v (PutRequest_setKey api k (new_struct api PutRequest_size))) (PutRequest k v)"
  "has_fields api (PutResponse_setResponse api r (new_struct api PutResponse_size)) (PutResponse r)"
  "text_fits k \<Longrightarrow> has_fields api (GetRequest_setKey api k (new_struct api GetRequest_size)) (GetRequest k)"
  "text_fits v \<Longrightarrow>
     has_fields api (GetResponse_setValue api v (GetResponse_setResponse api r (new_struct api GetResponse_size))) (GetResponse r v)"
  "has_fields api (RdmaSetupRequest_setSize api n (RdmaSetupRequest_setStartAddress api a
     (RdmaSetupRequest_setMachineIndex api m (new_struct api RdmaSetupRequest_size)))) (RdmaSetupRequest m a n)"
  "has_fields api (RdmaSetupResponse_setResponse api r (new_struct api RdmaSetupResponse_size)) (RdmaSetupResponse r)"
  "has_fields api (ClientSyncRequest_setIndex api i (ClientSyncRequest_setResponse api r (new_struct api ClientSyncRequest_size)))
     (ClientSyncRequest r i)"
  "has_fields api (ClientSyncResponse_setResponse api r (new_struct api ClientSyncResponse_size)) (ClientSyncResponse r)"
  "text_fits k \<Longrightarrow> text_fits v \<Longrightarrow>
     has_fields api (SingletonPutRequest_setForwardCount api n (SingletonPutRequest_setSingleton api b
       (SingletonPutRequest_setValue api v (SingletonPutRequest_setKey api k (new_struct api SingletonPutRequest_size)))))
     (SingletonPutRequest k v b n)"
  "text_fits k \<Longrightarrow> has_fields api (DeleteRequest_setKey api k (new_struct api DeleteRequest_size)) (DeleteRequest k)"
  by (simp_all add: accessor_defs reads)

lemmas one_packet_carries = init_filled [THEN one_packet_filled]

lemma message_carries:
  "packet_fits p \<Longrightarrow> \<exists>data. Packets_getPackets api (message_of api p) = [data] \<and> carries api data p"
proof (induction p)
  case (ClientSyncResponse r)
  show ?case by (simp add: one_packet_carries built_fields del: has_fields.simps)
qed (simp_all add: message_defs one_packet_carries built_fields del: has_fields.simps)

end

section \<open>Refinement\<close>

lemma foldR_Nil: "foldR f [] = Inr"
  by (rule ext) simp

lemma receive_carries:
  assumes "\<And>i t f data p st. carries api data p \<Longrightarrow> hw i t f data st = h i t f p st"
    and "Packets_getPackets api msg = [data]" "carries api data p"
  shows "receive_wire api hw (Wire rx msg) st = receive h (Recv rx [p]) st"
  using assms by (cases st) (simp add: receive_wire_def receive_def Packet_getData_def note_sender_def Let_def foldR_Nil)

text \<open>
  Property C10: whatever the Cap'n Proto runtime is, if it keeps its documented laws, then a packet
  of which the texts fit comes back as it was: the message that the program builds for it holds one
  packet, and the generated readers find in it the tag and every field that the generated builders
  wrote.
\<close>

theorem packet_roundtrip:
  assumes "capnp_structs api" "packet_fits p"
  shows "map (\<lambda>packet. read_packet api (Packet_getData api packet)) (Packets_getPackets api (message_of api p)) = [Inr (Some p)]"
  using capnp_structs.message_carries [OF assms] by (auto simp: Packet_getData_def read_packet_carries)

theorem packet_roundtrip_witness:
  "map (\<lambda>packet. read_packet (tree_api True) (Packet_getData (tree_api True) packet))
     (Packets_getPackets (tree_api True) (message_of (tree_api True) (SingletonPutRequest ''7'' ''v'' True 3)))
   = [Inr (Some (SingletonPutRequest ''7'' ''v'' True 3))]"
  by (rule packet_roundtrip [OF tree_structs]) (simp add: text_fits_def)

text \<open>
  Property C9: receiving on the messages themselves refines receiving on lists of packets: for every
  packet whose texts fit, the four handlers of the program, which test and read the packet with the
  generated accessors, do on its message exactly what their models do on the packet, faults
  included.
\<close>

theorem receive_wire_refines:
  assumes "capnp_structs api" "packet_fits p"
  shows "receive_wire api (put_handler_wire api) (Wire rx (message_of api p)) st = receive put_handler (Recv rx [p]) st
    \<and> receive_wire api (get_handler_wire api) (Wire rx (message_of api p)) st' = receive get_handler (Recv rx [p]) st'
    \<and> receive_wire api (sync_handler_wire api) (Wire rx (message_of api p)) acks = receive sync_handler (Recv rx [p]) acks
    \<and> receive_wire api (worker_handler_wire api P) (Wire rx (message_of api p)) w = receive (worker_handler P) (Recv rx [p]) w"
proof -
  obtain data where data: "Packets_getPackets api (message_of api p) = [data]" "carries api data p"
    using capnp_structs.message_carries [OF assms] by blast
  note receive = receive_carries [OF _ data]
  show ?thesis
    by (intro conjI; rule receive)
       (erule put_handler_carries get_handler_carries sync_handler_carries worker_handler_carries)+
qed

theorem receive_wire_refines_witness:
  "receive_wire (tree_api True) (get_handler_wire (tree_api True))
     (Wire no_flow (message_of (tree_api True) (GetResponse OK ''value''))) (sample_connection, [])
   = Inr (True, snd (note_sender no_flow sample_connection), ''value'')"
proof -
  have "packet_fits (GetResponse OK ''value'')" "c_str ''value'' = ''value''" by (simp_all add: text_fits_def c_str_def)
  then show ?thesis
    using receive_wire_refines [OF tree_structs, of "GetResponse OK ''value''" True no_flow "(sample_connection, ())" "(sample_connection, [])"
        "(sample_connection, Map.empty)" "sample_worker_params True" "(sample_worker sample_snapshot, ())"]
    by (simp add: receive_def note_sender_def Let_def get_handler_def)
qed

section \<open>The receive buffer\<close>

text \<open>A message is received into a local array of this many bytes.\<close>

definition receive_buffer_size :: nat where "receive_buffer_size = 4096"

context capnp_sizes
begin

lemma filled_words: "words (filled w q) = 2 + words q"
  by (simp add: filled_def all_words sizes fields Packet_size_def)

lemma one_packet_words:
  assumes "Packet_initData api f (new_struct api Packet_size) = filled w q"
  shows "words (one_packet api f) = 4 + words q"
  using assms by (simp add: one_packet_def Packets_initPackets_def Packets_size_def all_words sizes fields filled_words)

lemma get_response_words: "words (get_response_message api r value) = 6 + (length value + 8) div 8"
  by (simp add: get_response_message_def one_packet_words [OF init_filled(4)] accessor_defs all_words sizes fields)

lemma put_words: "words (put_message api key value) = 6 + (length key + 8) div 8 + (length value + 8) div 8"
  by (simp add: put_message_def one_packet_words [OF init_filled(1)] accessor_defs all_words sizes fields)

end

text \<open>
  Property C12: the size of messages. With the documented sizes, the answer to a read takes 64 bytes and
  its value with a zero byte rounded up to words, so it fits the buffer it is received into exactly
  if the value has at most 4031 bytes, less than a block of 4096; in a put, key and value together
  have 504 words.
\<close>

theorem answer_fits_buffer_iff:
  assumes "capnp_sizes api words pointer_words"
  shows "message_bytes (words (get_response_message api r value)) = 64 + 8 * ((length value + 8) div 8)
    \<and> (message_bytes (words (get_response_message api r value)) \<le> receive_buffer_size \<longleftrightarrow> length value \<le> 4031)
    \<and> (message_bytes (words (put_message api key value)) \<le> receive_buffer_size
        \<longleftrightarrow> (length key + 8) div 8 + (length value + 8) div 8 \<le> 504)"
  by (auto simp: message_bytes_def receive_buffer_size_def
      capnp_sizes.get_response_words [OF assms] capnp_sizes.put_words [OF assms])

theorem answer_fits_buffer_iff_witness:
  "message_bytes (tree_words (get_response_message (tree_api False) OK (replicate 4031 CHR ''x''))) \<le> receive_buffer_size
   \<and> \<not> message_bytes (tree_words (get_response_message (tree_api False) OK (replicate 4096 CHR ''x''))) \<le> receive_buffer_size"
  using answer_fits_buffer_iff [OF tree.capnp_sizes_axioms, THEN conjunct2, THEN conjunct1] by simp

end
