(* ===== verification/Packet_Schema_Data.thy ===== *)
theory Packet_Schema_Data
  imports Main
begin

text \<open>
  The tables of \<open>src/src/packet.capnp.c++\<close>: for each type of \<open>packet.capnp\<close> its description, an array
  of bytes in the encoding of Cap'n Proto, a row for each word, and the \<open>RawSchema\<close> with the indexes
  through which the runtime finds a member by its name or its tag.
\<close>

text \<open>
  The fields of \<open>RawSchema\<close> that the initialisers set to something else than a null pointer; the
  default branding repeats the schema itself. A dependency is the identifier of the schema it
  points to.
\<close>

record raw_schema =
  rs_id :: int
  rs_words :: "int list list"
  rs_size :: nat
  rs_dependencies :: "int list"
  rs_members :: "nat list"
  rs_by_tag :: "nat list"

definition b_d1a6b028d23ecc19 :: "int list list" where
  "b_d1a6b028d23ecc19 = [[0, 0, 0, 0, 5, 0, 6, 0],
   [25, 204, 62, 210, 40, 176, 166, 209],
   [13, 0, 0, 0, 2, 0, 0, 0],
   [54, 11, 191, 20, 31, 173, 185, 219],
   [0, 0, 0, 0, 0, 0, 0, 0],
   [0, 0, 0, 0, 0, 0, 0, 0],
   [21, 0, 0, 0, 210, 0, 0, 0],
   [33, 0, 0, 0, 7, 0, 0, 0],
   [0, 0, 0, 0, 0, 0, 0, 0],
   [29, 0, 0, 0, 55, 0, 0, 0],
   [0, 0, 0, 0, 0, 0, 0, 0],
   [0, 0, 0, 0, 0, 0, 0, 0],
   [112, 97, 99, 107, 101, 116, 46, 99],
   [97, 112, 110, 112, 58, 82, 101, 115],
   [112, 111, 110, 115, 101, 84, 121, 112],
   [101, 0, 0, 0, 0, 0, 0, 0],
   [0, 0, 0, 0, 1, 0, 1, 0],
   [8, 0, 0, 0, 1, 0, 2, 0],
   [0, 0, 0, 0, 0, 0, 0, 0],
   [17, 0, 0, 0, 26, 0, 0, 0],
   [0, 0, 0, 0, 0, 0, 0, 0],
   [1, 0, 0, 0, 0, 0, 0, 0],
   [9, 0, 0, 0, 66, 0, 0, 0],
   [0, 0, 0, 0, 0, 0, 0, 0],
   [111, 107, 0, 0, 0, 0, 0, 0],
   [105, 110, 118, 97, 108, 105, 100, 0]]"

definition b_eea585a8e0273b7b :: "int list list" where
  "b_eea585a8e0273b7b = [[0, 0, 0, 0, 5, 0, 6, 0],
   [123, 59, 39, 224, 168, 133, 165, 238],
   [13, 0, 0, 0, 1, 0, 0, 0],
   [54, 11, 191, 20, 31, 173, 185, 219],
   [2, 0, 7, 0, 0, 0, 0, 0],
   [0, 0, 0, 0, 0, 0, 0, 0],
   [21, 0, 0, 0, 194, 0, 0, 0],
   [29, 0, 0, 0, 7, 0, 0, 0],
   [0, 0, 0, 0, 0, 0, 0, 0],
   [25, 0, 0, 0, 119, 0, 0, 0],
   [0, 0, 0, 0, 0, 0, 0, 0],
   [0, 0, 0, 0, 0, 0, 0, 0],
   [112, 97, 99, 107, 101, 116, 46, 99],
   [97, 112, 110, 112, 58, 80, 117, 116],
   [82, 101, 113, 117, 101, 115, 116, 0],
   [0, 0, 0, 0, 1, 0, 1, 0],
   [8, 0, 0, 0, 3, 0, 4, 0],
   [0, 0, 0, 0, 0, 0, 0, 0],
   [0, 0, 1, 0, 0, 0, 0, 0],
   [0, 0, 0, 0, 0, 0, 0, 0],
   [41, 0, 0, 0, 34, 0, 0, 0],
   [0, 0, 0, 0, 0, 0, 0, 0],
   [36, 0, 0, 0, 3, 0, 1, 0],
   [48, 0, 0, 0, 2, 0, 1, 0],
   [1, 0, 0, 0, 1, 0, 0, 0],
   [0, 0, 1, 0, 1, 0, 0, 0],
   [0, 0, 0, 0, 0, 0, 0, 0],
   [45, 0, 0, 0, 50, 0, 0, 0],
   [0, 0, 0, 0, 0, 0, 0, 0],
   [40, 0, 0, 0, 3, 0, 1, 0],
   [52, 0, 0, 0, 2, 0, 1, 0],
   [107, 101, 121, 0, 0, 0, 0, 0],
   [12, 0, 0, 0, 0, 0, 0, 0],
   [0, 0, 0, 0, 0, 0, 0, 0],
   [0, 0, 0, 0, 0, 0, 0, 0],
   [0, 0, 0, 0, 0, 0, 0, 0],
   [12, 0, 0, 0, 0, 0, 0, 0],
   [0, 0, 0, 0, 0, 0, 0, 0],
   [0, 0, 0, 0, 0, 0, 0, 0],
   [118, 97, 108, 117, 101, 0, 0, 0],
   [12, 0, 0, 0, 0, 0, 0, 0],
   [0, 0, 0, 0, 0, 0, 0, 0],
   [0, 0, 0, 0, 0, 0, 0, 0],
   [0, 0, 0, 0, 0, 0, 0, 0],
   [12, 0, 0, 0, 0, 0, 0, 0],
   [0, 0, 0, 0, 0, 0, 0, 0],
   [0, 0, 0, 0, 0, 0, 0, 0]]"

definition b_e49824f5cff34d68 :: "int list list" where
  "b_e49824f5cff34d68 = [[0, 0, 0, 0, 5, 0, 6, 0],
   [104, 77, 243, 207, 245, 36, 152, 228],
   [13, 0, 0, 0, 1, 0, 1, 0],
   [54, 11, 191, 20, 31, 173, 185, 219],
   [0, 0, 7, 0, 0, 0, 0, 0],
   [0, 0, 0, 0, 0, 0, 0, 0],
   [21, 0, 0, 0, 202, 0, 0, 0],
   [33, 0, 0, 0, 7, 0, 0, 0],
   [0, 0, 0, 0, 0, 0, 0, 0],
   [29, 0, 0, 0, 63, 0, 0, 0],
   [0, 0, 0, 0, 0, 0, 0, 0],
   [0, 0, 0, 0, 0, 0, 0, 0],
   [112, 97, 99, 107, 101, 116, 46, 99],
   [97, 112, 110, 112, 58, 80, 117, 116],
   [82, 101, 115, 112, 111, 110, 115, 101],
   [0, 0, 0, 0, 0, 0, 0, 0],
   [0, 0, 0, 0, 1, 0, 1, 0],
   [4, 0, 0, 0, 3, 0, 4, 0],
   [0, 0, 0, 0, 0, 0, 0, 0],
   [0, 0, 1, 0, 0, 0, 0, 0],
   [0, 0, 0, 0, 0, 0, 0, 0],
   [13, 0, 0, 0, 74, 0, 0, 0],
   [0, 0, 0, 0, 0, 0, 0, 0],
   [12, 0, 0, 0, 3, 0, 1, 0],
   [24, 0, 0, 0, 2, 0, 1, 0],
   [114, 101, 115, 112, 111, 110, 115, 101],
   [0, 0, 0, 0, 0, 0, 0, 0],
   [15, 0, 0, 0, 0, 0, 0, 0],
   [25, 204, 62, 210, 40, 176, 166, 209],
   [0, 0, 0, 0, 0, 0, 0, 0],
   [0, 0, 0, 0, 0, 0, 0, 0],
   [15, 0, 0, 0, 0, 0, 0, 0],
   [0, 0, 0, 0, 0, 0, 0, 0],
   [0, 0, 0, 0, 0, 0, 0, 0]]"

definition b_a51a80a5d0621603 :: "int list list" where
  "b_a51a80a5d0621603 = [[0, 0, 0, 0, 5, 0, 6, 0],
   [3, 22, 98, 208, 165, 128, 26, 165],
   [13, 0, 0, 0, 1, 0, 0, 0],
   [54, 11, 191, 20, 31, 173, 185, 219],
   [1, 0, 7, 0, 0, 0, 0, 0],
   [0, 0, 0, 0, 0, 0, 0, 0],
   [21, 0, 0, 0, 194, 0, 0, 0],
   [29, 0, 0, 0, 7, 0, 0, 0],
   [0, 0, 0, 0, 0, 0, 0, 0],
   [25, 0, 0, 0, 63, 0, 0, 0],
   [0, 0, 0, 0, 0, 0, 0, 0],
   [0, 0, 0, 0, 0, 0, 0, 0],
   [112, 97, 99, 107, 101, 116, 46, 99],
   [97, 112, 110, 112, 58, 71, 101, 116],
   [82, 101, 113, 117, 101, 115, 116, 0],
   [0, 0, 0, 0, 1, 0, 1, 0],
   [4, 0, 0, 0, 3, 0, 4, 0],
   [0, 0, 0, 0, 0, 0, 0, 0],
   [0, 0, 1, 0, 0, 0, 0, 0],
   [0, 0, 0, 0, 0, 0, 0, 0],
   [13, 0, 0, 0, 34, 0, 0, 0],
   [0, 0, 0, 0, 0, 0, 0, 0],
   [8, 0, 0, 0, 3, 0, 1, 0],
   [20, 0, 0, 0, 2, 0, 1, 0],
   [107, 101, 121, 0, 0, 0, 0, 0],
   [12, 0, 0, 0, 0, 0, 0, 0],
   [0, 0, 0, 0, 0, 0, 0, 0],
   [0, 0, 0, 0, 0, 0, 0, 0],
   [0, 0, 0, 0, 0, 0, 0, 0],
   [12, 0, 0, 0, 0, 0, 0, 0],
   [0, 0, 0, 0, 0, 0, 0, 0],
   [0, 0, 0, 0, 0, 0, 0, 0]]"

definition b_9c293df3f2a02a07 :: "int list list" where
  "b_9c293df3f2a02a07 = [[0, 0, 0, 0, 5, 0, 6, 0],
   [7, 42, 160, 242, 243, 61, 41, 156],
   [13, 0, 0, 0, 1, 0, 1, 0],
   [54, 11, 191, 20, 31, 173, 185, 219],
   [1, 0, 7, 0, 0, 0, 0, 0],
   [0, 0, 0, 0, 0, 0, 0, 0],
   [21, 0, 0, 0, 202, 0, 0, 0],
   [33, 0, 0, 0, 7, 0, 0, 0],
   [0, 0, 0, 0, 0, 0, 0, 0],
   [29, 0, 0, 0, 119, 0, 0, 0],
   [0, 0, 0, 0, 0, 0, 0, 0],
   [0, 0, 0, 0, 0, 0, 0, 0],
   [112, 97, 99, 107, 101, 116, 46, 99],
   [97, 112, 110, 112, 58, 71, 101, 116],
   [82, 101, 115, 112, 111, 110, 115, 101],
   [0, 0, 0, 0, 0, 0, 0, 0],
   [0, 0, 0, 0, 1, 0, 1, 0],
   [8, 0, 0, 0, 3, 0, 4, 0],
   [0, 0, 0, 0, 0, 0, 0, 0],
   [0, 0, 1, 0, 0, 0, 0, 0],
   [0, 0, 0, 0, 0, 0, 0, 0],
   [41, 0, 0, 0, 74, 0, 0, 0],
   [0, 0, 0, 0, 0, 0, 0, 0],
   [40, 0, 0, 0, 3, 0, 1, 0],
   [52, 0, 0, 0, 2, 0, 1, 0],
   [1, 0, 0, 0, 0, 0, 0, 0],
   [0, 0, 1, 0, 1, 0, 0, 0],
   [0, 0, 0, 0, 0, 0, 0, 0],
   [49, 0, 0, 0, 50, 0, 0, 0],
   [0, 0, 0, 0, 0, 0, 0, 0],
   [44, 0, 0, 0, 3, 0, 1, 0],
   [56, 0, 0, 0, 2, 0, 1, 0],
   [114, 101, 115, 112, 111, 110, 115, 101],
   [0, 0, 0, 0, 0, 0, 0, 0],
   [15, 0, 0, 0, 0, 0, 0, 0],
   [25, 204, 62, 210, 40, 176, 166, 209],
   [0, 0, 0, 0, 0, 0, 0, 0],
   [0, 0, 0, 0, 0, 0, 0, 0],
   [15, 0, 0, 0, 0, 0, 0, 0],
   [0, 0, 0, 0, 0, 0, 0, 0],
   [0, 0, 0, 0, 0, 0, 0, 0],
   [118, 97, 108, 117, 101, 0, 0, 0],
   [12, 0, 0, 0, 0, 0, 0, 0],
   [0, 0, 0, 0, 0, 0, 0, 0],
   [0, 0, 0, 0, 0, 0, 0, 0],
   [0, 0, 0, 0, 0, 0, 0, 0],
   [12, 0, 0, 0, 0, 0, 0, 0],
   [0, 0, 0, 0, 0, 0, 0, 0],
   [0, 0, 0, 0, 0, 0, 0, 0]]"

definition b_eb67a0eae928bb61 :: "int list list" where
  "b_eb67a0eae928bb61 = [[0, 0, 0, 0, 5, 0, 6, 0],
   [97, 187, 40, 233, 234, 160, 103, 235],
   [13, 0, 0, 0, 1, 0, 3, 0],
   [54, 11, 191, 20, 31, 173, 185, 219],
   [0, 0, 7, 0, 0, 0, 0, 0],
   [0, 0, 0, 0, 0, 0, 0, 0],
   [21, 0, 0, 0, 242, 0, 0, 0],
   [33, 0, 0, 0, 7, 0, 0, 0],
   [0, 0, 0, 0, 0, 0, 0, 0],
   [29, 0, 0, 0, 175, 0, 0, 0],
   [0, 0, 0, 0, 0, 0, 0, 0],
   [0, 0, 0, 0, 0, 0, 0, 0],
   [112, 97, 99, 107, 101, 116, 46, 99],
   [97, 112, 110, 112, 58, 82, 100, 109],
   [97, 83, 101, 116, 117, 112, 82, 101],
   [113, 117, 101, 115, 116, 0, 0, 0],
   [0, 0, 0, 0, 1, 0, 1, 0],
   [12, 0, 0, 0, 3, 0, 4, 0],
   [0, 0, 0, 0, 0, 0, 0, 0],
   [0, 0, 1, 0, 0, 0, 0, 0],
   [0, 0, 0, 0, 0, 0, 0, 0],
   [69, 0, 0, 0, 106, 0, 0, 0],
   [0, 0, 0, 0, 0, 0, 0, 0],
   [68, 0, 0, 0, 3, 0, 1, 0],
   [80, 0, 0, 0, 2, 0, 1, 0],
   [1, 0, 0, 0, 1, 0, 0, 0],
   [0, 0, 1, 0, 1, 0, 0, 0],
   [0, 0, 0, 0, 0, 0, 0, 0],
   [77, 0, 0, 0, 106, 0, 0, 0],
   [0, 0, 0, 0, 0, 0, 0, 0],
   [76, 0, 0, 0, 3, 0, 1, 0],
   [88, 0, 0, 0, 2, 0, 1, 0],
   [2, 0, 0, 0, 2, 0, 0, 0],
   [0, 0, 1, 0, 2, 0, 0, 0],
   [0, 0, 0, 0, 0, 0, 0, 0],
   [85, 0, 0, 0, 42, 0, 0, 0],
   [0, 0, 0, 0, 0, 0, 0, 0],
   [80, 0, 0, 0, 3, 0, 1, 0],
   [92, 0, 0, 0, 2, 0, 1, 0],
   [109, 97, 99, 104, 105, 110, 101, 73],
   [110, 100, 101, 120, 0, 0, 0, 0],
   [9, 0, 0, 0, 0, 0, 0, 0],
   [0, 0, 0, 0, 0, 0, 0, 0],
   [0, 0, 0, 0, 0, 0, 0, 0],
   [0, 0, 0, 0, 0, 0, 0, 0],
   [9, 0, 0, 0, 0, 0, 0, 0],
   [0, 0, 0, 0, 0, 0, 0, 0],
   [0, 0, 0, 0, 0, 0, 0, 0],
   [115, 116, 97, 114, 116, 65, 100, 100],
   [114, 101, 115, 115, 0, 0, 0, 0],
   [9, 0, 0, 0, 0, 0, 0, 0],
   [0, 0, 0, 0, 0, 0, 0, 0],
   [0, 0, 0, 0, 0, 0, 0, 0],
   [0, 0, 0, 0, 0, 0, 0, 0],
   [9, 0, 0, 0, 0, 0, 0, 0],
   [0, 0, 0, 0, 0, 0, 0, 0],
   [0, 0, 0, 0, 0, 0, 0, 0],
   [115, 105, 122, 101, 0, 0, 0, 0],
   [9, 0, 0, 0, 0, 0, 0, 0],
   [0, 0, 0, 0, 0, 0, 0, 0],
   [0, 0, 0, 0, 0, 0, 0, 0],
   [0, 0, 0, 0, 0, 0, 0, 0],
   [9, 0, 0, 0, 0, 0, 0, 0],
   [0, 0, 0, 0, 0, 0, 0, 0],
   [0, 0, 0, 0, 0, 0, 0, 0]]"

definition b_d8f2d86285d59919 :: "int list list" where
  "b_d8f2d86285d59919 = [[0, 0, 0, 0, 5, 0, 6, 0],
   [25, 153, 213, 133, 98, 216, 242, 216],
   [13, 0, 0, 0, 1, 0, 1, 0],
   [54, 11, 191, 20, 31, 173, 185, 219],
   [0, 0, 7, 0, 0, 0, 0, 0],
   [0, 0, 0, 0, 0, 0, 0, 0],
   [21, 0, 0, 0, 250, 0, 0, 0],
   [33, 0, 0, 0, 7, 0, 0, 0],
   [0, 0, 0, 0, 0, 0, 0, 0],
   [29, 0, 0, 0, 63, 0, 0, 0],
   [0, 0, 0, 0, 0, 0, 0, 0],
   [0, 0, 0, 0, 0, 0, 0, 0],
   [112, 97, 99, 107, 101, 116, 46, 99],
   [97, 112, 110, 112, 58, 82, 100, 109],
   [97, 83, 101, 116, 117, 112, 82, 101],
   [115, 112, 111, 110, 115, 101, 0, 0],
   [0, 0, 0, 0, 1, 0, 1, 0],
   [4, 0, 0, 0, 3, 0, 4, 0],
   [0, 0, 0, 0, 0, 0, 0, 0],
   [0, 0, 1, 0, 0, 0, 0, 0],
   [0, 0, 0, 0, 0, 0, 0, 0],
   [13, 0, 0, 0, 74, 0, 0, 0],
   [0, 0, 0, 0, 0, 0, 0, 0],
   [12, 0, 0, 0, 3, 0, 1, 0],
   [24, 0, 0, 0, 2, 0, 1, 0],
   [114, 101, 115, 112, 111, 110, 115, 101],
   [0, 0, 0, 0, 0, 0, 0, 0],
   [15, 0, 0, 0, 0, 0, 0, 0],
   [25, 204, 62, 210, 40, 176, 166, 209],
   [0, 0, 0, 0, 0, 0, 0, 0],
   [0, 0, 0, 0, 0, 0, 0, 0],
   [15, 0, 0, 0, 0, 0, 0, 0],
   [0, 0, 0, 0, 0, 0, 0, 0],
   [0, 0, 0, 0, 0, 0, 0, 0]]"

definition b_d92927b00c6d5396 :: "int list list" where
  "b_d92927b00c6d5396 = [[0, 0, 0, 0, 5, 0, 6, 0],
   [150, 83, 109, 12, 176, 39, 41, 217],
   [13, 0, 0, 0, 1, 0, 2, 0],
   [54, 11, 191, 20, 31, 173, 185, 219],
   [0, 0, 7, 0, 0, 0, 0, 0],
   [0, 0, 0, 0, 0, 0, 0, 0],
   [21, 0, 0, 0, 250, 0, 0, 0],
   [33, 0, 0, 0, 7, 0, 0, 0],
   [0, 0, 0, 0, 0, 0, 0, 0],
   [29, 0, 0, 0, 119, 0, 0, 0],
   [0, 0, 0, 0, 0, 0, 0, 0],
   [0, 0, 0, 0, 0, 0, 0, 0],
   [112, 97, 99, 107, 101, 116, 46, 99],
   [97, 112, 110, 112, 58, 67, 108, 105],
   [101, 110, 116, 83, 121, 110, 99, 82],
   [101, 113, 117, 101, 115, 116, 0, 0],
   [0, 0, 0, 0, 1, 0, 1, 0],
   [8, 0, 0, 0, 3, 0, 4, 0],
   [0, 0, 0, 0, 0, 0, 0, 0],
   [0, 0, 1, 0, 0, 0, 0, 0],
   [0, 0, 0, 0, 0, 0, 0, 0],
   [41, 0, 0, 0, 74, 0, 0, 0],
   [0, 0, 0, 0, 0, 0, 0, 0],
   [40, 0, 0, 0, 3, 0, 1, 0],
   [52, 0, 0, 0, 2, 0, 1, 0],
   [1, 0, 0, 0, 1, 0, 0, 0],
   [0, 0, 1, 0, 1, 0, 0, 0],
   [0, 0, 0, 0, 0, 0, 0, 0],
   [49, 0, 0, 0, 50, 0, 0, 0],
   [0, 0, 0, 0, 0, 0, 0, 0],
   [44, 0, 0, 0, 3, 0, 1, 0],
   [56, 0, 0, 0, 2, 0, 1, 0],
   [114, 101, 115, 112, 111, 110, 115, 101],
   [0, 0, 0, 0, 0, 0, 0, 0],
   [15, 0, 0, 0, 0, 0, 0, 0],
   [25, 204, 62, 210, 40, 176, 166, 209],
   [0, 0, 0, 0, 0, 0, 0, 0],
   [0, 0, 0, 0, 0, 0, 0, 0],
   [15, 0, 0, 0, 0, 0, 0, 0],
   [0, 0, 0, 0, 0, 0, 0, 0],
   [0, 0, 0, 0, 0, 0, 0, 0],
   [105, 110, 100, 101, 120, 0, 0, 0],
   [9, 0, 0, 0, 0, 0, 0, 0],
   [0, 0, 0, 0, 0, 0, 0, 0],
   [0, 0, 0, 0, 0, 0, 0, 0],
   [0, 0, 0, 0, 0, 0, 0, 0],
   [9, 0, 0, 0, 0, 0, 0, 0],
   [0, 0, 0, 0, 0, 0, 0, 0],
   [0, 0, 0, 0, 0, 0, 0, 0]]"

definition b_9736b56e253cba13 :: "int list list" where
  "b_9736b56e253cba13 = [[0, 0, 0, 0, 5, 0, 6, 0],
   [19, 186, 60, 37, 110, 181, 54, 151],
   [13, 0, 0, 0, 1, 0, 1, 0],
   [54, 11, 191, 20, 31, 173, 185, 219],
   [0, 0, 7, 0, 0, 0, 0, 0],
   [0, 0, 0, 0, 0, 0, 0, 0],
   [21, 0, 0, 0, 2, 1, 0, 0],
   [33, 0, 0, 0, 7, 0, 0, 0],
   [0, 0, 0, 0, 0, 0, 0, 0],
   [29, 0, 0, 0, 63, 0, 0, 0],
   [0, 0, 0, 0, 0, 0, 0, 0],
   [0, 0, 0, 0, 0, 0, 0, 0],
   [112, 97, 99, 107, 101, 116, 46, 99],
   [97, 112, 110, 112, 58, 67, 108, 105],
   [101, 110, 116, 83, 121, 110, 99, 82],
   [101, 115, 112, 111, 110, 115, 101, 0],
   [0, 0, 0, 0, 1, 0, 1, 0],
   [4, 0, 0, 0, 3, 0, 4, 0],
   [0, 0, 0, 0, 0, 0, 0, 0],
   [0, 0, 1, 0, 0, 0, 0, 0],
   [0, 0, 0, 0, 0, 0, 0, 0],
   [13, 0, 0, 0, 74, 0, 0, 0],
   [0, 0, 0, 0, 0, 0, 0, 0],
   [12, 0, 0, 0, 3, 0, 1, 0],
   [24, 0, 0, 0, 2, 0, 1, 0],
   [114, 101, 115, 112, 111, 110, 115, 101],
   [0, 0, 0, 0, 0, 0, 0, 0],
   [15, 0, 0, 0, 0, 0, 0, 0],
   [25, 204, 62, 210, 40, 176, 166, 209],
   [0, 0, 0, 0, 0, 0, 0, 0],
   [0, 0, 0, 0, 0, 0, 0, 0],
   [15, 0, 0, 0, 0, 0, 0, 0],
   [0, 0, 0, 0, 0, 0, 0, 0],
   [0, 0, 0, 0, 0, 0, 0, 0]]"

definition b_d74e917dbcd881cb :: "int list list" where
  "b_d74e917dbcd881cb = [[0, 0, 0, 0, 5, 0, 6, 0],
   [203, 129, 216, 188, 125, 145, 78, 215],
   [13, 0, 0, 0, 1, 0, 2, 0],
   [54, 11, 191, 20, 31, 173, 185, 219],
   [2, 0, 7, 0, 0, 0, 0, 0],
   [0, 0, 0, 0, 0, 0, 0, 0],
   [21, 0, 0, 0, 10, 1, 0, 0],
   [37, 0, 0, 0, 7, 0, 0, 0],
   [0, 0, 0, 0, 0, 0, 0, 0],
   [33, 0, 0, 0, 231, 0, 0, 0],
   [0, 0, 0, 0, 0, 0, 0, 0],
   [0, 0, 0, 0, 0, 0, 0, 0],
   [112, 97, 99, 107, 101, 116, 46, 99],
   [97, 112, 110, 112, 58, 83, 105, 110],
   [103, 108, 101, 116, 111, 110, 80, 117],
   [116, 82, 101, 113, 117, 101, 115, 116],
   [0, 0, 0, 0, 0, 0, 0, 0],
   [0, 0, 0, 0, 1, 0, 1, 0],
   [16, 0, 0, 0, 3, 0, 4, 0],
   [0, 0, 0, 0, 0, 0, 0, 0],
   [0, 0, 1, 0, 0, 0, 0, 0],
   [0, 0, 0, 0, 0, 0, 0, 0],
   [97, 0, 0, 0, 34, 0, 0, 0],
   [0, 0, 0, 0, 0, 0, 0, 0],
   [92, 0, 0, 0, 3, 0, 1, 0],
   [104, 0, 0, 0, 2, 0, 1, 0],
   [1, 0, 0, 0, 1, 0, 0, 0],
   [0, 0, 1, 0, 1, 0, 0, 0],
   [0, 0, 0, 0, 0, 0, 0, 0],
   [101, 0, 0, 0, 50, 0, 0, 0],
   [0, 0, 0, 0, 0, 0, 0, 0],
   [96, 0, 0, 0, 3, 0, 1, 0],
   [108, 0, 0, 0, 2, 0, 1, 0],
   [2, 0, 0, 0, 0, 0, 0, 0],
   [0, 0, 1, 0, 2, 0, 0, 0],
   [0, 0, 0, 0, 0, 0, 0, 0],
   [105, 0, 0, 0, 82, 0, 0, 0],
   [0, 0, 0, 0, 0, 0, 0, 0],
   [104, 0, 0, 0, 3, 0, 1, 0],
   [116, 0, 0, 0, 2, 0, 1, 0],
   [3, 0, 0, 0, 1, 0, 0, 0],
   [0, 0, 1, 0, 3, 0, 0, 0],
   [0, 0, 0, 0, 0, 0, 0, 0],
   [113, 0, 0, 0, 106, 0, 0, 0],
   [0, 0, 0, 0, 0, 0, 0, 0],
   [112, 0, 0, 0, 3, 0, 1, 0],
   [124, 0, 0, 0, 2, 0, 1, 0],
   [107, 101, 121, 0, 0, 0, 0, 0],
   [12, 0, 0, 0, 0, 0, 0, 0],
   [0, 0, 0, 0, 0, 0, 0, 0],
   [0, 0, 0, 0, 0, 0, 0, 0],
   [0, 0, 0, 0, 0, 0, 0, 0],
   [12, 0, 0, 0, 0, 0, 0, 0],
   [0, 0, 0, 0, 0, 0, 0, 0],
   [0, 0, 0, 0, 0, 0, 0, 0],
   [118, 97, 108, 117, 101, 0, 0, 0],
   [12, 0, 0, 0, 0, 0, 0, 0],
   [0, 0, 0, 0, 0, 0, 0, 0],
   [0, 0, 0, 0, 0, 0, 0, 0],
   [0, 0, 0, 0, 0, 0, 0, 0],
   [12, 0, 0, 0, 0, 0, 0, 0],
   [0, 0, 0, 0, 0, 0, 0, 0],
   [0, 0, 0, 0, 0, 0, 0, 0],
   [115, 105, 110, 103, 108, 101, 116, 111],
   [110, 0, 0, 0, 0, 0, 0, 0],
   [1, 0, 0, 0, 0, 0, 0, 0],
   [0, 0, 0, 0, 0, 0, 0, 0],
   [0, 0, 0, 0, 0, 0, 0, 0],
   [0, 0, 0, 0, 0, 0, 0, 0],
   [1, 0, 0, 0, 0, 0, 0, 0],
   [0, 0, 0, 0, 0, 0, 0, 0],
   [0, 0, 0, 0, 0, 0, 0, 0],
   [102, 111, 114, 119, 97, 114, 100, 67],
   [111, 117, 110, 116, 0, 0, 0, 0],
   [9, 0, 0, 0, 0, 0, 0, 0],
   [0, 0, 0, 0, 0, 0, 0, 0],
   [0, 0, 0, 0, 0, 0, 0, 0],
   [0, 0, 0, 0, 0, 0, 0, 0],
   [9, 0, 0, 0, 0, 0, 0, 0],
   [0, 0, 0, 0, 0, 0, 0, 0],
   [0, 0, 0, 0, 0, 0, 0, 0]]"

definition b_f90a05fd026809ad :: "int list list" where
  "b_f90a05fd026809ad = [[0, 0, 0, 0, 5, 0, 6, 0],
   [173, 9, 104, 2, 253, 5, 10, 249],
   [13, 0, 0, 0, 1, 0, 0, 0],
   [54, 11, 191, 20, 31, 173, 185, 219],
   [1, 0, 7, 0, 0, 0, 0, 0],
   [0, 0, 0, 0, 0, 0, 0, 0],
   [21, 0, 0, 0, 218, 0, 0, 0],
   [33, 0, 0, 0, 7, 0, 0, 0],
   [0, 0, 0, 0, 0, 0, 0, 0],
   [29, 0, 0, 0, 63, 0, 0, 0],
   [0, 0, 0, 0, 0, 0, 0, 0],
   [0, 0, 0, 0, 0, 0, 0, 0],
   [112, 97, 99, 107, 101, 116, 46, 99],
   [97, 112, 110, 112, 58, 68, 101, 108],
   [101, 116, 101, 82, 101, 113, 117, 101],
   [115, 116, 0, 0, 0, 0, 0, 0],
   [0, 0, 0, 0, 1, 0, 1, 0],
   [4, 0, 0, 0, 3, 0, 4, 0],
   [0, 0, 0, 0, 0, 0, 0, 0],
   [0, 0, 1, 0, 0, 0, 0, 0],
   [0, 0, 0, 0, 0, 0, 0, 0],
   [13, 0, 0, 0, 34, 0, 0, 0],
   [0, 0, 0, 0, 0, 0, 0, 0],
   [8, 0, 0, 0, 3, 0, 1, 0],
   [20, 0, 0, 0, 2, 0, 1, 0],
   [107, 101, 121, 0, 0, 0, 0, 0],
   [12, 0, 0, 0, 0, 0, 0, 0],
   [0, 0, 0, 0, 0, 0, 0, 0],
   [0, 0, 0, 0, 0, 0, 0, 0],
   [0, 0, 0, 0, 0, 0, 0, 0],
   [12, 0, 0, 0, 0, 0, 0, 0],
   [0, 0, 0, 0, 0, 0, 0, 0],
   [0, 0, 0, 0, 0, 0, 0, 0]]"

definition b_b36ecfe36db7d4ef :: "int list list" where
  "b_b36ecfe36db7d4ef = [[0, 0, 0, 0, 5, 0, 6, 0],
   [239, 212, 183, 109, 227, 207, 110, 179],
   [13, 0, 0, 0, 1, 0, 1, 0],
   [54, 11, 191, 20, 31, 173, 185, 219],
   [1, 0, 7, 0, 0, 0, 0, 0],
   [0, 0, 0, 0, 0, 0, 0, 0],
   [21, 0, 0, 0, 162, 0, 0, 0],
   [29, 0, 0, 0, 7, 0, 0, 0],
   [0, 0, 0, 0, 0, 0, 0, 0],
   [25, 0, 0, 0, 63, 0, 0, 0],
   [0, 0, 0, 0, 0, 0, 0, 0],
   [0, 0, 0, 0, 0, 0, 0, 0],
   [112, 97, 99, 107, 101, 116, 46, 99],
   [97, 112, 110, 112, 58, 80, 97, 99],
   [107, 101, 116, 0, 0, 0, 0, 0],
   [0, 0, 0, 0, 1, 0, 1, 0],
   [4, 0, 0, 0, 3, 0, 4, 0],
   [0, 0, 0, 0, 0, 0, 0, 0],
   [1, 0, 0, 0, 0, 0, 0, 0],
   [123, 122, 240, 37, 91, 99, 161, 169],
   [13, 0, 0, 0, 42, 0, 0, 0],
   [0, 0, 0, 0, 0, 0, 0, 0],
   [0, 0, 0, 0, 0, 0, 0, 0],
   [0, 0, 0, 0, 0, 0, 0, 0],
   [100, 97, 116, 97, 0, 0, 0, 0]]"

definition b_a9a1635b25f07a7b :: "int list list" where
  "b_a9a1635b25f07a7b = [[0, 0, 0, 0, 5, 0, 6, 0],
   [123, 122, 240, 37, 91, 99, 161, 169],
   [20, 0, 0, 0, 1, 0, 1, 0],
   [239, 212, 183, 109, 227, 207, 110, 179],
   [1, 0, 7, 0, 1, 0, 10, 0],
   [0, 0, 0, 0, 0, 0, 0, 0],
   [21, 0, 0, 0, 202, 0, 0, 0],
   [0, 0, 0, 0, 0, 0, 0, 0],
   [0, 0, 0, 0, 0, 0, 0, 0],
   [25, 0, 0, 0, 55, 2, 0, 0],
   [0, 0, 0, 0, 0, 0, 0, 0],
   [0, 0, 0, 0, 0, 0, 0, 0],
   [112, 97, 99, 107, 101, 116, 46, 99],
   [97, 112, 110, 112, 58, 80, 97, 99],
   [107, 101, 116, 46, 100, 97, 116, 97],
   [0, 0, 0, 0, 0, 0, 0, 0],
   [40, 0, 0, 0, 3, 0, 4, 0],
   [0, 0, 255, 255, 0, 0, 0, 0],
   [0, 0, 1, 0, 0, 0, 0, 0],
   [0, 0, 0, 0, 0, 0, 0, 0],
   [9, 1, 0, 0, 90, 0, 0, 0],
   [0, 0, 0, 0, 0, 0, 0, 0],
   [8, 1, 0, 0, 3, 0, 1, 0],
   [20, 1, 0, 0, 2, 0, 1, 0],
   [1, 0, 254, 255, 0, 0, 0, 0],
   [0, 0, 1, 0, 1, 0, 0, 0],
   [0, 0, 0, 0, 0, 0, 0, 0],
   [17, 1, 0, 0, 98, 0, 0, 0],
   [0, 0, 0, 0, 0, 0, 0, 0],
   [16, 1, 0, 0, 3, 0, 1, 0],
   [28, 1, 0, 0, 2, 0, 1, 0],
   [2, 0, 253, 255, 0, 0, 0, 0],
   [0, 0, 1, 0, 2, 0, 0, 0],
   [0, 0, 0, 0, 0, 0, 0, 0],
   [25, 1, 0, 0, 90, 0, 0, 0],
   [0, 0, 0, 0, 0, 0, 0, 0],
   [24, 1, 0, 0, 3, 0, 1, 0],
   [36, 1, 0, 0, 2, 0, 1, 0],
   [3, 0, 252, 255, 0, 0, 0, 0],
   [0, 0, 1, 0, 3, 0, 0, 0],
   [0, 0, 0, 0, 0, 0, 0, 0],
   [33, 1, 0, 0, 98, 0, 0, 0],
   [0, 0, 0, 0, 0, 0, 0, 0],
   [32, 1, 0, 0, 3, 0, 1, 0],
   [44, 1, 0, 0, 2, 0, 1, 0],
   [4, 0, 251, 255, 0, 0, 0, 0],
   [0, 0, 1, 0, 4, 0, 0, 0],
   [0, 0, 0, 0, 0, 0, 0, 0],
   [41, 1, 0, 0, 138, 0, 0, 0],
   [0, 0, 0, 0, 0, 0, 0, 0],
   [44, 1, 0, 0, 3, 0, 1, 0],
   [56, 1, 0, 0, 2, 0, 1, 0],
   [5, 0, 250, 255, 0, 0, 0, 0],
   [0, 0, 1, 0, 5, 0, 0, 0],
   [0, 0, 0, 0, 0, 0, 0, 0],
   [53, 1, 0, 0, 146, 0, 0, 0],
   [0, 0, 0, 0, 0, 0, 0, 0],
   [56, 1, 0, 0, 3, 0, 1, 0],
   [68, 1, 0, 0, 2, 0, 1, 0],
   [6, 0, 249, 255, 0, 0, 0, 0],
   [0, 0, 1, 0, 6, 0, 0, 0],
   [0, 0, 0, 0, 0, 0, 0, 0],
   [65, 1, 0, 0, 146, 0, 0, 0],
   [0, 0, 0, 0, 0, 0, 0, 0],
   [68, 1, 0, 0, 3, 0, 1, 0],
   [80, 1, 0, 0, 2, 0, 1, 0],
   [7, 0, 248, 255, 0, 0, 0, 0],
   [0, 0, 1, 0, 7, 0, 0, 0],
   [0, 0, 0, 0, 0, 0, 0, 0],
   [77, 1, 0, 0, 154, 0, 0, 0],
   [0, 0, 0, 0, 0, 0, 0, 0],
   [80, 1, 0, 0, 3, 0, 1, 0],
   [92, 1, 0, 0, 2, 0, 1, 0],
   [8, 0, 247, 255, 0, 0, 0, 0],
   [0, 0, 1, 0, 8, 0, 0, 0],
   [0, 0, 0, 0, 0, 0, 0, 0],
   [89, 1, 0, 0, 162, 0, 0, 0],
   [0, 0, 0, 0, 0, 0, 0, 0],
   [92, 1, 0, 0, 3, 0, 1, 0],
   [104, 1, 0, 0, 2, 0, 1, 0],
   [9, 0, 246, 255, 0, 0, 0, 0],
   [0, 0, 1, 0, 9, 0, 0, 0],
   [0, 0, 0, 0, 0, 0, 0, 0],
   [101, 1, 0, 0, 114, 0, 0, 0],
   [0, 0, 0, 0, 0, 0, 0, 0],
   [100, 1, 0, 0, 3, 0, 1, 0],
   [112, 1, 0, 0, 2, 0, 1, 0],
   [112, 117, 116, 82, 101, 113, 117, 101],
   [115, 116, 0, 0, 0, 0, 0, 0],
   [16, 0, 0, 0, 0, 0, 0, 0],
   [123, 59, 39, 224, 168, 133, 165, 238],
   [0, 0, 0, 0, 0, 0, 0, 0],
   [0, 0, 0, 0, 0, 0, 0, 0],
   [16, 0, 0, 0, 0, 0, 0, 0],
   [0, 0, 0, 0, 0, 0, 0, 0],
   [0, 0, 0, 0, 0, 0, 0, 0],
   [112, 117, 116, 82, 101, 115, 112, 111],
   [110, 115, 101, 0, 0, 0, 0, 0],
   [16, 0, 0, 0, 0, 0, 0, 0],
   [104, 77, 243, 207, 245, 36, 152, 228],
   [0, 0, 0, 0, 0, 0, 0, 0],
   [0, 0, 0, 0, 0, 0, 0, 0],
   [16, 0, 0, 0, 0, 0, 0, 0],
   [0, 0, 0, 0, 0, 0, 0, 0],
   [0, 0, 0, 0, 0, 0, 0, 0],
   [103, 101, 116, 82, 101, 113, 117, 101],
   [115, 116, 0, 0, 0, 0, 0, 0],
   [16, 0, 0, 0, 0, 0, 0, 0],
   [3, 22, 98, 208, 165, 128, 26, 165],
   [0, 0, 0, 0, 0, 0, 0, 0],
   [0, 0, 0, 0, 0, 0, 0, 0],
   [16, 0, 0, 0, 0, 0, 0, 0],
   [0, 0, 0, 0, 0, 0, 0, 0],
   [0, 0, 0, 0, 0, 0, 0, 0],
   [103, 101, 116, 82, 101, 115, 112, 111],
   [110, 115, 101, 0, 0, 0, 0, 0],
   [16, 0, 0, 0, 0, 0, 0, 0],
   [7, 42, 160, 242, 243, 61, 41, 156],
   [0, 0, 0, 0, 0, 0, 0, 0],
   [0, 0, 0, 0, 0, 0, 0, 0],
   [16, 0, 0, 0, 0, 0, 0, 0],
   [0, 0, 0, 0, 0, 0, 0, 0],
   [0, 0, 0, 0, 0, 0, 0, 0],
   [114, 100, 109, 97, 83, 101, 116, 117],
   [112, 82, 101, 113, 117, 101, 115, 116],
   [0, 0, 0, 0, 0, 0, 0, 0],
   [16, 0, 0, 0, 0, 0, 0, 0],
   [97, 187, 40, 233, 234, 160, 103, 235],
   [0, 0, 0, 0, 0, 0, 0, 0],
   [0, 0, 0, 0, 0, 0, 0, 0],
   [16, 0, 0, 0, 0, 0, 0, 0],
   [0, 0, 0, 0, 0, 0, 0, 0],
   [0, 0, 0, 0, 0, 0, 0, 0],
   [114, 100, 109, 97, 83, 101, 116, 117],
   [112, 82, 101, 115, 112, 111, 110, 115],
   [101, 0, 0, 0, 0, 0, 0, 0],
   [16, 0, 0, 0, 0, 0, 0, 0],
   [25, 153, 213, 133, 98, 216, 242, 216],
   [0, 0, 0, 0, 0, 0, 0, 0],
   [0, 0, 0, 0, 0, 0, 0, 0],
   [16, 0, 0, 0, 0, 0, 0, 0],
   [0, 0, 0, 0, 0, 0, 0, 0],
   [0, 0, 0, 0, 0, 0, 0, 0],
   [99, 108, 105, 101, 110, 116, 83, 121],
   [110, 99, 82, 101, 113, 117, 101, 115],
   [116, 0, 0, 0, 0, 0, 0, 0],
   [16, 0, 0, 0, 0, 0, 0, 0],
   [150, 83, 109, 12, 176, 39, 41, 217],
   [0, 0, 0, 0, 0, 0, 0, 0],
   [0, 0, 0, 0, 0, 0, 0, 0],
   [16, 0, 0, 0, 0, 0, 0, 0],
   [0, 0, 0, 0, 0, 0, 0, 0],
   [0, 0, 0, 0, 0, 0, 0, 0],
   [99, 108, 105, 101, 110, 116, 83, 121],
   [110, 99, 82, 101, 115, 112, 111, 110],
   [115, 101, 0, 0, 0, 0, 0, 0],
   [16, 0, 0, 0, 0, 0, 0, 0],
   [19, 186, 60, 37, 110, 181, 54, 151],
   [0, 0, 0, 0, 0, 0, 0, 0],
   [0, 0, 0, 0, 0, 0, 0, 0],
   [16, 0, 0, 0, 0, 0, 0, 0],
   [0, 0, 0, 0, 0, 0, 0, 0],
   [0, 0, 0, 0, 0, 0, 0, 0],
   [115, 105, 110, 103, 108, 101, 116, 111],
   [110, 80, 117, 116, 82, 101, 113, 117],
   [101, 115, 116, 0, 0, 0, 0, 0],
   [16, 0, 0, 0, 0, 0, 0, 0],
   [203, 129, 216, 188, 125, 145, 78, 215],
   [0, 0, 0, 0, 0, 0, 0, 0],
   [0, 0, 0, 0, 0, 0, 0, 0],
   [16, 0, 0, 0, 0, 0, 0, 0],
   [0, 0, 0, 0, 0, 0, 0, 0],
   [0, 0, 0, 0, 0, 0, 0, 0],
   [100, 101, 108, 101, 116, 101, 82, 101],
   [113, 117, 101, 115, 116, 0, 0, 0],
   [16, 0, 0, 0, 0, 0, 0, 0],
   [173, 9, 104, 2, 253, 5, 10, 249],
   [0, 0, 0, 0, 0, 0, 0, 0],
   [0, 0, 0, 0, 0, 0, 0, 0],
   [16, 0, 0, 0, 0, 0, 0, 0],
   [0, 0, 0, 0, 0, 0, 0, 0],
   [0, 0, 0, 0, 0, 0, 0, 0]]"

definition b_9cc4c008dd1d858e :: "int list list" where
  "b_9cc4c008dd1d858e = [[0, 0, 0, 0, 5, 0, 6, 0],
   [142, 133, 29, 221, 8, 192, 196, 156],
   [13, 0, 0, 0, 1, 0, 0, 0],
   [54, 11, 191, 20, 31, 173, 185, 219],
   [1, 0, 7, 0, 0, 0, 0, 0],
   [0, 0, 0, 0, 0, 0, 0, 0],
   [21, 0, 0, 0, 170, 0, 0, 0],
   [29, 0, 0, 0, 7, 0, 0, 0],
   [0, 0, 0, 0, 0, 0, 0, 0],
   [25, 0, 0, 0, 63, 0, 0, 0],
   [0, 0, 0, 0, 0, 0, 0, 0],
   [0, 0, 0, 0, 0, 0, 0, 0],
   [112, 97, 99, 107, 101, 116, 46, 99],
   [97, 112, 110, 112, 58, 80, 97, 99],
   [107, 101, 116, 115, 0, 0, 0, 0],
   [0, 0, 0, 0, 1, 0, 1, 0],
   [4, 0, 0, 0, 3, 0, 4, 0],
   [0, 0, 0, 0, 0, 0, 0, 0],
   [0, 0, 1, 0, 0, 0, 0, 0],
   [0, 0, 0, 0, 0, 0, 0, 0],
   [13, 0, 0, 0, 66, 0, 0, 0],
   [0, 0, 0, 0, 0, 0, 0, 0],
   [8, 0, 0, 0, 3, 0, 1, 0],
   [36, 0, 0, 0, 2, 0, 1, 0],
   [112, 97, 99, 107, 101, 116, 115, 0],
   [14, 0, 0, 0, 0, 0, 0, 0],
   [0, 0, 0, 0, 0, 0, 0, 0],
   [0, 0, 0, 0, 0, 0, 0, 0],
   [0, 0, 0, 0, 3, 0, 1, 0],
   [16, 0, 0, 0, 0, 0, 0, 0],
   [239, 212, 183, 109, 227, 207, 110, 179],
   [0, 0, 0, 0, 0, 0, 0, 0],
   [0, 0, 0, 0, 0, 0, 0, 0],
   [14, 0, 0, 0, 0, 0, 0, 0],
   [0, 0, 0, 0, 0, 0, 0, 0],
   [0, 0, 0, 0, 0, 0, 0, 0]]"

definition s_d1a6b028d23ecc19 :: raw_schema where
  "s_d1a6b028d23ecc19 = \<lparr>rs_id = 0xd1a6b028d23ecc19, rs_words = b_d1a6b028d23ecc19, rs_size = 26,
     rs_dependencies = [],
     rs_members = [1, 0], rs_by_tag = []\<rparr>"

definition s_eea585a8e0273b7b :: raw_schema where
  "s_eea585a8e0273b7b = \<lparr>rs_id = 0xeea585a8e0273b7b, rs_words = b_eea585a8e0273b7b, rs_size = 47,
     rs_dependencies = [],
     rs_members = [0, 1], rs_by_tag = [0, 1]\<rparr>"

definition s_e49824f5cff34d68 :: raw_schema where
  "s_e49824f5cff34d68 = \<lparr>rs_id = 0xe49824f5cff34d68, rs_words = b_e49824f5cff34d68, rs_size = 34,
     rs_dependencies = [0xd1a6b028d23ecc19],
     rs_members = [0], rs_by_tag = [0]\<rparr>"

definition s_a51a80a5d0621603 :: raw_schema where
  "s_a51a80a5d0621603 = \<lparr>rs_id = 0xa51a80a5d0621603, rs_words = b_a51a80a5d0621603, rs_size = 32,
     rs_dependencies = [],
     rs_members = [0], rs_by_tag = [0]\<rparr>"

definition s_9c293df3f2a02a07 :: raw_schema where
  "s_9c293df3f2a02a07 = \<lparr>rs_id = 0x9c293df3f2a02a07, rs_words = b_9c293df3f2a02a07, rs_size = 49,
     rs_dependencies = [0xd1a6b028d23ecc19],
     rs_members = [0, 1], rs_by_tag = [0, 1]\<rparr>"

definition s_eb67a0eae928bb61 :: raw_schema where
  "s_eb67a0eae928bb61 = \<lparr>rs_id = 0xeb67a0eae928bb61, rs_words = b_eb67a0eae928bb61, rs_size = 65,
     rs_dependencies = [],
     rs_members = [0, 2, 1], rs_by_tag = [0, 1, 2]\<rparr>"

definition s_d8f2d86285d59919 :: raw_schema where
  "s_d8f2d86285d59919 = \<lparr>rs_id = 0xd8f2d86285d59919, rs_words = b_d8f2d86285d59919, rs_size = 34,
     rs_dependencies = [0xd1a6b028d23ecc19],
     rs_members = [0], rs_by_tag = [0]\<rparr>"

definition s_d92927b00c6d5396 :: raw_schema where
  "s_d92927b00c6d5396 = \<lparr>rs_id = 0xd92927b00c6d5396, rs_words = b_d92927b00c6d5396, rs_size = 49,
     rs_dependencies = [0xd1a6b028d23ecc19],
     rs_members = [1, 0], rs_by_tag = [0, 1]\<rparr>"

definition s_9736b56e253cba13 :: raw_schema where
  "s_9736b56e253cba13 = \<lparr>rs_id = 0x9736b56e253cba13, rs_words = b_9736b56e253cba13, rs_size = 34,
     rs_dependencies = [0xd1a6b028d23ecc19],
     rs_members = [0], rs_by_tag = [0]\<rparr>"

definition s_d74e917dbcd881cb :: raw_schema where
  "s_d74e917dbcd881cb = \<lparr>rs_id = 0xd74e917dbcd881cb, rs_words = b_d74e917dbcd881cb, rs_size = 81,
     rs_dependencies = [],
     rs_members = [3, 0, 2, 1], rs_by_tag = [0, 1, 2, 3]\<rparr>"

definition s_f90a05fd026809ad :: raw_schema where
  "s_f90a05fd026809ad = \<lparr>rs_id = 0xf90a05fd026809ad, rs_words = b_f90a05fd026809ad, rs_size = 33,
     rs_dependencies = [],
     rs_members = [0], rs_by_tag = [0]\<rparr>"

definition s_b36ecfe36db7d4ef :: raw_schema where
  "s_b36ecfe36db7d4ef = \<lparr>rs_id = 0xb36ecfe36db7d4ef, rs_words = b_b36ecfe36db7d4ef, rs_size = 25,
     rs_dependencies = [0xa9a1635b25f07a7b],
     rs_members = [0], rs_by_tag = [0]\<rparr>"

definition s_a9a1635b25f07a7b :: raw_schema where
  "s_a9a1635b25f07a7b = \<lparr>rs_id = 0xa9a1635b25f07a7b, rs_words = b_a9a1635b25f07a7b, rs_size = 182,
     rs_dependencies = [0x9736b56e253cba13, 0x9c293df3f2a02a07, 0xa51a80a5d0621603, 0xb36ecfe36db7d4ef, 0xd74e917dbcd881cb, 0xd8f2d86285d59919, 0xd92927b00c6d5396, 0xe49824f5cff34d68, 0xeb67a0eae928bb61, 0xeea585a8e0273b7b, 0xf90a05fd026809ad],
     rs_members = [6, 7, 9, 2, 3, 0, 1, 4, 5, 8], rs_by_tag = [0, 1, 2, 3, 4, 5, 6, 7, 8, 9]\<rparr>"

definition s_9cc4c008dd1d858e :: raw_schema where
  "s_9cc4c008dd1d858e = \<lparr>rs_id = 0x9cc4c008dd1d858e, rs_words = b_9cc4c008dd1d858e, rs_size = 36,
     rs_dependencies = [0xb36ecfe36db7d4ef],
     rs_members = [0], rs_by_tag = [0]\<rparr>"

end
