(* ===== verification/Packet_Schema.thy ===== *)
theory Packet_Schema
  imports Packet_Schema_Data Packet_Accessors
begin

text \<open>
  The descriptions in \<open>packet.capnp.c++\<close>, decoded by the documented layout of \<open>schema.capnp\<close>, and
  their agreement with the accessors of \<open>packet.capnp.h\<close>: both are outputs of the same compiler for
  \<open>packet.capnp\<close>, the program uses the accessors, and its log messages use the descriptions.
\<close>

section \<open>Decoding a description\<close>

text \<open>
  \<open>num b i o n\<close> is the number of \<open>n\<close> bytes from byte \<open>o\<close> of word \<open>i\<close>, lowest byte first. A pointer
  in word \<open>i\<close> counts in its upper 30 bits the words from its end to its target. A list of structs
  begins with a tag word that has the count of the elements in the same place.
\<close>

fun le :: "int list \<Rightarrow> int" where
  "le [] = 0"
| "le (b # bs) = b + 256 * le bs"

definition num :: "int list list \<Rightarrow> nat \<Rightarrow> nat \<Rightarrow> nat \<Rightarrow> int" where
  "num b i off n = le (take n (drop off (b ! i)))"

definition target :: "int list list \<Rightarrow> nat \<Rightarrow> nat" where
  "target b i = Suc (i + nat (num b i 0 4 div 4))"

definition bytes_of :: "int list list \<Rightarrow> nat \<Rightarrow> nat \<Rightarrow> int list" where
  "bytes_of b i n = take (n - 1) (concat (map (\<lambda>j. b ! j) [i..<i + (n + 7) div 8]))"

definition text_at :: "int list list \<Rightarrow> nat \<Rightarrow> int list" where
  "text_at b i = bytes_of b (target b i) (nat (num b i 4 4 div 8))"

definition ascii :: "string \<Rightarrow> int list" where
  "ascii s = map of_char s"

text \<open>The types that occur: a \<open>Type\<close> is three words and a pointer to the type of the elements.\<close>

datatype slot_type =
    Bool_slot | UInt64_slot | Text_slot | Enum_slot int | Struct_slot int | List_slot int | Group_slot int | Other_slot

definition type_at :: "int list list \<Rightarrow> nat \<Rightarrow> slot_type" where
  "type_at b i =
     (if num b i 0 2 = 1 then Bool_slot
      else if num b i 0 2 = 9 then UInt64_slot
      else if num b i 0 2 = 12 then Text_slot
      else if num b i 0 2 = 15 then Enum_slot (num b (i + 1) 0 8)
      else if num b i 0 2 = 16 then Struct_slot (num b (i + 1) 0 8)
      else if num b i 0 2 = 14 then List_slot (num b (target b (i + 3) + 1) 0 8)
      else Other_slot)"

text \<open>
  A field is three words and four pointers: its tag in the union (all bits set for none, and stored
  inverted), its offset, whether it is a slot or a group, the identifier of the group, its name and
  its type.
\<close>

definition no_tag :: int where "no_tag = 65535"

record schema_field =
  sf_name :: "int list"
  sf_tag :: int
  sf_offset :: int
  sf_type :: slot_type

definition field_at :: "int list list \<Rightarrow> nat \<Rightarrow> schema_field" where
  "field_at b i =
     \<lparr>sf_name = text_at b (i + 3), sf_tag = 65535 - num b i 2 2, sf_offset = num b i 4 4,
      sf_type = (if num b (i + 1) 0 2 = 0 then type_at b (target b (i + 5)) else Group_slot (num b (i + 2) 0 8))\<rparr>"

text \<open>A node: word 0 is the pointer to it, its five data words and six pointers follow.\<close>

record schema_node =
  sn_id :: int
  sn_name :: "int list"
  sn_data :: int
  sn_pointers :: int
  sn_tags :: int
  sn_tag_offset :: int
  sn_fields :: "schema_field list"

definition node_of :: "int list list \<Rightarrow> schema_node" where
  "node_of b =
     \<lparr>sn_id = num b 1 0 8, sn_name = text_at b 6, sn_data = num b 2 6 2, sn_pointers = num b 4 0 2,
      sn_tags = num b 4 6 2, sn_tag_offset = num b 5 0 4,
      sn_fields = map (\<lambda>k. field_at b (target b 9 + 1 + 7 * k)) [0..<nat (num b (target b 9) 0 4 div 4)]\<rparr>"

text \<open>An enumeration has its enumerants in the place of the fields, each a word and two pointers.\<close>

definition enumerants_of :: "int list list \<Rightarrow> int list list" where
  "enumerants_of b = map (\<lambda>k. text_at b (target b 9 + 2 + 3 * k)) [0..<nat (num b (target b 9) 0 4 div 4)]"

section \<open>The decoded descriptions\<close>

text \<open>
  Words are looked up in the arrays one at a time, so that the arrays are not traversed by the
  simplifier.
\<close>

lemma nth_weak: "i = j \<Longrightarrow> xs ! i = xs ! j"
  by simp

lemma upt_start:
  "[0..<numeral n] = 0 # [1..<numeral n]"
  "[Suc 0..<numeral n] = (if 1 < (numeral n :: nat) then 1 # [2..<numeral n] else [])"
  by (simp_all add: upt_rec numeral_2_eq_2)

lemmas decode_defs = node_of_def field_at_def type_at_def text_at_def bytes_of_def target_def num_def ascii_def
  no_tag_def upt_start of_char_Char

lemmas array_at =
  arg_cong [OF b_d1a6b028d23ecc19_def, of "\<lambda>b. b ! numeral i" for i] arg_cong [OF b_d1a6b028d23ecc19_def, of "\<lambda>b. b ! Suc 0"]
  arg_cong [OF b_eea585a8e0273b7b_def, of "\<lambda>b. b ! numeral i" for i] arg_cong [OF b_eea585a8e0273b7b_def, of "\<lambda>b. b ! Suc 0"]
  arg_cong [OF b_e49824f5cff34d68_def, of "\<lambda>b. b ! numeral i" for i] arg_cong [OF b_e49824f5cff34d68_def, of "\<lambda>b. b ! Suc 0"]
  arg_cong [OF b_a51a80a5d0621603_def, of "\<lambda>b. b ! numeral i" for i] arg_cong [OF b_a51a80a5d0621603_def, of "\<lambda>b. b ! Suc 0"]
  arg_cong [OF b_9c293df3f2a02a07_def, of "\<lambda>b. b ! numeral i" for i] arg_cong [OF b_9c293df3f2a02a07_def, of "\<lambda>b. b ! Suc 0"]
  arg_cong [OF b_eb67a0eae928bb61_def, of "\<lambda>b. b ! numeral i" for i] arg_cong [OF b_eb67a0eae928bb61_def, of "\<lambda>b. b ! Suc 0"]
  arg_cong [OF b_d8f2d86285d59919_def, of "\<lambda>b. b ! numeral i" for i] arg_cong [OF b_d8f2d86285d59919_def, of "\<lambda>b. b ! Suc 0"]
  arg_cong [OF b_d92927b00c6d5396_def, of "\<lambda>b. b ! numeral i" for i] arg_cong [OF b_d92927b00c6d5396_def, of "\<lambda>b. b ! Suc 0"]
  arg_cong [OF b_9736b56e253cba13_def, of "\<lambda>b. b ! numeral i" for i] arg_cong [OF b_9736b56e253cba13_def, of "\<lambda>b. b ! Suc 0"]
  arg_cong [OF b_d74e917dbcd881cb_def, of "\<lambda>b. b ! numeral i" for i] arg_cong [OF b_d74e917dbcd881cb_def, of "\<lambda>b. b ! Suc 0"]
  arg_cong [OF b_f90a05fd026809ad_def, of "\<lambda>b. b ! numeral i" for i] arg_cong [OF b_f90a05fd026809ad_def, of "\<lambda>b. b ! Suc 0"]
  arg_cong [OF b_b36ecfe36db7d4ef_def, of "\<lambda>b. b ! numeral i" for i] arg_cong [OF b_b36ecfe36db7d4ef_def, of "\<lambda>b. b ! Suc 0"]
  arg_cong [OF b_a9a1635b25f07a7b_def, of "\<lambda>b. b ! numeral i" for i] arg_cong [OF b_a9a1635b25f07a7b_def, of "\<lambda>b. b ! Suc 0"]
  arg_cong [OF b_9cc4c008dd1d858e_def, of "\<lambda>b. b ! numeral i" for i] arg_cong [OF b_9cc4c008dd1d858e_def, of "\<lambda>b. b ! Suc 0"]

lemmas array_sizes =
  arg_cong [OF b_d1a6b028d23ecc19_def, of length]
  arg_cong [OF b_eea585a8e0273b7b_def, of length]
  arg_cong [OF b_e49824f5cff34d68_def, of length]
  arg_cong [OF b_a51a80a5d0621603_def, of length]
  arg_cong [OF b_9c293df3f2a02a07_def, of length]
  arg_cong [OF b_eb67a0eae928bb61_def, of length]
  arg_cong [OF b_d8f2d86285d59919_def, of length]
  arg_cong [OF b_d92927b00c6d5396_def, of length]
  arg_cong [OF b_9736b56e253cba13_def, of length]
  arg_cong [OF b_d74e917dbcd881cb_def, of length]
  arg_cong [OF b_f90a05fd026809ad_def, of length]
  arg_cong [OF b_b36ecfe36db7d4ef_def, of length]
  arg_cong [OF b_a9a1635b25f07a7b_def, of length]
  arg_cong [OF b_9cc4c008dd1d858e_def, of length]

lemma node_PutRequest:
  "node_of b_eea585a8e0273b7b =
   \<lparr>sn_id = 0xeea585a8e0273b7b, sn_name = ascii ''packet.capnp:PutRequest'', sn_data = 0, sn_pointers = 2, sn_tags = 0, sn_tag_offset = 0,
    sn_fields = [\<lparr>sf_name = ascii ''key'', sf_tag = no_tag, sf_offset = 0, sf_type = Text_slot\<rparr>,
     \<lparr>sf_name = ascii ''value'', sf_tag = no_tag, sf_offset = 1, sf_type = Text_slot\<rparr>]\<rparr>"
  by (simp add: decode_defs array_at cong: nth_weak)

lemma node_PutResponse:
  "node_of b_e49824f5cff34d68 =
   \<lparr>sn_id = 0xe49824f5cff34d68, sn_name = ascii ''packet.capnp:PutResponse'', sn_data = 1, sn_pointers = 0, sn_tags = 0, sn_tag_offset = 0,
    sn_fields = [\<lparr>sf_name = ascii ''response'', sf_tag = no_tag, sf_offset = 0, sf_type = Enum_slot 0xd1a6b028d23ecc19\<rparr>]\<rparr>"
  by (simp add: decode_defs array_at cong: nth_weak)

lemma node_GetRequest:
  "node_of b_a51a80a5d0621603 =
   \<lparr>sn_id = 0xa51a80a5d0621603, sn_name = ascii ''packet.capnp:GetRequest'', sn_data = 0, sn_pointers = 1, sn_tags = 0, sn_tag_offset = 0,
    sn_fields = [\<lparr>sf_name = ascii ''key'', sf_tag = no_tag, sf_offset = 0, sf_type = Text_slot\<rparr>]\<rparr>"
  by (simp add: decode_defs array_at cong: nth_weak)

lemma node_GetResponse:
  "node_of b_9c293df3f2a02a07 =
   \<lparr>sn_id = 0x9c293df3f2a02a07, sn_name = ascii ''packet.capnp:GetResponse'', sn_data = 1, sn_pointers = 1, sn_tags = 0, sn_tag_offset = 0,
    sn_fields = [\<lparr>sf_name = ascii ''response'', sf_tag = no_tag, sf_offset = 0, sf_type = Enum_slot 0xd1a6b028d23ecc19\<rparr>,
     \<lparr>sf_name = ascii ''value'', sf_tag = no_tag, sf_offset = 0, sf_type = Text_slot\<rparr>]\<rparr>"
  by (simp add: decode_defs array_at cong: nth_weak)

lemma node_RdmaSetupRequest:
  "node_of b_eb67a0eae928bb61 =
   \<lparr>sn_id = 0xeb67a0eae928bb61, sn_name = ascii ''packet.capnp:RdmaSetupRequest'', sn_data = 3, sn_pointers = 0, sn_tags = 0, sn_tag_offset = 0,
    sn_fields = [\<lparr>sf_name = ascii ''machineIndex'', sf_tag = no_tag, sf_offset = 0, sf_type = UInt64_slot\<rparr>,
     \<lparr>sf_name = ascii ''startAddress'', sf_tag = no_tag, sf_offset = 1, sf_type = UInt64_slot\<rparr>,
     \<lparr>sf_name = ascii ''size'', sf_tag = no_tag, sf_offset = 2, sf_type = UInt64_slot\<rparr>]\<rparr>"
  by (simp add: decode_defs array_at cong: nth_weak)

lemma node_RdmaSetupResponse:
  "node_of b_d8f2d86285d59919 =
   \<lparr>sn_id = 0xd8f2d86285d59919, sn_name = ascii ''packet.capnp:RdmaSetupResponse'', sn_data = 1, sn_pointers = 0, sn_tags = 0, sn_tag_offset = 0,
    sn_fields = [\<lparr>sf_name = ascii ''response'', sf_tag = no_tag, sf_offset = 0, sf_type = Enum_slot 0xd1a6b028d23ecc19\<rparr>]\<rparr>"
  by (simp add: decode_defs array_at cong: nth_weak)

lemma node_ClientSyncRequest:
  "node_of b_d92927b00c6d5396 =
   \<lparr>sn_id = 0xd92927b00c6d5396, sn_name = ascii ''packet.capnp:ClientSyncRequest'', sn_data = 2, sn_pointers = 0, sn_tags = 0, sn_tag_offset = 0,
    sn_fields = [\<lparr>sf_name = ascii ''response'', sf_tag = no_tag, sf_offset = 0, sf_type = Enum_slot 0xd1a6b028d23ecc19\<rparr>,
     \<lparr>sf_name = ascii ''index'', sf_tag = no_tag, sf_offset = 1, sf_type = UInt64_slot\<rparr>]\<rparr>"
  by (simp add: decode_defs array_at cong: nth_weak)

lemma node_ClientSyncResponse:
  "node_of b_9736b56e253cba13 =
   \<lparr>sn_id = 0x9736b56e253cba13, sn_name = ascii ''packet.capnp:ClientSyncResponse'', sn_data = 1, sn_pointers = 0, sn_tags = 0, sn_tag_offset = 0,
    sn_fields = [\<lparr>sf_name = ascii ''response'', sf_tag = no_tag, sf_offset = 0, sf_type = Enum_slot 0xd1a6b028d23ecc19\<rparr>]\<rparr>"
  by (simp add: decode_defs array_at cong: nth_weak)

lemma node_SingletonPutRequest:
  "node_of b_d74e917dbcd881cb =
   \<lparr>sn_id = 0xd74e917dbcd881cb, sn_name = ascii ''packet.capnp:SingletonPutRequest'', sn_data = 2, sn_pointers = 2, sn_tags = 0, sn_tag_offset = 0,
    sn_fields = [\<lparr>sf_name = ascii ''key'', sf_tag = no_tag, sf_offset = 0, sf_type = Text_slot\<rparr>,
     \<lparr>sf_name = ascii ''value'', sf_tag = no_tag, sf_offset = 1, sf_type = Text_slot\<rparr>,
     \<lparr>sf_name = ascii ''singleton'', sf_tag = no_tag, sf_offset = 0, sf_type = Bool_slot\<rparr>,
     \<lparr>sf_name = ascii ''forwardCount'', sf_tag = no_tag, sf_offset = 1, sf_type = UInt64_slot\<rparr>]\<rparr>"
  by (simp add: decode_defs array_at cong: nth_weak)

lemma node_DeleteRequest:
  "node_of b_f90a05fd026809ad =
   \<lparr>sn_id = 0xf90a05fd026809ad, sn_name = ascii ''packet.capnp:DeleteRequest'', sn_data = 0, sn_pointers = 1, sn_tags = 0, sn_tag_offset = 0,
    sn_fields = [\<lparr>sf_name = ascii ''key'', sf_tag = no_tag, sf_offset = 0, sf_type = Text_slot\<rparr>]\<rparr>"
  by (simp add: decode_defs array_at cong: nth_weak)

lemma node_Packet:
  "node_of b_b36ecfe36db7d4ef =
   \<lparr>sn_id = 0xb36ecfe36db7d4ef, sn_name = ascii ''packet.capnp:Packet'', sn_data = 1, sn_pointers = 1, sn_tags = 0, sn_tag_offset = 0,
    sn_fields = [\<lparr>sf_name = ascii ''data'', sf_tag = no_tag, sf_offset = 0, sf_type = Group_slot 0xa9a1635b25f07a7b\<rparr>]\<rparr>"
  by (simp add: decode_defs array_at cong: nth_weak)

lemma node_Data:
  "node_of b_a9a1635b25f07a7b =
   \<lparr>sn_id = 0xa9a1635b25f07a7b, sn_name = ascii ''packet.capnp:Packet.data'', sn_data = 1, sn_pointers = 1, sn_tags = 10, sn_tag_offset = 0,
    sn_fields = [\<lparr>sf_name = ascii ''putRequest'', sf_tag = 0, sf_offset = 0, sf_type = Struct_slot 0xeea585a8e0273b7b\<rparr>,
     \<lparr>sf_name = ascii ''putResponse'', sf_tag = 1, sf_offset = 0, sf_type = Struct_slot 0xe49824f5cff34d68\<rparr>,
     \<lparr>sf_name = ascii ''getRequest'', sf_tag = 2, sf_offset = 0, sf_type = Struct_slot 0xa51a80a5d0621603\<rparr>,
     \<lparr>sf_name = ascii ''getResponse'', sf_tag = 3, sf_offset = 0, sf_type = Struct_slot 0x9c293df3f2a02a07\<rparr>,
     \<lparr>sf_name = ascii ''rdmaSetupRequest'', sf_tag = 4, sf_offset = 0, sf_type = Struct_slot 0xeb67a0eae928bb61\<rparr>,
     \<lparr>sf_name = ascii ''rdmaSetupResponse'', sf_tag = 5, sf_offset = 0, sf_type = Struct_slot 0xd8f2d86285d59919\<rparr>,
     \<lparr>sf_name = ascii ''clientSyncRequest'', sf_tag = 6, sf_offset = 0, sf_type = Struct_slot 0xd92927b00c6d5396\<rparr>,
     \<lparr>sf_name = ascii ''clientSyncResponse'', sf_tag = 7, sf_offset = 0, sf_type = Struct_slot 0x9736b56e253cba13\<rparr>,
     \<lparr>sf_name = ascii ''singletonPutRequest'', sf_tag = 8, sf_offset = 0, sf_type = Struct_slot 0xd74e917dbcd881cb\<rparr>,
     \<lparr>sf_name = ascii ''deleteRequest'', sf_tag = 9, sf_offset = 0, sf_type = Struct_slot 0xf90a05fd026809ad\<rparr>]\<rparr>"
  by (simp add: decode_defs array_at cong: nth_weak)

lemma node_Packets:
  "node_of b_9cc4c008dd1d858e =
   \<lparr>sn_id = 0x9cc4c008dd1d858e, sn_name = ascii ''packet.capnp:Packets'', sn_data = 0, sn_pointers = 1, sn_tags = 0, sn_tag_offset = 0,
    sn_fields = [\<lparr>sf_name = ascii ''packets'', sf_tag = no_tag, sf_offset = 0, sf_type = List_slot 0xb36ecfe36db7d4ef\<rparr>]\<rparr>"
  by (simp add: decode_defs array_at cong: nth_weak)

lemma node_ResponseType: "num b_d1a6b028d23ecc19 1 0 8 = 0xd1a6b028d23ecc19"
    "enumerants_of b_d1a6b028d23ecc19 = map ascii [''ok'', ''invalid'']"
  by (simp_all add: enumerants_of_def decode_defs array_at cong: nth_weak)

lemmas nodes = node_PutRequest node_PutResponse
  node_GetRequest node_GetResponse
  node_RdmaSetupRequest node_RdmaSetupResponse node_ClientSyncRequest node_ClientSyncResponse
  node_SingletonPutRequest node_DeleteRequest node_Packet node_Data node_Packets

section \<open>Accessors by description\<close>

text \<open>
  Reading a field as the description of its struct says: by its type from the data or the pointers,
  at its offset, and a member of a union only if its tag is set.
\<close>

datatype 's slot_value = Text_value string | Number nat | Struct_value 's | Structs_value "'s list"

definition read_slot :: "('s, 'p) capnp_api \<Rightarrow> schema_field \<Rightarrow> 's \<Rightarrow> 's slot_value option" where
  "read_slot api f s =
     (let i = nat (sf_offset f) in
      case sf_type f of
        Bool_slot \<Rightarrow> Some (Number (data_field api 1 s i))
      | UInt64_slot \<Rightarrow> Some (Number (data_field api 64 s i))
      | Enum_slot _ \<Rightarrow> Some (Number (data_field api 16 s i))
      | Text_slot \<Rightarrow> Some (Text_value (text_of api (pointer_field api s i)))
      | Struct_slot _ \<Rightarrow> Some (Struct_value (struct_of api (pointer_field api s i)))
      | List_slot _ \<Rightarrow> Some (Structs_value (structs_of api (pointer_field api s i)))
      | _ \<Rightarrow> None)"

definition read_field :: "('s, 'p) capnp_api \<Rightarrow> schema_node \<Rightarrow> string \<Rightarrow> 's \<Rightarrow> 's slot_value option" where
  "read_field api n name s =
     (case find (\<lambda>f. sf_name f = ascii name) (sn_fields n) of
        None \<Rightarrow> None
      | Some f \<Rightarrow>
          if sf_tag f = no_tag \<or> int (data_field api 16 s (nat (sn_tag_offset n))) = sf_tag f
          then read_slot api f s else None)"

definition schema_read :: "('s, 'p) capnp_api \<Rightarrow> int list list \<Rightarrow> string \<Rightarrow> 's \<Rightarrow> 's slot_value option" where
  "schema_read api b = read_field api (node_of b)"

definition node_size :: "int list list \<Rightarrow> nat \<times> nat" where
  "node_size b = (nat (sn_data (node_of b)), nat (sn_pointers (node_of b)))"

fun number :: "'s slot_value \<Rightarrow> nat" where
  "number (Number n) = n"
| "number _ = 0"

definition enum_value :: "'s slot_value \<Rightarrow> response_type option" where "enum_value v = response_of_code (number v)"
definition u64_value :: "'s slot_value \<Rightarrow> u64" where "u64_value v = of_nat (number v)"
definition bool_value :: "'s slot_value \<Rightarrow> bool" where "bool_value v \<longleftrightarrow> number v = 1"

definition member :: "'s res \<Rightarrow> 's slot_value option" where
  "member r = (case r of Inl _ \<Rightarrow> None | Inr s \<Rightarrow> Some (Struct_value s))"

lemmas schema_read_defs = schema_read_def read_field_def read_slot_def enum_value_def u64_value_def bool_value_def member_def
  no_tag_def

lemma ascii_eq_iff: "ascii s = ascii t \<longleftrightarrow> s = t"
  unfolding ascii_def by (rule inj_map_eq_map) (auto simp: inj_def)

text \<open>
  Property C11: the accessors follow the descriptions. For every struct, the sizes that its builder
  allocates are those of its decoded description; for every field, the generated reader reads the
  slot, of the type and at the offset, that the description gives the field of that name; for every
  member of the union, it is present exactly if the description's tag is set, and its reader then
  returns what the description says.
\<close>

theorem accessors_follow_schema:
  shows "node_size b_eea585a8e0273b7b = PutRequest_size
    \<and> node_size b_e49824f5cff34d68 = PutResponse_size
    \<and> node_size b_a51a80a5d0621603 = GetRequest_size
    \<and> node_size b_9c293df3f2a02a07 = GetResponse_size
    \<and> node_size b_eb67a0eae928bb61 = RdmaSetupRequest_size
    \<and> node_size b_d8f2d86285d59919 = RdmaSetupResponse_size
    \<and> node_size b_d92927b00c6d5396 = ClientSyncRequest_size
    \<and> node_size b_9736b56e253cba13 = ClientSyncResponse_size
    \<and> node_size b_d74e917dbcd881cb = SingletonPutRequest_size
    \<and> node_size b_f90a05fd026809ad = DeleteRequest_size
    \<and> node_size b_b36ecfe36db7d4ef = Packet_size
    \<and> node_size b_a9a1635b25f07a7b = Data_size
    \<and> node_size b_9cc4c008dd1d858e = Packets_size
    \<and> schema_read api b_eea585a8e0273b7b ''key'' s = Some (Text_value (PutRequest_getKey api s))
    \<and> schema_read api b_eea585a8e0273b7b ''value'' s = Some (Text_value (PutRequest_getValue api s))
    \<and> map_option enum_value (schema_read api b_e49824f5cff34d68 ''response'' s) = Some (PutResponse_getResponse api s)
    \<and> schema_read api b_a51a80a5d0621603 ''key'' s = Some (Text_value (GetRequest_getKey api s))
    \<and> map_option enum_value (schema_read api b_9c293df3f2a02a07 ''response'' s) = Some (GetResponse_getResponse api s)
    \<and> schema_read api b_9c293df3f2a02a07 ''value'' s = Some (Text_value (GetResponse_getValue api s))
    \<and> map_option u64_value (schema_read api b_eb67a0eae928bb61 ''machineIndex'' s) = Some (RdmaSetupRequest_getMachineIndex api s)
    \<and> map_option u64_value (schema_read api b_eb67a0eae928bb61 ''startAddress'' s) = Some (RdmaSetupRequest_getStartAddress api s)
    \<and> map_option u64_value (schema_read api b_eb67a0eae928bb61 ''size'' s) = Some (RdmaSetupRequest_getSize api s)
    \<and> map_option enum_value (schema_read api b_d8f2d86285d59919 ''response'' s) = Some (RdmaSetupResponse_getResponse api s)
    \<and> map_option enum_value (schema_read api b_d92927b00c6d5396 ''response'' s) = Some (ClientSyncRequest_getResponse api s)
    \<and> map_option u64_value (schema_read api b_d92927b00c6d5396 ''index'' s) = Some (ClientSyncRequest_getIndex api s)
    \<and> map_option enum_value (schema_read api b_9736b56e253cba13 ''response'' s) = Some (ClientSyncResponse_getResponse api s)
    \<and> schema_read api b_d74e917dbcd881cb ''key'' s = Some (Text_value (SingletonPutRequest_getKey api s))
    \<and> schema_read api b_d74e917dbcd881cb ''value'' s = Some (Text_value (SingletonPutRequest_getValue api s))
    \<and> map_option bool_value (schema_read api b_d74e917dbcd881cb ''singleton'' s) = Some (SingletonPutRequest_getSingleton api s)
    \<and> map_option u64_value (schema_read api b_d74e917dbcd881cb ''forwardCount'' s) = Some (SingletonPutRequest_getForwardCount api s)
    \<and> schema_read api b_f90a05fd026809ad ''key'' s = Some (Text_value (DeleteRequest_getKey api s))
    \<and> schema_read api b_9cc4c008dd1d858e ''packets'' s = Some (Structs_value (Packets_getPackets api s))
    \<and> (schema_read api b_a9a1635b25f07a7b ''putRequest'' s = (if Data_isPutRequest api s then member (Data_getPutRequest api s) else None))
    \<and> (schema_read api b_a9a1635b25f07a7b ''putResponse'' s = (if Data_isPutResponse api s then member (Data_getPutResponse api s) else None))
    \<and> (schema_read api b_a9a1635b25f07a7b ''getRequest'' s = (if Data_isGetRequest api s then member (Data_getGetRequest api s) else None))
    \<and> (schema_read api b_a9a1635b25f07a7b ''getResponse'' s = (if Data_isGetResponse api s then member (Data_getGetResponse api s) else None))
    \<and> (schema_read api b_a9a1635b25f07a7b ''rdmaSetupRequest'' s = (if Data_isRdmaSetupRequest api s then member (Data_getRdmaSetupRequest api s) else None))
    \<and> (schema_read api b_a9a1635b25f07a7b ''rdmaSetupResponse'' s = (if Data_isRdmaSetupResponse api s then member (Data_getRdmaSetupResponse api s) else None))
    \<and> (schema_read api b_a9a1635b25f07a7b ''clientSyncRequest'' s = (if Data_isClientSyncRequest api s then member (Data_getClientSyncRequest api s) else None))
    \<and> (schema_read api b_a9a1635b25f07a7b ''clientSyncResponse'' s = (if Data_isClientSyncResponse api s then member (Data_getClientSyncResponse api s) else None))
    \<and> (schema_read api b_a9a1635b25f07a7b ''singletonPutRequest'' s = (if Data_isSingletonPutRequest api s then member (Data_getSingletonPutRequest api s) else None))
    \<and> (schema_read api b_a9a1635b25f07a7b ''deleteRequest'' s = (if Data_isDeleteRequest api s then member (Data_getDeleteRequest api s) else None))"
  by (intro conjI) (simp_all add: node_size_def schema_read_defs nodes ascii_eq_iff accessor_defs must_check_def)

section \<open>The indexes\<close>

text \<open>The identifiers that the fields of a node refer to.\<close>

fun type_ids :: "slot_type \<Rightarrow> int list" where
  "type_ids (Enum_slot i) = [i]"
| "type_ids (Struct_slot i) = [i]"
| "type_ids (List_slot i) = [i]"
| "type_ids (Group_slot i) = [i]"
| "type_ids _ = []"

text \<open>
  A schema is consistent with its description if its size is the size of the array, its members are
  sorted by name, so that they can be found by bisection, the table of tags has the members in the
  order of their tags, and its dependencies are sorted and contain every type of a field.
\<close>

fun bytes_less :: "int list \<Rightarrow> int list \<Rightarrow> bool" where
  "bytes_less [] bs = (bs \<noteq> [])"
| "bytes_less (a # as) [] = False"
| "bytes_less (a # as) (b # bs) = (a < b \<or> a = b \<and> bytes_less as bs)"

definition schema_ok :: "raw_schema \<Rightarrow> bool" where
  "schema_ok r =
     (let n = node_of (rs_words r); fs = sn_fields n in
      rs_id r = sn_id n \<and> rs_size r = length (rs_words r)
      \<and> length (rs_members r) = length fs \<and> list_all (\<lambda>i. i < length fs) (rs_members r)
      \<and> sorted_wrt bytes_less (map (\<lambda>i. sf_name (fs ! i)) (rs_members r))
      \<and> length (rs_by_tag r) = length fs \<and> list_all (\<lambda>i. i < length fs) (rs_by_tag r)
      \<and> sorted_wrt (<) (rs_by_tag r)
      \<and> list_all (\<lambda>i. sf_tag (fs ! i) = no_tag \<or> sf_tag (fs ! i) = int i) (rs_by_tag r)
      \<and> sorted_wrt (<) (rs_dependencies r)
      \<and> list_all (\<lambda>f. list_all (\<lambda>i. i \<in> set (rs_dependencies r)) (type_ids (sf_type f))) fs)"

lemmas raw_defs = s_d1a6b028d23ecc19_def s_eea585a8e0273b7b_def s_e49824f5cff34d68_def s_a51a80a5d0621603_def s_9c293df3f2a02a07_def s_eb67a0eae928bb61_def s_d8f2d86285d59919_def s_d92927b00c6d5396_def s_9736b56e253cba13_def s_d74e917dbcd881cb_def s_f90a05fd026809ad_def s_b36ecfe36db7d4ef_def s_a9a1635b25f07a7b_def s_9cc4c008dd1d858e_def

lemma schema_ok_PutRequest: "schema_ok s_eea585a8e0273b7b"
  by (simp add: schema_ok_def raw_defs nodes array_sizes ascii_def of_char_Char no_tag_def)

lemma schema_ok_PutResponse: "schema_ok s_e49824f5cff34d68"
  by (simp add: schema_ok_def raw_defs nodes array_sizes ascii_def of_char_Char no_tag_def)

lemma schema_ok_GetRequest: "schema_ok s_a51a80a5d0621603"
  by (simp add: schema_ok_def raw_defs nodes array_sizes ascii_def of_char_Char no_tag_def)

lemma schema_ok_GetResponse: "schema_ok s_9c293df3f2a02a07"
  by (simp add: schema_ok_def raw_defs nodes array_sizes ascii_def of_char_Char no_tag_def)

lemma schema_ok_RdmaSetupRequest: "schema_ok s_eb67a0eae928bb61"
  by (simp add: schema_ok_def raw_defs nodes array_sizes ascii_def of_char_Char no_tag_def)

lemma schema_ok_RdmaSetupResponse: "schema_ok s_d8f2d86285d59919"
  by (simp add: schema_ok_def raw_defs nodes array_sizes ascii_def of_char_Char no_tag_def)

lemma schema_ok_ClientSyncRequest: "schema_ok s_d92927b00c6d5396"
  by (simp add: schema_ok_def raw_defs nodes array_sizes ascii_def of_char_Char no_tag_def)

lemma schema_ok_ClientSyncResponse: "schema_ok s_9736b56e253cba13"
  by (simp add: schema_ok_def raw_defs nodes array_sizes ascii_def of_char_Char no_tag_def)

lemma schema_ok_SingletonPutRequest: "schema_ok s_d74e917dbcd881cb"
  by (simp add: schema_ok_def raw_defs nodes array_sizes ascii_def of_char_Char no_tag_def)

lemma schema_ok_DeleteRequest: "schema_ok s_f90a05fd026809ad"
  by (simp add: schema_ok_def raw_defs nodes array_sizes ascii_def of_char_Char no_tag_def)

lemma schema_ok_Packet: "schema_ok s_b36ecfe36db7d4ef"
  by (simp add: schema_ok_def raw_defs nodes array_sizes ascii_def of_char_Char no_tag_def)

lemma schema_ok_Data: "schema_ok s_a9a1635b25f07a7b"
  by (simp add: schema_ok_def raw_defs nodes array_sizes ascii_def of_char_Char no_tag_def)

lemma schema_ok_Packets: "schema_ok s_9cc4c008dd1d858e"
  by (simp add: schema_ok_def raw_defs nodes array_sizes ascii_def of_char_Char no_tag_def)

lemmas schemas_ok = schema_ok_PutRequest schema_ok_PutResponse schema_ok_GetRequest schema_ok_GetResponse schema_ok_RdmaSetupRequest schema_ok_RdmaSetupResponse schema_ok_ClientSyncRequest schema_ok_ClientSyncResponse schema_ok_SingletonPutRequest schema_ok_DeleteRequest schema_ok_Packet schema_ok_Data schema_ok_Packets

text \<open>
  The tables are consistent. The schema of every struct has the identifier and the size of
  its description, its table of names is sorted, its table of tags lists the members in the order of
  their tags, and every type that a field refers to is among its dependencies; the enumerants of
  \<open>ResponseType\<close> have the numbers that the accessors use, and their table of names is sorted.
\<close>

theorem schemas_consistent:
  shows "list_all schema_ok [s_eea585a8e0273b7b, s_e49824f5cff34d68, s_a51a80a5d0621603, s_9c293df3f2a02a07, s_eb67a0eae928bb61,
    s_d8f2d86285d59919, s_d92927b00c6d5396, s_9736b56e253cba13, s_d74e917dbcd881cb, s_f90a05fd026809ad,
    s_b36ecfe36db7d4ef, s_a9a1635b25f07a7b, s_9cc4c008dd1d858e]"
    "map response_of_code [0..<length (enumerants_of b_d1a6b028d23ecc19)] = [Some OK, Some INVALID]"
    "enumerants_of b_d1a6b028d23ecc19 = [ascii ''ok'', ascii ''invalid'']"
    "sorted_wrt bytes_less (map (\<lambda>i. enumerants_of b_d1a6b028d23ecc19 ! i) (rs_members s_d1a6b028d23ecc19))"
  by (simp_all add: schemas_ok node_ResponseType response_of_code_def s_d1a6b028d23ecc19_def ascii_def of_char_Char)

end
