(* ===== verification/Reporting.thy ===== *)
theory Reporting
  imports Program
begin

text \<open>
  What the program reports and what its reports use: the printed configurations (\<open>ldc.h\<close>,
  \<open>dataset.cpp\<close>), the counters as JSON, the choice of a network device and the timers (\<open>ldc.h\<close>), and
  the availability of the slots of the asynchronous reads (\<open>async_rdma.h\<close>).

  A printing function is the text it writes. The settings of the block cache belong to its
  library: the records below have the fields that are printed, a number of an unknown type as
  the text that the stream makes of it.
\<close>

section \<open>The configuration\<close>

definition shown_bool :: "bool \<Rightarrow> string" where
  "shown_bool b = (if b then ''true'' else ''false'')"

definition endl :: string where "endl = [newline]"

text \<open>An unscoped enumeration is printed as its number.\<close>

fun distribution_number :: "distribution_type \<Rightarrow> nat" where
  "distribution_number RANDOM_DISTRIBUTION = 0"
| "distribution_number PARTITIONED_DISTRIBUTION = 1"
| "distribution_number ZIPFIAN_DISTRIBUTION = 2"
| "distribution_number ZIPFIAN_PARTITIONED_DISTRIBUTION = 3"
| "distribution_number SINGLE_NODE_HOT_KEYS = 4"
| "distribution_number SINGLE_NODE_HOT_KEYS_TO_SECOND_NODE_ONLY = 5"
| "distribution_number SINGLE_NODE_HOT_KEYS_TO_SECOND_NODE_RDMA_ONLY = 6"
| "distribution_number SINGLE_NODE_HOT_KEYS_TO_SECOND_NODE_SPLIT = 7"
| "distribution_number YCSB = 8"

text \<open>The decimal text of a floating-point number is a parameter.\<close>

definition print_configuration :: "(rat \<Rightarrow> string) \<Rightarrow> configuration \<Rightarrow> string" where
  "print_configuration show_double config =
     ''NUM_KEY_VALUE_PAIRS: '' @ to_string_int (NUM_KEY_VALUE_PAIRS config) @ endl
     @ ''NUM_NODES: '' @ to_string_int (NUM_NODES config) @ endl
     @ ''KEY_SIZE: '' @ to_string_int (KEY_SIZE config) @ endl
     @ ''VALUE_SIZE: '' @ to_string_int (VALUE_SIZE config) @ endl
     @ ''TOTAL_OPERATIONS: '' @ to_string_int (TOTAL_OPERATIONS config) @ endl
     @ ''OP_FILE: '' @ OP_FILE config @ endl
     @ ''DATASET_FILE: '' @ DATASET_FILE config @ endl
     @ ''DISTRIBUTION_TYPE: '' @ to_string_nat (distribution_number (DISTRIBUTION_TYPE config)) @ endl
     @ ''HOT_KEY_PERCENTAGE: '' @ show_double (HOT_KEY_PERCENTAGE config) @ endl
     @ ''HOT_KEY_ACCESS_PERCENTAGE: '' @ show_double (HOT_KEY_ACCESS_PERCENTAGE config) @ endl"

record printed_db =
  pd_filename :: string
  pd_num_entries :: string
  pd_block_size :: string

record printed_split =
  ps_cache_size :: string
  ps_owning_ratio :: string
  ps_nonowning_ratio :: string
  ps_owning_cache_type :: string
  ps_nonowning_cache_type :: string

record printed_cache =
  pc_lru_size :: string
  pc_random_size :: string
  pc_split :: printed_split
  pc_thread_safe_lru_size :: string
  pc_paged :: bool
  pc_context_index :: string

record printed_config =
  pr_ingest_block_index :: bool
  pr_policy_type :: string
  pr_rdma_port :: string
  pr_db_type :: string
  pr_db :: printed_db
  pr_cache :: printed_cache
  pr_selected :: string
  pr_one_sided_rdma_enabled :: bool
  pr_machines :: "remote_machine list"
  pr_access_rate :: string
  pr_access_per_itr :: string

definition printBlockDBConfig :: "printed_db \<Rightarrow> string" where
  "printBlockDBConfig c = ''BlockDBConfig: { filename: '' @ pd_filename c @ '', num_entries: '' @ pd_num_entries c
     @ '', block_size: '' @ pd_block_size c @ '' }'' @ endl"

definition printDBConfig :: "printed_db \<Rightarrow> string" where
  "printDBConfig c = ''DBConfig: { block_db: '' @ endl @ printBlockDBConfig c @ ''}'' @ endl"

definition printLRUConfig :: "string \<Rightarrow> string" where
  "printLRUConfig n = ''LRUConfig: { cache_size: '' @ n @ '' }'' @ endl"

definition printRandomCacheConfig :: "string \<Rightarrow> string" where
  "printRandomCacheConfig n = ''RandomCacheConfig: { cache_size: '' @ n @ '' }'' @ endl"

definition printSplitCacheConfig :: "printed_split \<Rightarrow> string" where
  "printSplitCacheConfig c = ''SplitCacheConfig: { cache_size: '' @ ps_cache_size c
     @ '', owning_ratio: '' @ ps_owning_ratio c @ '', nonowning_ratio: '' @ ps_nonowning_ratio c
     @ '', owning_cache_type: '' @ ps_owning_cache_type c
     @ '', nonowning_cache_type: '' @ ps_nonowning_cache_type c @ '' }'' @ endl"

definition printThreadSafeLRUConfig :: "string \<Rightarrow> string" where
  "printThreadSafeLRUConfig n = ''ThreadSafeLRUConfig: { cache_size: '' @ n @ '' }'' @ endl"

definition printRdmaConfig :: "string \<Rightarrow> string" where
  "printRdmaConfig n = ''RdmaConfig: { context_index: '' @ n @ '' }'' @ endl"

definition printCacheConfig :: "printed_cache \<Rightarrow> string" where
  "printCacheConfig c = ''CacheConfig: {'' @ endl
     @ ''  LRU: '' @ endl @ printLRUConfig (pc_lru_size c)
     @ ''  Random: '' @ endl @ printRandomCacheConfig (pc_random_size c)
     @ ''  Split: '' @ endl @ printSplitCacheConfig (pc_split c)
     @ ''  ThreadSafeLRU: '' @ endl @ printThreadSafeLRUConfig (pc_thread_safe_lru_size c)
     @ ''  paged: '' @ shown_bool (pc_paged c) @ endl
     @ ''  RDMA: '' @ endl @ printRdmaConfig (pc_context_index c)
     @ ''}'' @ endl"

definition printRemoteMachineConfig :: "remote_machine \<Rightarrow> string" where
  "printRemoteMachineConfig c = ''RemoteMachineConfig: { index: '' @ to_string_nat (rm_index c)
     @ '', ip: '' @ rm_ip c @ '', port: '' @ to_string_int (rm_port c)
     @ '', server: '' @ shown_bool (rm_server c) @ '' }'' @ endl"

definition printBaseline :: "string \<Rightarrow> bool \<Rightarrow> string" where
  "printBaseline selected one_sided = ''Baseline: { selected: '' @ selected
     @ '', one_sided_rdma_enabled: '' @ shown_bool one_sided @ '' }'' @ endl"

definition printBlockCacheConfig :: "printed_config \<Rightarrow> string" where
  "printBlockCacheConfig c = ''BlockCacheConfig: {'' @ endl
     @ ''  ingest_block_index: '' @ shown_bool (pr_ingest_block_index c) @ endl
     @ ''  policy_type: '' @ pr_policy_type c @ endl
     @ ''  rdma_port: '' @ pr_rdma_port c @ endl
     @ ''  db_type: '' @ pr_db_type c @ endl
     @ ''  DBConfig: '' @ endl @ printDBConfig (pr_db c)
     @ ''  CacheConfig: '' @ endl @ printCacheConfig (pr_cache c)
     @ ''  Baseline: '' @ endl @ printBaseline (pr_selected c) (pr_one_sided_rdma_enabled c)
     @ ''  RemoteMachineConfigs: '' @ endl @ concat (map printRemoteMachineConfig (pr_machines c))
     @ ''}'' @ endl
     @ ''access_rate: '' @ pr_access_rate c @ endl
     @ ''access_per_itr: '' @ pr_access_per_itr c @ endl"

section \<open>Counters\<close>

definition snapshot_entry_json :: "SnapshotEntry \<Rightarrow> (string \<times> u64) list" where
  "snapshot_entry_json e =
     [(''key_index'', key_index e), (''total_accesses'', total_accesses e), (''cache_hits'', cache_hits e),
      (''cache_miss'', cache_miss e), (''evicted'', evicted e), (''disk_access'', disk_access e),
      (''local_disk_access'', local_disk_access e), (''remote_disk_access'', remote_disk_access e),
      (''access_rate'', SnapshotEntry.access_rate e)]"

text \<open>Every field has a member of its own, so no counter is lost.\<close>

lemma snapshot_entry_json_inj: "snapshot_entry_json e = snapshot_entry_json e' \<Longrightarrow> e = e'"
  by (simp add: snapshot_entry_json_def)

section \<open>The network device\<close>

fun find_nic_containing :: "string list \<Rightarrow> string \<Rightarrow> string option" where
  "find_nic_containing [] s = None"
| "find_nic_containing (name # devices) s = (if find_text s name then Some name else find_nic_containing devices s)"

lemma find_nic_containing_eq: "find_nic_containing devices s = find (find_text s) devices"
  by (induction devices) simp_all

text \<open>The first device whose name contains the text, and none only if no name does.\<close>

lemma find_nic_containing_first:
  "find_nic_containing devices s = Some name \<longleftrightarrow>
   (\<exists>i < length devices. devices ! i = name \<and> find_text s name \<and> (\<forall>j < i. \<not> find_text s (devices ! j)))"
  "find_nic_containing devices s = None \<longleftrightarrow> (\<forall>name \<in> set devices. \<not> find_text s name)"
  by (auto simp: find_nic_containing_eq find_Some_iff find_None_iff)

section \<open>Timers\<close>

text \<open>A point in time is a number of nanoseconds; a negative duration wraps around.\<close>

record LDCTimer =
  start_time :: int
  end_time :: int

definition timer_start :: "int \<Rightarrow> LDCTimer \<Rightarrow> LDCTimer" where "timer_start now t = t\<lparr>start_time := now\<rparr>"
definition timer_stop :: "int \<Rightarrow> LDCTimer \<Rightarrow> LDCTimer" where "timer_stop now t = t\<lparr>end_time := now\<rparr>"
definition time_elapsed :: "int \<Rightarrow> LDCTimer \<Rightarrow> u64" where "time_elapsed now t = of_int (now - start_time t)"
definition elapsed :: "LDCTimer \<Rightarrow> u64" where "elapsed t = of_int (end_time t - start_time t)"

lemma uint_duration: "uint (of_int d :: u64) = d mod 2 ^ 64"
  by (simp add: unsigned_of_int take_bit_eq_mod)

lemma elapsed_exact:
  assumes "a \<le> b" "b - a < 2 ^ 64"
  shows "uint (elapsed (timer_stop b (timer_start a t))) = b - a"
    "uint (time_elapsed b (timer_start a t)) = b - a"
  using assms
  by (simp_all add: elapsed_def time_elapsed_def timer_start_def timer_stop_def uint_duration del: of_int_diff)

text \<open>A timer that is read without being stopped measures from the default end, time 0.\<close>

lemma elapsed_unstopped:
  assumes "0 < now" "now < 2 ^ 64"
  shows "uint (elapsed (timer_start now \<lparr>start_time = s, end_time = 0\<rparr>)) = 2 ^ 64 - now"
  using assms zmod_zminus1_eq_if [of now "2 ^ 64"] uint_duration [of "0 - now"]
  by (simp add: elapsed_def timer_start_def)

section \<open>Slots\<close>

definition printAvailability :: "string \<Rightarrow> bool list \<Rightarrow> string" where
  "printAvailability prefix available =
     (let availability = map (\<lambda>a. if a then CHR ''1'' else CHR ''0'') available in
      if CHR ''0'' \<in> set availability then prefix @ ''|'' @ availability @ ''|'' @ endl else [])"

lemma printAvailability_silent_iff: "printAvailability prefix available = [] \<longleftrightarrow> list_all id available"
  by (auto simp: printAvailability_def Let_def list_all_iff endl_def split: if_splits)

end
