(* ===== verification/Spec2Isabelle.thy ===== *)
theory Spec2Isabelle
  imports Dataset Division Snapshots Coherence Cache_Logs Kv_Cache Placement Access_Rate Client_Worker Async_Rdma Server_Worker Access_Climb Max_Heap Kv_Types Startup Exchange
    Trace_Split Cdf_Experiment Bench_Workload Original_Async Program Packet_Wire Packet_Schema Reporting
begin

text \<open>
  A verification library of TWIG-KV, a distributed key-value cache: servers hold blocks of a
  dataset in a local cache, in the memory of the other servers (reached by one-sided RDMA) and on
  disk; clients replay generated sets of operations against them.

  \<^bold>\<open>The program and the theories\<close>

  \<^item> \<open>Config\<close>: the run configuration of \<open>operations.h\<close> and its reader \<open>parseConfigFile\<close>
    (\<open>dataset.cpp\<close>). The JSON document is a record of typed lookups, each of which may raise.
  \<^item> \<open>Workload\<close>: the generators of \<open>operations.cpp\<close> (random, partitioned, Zipfian and the
    single-node variants) with the file format of an operation set; \<open>Division\<close>: \<open>get_chunk\<close> of
    \<open>ldc.cpp\<close> and \<open>divideOperationSetPerThread\<close> of \<open>operations.cpp\<close>; \<open>Dataset\<close>: the dataset file
    and the two drivers of \<open>dataset.cpp\<close>. \<open>rand\<close>, \<open>random_shuffle\<close> and the file system are the
    record \<open>env\<close> and a map from paths to contents.
  \<^item> \<open>Snapshots\<close>: the per-key counters (\<open>struct Snapshot\<close>, \<open>ldc.h\<close>).
  \<^item> \<open>Queues\<close>: the concurrent queue \<open>MPMCQueue\<close> as a locale and its model; \<open>Rdma_Data\<close>: request
    tokens, posted requests and the read queue (\<open>RDMAData\<close>, \<open>RDMADataWithQueue\<close>, \<open>ldc.h\<close>).
  \<^item> \<open>Cache_Indexes\<close> (\<open>CacheIndexes\<close>), \<open>Cache_Logs\<close> (\<open>CacheIndexLogs\<close>) and \<open>Kv_Cache\<close>
    (\<open>KeyValueStorage\<close>, \<open>RDMAKeyValueCache\<close>), all of \<open>ldc.h\<close>: the index that says where each key
    lies in the memory of each server, its replication by single writes or by shipped logs, and
    the reads that follow it. \<open>Coherence\<close> puts the indexes of all servers and the writes under way
    into one step relation. \<open>Kv_Types\<close> holds the constructor of the key-value cache and sessions of its
    public operations.
  \<^item> \<open>Placement\<close>: where a key lies without the index (\<open>rdma_reads.cpp\<close>); \<open>Async_Rdma\<close>: the
    asynchronous reads of \<open>async_rdma.h\<close>, a step relation of the server thread and the thread
    that polls for completions. \<open>Original_Async\<close>: the first variant of these reads, which the
    preprocessor leaves out, and the contract that both variants keep.
  \<^item> \<open>Connection\<close>: packets, connections, clients and servers of \<open>connection.h\<close>,
    \<open>connection.cpp\<close> and \<open>packet.capnp\<close>; \<open>Client_Worker\<close> and \<open>Server_Worker\<close>: the thread bodies
    \<open>client_worker\<close> and \<open>server_worker\<close> of \<open>ldc.cpp\<close> with all their handlers and callbacks.
    \<open>Exchange\<close> lets a client and a server exchange requests over the flows both record.
  \<^item> \<open>Capnp\<close>: the structs and pointers of Cap'n Proto as an interface with its documented laws;
    \<open>Packet_Accessors\<close>: the generated accessors (\<open>packet.capnp.h\<close>), one definition each;
    \<open>Packet_Wire\<close>: the messages built and taken apart with them, below the packets of \<open>Connection\<close>;
    \<open>Packet_Schema_Data\<close> and \<open>Packet_Schema\<close>: the generated descriptions (\<open>packet.capnp.c++\<close>) as they
    stand, their decoding and their agreement with the accessors.
  \<^item> \<open>Access_Rate\<close> and \<open>Access_Climb\<close>: the two searches for the split of the cache
    (\<open>access_rate_calculations.cpp\<close>); \<open>Max_Heap\<close>: the heap of \<open>heap.h\<close>.
  \<^item> \<open>Startup\<close>: key ranges, connections, loading of cache and memory, creation of the threads and
    the monitors (\<open>main\<close> of \<open>ldc.cpp\<close>, \<open>rdma_server.cpp\<close>). \<open>Program\<close>: \<open>main\<close> as a whole, from the
    command line to the metrics, with the wait for machnet.
  \<^item> \<open>Trace_Split\<close> and \<open>Cdf_Experiment\<close>: the experiments \<open>testing_optimization.cpp\<close> and
    \<open>test_cdf.cpp\<close> with the split of the cache. \<open>Bench_Workload\<close>: the stand-alone tools in
    \<open>workload/\<close> and \<open>setup/create_second_node_only_workload.cpp\<close>.
  \<^item> \<open>Reporting\<close>: printed configurations, counters as JSON, the choice of a network device, timers.
  \<^item> \<open>Prelude\<close>, \<open>Cxx_Text\<close> and \<open>Cxx_Float\<close>: results and faults, checked vector access, C++
    integers, text and floating-point arithmetic, shared by all.

  The components interact as in the code: \<open>Startup\<close> loads what \<open>Dataset\<close> wrote by the functions of
  \<open>Placement\<close> and makes the clients and servers of \<open>Connection\<close>; a \<open>Client_Worker\<close> replays a chunk
  of \<open>Division\<close> over its connection; a \<open>Server_Worker\<close> receives the packets, asks the cache, reads
  through \<open>Kv_Cache\<close> or \<open>Async_Rdma\<close> or from disk, and answers through the queues of
  \<open>Connection\<close>; the cache's callbacks drive \<open>Cache_Indexes\<close> or \<open>Cache_Logs\<close>; \<open>Access_Rate\<close> sets
  the water marks of the cache. \<open>Program\<close> puts the parts of \<open>Startup\<close> and the constructor of
  \<open>Kv_Types\<close> in order. The experiments and tools stand alone; what they copy from the program is
  modelled once and shared.

  \<^bold>\<open>Conventions\<close>

  \<^item> Definitions keep the names of the code; loop bodies and lambdas that have none in the code get
    a name of their own. State is passed explicitly; a record stands for the fields of a class.
  \<^item> \<open>'a res = fault + 'a\<close>: \<open>Panic\<close>, \<open>Throw\<close>, \<open>Exit\<close>, \<open>Undefined\<close> (what C++ leaves undefined:
    indices out of range, division by zero, signed overflow, uninitialised reads) and \<open>Blocked\<close> (a
    wait that only another thread ends) are values, so every early end is a branch of the model.
  \<^item> \<open>uint64_t\<close> is \<open>64 word\<close>; \<open>int\<close> is \<open>int\<close> with explicit range checks; \<open>float\<close> and \<open>double\<close> are
    rationals rounded after each operation to 24 or 53 bits.
  \<^item> Third-party code is a parameter: the network \<open>machnet\<close>, the RDMA verbs (posted requests are
    values, arriving data a function), the block cache and its database (\<open>block_cache_api\<close>,
    \<open>index_api\<close>, \<open>access_rate_api\<close>), the runtime of Cap'n Proto (\<open>capnp_api\<close>), the clock, the
    minimiser of dlib, the output of machnet. A concurrent queue hands out its elements in an
    order that a parameter \<open>pick\<close> chooses, so that theorems hold for every order.
  \<^item> Loops over lists are \<open>foldR\<close>. The loops of the hill climber may not end: they are partial
    functions into \<open>option\<close>, \<open>None\<close> being a loop that does not end. \<open>connect_loop\<close> has the retry
    bound of the code; \<open>execute_passes\<close> and \<open>server_worker\<close> take the receptions or the clock as a
    list or a function, and end where the code ends. No other fuel is used.

  \<^bold>\<open>What the lemmas show\<close>

  \<^item> Replication: mirrors are exact whenever no write is under way, in every interleaving, and the
    network alone can always get there; a remote read then aims at a holder of the key; the logs
    lose no change between shipments, but apply the newest change first and do not look at the
    receivers; the repair after a wrong read keeps the stale pointer. From its constructor on,
    every session of operations of the key-value cache keeps the state well-formed and never does
    anything undefined.
  \<^item> Requests: a server answers each read exactly once, now or later, in every interleaving of
    packets and completions (with cache indexing and asynchronous reads; with synchronous ones it
    answers twice); the server thread refines the step relation; asynchronous reads lose and
    duplicate nothing up to their capacity, and the first variant never; a client judges each answer by position only. Reads
    through the network return what was put, if the cache keeps the entry.
  \<^item> Messages: what the program builds with the generated accessors is what it reads with them; receiving
    a message refines receiving its packet, for all handlers; every accessor reads the slot that the
    compiled description gives its field; an answer of more than 4031 bytes exceeds the buffer.
  \<^item> Memory: the placement is injective, but blocks of neighbouring keys overlap; loading in
    ascending order is right all the same, and loading by two servers out of order is not.
  \<^item> Workloads: each generator's operations are valid, hot and cold parts come from the parts of
    the key set that the code intends, files read back what was written, chunks partition.
  \<^item> Optimiser: the distribution lists every key once, the exhaustive search finds the first best
    candidate, the hill climber ends and never gets worse with more than 10000 keys, and does not
    end with fewer.
  \<^item> Start: a server whose start returns has its threads, workers and a well-formed key-value
    cache, and none starts without one-sided access; a client has one thread per connection; the
    wait for machnet ends exactly with the status line.
  \<^item> Experiments and tools: traces are read back, prefix sums agree with the loop they replace, the
    second experiment is undefined from its first step; the old generators agree with the program's
    on everything but the operation code, pairs are dealt in runs and the remainder is lost.
  \<^item> Bounds: counters wrap, one key lies past the last counter, the last key has no server.

  The interfaces are locales: \<open>bag_queue\<close> and \<open>fifo_queue\<close> (\<open>Queues\<close>), interpreted on the model of
  the concurrent queue; \<open>priority_queue\<close> (\<open>Max_Heap\<close>); \<open>frequency_sort\<close> (\<open>Trace_Split\<close>), the
  contract of \<open>std::sort\<close> on frequencies; \<open>capnp_structs\<close> and its extension \<open>capnp_sizes\<close> (\<open>Capnp\<close>),
  interpreted on trees of bits and pointers; and \<open>async_service\<close> (\<open>Original_Async\<close>), interpreted on both
  variants of the asynchronous reads.

  \<^bold>\<open>Not modelled\<close>

  \<^item> Of the generated code: pipelines, conversions to text, builder variants of \<open>get\<close> for structs and lists,
    which the program does not use, and what surrounds the tables (brandings, redundant declarations). The flat
    form of a message is made and read by the library.
  \<^item> What only prints: buffers, addresses and slots in detail, log messages everywhere.
    \<open>async_disk.h\<close> is empty.
  \<^item> Of \<open>main\<close>: the signal handler. Of \<open>rdma_reads.cpp\<close>: the timed reader under \<open>PRINT_RDMA_LATENCY\<close>, which
    no build defines and whose text names variables that do not exist. Of \<open>connection.cpp\<close>: the search
    for a free port (\<open>use_next_port\<close>), which is socket calls only.
\<close>

end
